(* ===== verification/Prelude.thy ===== *)
theory Prelude
  imports Main "HOL-Library.Word" "HOL-Library.Monad_Syntax" "HOL-Library.Tree"
begin

text \<open>
  Shared vocabulary of the LBZ development: the machine types of the driver, the error codes
  it returns, and generic lemmas on words, options and finite sums that the component
  theories use.

  Conventions. A C function that can stop the kernel (\<open>BUG\<close>, \<open>BUG_ON\<close>, \<open>panic\<close>, an
  access through an invalid pointer or outside an array) returns an \<open>option\<close>, and \<open>None\<close> is
  that stop. A C function that returns a negative error code or a result returns
  \<open>errno + 'a\<close>, with \<open>Inl e\<close> for \<open>-e\<close>. Pointers to zones, tasks, bios and contexts are the
  addresses (natural numbers) under which they are stored.
\<close>

unbundle bit_operations_syntax

type_synonym u32 = "32 word"
type_synonym u64 = "64 word"

type_synonym zptr = nat
type_synonym tptr = nat
type_synonym bptr = nat

datatype errno = EPERM | ENOENT | EIO | ENXIO | EAGAIN | ENOMEM | EEXIST | EINVAL | EOTHER nat

text \<open>
  What \<open>create_singlethread_workqueue\<close> returns. The code tests it with \<open>IS_ERR\<close>, which the null
  pointer passes; using or destroying a queue that is not there stops the kernel.
\<close>

datatype wq_ptr = WqNull | WqErr errno | WqOk

fun wq_error :: "wq_ptr \<Rightarrow> errno option" where
  "wq_error (WqErr e) = Some e"
| "wq_error _ = None"

named_theorems bit_flags \<open>facts about the flag words of zones, devices and the collector\<close>
named_theorems zone_simps \<open>how the zone operations change the fields of a zone\<close>

section \<open>Options\<close>

lemma bind_eq_Some [simp]: "(Option.bind x f = Some y) = (\<exists>a. x = Some a \<and> f a = Some y)"
  by (cases x) auto

lemma Some_eq_bind [simp]: "(Some y = Option.bind x f) = (\<exists>a. x = Some a \<and> f a = Some y)"
  by (cases x) auto

lemma bind_eq_None: "(Option.bind x f = None) = (\<forall>a. x = Some a \<longrightarrow> f a = None)"
  by (cases x) auto

section \<open>Words\<close>

lemma set_bit_bit_iff: "bit (Bit_Operations.set_bit n (w :: 'a::len word)) m \<longleftrightarrow>
    (n = m \<and> n < LENGTH('a)) \<or> bit w m"
  by (auto simp: bit_set_bit_iff)

lemma unset_bit_bit_iff: "bit (Bit_Operations.unset_bit n (w :: 'a::len word)) m \<longleftrightarrow>
    n \<noteq> m \<and> bit w m"
  by (auto simp: bit_unset_bit_iff)

lemma unat_inc: "w \<noteq> - 1 \<Longrightarrow> unat (w + 1 :: 'a::len word) = unat w + 1"
  by (metis Suc_eq_plus1 unatSuc add.commute add_eq_0_iff)

lemma unat_dec: "w \<noteq> 0 \<Longrightarrow> unat (w - 1 :: 'a::len word) = unat w - 1"
  by (rule unat_minus_one)

lemma unat_inc_less: "w < (v :: 'a::len word) \<Longrightarrow> unat (w + 1) = unat w + 1"
  by (metis unat_inc word_order.extremum_strict)

lemma word_inc_le: "w < (v :: 'a::len word) \<Longrightarrow> w + 1 \<le> v"
  by (simp add: word_le_nat_alt unat_inc_less) (simp add: word_less_nat_alt)

lemma unat_u32_less: "unat (w :: u32) < 4294967296"
  using unsigned_less [of w] by simp

lemma unat_u32_ucast64 [simp]: "unat (ucast (w :: u32) :: u64) = unat w"
proof -
  have "unat w < 18446744073709551616" by (rule less_trans [OF unat_u32_less]) simp
  then show ?thesis by (simp add: unsigned_ucast_eq take_bit_eq_mod)
qed

lemma sint_small:
  assumes "unat (w :: u32) < 2 ^ 31"
  shows "sint w = int (unat w)"
proof -
  have "int (unat w) < int (2 ^ 31)" using assms by (simp only: of_nat_less_iff)
  then have lt: "uint w < 2 ^ 31" unfolding uint_nat by simp
  have "- (2 ^ 31) \<le> (0 :: int)" by simp
  then have "- (2 ^ 31) \<le> uint w" by (rule order.trans) simp
  with lt have "signed_take_bit 31 (uint w) = uint w" by (intro signed_take_bit_int_eq_self)
  then show ?thesis by (simp add: sint_uint)
qed

lemma sint_small_less:
  assumes "unat (w :: u32) < n" and "n \<le> 2 ^ 31"
  shows "sint w < int n"
proof -
  have "unat w < 2 ^ 31" using assms by (rule less_le_trans)
  then have "sint w = int (unat w)" by (rule sint_small)
  also have "\<dots> < int n" using assms(1) by (simp only: of_nat_less_iff)
  finally show ?thesis .
qed

section \<open>Sums over a map of objects\<close>

text \<open>\<open>msum n m f\<close> adds \<open>f\<close> over the objects stored in \<open>m\<close> under the addresses below \<open>n\<close>.\<close>

definition msum :: "nat \<Rightarrow> (nat \<rightharpoonup> 'a) \<Rightarrow> ('a \<Rightarrow> 'b) \<Rightarrow> 'b::ab_group_add" where
  "msum n m f = (\<Sum>i<n. case m i of None \<Rightarrow> 0 | Some x \<Rightarrow> f x)"

lemma msum_upd:
  assumes "m i = Some x" and "i < n"
  shows "msum n (m(i \<mapsto> y)) f = msum n m f - f x + f y"
proof -
  let ?g = "\<lambda>m i. case m i of None \<Rightarrow> 0 | Some x \<Rightarrow> f x"
  have "(\<Sum>j\<in>{..<n} - {i}. ?g (m(i \<mapsto> y)) j) = (\<Sum>j\<in>{..<n} - {i}. ?g m j)"
    by (rule sum.cong) auto
  then show ?thesis
    using assms by (simp add: msum_def sum.remove [of "{..<n}" i])
qed

lemma msum_new:
  assumes "m n = None"
  shows "msum (Suc n) (m(n \<mapsto> y)) f = msum n m f + f y"
proof -
  have "(\<Sum>j<n. case (m(n \<mapsto> y)) j of None \<Rightarrow> 0 | Some x \<Rightarrow> f x) =
      (\<Sum>j<n. case m j of None \<Rightarrow> 0 | Some x \<Rightarrow> f x)"
    by (rule sum.cong) auto
  then show ?thesis by (simp add: msum_def)
qed

lemma msum_cong:
  assumes "\<And>i x. i < n \<Longrightarrow> m i = Some x \<Longrightarrow> f x = g x"
  shows "msum n m f = msum n m g"
  unfolding msum_def by (rule sum.cong) (auto split: option.splits simp: assms)

lemma msum_same:
  assumes "m i = Some x" and "f y = f x"
  shows "msum n (m(i \<mapsto> y)) f = msum n m f"
  unfolding msum_def by (rule sum.cong) (auto simp: assms)

section \<open>Counting positions of an array\<close>

definition countf :: "nat \<Rightarrow> (nat \<Rightarrow> bool) \<Rightarrow> nat" where
  "countf n P = card {i. i < n \<and> P i}"

lemma countf_le: "countf n P \<le> n"
proof -
  have "card {i. i < n \<and> P i} \<le> card {..<n}" by (rule card_mono) auto
  then show ?thesis by (simp add: countf_def)
qed

lemma countf_cong: "(\<And>i. i < n \<Longrightarrow> P i = Q i) \<Longrightarrow> countf n P = countf n Q"
  unfolding countf_def by (rule arg_cong [of _ _ card]) auto

lemma countf_set:
  assumes "k < n" and "\<not> P k" and "\<And>i. i \<noteq> k \<Longrightarrow> i < n \<Longrightarrow> Q i = P i" and "Q k"
  shows "countf n Q = Suc (countf n P)"
proof -
  have "Q i = (i = k \<or> P i)" if "i < n" for i
    using assms that by (cases "i = k") auto
  then have "{i. i < n \<and> Q i} = insert k {i. i < n \<and> P i}" using assms(1) by auto
  then show ?thesis using assms(2) by (simp add: countf_def)
qed

lemma countf_clear:
  assumes "k < n" and "P k" and "\<And>i. i \<noteq> k \<Longrightarrow> i < n \<Longrightarrow> Q i = P i" and "\<not> Q k"
  shows "countf n P = Suc (countf n Q)"
  by (rule countf_set [of k n Q P]) (use assms in auto)

lemma countf_zero: "countf n P = 0 \<longleftrightarrow> (\<forall>i<n. \<not> P i)"
  by (auto simp: countf_def)

lemma countf_pos: "i < n \<Longrightarrow> P i \<Longrightarrow> 0 < countf n P"
  using countf_zero [of n P] by auto

end
