(* ===== verification/Common.thy ===== *)
theory Common
  imports Prelude
begin

text \<open>
  \<^verbatim>\<open>include/lbz-common.h\<close>: block geometry and the two address conversions, and the kernel
  services that the driver calls as functions of their arguments. These services are not part
  of the repository; they are the fields of \<open>kern\<close>, an argument of the definitions that use
  them, and \<open>kern_ok\<close> states the documented behaviour the driver relies on.
\<close>

section \<open>Kernel services\<close>

text \<open>
  \<open>blk_queue_zone_no\<close> is the zone number of a sector of the backing device;
  \<open>sizeof_leaf_node_headr\<close> is the size in bytes of \<open>struct leaf_node_headr\<close>, which contains
  the kernel's \<open>rwlock_t\<close>; \<open>rb_insert_color\<close> rebalances a tree after a node was linked and
  \<open>rb_erase\<close> removes a node.
\<close>

record kern =
  blk_queue_zone_no :: "u64 \<Rightarrow> nat"
  sizeof_leaf_node_headr :: nat
  rb_insert_color :: "tptr \<Rightarrow> tptr tree \<Rightarrow> tptr tree"
  rb_erase :: "tptr \<Rightarrow> tptr tree \<Rightarrow> tptr tree"

definition kern_ok :: "kern \<Rightarrow> bool" where
  "kern_ok K \<longleftrightarrow>
     sizeof_leaf_node_headr K \<le> 4092 \<and>
     (\<forall>a t. inorder (rb_insert_color K a t) = inorder t) \<and>
     (\<forall>a t. distinct (inorder t) \<longrightarrow> inorder (rb_erase K a t) = remove1 a (inorder t))"

section \<open>Block geometry\<close>

definition SECTOR_SHIFT :: nat where "SECTOR_SHIFT = 9"

definition LBZ_DATA_BLK_SHIFT :: nat where "LBZ_DATA_BLK_SHIFT = 12"

definition LBZ_MAX_DEV_SIZE :: nat where "LBZ_MAX_DEV_SIZE = 64"

definition LBZ_INVALID_PBID :: u32 where "LBZ_INVALID_PBID = - 1"

text \<open>The result of the shift is a 64 bit \<open>sector_t\<close>, returned as an \<open>unsigned int\<close>.\<close>

definition sector_to_blkid :: "u64 \<Rightarrow> u32" where
  "sector_to_blkid sector = ucast (drop_bit (LBZ_DATA_BLK_SHIFT - SECTOR_SHIFT) sector)"

text \<open>The shift is an \<open>unsigned int\<close> shift; only its result is widened to \<open>sector_t\<close>.\<close>

definition blkid_to_sector :: "u32 \<Rightarrow> u64" where
  "blkid_to_sector blkid = ucast (push_bit (LBZ_DATA_BLK_SHIFT - SECTOR_SHIFT) blkid)"

lemma unat_sector_to_blkid: "unat (sector_to_blkid s) = (unat s div 8) mod 2 ^ 32"
proof -
  have "unat (drop_bit 3 s) = unat s div 8"
    by (simp only: unat_drop_bit_eq) (simp add: drop_bit_eq_div)
  then show ?thesis
    by (simp add: sector_to_blkid_def LBZ_DATA_BLK_SHIFT_def SECTOR_SHIFT_def unsigned_ucast_eq
        take_bit_eq_mod)
qed

lemma unat_blkid_to_sector: "unat (blkid_to_sector b) = (8 * unat b) mod 2 ^ 32"
proof -
  have "unat (push_bit 3 b) = (8 * unat b) mod 2 ^ 32"
    by (simp only: unsigned_push_bit_eq) (simp add: take_bit_eq_mod push_bit_eq_mult mult.commute)
  then show ?thesis
    by (simp add: blkid_to_sector_def LBZ_DATA_BLK_SHIFT_def SECTOR_SHIFT_def)
qed

text \<open>
  C35. A block address survives the conversion to a sector and back exactly when it is below
  \<open>2 ^ 29\<close>: the 32 bit shift in \<open>blkid_to_sector\<close> drops the top three bits, so physical
  blocks of a backing device beyond 2 TiB are not addressed correctly.
\<close>

theorem blkid_sector_roundtrip:
  "sector_to_blkid (blkid_to_sector b) = b \<longleftrightarrow> unat b < 2 ^ 29"
proof -
  have eq: "unat (sector_to_blkid (blkid_to_sector b)) = ((8 * unat b) mod 2 ^ 32) div 8"
    by (simp add: unat_sector_to_blkid unat_blkid_to_sector)
  show ?thesis
  proof (cases "unat b < 2 ^ 29")
    case True
    then have "((8 * unat b) mod 2 ^ 32) div 8 = unat b" by simp
    with eq True show ?thesis by (simp add: word_unat_eq_iff)
  next
    case False
    have "((8 * unat b) mod 2 ^ 32) div 8 < 2 ^ 29" by (simp add: less_mult_imp_div_less)
    with eq False show ?thesis by (metis)
  qed
qed

section \<open>An instance of the kernel services\<close>

text \<open>
  A device with zones of 16 sectors, a 16 byte leaf header, and a search tree that is kept
  unbalanced: it shows that \<open>kern_ok\<close> can hold.
\<close>

fun list_tree :: "'a list \<Rightarrow> 'a tree" where
  "list_tree [] = Leaf"
| "list_tree (x # xs) = Node Leaf x (list_tree xs)"

lemma inorder_list_tree: "inorder (list_tree xs) = xs"
  by (induction xs) auto

definition demo_kern :: kern where
  "demo_kern = \<lparr>blk_queue_zone_no = (\<lambda>s. unat s div 16), sizeof_leaf_node_headr = 16,
     rb_insert_color = (\<lambda>a t. t), rb_erase = (\<lambda>a t. list_tree (remove1 a (inorder t)))\<rparr>"

lemma demo_kern_ok: "kern_ok demo_kern"
  by (simp add: kern_ok_def demo_kern_def inorder_list_tree)

end
