(* ===== verification/Zone.thy ===== *)
theory Zone
  imports Common
begin

text \<open>
  \<^verbatim>\<open>include/lbz-zone-metadata.h\<close> and the zone-level functions of \<^verbatim>\<open>lbz-zone-metadata.c\<close>:
  the zone descriptor, its state flags, its reference count and pending-write count, its
  reverse map (physical block to logical block), and the water marks of the whole zone table.

  A zone pointer is the index of the zone in \<open>zmd->zones\<close>; a null or out-of-range entry is
  \<open>None\<close> in the map \<open>zmd_zones\<close>. Spin locks are not part of the model: every operation is
  one atomic step. The list heads \<open>empty_zone_list\<close> and \<open>full_zone_list\<close> are the lists of
  the zones linked there, in list order.
\<close>

section \<open>Data\<close>

datatype blk_zone_cond =
    BLK_ZONE_COND_NOT_WP | BLK_ZONE_COND_EMPTY | BLK_ZONE_COND_IMP_OPEN | BLK_ZONE_COND_EXP_OPEN
  | BLK_ZONE_COND_CLOSED | BLK_ZONE_COND_READONLY | BLK_ZONE_COND_FULL | BLK_ZONE_COND_OFFLINE

datatype lbz_zone_state =
    LBZ_ZONE_OFFLINE | LBZ_ZONE_READ_ONLY | LBZ_ZONE_INIT | LBZ_ZONE_EMPTY | LBZ_ZONE_ACTIVE
  | LBZ_ZONE_PARITAL | LBZ_ZONE_TO_FULL | LBZ_ZONE_FULL | LBZ_ZONE_GC | LBZ_ZONE_GC_COMPLETED

fun zone_state_bit :: "lbz_zone_state \<Rightarrow> nat" where
  "zone_state_bit LBZ_ZONE_OFFLINE = 0"
| "zone_state_bit LBZ_ZONE_READ_ONLY = 1"
| "zone_state_bit LBZ_ZONE_INIT = 2"
| "zone_state_bit LBZ_ZONE_EMPTY = 3"
| "zone_state_bit LBZ_ZONE_ACTIVE = 4"
| "zone_state_bit LBZ_ZONE_PARITAL = 5"
| "zone_state_bit LBZ_ZONE_TO_FULL = 6"
| "zone_state_bit LBZ_ZONE_FULL = 7"
| "zone_state_bit LBZ_ZONE_GC = 8"
| "zone_state_bit LBZ_ZONE_GC_COMPLETED = 9"

datatype lbz_victim_mod = LBZ_VICTIM_DEFAULT | LBZ_VICTIM_REGULAR | LBZ_VICTIM_EMERGENCY

datatype lbz_alloc_flag = LBZ_ALLOC_FLAG_USER | LBZ_ALLOC_FLAG_GC

definition LBZ_REVERSE_MAP_ENTRIES :: nat where "LBZ_REVERSE_MAP_ENTRIES = 1024"

definition LBZ_ZONE_MAX_STREAM :: nat where "LBZ_ZONE_MAX_STREAM = 2"

record lbz_zone =
  z_state :: blk_zone_cond
  z_flags :: u64
  z_refcount :: u32
  z_stream :: int
  z_id :: u32
  z_wp_block :: u32
  z_start_sector :: u32
  z_len_sectors :: u32
  z_capacity_sectors :: u32
  z_cond :: blk_zone_cond
  z_weight :: u32
  z_pending_write_io :: u32
  z_zrms :: "u32 list list"
  z_valid_bitmap :: "u64 list list"

datatype zone_op = REQ_OP_ZONE_CLOSE | REQ_OP_ZONE_OPEN | REQ_OP_ZONE_RESET

text \<open>
  The zone table. \<open>zmd_mgmt\<close> is the sequence of zone management commands sent to the backing
  device with \<open>blkdev_zone_mgmt\<close>: the operation, the start sector and the number of sectors.
\<close>

record lbz_zone_metadata =
  zmd_zones :: "zptr \<rightharpoonup> lbz_zone"
  zmd_empty_zone_list :: "zptr list"
  zmd_full_zone_list :: "zptr list"
  zmd_active_zone_list :: "zptr list"
  zmd_active_zone :: "nat \<Rightarrow> zptr option"
  zmd_active_zone_writes :: "nat \<Rightarrow> u64"
  zmd_empty_zone_count :: u32
  zmd_full_zone_count :: u32
  zmd_active_zone_count :: u32
  zmd_zs_close_times :: u64
  zmd_zs_reset_times :: u64
  zmd_nr_total_blks :: u32
  zmd_nr_allocable_blks :: u32
  zmd_nr_valid_blks :: u32
  zmd_reserved_blks_gc :: u32
  zmd_reclaim_wm_gc_low :: u32
  zmd_reclaim_wm_gc_high :: u32
  zmd_zone_reclaim_wm :: u32
  zmd_zone_size_sectors :: u32
  zmd_zone_size_blks :: u32
  zmd_nr_zones :: u32
  zmd_nr_useable_zones :: u32
  zmd_zone_nr_blocks :: u32
  zmd_zone_nr_blocks_shift :: u32
  zmd_zone_nr_sectors :: u32
  zmd_zone_nr_sectors_shift :: u32
  zmd_zone_bitmap_size :: u32
  zmd_zone_nr_bitmap_blocks :: u32
  zmd_zone_bits_per_block :: u32
  zmd_zone_reverse_map_size :: u32
  zmd_zone_nr_reverse_map_blocks :: u32
  zmd_mgmt :: "(zone_op \<times> u32 \<times> u32) list"
  zmd_zone_state_wq :: wq_ptr

section \<open>State flags and counters of one zone\<close>

definition is_lbz_zone_clear :: "lbz_zone \<Rightarrow> bool" where
  "is_lbz_zone_clear zone = (0 = z_weight zone)"

definition is_lbz_zone_state :: "lbz_zone_state \<Rightarrow> lbz_zone \<Rightarrow> bool" where
  "is_lbz_zone_state state zone = bit (z_flags zone) (zone_state_bit state)"

definition lbz_set_zone_state :: "lbz_zone_state \<Rightarrow> lbz_zone \<Rightarrow> lbz_zone" where
  "lbz_set_zone_state state zone =
     zone\<lparr>z_flags := Bit_Operations.set_bit (zone_state_bit state) (z_flags zone)\<rparr>"

definition lbz_clear_zone_state :: "lbz_zone_state \<Rightarrow> lbz_zone \<Rightarrow> lbz_zone" where
  "lbz_clear_zone_state state zone =
     zone\<lparr>z_flags := Bit_Operations.unset_bit (zone_state_bit state) (z_flags zone)\<rparr>"

text \<open>\<open>zone->flags = (1 << state)\<close>, as the zone state worker assigns it.\<close>

definition zone_only_state :: "lbz_zone_state \<Rightarrow> lbz_zone \<Rightarrow> lbz_zone" where
  "zone_only_state state zone = zone\<lparr>z_flags := push_bit (zone_state_bit state) 1\<rparr>"

definition lbz_get_zone :: "lbz_zone \<Rightarrow> lbz_zone" where
  "lbz_get_zone zone = zone\<lparr>z_refcount := z_refcount zone + 1\<rparr>"

text \<open>
  Dropping a reference: the last reference of a zone under collection makes it \<open>EMPTY\<close> (ready
  for reset); otherwise a zone that was written to its end and has no write in flight becomes
  \<open>FULL\<close>.
\<close>

definition lbz_put_zone :: "lbz_zone \<Rightarrow> lbz_zone" where
  "lbz_put_zone zone =
     (let z = zone\<lparr>z_refcount := z_refcount zone - 1\<rparr>
      in if z_refcount z = 0 \<and> is_lbz_zone_state LBZ_ZONE_GC z
         then z\<lparr>z_state := BLK_ZONE_COND_EMPTY\<rparr>
         else if is_lbz_zone_state LBZ_ZONE_TO_FULL z \<and> 0 = z_pending_write_io z
         then z\<lparr>z_state := BLK_ZONE_COND_FULL\<rparr>
         else z)"

definition pending_write :: "lbz_zone \<Rightarrow> lbz_zone" where
  "pending_write zone = zone\<lparr>z_pending_write_io := z_pending_write_io zone + 1\<rparr>"

definition lbz_zone_complete_write :: "lbz_zone \<Rightarrow> lbz_zone" where
  "lbz_zone_complete_write zone = zone\<lparr>z_pending_write_io := z_pending_write_io zone - 1\<rparr>"

definition alloc_res :: "lbz_zone \<Rightarrow> lbz_zone" where
  "alloc_res zone = zone\<lparr>z_wp_block := z_wp_block zone + 1, z_weight := z_weight zone + 1\<rparr>"

section \<open>Accessors of the zone table\<close>

definition lbz_start_sect :: "lbz_zone_metadata \<Rightarrow> lbz_zone \<Rightarrow> u64" where
  "lbz_start_sect zmd zone = push_bit (unat (zmd_zone_nr_sectors_shift zmd)) (ucast (z_id zone))"

definition lbz_start_block :: "lbz_zone_metadata \<Rightarrow> lbz_zone \<Rightarrow> u64" where
  "lbz_start_block zmd zone = push_bit (unat (zmd_zone_nr_blocks_shift zmd)) (ucast (z_id zone))"

definition lbz_zone_nr_blocks :: "lbz_zone_metadata \<Rightarrow> u32" where
  "lbz_zone_nr_blocks zmd = zmd_zone_nr_blocks zmd"

definition lbz_zone_nr_blocks_shift :: "lbz_zone_metadata \<Rightarrow> u32" where
  "lbz_zone_nr_blocks_shift zmd = zmd_zone_nr_blocks_shift zmd"

definition lbz_zone_nr_sectors :: "lbz_zone_metadata \<Rightarrow> u32" where
  "lbz_zone_nr_sectors zmd = zmd_zone_nr_sectors zmd"

definition lbz_zone_nr_sectors_shift :: "lbz_zone_metadata \<Rightarrow> u32" where
  "lbz_zone_nr_sectors_shift zmd = zmd_zone_nr_sectors_shift zmd"

definition lbz_nr_zones :: "lbz_zone_metadata \<Rightarrow> u32" where
  "lbz_nr_zones zmd = zmd_nr_zones zmd"

text \<open>Dereferencing a zone pointer to update the zone it points to.\<close>

definition upd_zone :: "zptr \<Rightarrow> (lbz_zone \<Rightarrow> lbz_zone) \<Rightarrow> lbz_zone_metadata \<Rightarrow> lbz_zone_metadata option" where
  "upd_zone p f zmd =
     (case zmd_zones zmd p of
        None \<Rightarrow> None
      | Some z \<Rightarrow> Some (zmd\<lparr>zmd_zones := (zmd_zones zmd)(p \<mapsto> f z)\<rparr>))"

definition get_zone_by_pbid :: "kern \<Rightarrow> u32 \<Rightarrow> zptr" where
  "get_zone_by_pbid K pbid = blk_queue_zone_no K (blkid_to_sector pbid)"

definition lbz_zone_release_global_res :: "zptr \<Rightarrow> lbz_zone_metadata \<Rightarrow> lbz_zone_metadata option" where
  "lbz_zone_release_global_res p zmd = do {
     zmd \<leftarrow> upd_zone p (\<lambda>z. z\<lparr>z_weight := z_weight z - 1\<rparr>) zmd;
     Some (zmd\<lparr>zmd_nr_valid_blks := zmd_nr_valid_blks zmd - 1\<rparr>)
   }"

definition lbz_close_zone :: "lbz_zone \<Rightarrow> lbz_zone_metadata \<Rightarrow> lbz_zone_metadata" where
  "lbz_close_zone zone zmd =
     zmd\<lparr>zmd_mgmt := zmd_mgmt zmd @ [(REQ_OP_ZONE_CLOSE, z_start_sector zone, z_capacity_sectors zone)]\<rparr>"

definition lbz_open_zone :: "lbz_zone \<Rightarrow> lbz_zone_metadata \<Rightarrow> lbz_zone_metadata" where
  "lbz_open_zone zone zmd =
     zmd\<lparr>zmd_mgmt := zmd_mgmt zmd @ [(REQ_OP_ZONE_OPEN, z_start_sector zone, z_len_sectors zone)]\<rparr>"

definition lbz_reset_zone :: "lbz_zone \<Rightarrow> lbz_zone_metadata \<Rightarrow> lbz_zone_metadata" where
  "lbz_reset_zone zone zmd =
     zmd\<lparr>zmd_mgmt := zmd_mgmt zmd @ [(REQ_OP_ZONE_RESET, z_start_sector zone, z_len_sectors zone)]\<rparr>"

section \<open>Reverse map\<close>

definition zrms_get :: "u32 list list \<Rightarrow> nat \<Rightarrow> u32 option" where
  "zrms_get zrms i =
     (let index = i div LBZ_REVERSE_MAP_ENTRIES; off = i mod LBZ_REVERSE_MAP_ENTRIES
      in if index < length zrms \<and> off < length (zrms ! index)
         then Some (zrms ! index ! off) else None)"

definition zrms_set :: "u32 list list \<Rightarrow> nat \<Rightarrow> u32 \<Rightarrow> u32 list list option" where
  "zrms_set zrms i v =
     (let index = i div LBZ_REVERSE_MAP_ENTRIES; off = i mod LBZ_REVERSE_MAP_ENTRIES
      in if index < length zrms \<and> off < length (zrms ! index)
         then Some (zrms[index := (zrms ! index)[off := v]]) else None)"

definition pbid_dis :: "lbz_zone \<Rightarrow> u32 \<Rightarrow> u32" where
  "pbid_dis zone pbid = pbid - sector_to_blkid (ucast (z_start_sector zone))"

definition lbz_zone_update_reverse_map ::
  "zptr \<Rightarrow> u32 \<Rightarrow> u32 \<Rightarrow> lbz_zone_metadata \<Rightarrow> lbz_zone_metadata option" where
  "lbz_zone_update_reverse_map p pbid blkid zmd = do {
     zone \<leftarrow> zmd_zones zmd p;
     zrms \<leftarrow> zrms_set (z_zrms zone) (unat (pbid_dis zone pbid)) blkid;
     upd_zone p (\<lambda>z. z\<lparr>z_zrms := zrms\<rparr>) zmd
   }"

section \<open>Water marks\<close>

text \<open>
  The comparisons are made on \<open>unsigned int\<close>: the usual arithmetic conversions turn the value
  of an \<open>atomic_t\<close> into an unsigned number before it is compared or subtracted.
\<close>

definition lbz_check_zone_low_wm :: "lbz_zone_metadata \<Rightarrow> lbz_zone \<Rightarrow> bool" where
  "lbz_check_zone_low_wm zmd zone =
     (let wm = zmd_zone_nr_blocks zmd * zmd_zone_reclaim_wm zmd div 100
      in z_weight zone \<le> wm)"

definition lbz_check_need_reclaim_low :: "lbz_zone_metadata \<Rightarrow> bool" where
  "lbz_check_need_reclaim_low zmd =
     (let wm = zmd_nr_total_blks zmd * zmd_reclaim_wm_gc_low zmd div 100
      in zmd_nr_allocable_blks zmd - zmd_reserved_blks_gc zmd < wm)"

definition lbz_check_need_reclaim_high :: "lbz_zone_metadata \<Rightarrow> bool" where
  "lbz_check_need_reclaim_high zmd =
     (let wm = zmd_nr_total_blks zmd * zmd_reclaim_wm_gc_high zmd div 100
      in zmd_nr_allocable_blks zmd - zmd_reserved_blks_gc zmd < wm)"

section \<open>Facts about the flags\<close>

lemma zone_state_bit_inject [simp]: "zone_state_bit a = zone_state_bit b \<longleftrightarrow> a = b"
  by (cases a; cases b) simp_all

lemma zone_state_bit_less: "zone_state_bit a < 64"
  by (cases a) simp_all

lemma is_state_set [bit_flags]:
  "is_lbz_zone_state a (lbz_set_zone_state b z) \<longleftrightarrow> a = b \<or> is_lbz_zone_state a z"
  by (auto simp: is_lbz_zone_state_def lbz_set_zone_state_def set_bit_bit_iff zone_state_bit_less)

lemma is_state_clear [bit_flags]:
  "is_lbz_zone_state a (lbz_clear_zone_state b z) \<longleftrightarrow> a \<noteq> b \<and> is_lbz_zone_state a z"
  by (auto simp: is_lbz_zone_state_def lbz_clear_zone_state_def unset_bit_bit_iff)

lemma is_state_only [bit_flags]:
  "is_lbz_zone_state a (zone_only_state b z) \<longleftrightarrow> a = b"
  by (auto simp: is_lbz_zone_state_def zone_only_state_def bit_exp_iff zone_state_bit_less
      zone_state_bit_inject [symmetric] simp del: zone_state_bit_inject)

lemma is_state_cong: "z_flags y = z_flags z \<Longrightarrow> is_lbz_zone_state a y = is_lbz_zone_state a z"
  by (simp add: is_lbz_zone_state_def)

text \<open>What each operation leaves alone, and what it writes.\<close>

lemma set_state_fields [zone_simps]:
  "z_state (lbz_set_zone_state s z) = z_state z" "z_refcount (lbz_set_zone_state s z) = z_refcount z"
  "z_wp_block (lbz_set_zone_state s z) = z_wp_block z" "z_weight (lbz_set_zone_state s z) = z_weight z"
  "z_pending_write_io (lbz_set_zone_state s z) = z_pending_write_io z"
  "z_zrms (lbz_set_zone_state s z) = z_zrms z" "z_start_sector (lbz_set_zone_state s z) = z_start_sector z"
  "z_stream (lbz_set_zone_state s z) = z_stream z"
  by (simp_all add: lbz_set_zone_state_def)

lemma clear_state_fields [zone_simps]:
  "z_state (lbz_clear_zone_state s z) = z_state z" "z_refcount (lbz_clear_zone_state s z) = z_refcount z"
  "z_wp_block (lbz_clear_zone_state s z) = z_wp_block z" "z_weight (lbz_clear_zone_state s z) = z_weight z"
  "z_pending_write_io (lbz_clear_zone_state s z) = z_pending_write_io z"
  "z_zrms (lbz_clear_zone_state s z) = z_zrms z" "z_start_sector (lbz_clear_zone_state s z) = z_start_sector z"
  "z_stream (lbz_clear_zone_state s z) = z_stream z"
  by (simp_all add: lbz_clear_zone_state_def)

lemma get_zone_fields [zone_simps]:
  "z_state (lbz_get_zone z) = z_state z" "z_flags (lbz_get_zone z) = z_flags z"
  "z_refcount (lbz_get_zone z) = z_refcount z + 1"
  "z_wp_block (lbz_get_zone z) = z_wp_block z" "z_weight (lbz_get_zone z) = z_weight z"
  "z_pending_write_io (lbz_get_zone z) = z_pending_write_io z"
  "z_zrms (lbz_get_zone z) = z_zrms z" "z_start_sector (lbz_get_zone z) = z_start_sector z"
  "z_stream (lbz_get_zone z) = z_stream z"
  by (simp_all add: lbz_get_zone_def)

lemma put_zone_fields [zone_simps]:
  "z_flags (lbz_put_zone z) = z_flags z" "z_refcount (lbz_put_zone z) = z_refcount z - 1"
  "z_wp_block (lbz_put_zone z) = z_wp_block z" "z_weight (lbz_put_zone z) = z_weight z"
  "z_pending_write_io (lbz_put_zone z) = z_pending_write_io z"
  "z_zrms (lbz_put_zone z) = z_zrms z" "z_start_sector (lbz_put_zone z) = z_start_sector z"
  "z_stream (lbz_put_zone z) = z_stream z"
  by (simp_all add: lbz_put_zone_def Let_def)

lemma pending_write_fields [zone_simps]:
  "z_state (pending_write z) = z_state z" "z_flags (pending_write z) = z_flags z"
  "z_refcount (pending_write z) = z_refcount z"
  "z_wp_block (pending_write z) = z_wp_block z" "z_weight (pending_write z) = z_weight z"
  "z_pending_write_io (pending_write z) = z_pending_write_io z + 1"
  "z_zrms (pending_write z) = z_zrms z" "z_start_sector (pending_write z) = z_start_sector z"
  "z_stream (pending_write z) = z_stream z"
  by (simp_all add: pending_write_def)

lemma complete_write_fields [zone_simps]:
  "z_state (lbz_zone_complete_write z) = z_state z" "z_flags (lbz_zone_complete_write z) = z_flags z"
  "z_refcount (lbz_zone_complete_write z) = z_refcount z"
  "z_wp_block (lbz_zone_complete_write z) = z_wp_block z" "z_weight (lbz_zone_complete_write z) = z_weight z"
  "z_pending_write_io (lbz_zone_complete_write z) = z_pending_write_io z - 1"
  "z_zrms (lbz_zone_complete_write z) = z_zrms z" "z_start_sector (lbz_zone_complete_write z) = z_start_sector z"
  "z_stream (lbz_zone_complete_write z) = z_stream z"
  by (simp_all add: lbz_zone_complete_write_def)

lemma alloc_res_fields [zone_simps]:
  "z_state (alloc_res z) = z_state z" "z_flags (alloc_res z) = z_flags z"
  "z_refcount (alloc_res z) = z_refcount z"
  "z_wp_block (alloc_res z) = z_wp_block z + 1" "z_weight (alloc_res z) = z_weight z + 1"
  "z_pending_write_io (alloc_res z) = z_pending_write_io z"
  "z_zrms (alloc_res z) = z_zrms z" "z_start_sector (alloc_res z) = z_start_sector z"
  "z_stream (alloc_res z) = z_stream z"
  by (simp_all add: alloc_res_def)

lemma is_state_get [bit_flags]: "is_lbz_zone_state a (lbz_get_zone z) = is_lbz_zone_state a z"
  by (rule is_state_cong) (simp add: zone_simps)

lemma is_state_put [bit_flags]: "is_lbz_zone_state a (lbz_put_zone z) = is_lbz_zone_state a z"
  by (rule is_state_cong) (simp add: zone_simps)

lemma is_state_pending [bit_flags]: "is_lbz_zone_state a (pending_write z) = is_lbz_zone_state a z"
  by (rule is_state_cong) (simp add: zone_simps)

lemma is_state_complete [bit_flags]:
  "is_lbz_zone_state a (lbz_zone_complete_write z) = is_lbz_zone_state a z"
  by (rule is_state_cong) (simp add: zone_simps)

lemma is_state_alloc [bit_flags]: "is_lbz_zone_state a (alloc_res z) = is_lbz_zone_state a z"
  by (rule is_state_cong) (simp add: zone_simps)

text \<open>
  Dropping a reference decides the next life of a zone: it becomes \<open>EMPTY\<close> (and will be
  reset) exactly when the last reference of a zone under collection goes, and otherwise
  \<open>FULL\<close> exactly when it was written to its end and no write is in flight; in every other
  case its state is unchanged.
\<close>

theorem put_zone_state:
  "z_state (lbz_put_zone z) =
     (if z_refcount z = 1 \<and> is_lbz_zone_state LBZ_ZONE_GC z then BLK_ZONE_COND_EMPTY
      else if is_lbz_zone_state LBZ_ZONE_TO_FULL z \<and> z_pending_write_io z = 0
      then BLK_ZONE_COND_FULL else z_state z)"
  by (auto simp: lbz_put_zone_def Let_def is_lbz_zone_state_def)

section \<open>Facts about the reverse map\<close>

lemma zrms_get_set:
  assumes "zrms_set zrms i v = Some zrms'"
  shows "zrms_get zrms' j = (if j = i then Some v else zrms_get zrms j)"
proof -
  let ?d = "\<lambda>i. i div LBZ_REVERSE_MAP_ENTRIES" and ?m = "\<lambda>i. i mod LBZ_REVERSE_MAP_ENTRIES"
  from assms have b: "?d i < length zrms" "?m i < length (zrms ! ?d i)"
    and z: "zrms' = zrms[?d i := (zrms ! ?d i)[?m i := v]]"
    by (auto simp: zrms_set_def Let_def split: if_splits)
  have "j = i" if "?d j = ?d i" "?m j = ?m i" using that by (metis div_mult_mod_eq)
  then show ?thesis using b z by (auto simp: zrms_get_def Let_def nth_list_update)
qed

lemma zrms_set_some: "zrms_get zrms i \<noteq> None \<Longrightarrow> \<exists>zrms'. zrms_set zrms i v = Some zrms'"
  by (auto simp: zrms_get_def zrms_set_def Let_def split: if_splits)

lemma zrms_set_none: "zrms_get zrms i = None \<Longrightarrow> zrms_set zrms i v = None"
  by (auto simp: zrms_get_def zrms_set_def Let_def split: if_splits)

lemma zrms_set_length: "zrms_set zrms i v = Some zrms' \<Longrightarrow> length zrms' = length zrms"
  by (auto simp: zrms_set_def Let_def split: if_splits)

definition zrms_shape :: "u32 list list \<Rightarrow> bool" where
  "zrms_shape zrms \<longleftrightarrow> (\<forall>p\<in>set zrms. length p = LBZ_REVERSE_MAP_ENTRIES)"

lemma zrms_shape_set:
  assumes "zrms_set zrms i v = Some zrms'" "zrms_shape zrms"
  shows "zrms_shape zrms'"
proof -
  from assms(1) obtain k p where z: "zrms' = zrms[k := p]" "k < length zrms"
      "length p = length (zrms ! k)"
    by (auto simp: zrms_set_def Let_def split: if_splits)
  then have "length p = LBZ_REVERSE_MAP_ENTRIES" using assms(2) by (auto simp: zrms_shape_def)
  with z assms(2) set_update_subset_insert [of zrms k p] show ?thesis
    by (auto simp: zrms_shape_def)
qed

lemma zrms_get_in_shape:
  assumes "zrms_shape zrms"
  shows "zrms_get zrms i \<noteq> None \<longleftrightarrow> i < LBZ_REVERSE_MAP_ENTRIES * length zrms"
proof -
  let ?E = LBZ_REVERSE_MAP_ENTRIES
  have E: "0 < ?E" by (simp add: LBZ_REVERSE_MAP_ENTRIES_def)
  have "i div ?E < length zrms \<longleftrightarrow> i < ?E * length zrms"
    using E by (simp add: div_less_iff_less_mult mult.commute)
  moreover have "length (zrms ! (i div ?E)) = ?E" if "i div ?E < length zrms"
    using assms that by (simp add: zrms_shape_def)
  ultimately show ?thesis using E by (auto simp: zrms_get_def Let_def)
qed

text \<open>The live entries of a zone: the reverse map names the logical block stored there.\<close>

definition zone_valid :: "lbz_zone \<Rightarrow> nat \<Rightarrow> bool" where
  "zone_valid z i \<longleftrightarrow> (case zrms_get (z_zrms z) i of None \<Rightarrow> False | Some v \<Rightarrow> v \<noteq> LBZ_INVALID_PBID)"

definition valid_count :: "lbz_zone \<Rightarrow> nat" where
  "valid_count z = countf (LBZ_REVERSE_MAP_ENTRIES * length (z_zrms z)) (zone_valid z)"

section \<open>The accounting invariant of a zone\<close>

text \<open>
  \<open>zone_acct nrb z\<close>, for a zone of \<open>nrb\<close> blocks: the write pointer stays within the capacity,
  the reverse map has room for the whole capacity, live entries lie below the write pointer,
  and the weight is the number of live entries plus the writes in flight.
\<close>

definition zone_acct :: "u32 \<Rightarrow> lbz_zone \<Rightarrow> bool" where
  "zone_acct nrb z \<longleftrightarrow>
     z_wp_block z \<le> nrb \<and>
     zrms_shape (z_zrms z) \<and> unat nrb \<le> LBZ_REVERSE_MAP_ENTRIES * length (z_zrms z) \<and>
     (\<forall>i. zone_valid z i \<longrightarrow> i < unat (z_wp_block z)) \<and>
     valid_count z + unat (z_pending_write_io z) \<le> unat (z_wp_block z) \<and>
     unat (z_weight z) = valid_count z + unat (z_pending_write_io z)"

lemma zone_valid_cong: "z_zrms y = z_zrms z \<Longrightarrow> zone_valid y = zone_valid z"
  by (simp add: zone_valid_def fun_eq_iff)

lemma valid_count_cong: "z_zrms y = z_zrms z \<Longrightarrow> valid_count y = valid_count z"
  by (simp add: valid_count_def zone_valid_cong [of y z])

lemma zone_acct_cong:
  assumes "z_wp_block y = z_wp_block z" "z_weight y = z_weight z"
    "z_pending_write_io y = z_pending_write_io z" "z_zrms y = z_zrms z"
  shows "zone_acct nrb y = zone_acct nrb z"
  unfolding zone_acct_def assms zone_valid_cong [OF assms(4)] valid_count_cong [OF assms(4)] ..

lemma zone_acct_frame [zone_simps]:
  "zone_acct nrb (lbz_get_zone z) = zone_acct nrb z"
  "zone_acct nrb (lbz_put_zone z) = zone_acct nrb z"
  "zone_acct nrb (lbz_set_zone_state s z) = zone_acct nrb z"
  "zone_acct nrb (lbz_clear_zone_state s z) = zone_acct nrb z"
  "zone_acct nrb (z\<lparr>z_state := c\<rparr>) = zone_acct nrb z"
  "zone_acct nrb (z\<lparr>z_stream := k\<rparr>) = zone_acct nrb z"
  "zone_acct nrb (z\<lparr>z_flags := fl\<rparr>) = zone_acct nrb z"
  by (rule zone_acct_cong; simp add: zone_simps)+

lemma zone_acct_alloc:
  assumes "zone_acct nrb z" and "z_wp_block z < nrb"
  shows "zone_acct nrb (pending_write (alloc_res z))"
proof -
  have wp: "unat (z_wp_block z + 1) = unat (z_wp_block z) + 1" "z_wp_block z + 1 \<le> nrb"
    using assms(2) by (simp_all add: unat_inc_less word_inc_le)
  have v: "zone_valid (pending_write (alloc_res z)) = zone_valid z"
      "valid_count (pending_write (alloc_res z)) = valid_count z"
    by (rule zone_valid_cong valid_count_cong; simp add: zone_simps)+
  have lt: "unat (z_wp_block z) < unat nrb" using assms(2) by (simp add: word_less_nat_alt)
  have b: "unat (z_weight z) < unat nrb" "unat (z_pending_write_io z) < unat nrb"
    using assms(1) lt by (auto simp: zone_acct_def)
  then have w: "unat (z_weight z + 1) = unat (z_weight z) + 1"
      "unat (z_pending_write_io z + 1) = unat (z_pending_write_io z) + 1"
    using unat_inc_less [of _ nrb] by (auto simp: word_less_nat_alt)
  show ?thesis
    using assms(1) wp w lt unfolding zone_acct_def
    by (auto simp: v zone_simps intro: less_SucI)
qed

text \<open>A reverse-map entry of the zone is written: what happens to the live entries.\<close>

lemma zone_valid_set:
  assumes "zrms_set (z_zrms z) i v = Some zrms"
  shows "zone_valid (z\<lparr>z_zrms := zrms\<rparr>) j = (if j = i then v \<noteq> LBZ_INVALID_PBID else zone_valid z j)"
  by (simp add: zone_valid_def zrms_get_set [OF assms])

lemma valid_count_fill:
  assumes s: "zrms_set (z_zrms z) i v = Some zrms" and v: "v \<noteq> LBZ_INVALID_PBID"
    and fresh: "\<not> zone_valid z i" and shape: "zrms_shape (z_zrms z)"
  shows "valid_count (z\<lparr>z_zrms := zrms\<rparr>) = valid_count z + 1"
proof -
  have "zrms_get (z_zrms z) i \<noteq> None" using s zrms_set_none by fastforce
  then have i: "i < LBZ_REVERSE_MAP_ENTRIES * length (z_zrms z)"
    using zrms_get_in_shape [OF shape] by blast
  show ?thesis
    unfolding valid_count_def using i v fresh
    by (simp add: zrms_set_length [OF s]) (rule countf_set [of i], simp_all add: zone_valid_set [OF s])
qed

lemma valid_count_clear:
  assumes s: "zrms_set (z_zrms z) i LBZ_INVALID_PBID = Some zrms"
    and live: "zone_valid z i" and shape: "zrms_shape (z_zrms z)"
  shows "valid_count z = valid_count (z\<lparr>z_zrms := zrms\<rparr>) + 1"
proof -
  have "zrms_get (z_zrms z) i \<noteq> None" using s zrms_set_none by fastforce
  then have i: "i < LBZ_REVERSE_MAP_ENTRIES * length (z_zrms z)"
    using zrms_get_in_shape [OF shape] by blast
  show ?thesis
    unfolding valid_count_def using i live
    by (simp add: zrms_set_length [OF s]) (rule countf_clear [of i], simp_all add: zone_valid_set [OF s])
qed

text \<open>A write completes: its block becomes live and it is no longer in flight.\<close>

lemma zone_acct_complete:
  assumes a: "zone_acct nrb z" and s: "zrms_set (z_zrms z) i v = Some zrms"
    and v: "v \<noteq> LBZ_INVALID_PBID" and i: "i < unat (z_wp_block z)" and fresh: "\<not> zone_valid z i"
    and p: "z_pending_write_io z \<noteq> 0"
  shows "zone_acct nrb (lbz_zone_complete_write (z\<lparr>z_zrms := zrms\<rparr>))"
proof -
  let ?z = "z\<lparr>z_zrms := zrms\<rparr>"
  have shape: "zrms_shape (z_zrms z)" using a by (simp add: zone_acct_def)
  have c: "valid_count ?z = valid_count z + 1" by (rule valid_count_fill [OF s v fresh shape])
  have vc: "valid_count (lbz_zone_complete_write ?z) = valid_count z + 1"
      "zone_valid (lbz_zone_complete_write ?z) = zone_valid ?z"
    using c by (simp_all add: valid_count_cong [of "lbz_zone_complete_write ?z" ?z] zone_simps
        zone_valid_cong [of "lbz_zone_complete_write ?z" ?z])
  have d: "unat (z_pending_write_io z - 1) + 1 = unat (z_pending_write_io z)"
    using p by (simp add: unat_dec unat_gt_0)
  show ?thesis
    using a i d unfolding zone_acct_def
    by (auto simp: vc zone_simps zone_valid_set [OF s] zrms_set_length [OF s] zrms_shape_set [OF s])
qed

text \<open>A live block is invalidated: its entry is cleared and the weight drops.\<close>

lemma zone_acct_release:
  assumes a: "zone_acct nrb z" and s: "zrms_set (z_zrms z) i LBZ_INVALID_PBID = Some zrms"
    and live: "zone_valid z i"
  shows "zone_acct nrb (z\<lparr>z_zrms := zrms, z_weight := z_weight z - 1\<rparr>)"
proof -
  let ?z = "z\<lparr>z_zrms := zrms\<rparr>" and ?y = "z\<lparr>z_zrms := zrms, z_weight := z_weight z - 1\<rparr>"
  have shape: "zrms_shape (z_zrms z)" using a by (simp add: zone_acct_def)
  have c: "valid_count z = valid_count ?z + 1" by (rule valid_count_clear [OF s live shape])
  have y: "valid_count ?y = valid_count ?z" "zone_valid ?y = zone_valid ?z"
    by (rule valid_count_cong zone_valid_cong; simp)+
  have w: "unat (z_weight z) = valid_count z + unat (z_pending_write_io z)"
    using a by (simp add: zone_acct_def)
  then have "z_weight z \<noteq> 0" using c by auto
  then have "unat (z_weight z - 1) = unat (z_weight z) - 1" by (rule unat_dec)
  then show ?thesis
    using a c w unfolding zone_acct_def
    by (auto simp: y zone_valid_set [OF s] zrms_set_length [OF s] zrms_shape_set [OF s] split: if_splits)
qed

text \<open>A weightless zone holds no live block: the test before a reset is sound.\<close>

lemma zone_acct_weightless:
  assumes "zone_acct nrb z" and "z_weight z = 0"
  shows "\<not> zone_valid z i"
proof
  assume v: "zone_valid z i"
  then have "i < LBZ_REVERSE_MAP_ENTRIES * length (z_zrms z)"
    using assms(1) zrms_get_in_shape [of "z_zrms z" i]
    by (auto simp: zone_acct_def zone_valid_def split: option.splits)
  then have "0 < valid_count z" using v unfolding valid_count_def by (rule countf_pos)
  with assms show False by (simp add: zone_acct_def)
qed

section \<open>Zone pointers\<close>

lemma upd_zone_Some:
  "upd_zone p f zmd = Some zmd' \<longleftrightarrow>
     (\<exists>z. zmd_zones zmd p = Some z \<and> zmd' = zmd\<lparr>zmd_zones := (zmd_zones zmd)(p \<mapsto> f z)\<rparr>)"
  by (auto simp: upd_zone_def split: option.splits)

text \<open>The zone table as the zeroing allocator returns it.\<close>

definition zmd_zero :: lbz_zone_metadata where
  "zmd_zero = \<lparr>zmd_zones = Map.empty, zmd_empty_zone_list = [], zmd_full_zone_list = [],
     zmd_active_zone_list = [], zmd_active_zone = (\<lambda>_. None), zmd_active_zone_writes = (\<lambda>_. 0),
     zmd_empty_zone_count = 0, zmd_full_zone_count = 0, zmd_active_zone_count = 0,
     zmd_zs_close_times = 0, zmd_zs_reset_times = 0, zmd_nr_total_blks = 0,
     zmd_nr_allocable_blks = 0, zmd_nr_valid_blks = 0, zmd_reserved_blks_gc = 0,
     zmd_reclaim_wm_gc_low = 0, zmd_reclaim_wm_gc_high = 0, zmd_zone_reclaim_wm = 0,
     zmd_zone_size_sectors = 0, zmd_zone_size_blks = 0, zmd_nr_zones = 0, zmd_nr_useable_zones = 0,
     zmd_zone_nr_blocks = 0, zmd_zone_nr_blocks_shift = 0, zmd_zone_nr_sectors = 0,
     zmd_zone_nr_sectors_shift = 0, zmd_zone_bitmap_size = 0, zmd_zone_nr_bitmap_blocks = 0,
     zmd_zone_bits_per_block = 0, zmd_zone_reverse_map_size = 0,
     zmd_zone_nr_reverse_map_blocks = 0, zmd_mgmt = [], zmd_zone_state_wq = WqNull\<rparr>"

section \<open>Water marks and the reserve\<close>

lemma unat_wm:
  fixes a b :: u32
  assumes "unat a * unat b < 2 ^ 32"
  shows "unat (a * b div 100) = unat a * unat b div 100"
  using assms by (simp add: unat_div unat_word_ariths)

lemma unat_diff_less:
  fixes a r wm :: u32
  assumes "unat r + unat wm \<le> 2 ^ 32"
  shows "a - r < wm \<longleftrightarrow> unat r \<le> unat a \<and> unat a < unat r + unat wm"
proof (cases "unat r \<le> unat a")
  case True
  then have "r \<le> a" by (simp add: word_le_nat_alt)
  then have "unat (a - r) = unat a - unat r" by (rule unat_sub)
  with True show ?thesis by (auto simp: word_less_nat_alt)
next
  case False
  then have "unat (a - r) = unat a + 2 ^ 32 - unat r"
    by (simp add: unat_sub_if_size word_size)
  with False assms unat_u32_less [of r] show ?thesis by (auto simp: word_less_nat_alt)
qed

text \<open>
  C31. The low water mark test answers yes exactly while the allocatable blocks are between the
  collector's reserve and the reserve plus the mark. Below the reserve, where space is
  scarcest, the unsigned subtraction wraps around and the test answers no.
\<close>

theorem reclaim_low_window:
  assumes "unat (zmd_nr_total_blks zmd) * unat (zmd_reclaim_wm_gc_low zmd) < 2 ^ 32"
    and "unat (zmd_reserved_blks_gc zmd) +
      unat (zmd_nr_total_blks zmd) * unat (zmd_reclaim_wm_gc_low zmd) div 100 \<le> 2 ^ 32"
  shows "lbz_check_need_reclaim_low zmd \<longleftrightarrow>
      unat (zmd_reserved_blks_gc zmd) \<le> unat (zmd_nr_allocable_blks zmd) \<and>
      unat (zmd_nr_allocable_blks zmd) < unat (zmd_reserved_blks_gc zmd) +
        unat (zmd_nr_total_blks zmd) * unat (zmd_reclaim_wm_gc_low zmd) div 100"
  using unat_diff_less [of "zmd_reserved_blks_gc zmd" _ "zmd_nr_allocable_blks zmd"] assms
  by (simp add: lbz_check_need_reclaim_low_def Let_def unat_wm [OF assms(1)])

theorem reclaim_low_window_witness:
  "\<not> lbz_check_need_reclaim_low (zmd_zero\<lparr>zmd_nr_total_blks := 1000, zmd_reclaim_wm_gc_low := 2,
       zmd_reserved_blks_gc := 100, zmd_nr_allocable_blks := 99\<rparr>) \<and>
   lbz_check_need_reclaim_low (zmd_zero\<lparr>zmd_nr_total_blks := 1000, zmd_reclaim_wm_gc_low := 2,
       zmd_reserved_blks_gc := 100, zmd_nr_allocable_blks := 100\<rparr>)"
proof -
  let ?zmd = "\<lambda>n. zmd_zero\<lparr>zmd_nr_total_blks := 1000, zmd_reclaim_wm_gc_low := 2,
       zmd_reserved_blks_gc := 100, zmd_nr_allocable_blks := n\<rparr>"
  show ?thesis
    using reclaim_low_window [of "?zmd 99"] reclaim_low_window [of "?zmd 100"] by simp
qed

end
