(* ===== verification/Gc_Context.thy ===== *)
theory Gc_Context
  imports Zone
begin

text \<open>
  \<^verbatim>\<open>include/lbz-gc.h\<close> and the trigger functions of \<^verbatim>\<open>lbz-gc.c\<close>: the collector's context, its
  state bits, and the wake-ups other components send to its thread. \<open>gc_awake\<close> records that
  \<open>wake_up_process\<close> made the thread runnable.
\<close>

datatype lbz_gc_state =
    LBZ_GC_STAT_NORMAL | LBZ_GC_STAT_FAULTY | LBZ_GC_STAT_RECLAIMING | LBZ_GC_STAT_EMERGENCY
  | LBZ_GC_STAT_READY | LBZ_GC_STAT_EXIT | LBZ_GC_STAT_EXITED

fun gc_state_bit :: "lbz_gc_state \<Rightarrow> nat" where
  "gc_state_bit LBZ_GC_STAT_NORMAL = 0"
| "gc_state_bit LBZ_GC_STAT_FAULTY = 1"
| "gc_state_bit LBZ_GC_STAT_RECLAIMING = 2"
| "gc_state_bit LBZ_GC_STAT_EMERGENCY = 3"
| "gc_state_bit LBZ_GC_STAT_READY = 4"
| "gc_state_bit LBZ_GC_STAT_EXIT = 5"
| "gc_state_bit LBZ_GC_STAT_EXITED = 6"

record lbz_gc_context =
  gc_awake :: bool
  gc_expire :: u32
  gc_state :: u64
  gc_last_jiffies :: u64
  gc_times :: u64
  gc_zone :: "zptr option"

text \<open>The context as the zeroing allocator returns it.\<close>

definition gc_ctx_zero :: lbz_gc_context where
  "gc_ctx_zero = \<lparr>gc_awake = False, gc_expire = 0, gc_state = 0, gc_last_jiffies = 0, gc_times = 0,
     gc_zone = None\<rparr>"

definition gc_test :: "lbz_gc_state \<Rightarrow> lbz_gc_context \<Rightarrow> bool" where
  "gc_test b ctx = bit (gc_state ctx) (gc_state_bit b)"

definition gc_set :: "lbz_gc_state \<Rightarrow> lbz_gc_context \<Rightarrow> lbz_gc_context" where
  "gc_set b ctx = ctx\<lparr>gc_state := Bit_Operations.set_bit (gc_state_bit b) (gc_state ctx)\<rparr>"

definition gc_clear :: "lbz_gc_state \<Rightarrow> lbz_gc_context \<Rightarrow> lbz_gc_context" where
  "gc_clear b ctx = ctx\<lparr>gc_state := Bit_Operations.unset_bit (gc_state_bit b) (gc_state ctx)\<rparr>"

definition lbz_complete_one_zone :: "lbz_gc_context \<Rightarrow> lbz_gc_context" where
  "lbz_complete_one_zone ctx = (gc_clear LBZ_GC_STAT_RECLAIMING ctx)\<lparr>gc_awake := True\<rparr>"

definition lbz_trigger_gc_reclaim_emergency :: "lbz_gc_context \<Rightarrow> lbz_gc_context" where
  "lbz_trigger_gc_reclaim_emergency ctx = (gc_set LBZ_GC_STAT_EMERGENCY ctx)\<lparr>gc_awake := True\<rparr>"

definition lbz_trigger_gc_reclaim :: "lbz_gc_context \<Rightarrow> lbz_gc_context" where
  "lbz_trigger_gc_reclaim ctx = (gc_set LBZ_GC_STAT_RECLAIMING ctx)\<lparr>gc_awake := True\<rparr>"

text \<open>The state bits do not touch the zone under collection.\<close>

lemma gc_zone_flags [simp]:
  "gc_zone (gc_set b ctx) = gc_zone ctx" "gc_zone (gc_clear b ctx) = gc_zone ctx"
  "gc_zone (lbz_complete_one_zone ctx) = gc_zone ctx" "gc_zone (lbz_trigger_gc_reclaim ctx) = gc_zone ctx"
  "gc_zone (lbz_trigger_gc_reclaim_emergency ctx) = gc_zone ctx"
  by (simp_all add: gc_set_def gc_clear_def lbz_complete_one_zone_def lbz_trigger_gc_reclaim_def
      lbz_trigger_gc_reclaim_emergency_def)

lemma gc_state_bit_inject [simp]: "gc_state_bit a = gc_state_bit b \<longleftrightarrow> a = b"
  by (cases a; cases b) simp_all

lemma gc_state_bit_less: "gc_state_bit a < 64"
  by (cases a) simp_all

lemma gc_test_set [bit_flags]: "gc_test a (gc_set b ctx) \<longleftrightarrow> a = b \<or> gc_test a ctx"
  by (auto simp: gc_test_def gc_set_def set_bit_bit_iff gc_state_bit_less)

lemma gc_test_clear [bit_flags]: "gc_test a (gc_clear b ctx) \<longleftrightarrow> a \<noteq> b \<and> gc_test a ctx"
  by (auto simp: gc_test_def gc_clear_def unset_bit_bit_iff)

lemma gc_test_awake [bit_flags]: "gc_test a (ctx\<lparr>gc_awake := w\<rparr>) = gc_test a ctx"
  by (simp add: gc_test_def)

end
