(* ===== verification/Zone_Alloc.thy ===== *)
theory Zone_Alloc
  imports Gc_Context
begin

text \<open>
  \<^verbatim>\<open>lbz-zone-metadata.c\<close>: the zone lists, the allocation of blocks from the active zone of a
  stream, and the choice of a victim zone for the collector. The theory states the life cycle
  of a zone as an invariant of the whole table (\<open>zmd_wf\<close>) and shows that the operations keep it.

  The compile option \<open>CONFIG_LBZ_NAT_SIT_STREAM_SUPPORT\<close> is the argument \<open>stream_support\<close>.
\<close>

section \<open>Zone lists\<close>

definition lbz_zone_del_list :: "zptr \<Rightarrow> lbz_zone_state \<Rightarrow> lbz_zone_metadata \<Rightarrow> lbz_zone_metadata option" where
  "lbz_zone_del_list p state zmd = do {
     zmd \<leftarrow> upd_zone p (lbz_clear_zone_state state) zmd;
     Some (zmd\<lparr>zmd_empty_zone_list := remove1 p (zmd_empty_zone_list zmd),
              zmd_full_zone_list := remove1 p (zmd_full_zone_list zmd),
              zmd_active_zone_list := remove1 p (zmd_active_zone_list zmd)\<rparr>)
   }"

definition lbz_zone_add_to_list :: "zptr \<Rightarrow> lbz_zone_state \<Rightarrow> lbz_zone_metadata \<Rightarrow> lbz_zone_metadata option" where
  "lbz_zone_add_to_list p state zmd =
     (case state of
        LBZ_ZONE_FULL \<Rightarrow> Some (zmd\<lparr>zmd_full_zone_list := p # zmd_full_zone_list zmd,
                                 zmd_full_zone_count := zmd_full_zone_count zmd + 1\<rparr>)
      | LBZ_ZONE_ACTIVE \<Rightarrow> Some (zmd\<lparr>zmd_active_zone_list := p # zmd_active_zone_list zmd\<rparr>)
      | LBZ_ZONE_GC \<Rightarrow> Some (zmd\<lparr>zmd_active_zone_list := p # zmd_active_zone_list zmd\<rparr>)
      | LBZ_ZONE_EMPTY \<Rightarrow> Some (zmd\<lparr>zmd_empty_zone_list := zmd_empty_zone_list zmd @ [p],
                                 zmd_empty_zone_count := zmd_empty_zone_count zmd + 1\<rparr>)
      | LBZ_ZONE_INIT \<Rightarrow> Some (zmd\<lparr>zmd_empty_zone_list := zmd_empty_zone_list zmd @ [p],
                                 zmd_empty_zone_count := zmd_empty_zone_count zmd + 1\<rparr>)
      | _ \<Rightarrow> None)"

definition get_free_zone :: "lbz_zone_metadata \<Rightarrow> zptr option \<times> lbz_zone_metadata" where
  "get_free_zone zmd =
     (case zmd_empty_zone_list zmd of
        [] \<Rightarrow> (None, zmd)
      | p # ps \<Rightarrow> (Some p, zmd\<lparr>zmd_empty_zone_list := ps,
                              zmd_empty_zone_count := zmd_empty_zone_count zmd - 1\<rparr>))"

section \<open>Allocation\<close>

text \<open>
  The part of \<open>lbz_zone_alloc_res\<close> that gives the stream a new active zone: \<open>Inl EAGAIN\<close> when
  there is no empty zone left.
\<close>

definition open_active_zone ::
  "bool \<Rightarrow> lbz_alloc_flag \<Rightarrow> nat \<Rightarrow> lbz_zone_metadata \<Rightarrow> lbz_gc_context \<Rightarrow>
     ((errno + zptr) \<times> lbz_zone_metadata \<times> lbz_gc_context) option" where
  "open_active_zone stream_support md sid zmd gc =
     (case get_free_zone zmd of
        (None, zmd) \<Rightarrow>
          (let zmd = zmd\<lparr>zmd_active_zone := (zmd_active_zone zmd)(sid := None)\<rparr>
           in if stream_support then Some (Inl EAGAIN, zmd, gc)
              else if md = LBZ_ALLOC_FLAG_GC then None
              else Some (Inl EAGAIN, zmd, lbz_trigger_gc_reclaim gc))
      | (Some p, zmd) \<Rightarrow> do {
          zmd \<leftarrow> upd_zone p (\<lambda>z. (lbz_set_zone_state LBZ_ZONE_ACTIVE
                     (lbz_get_zone (z\<lparr>z_stream := int sid\<rparr>)))\<lparr>z_state := BLK_ZONE_COND_EXP_OPEN\<rparr>)
                   (zmd\<lparr>zmd_active_zone := (zmd_active_zone zmd)(sid := Some p)\<rparr>);
          Some (Inr p, zmd, gc)
        })"

text \<open>The part of \<open>lbz_zone_alloc_res\<close> that takes one block of the stream's active zone \<open>p\<close>.\<close>

definition take_block :: "nat \<Rightarrow> zptr \<Rightarrow> lbz_zone_metadata \<Rightarrow> lbz_zone_metadata option" where
  "take_block sid p zmd = do {
     zmd \<leftarrow> upd_zone p (\<lambda>z. pending_write (alloc_res (lbz_get_zone z))) zmd;
     let zmd = zmd\<lparr>zmd_active_zone_writes := (zmd_active_zone_writes zmd)(sid := zmd_active_zone_writes zmd sid + 1),
                   zmd_nr_allocable_blks := zmd_nr_allocable_blks zmd - 1,
                   zmd_nr_valid_blks := zmd_nr_valid_blks zmd + 1\<rparr>;
     z \<leftarrow> zmd_zones zmd p;
     if z_wp_block z = zmd_zone_nr_blocks zmd
     then do {
       zmd \<leftarrow> upd_zone p (\<lambda>z. lbz_put_zone (lbz_set_zone_state LBZ_ZONE_TO_FULL
                                 (lbz_clear_zone_state LBZ_ZONE_ACTIVE z))) zmd;
       Some (zmd\<lparr>zmd_active_zone := (zmd_active_zone zmd)(sid := None)\<rparr>)
     }
     else Some zmd
   }"

text \<open>
  The handling after \<open>out:\<close> of a zone that was just opened tests \<open>ret\<close>, which is 0 there: the
  call of \<open>lbz_open_zone\<close> that would set it is commented out.
\<close>

definition lbz_zone_alloc_res ::
  "bool \<Rightarrow> bool \<Rightarrow> lbz_alloc_flag \<Rightarrow> nat \<Rightarrow> lbz_zone_metadata \<Rightarrow> lbz_gc_context \<Rightarrow>
     ((errno + zptr) \<times> lbz_zone_metadata \<times> lbz_gc_context) option" where
  "lbz_zone_alloc_res stream_support dev_faulty md sid zmd gc =
     (if dev_faulty then Some (Inl EIO, zmd, gc)
      else if md = LBZ_ALLOC_FLAG_USER \<and> zmd_nr_allocable_blks zmd < zmd_reserved_blks_gc zmd
      then Some (Inl EAGAIN, zmd, gc)
      else do {
        (r, zmd, gc) \<leftarrow>
          (case zmd_active_zone zmd sid of
             None \<Rightarrow> open_active_zone stream_support md sid zmd gc
           | Some p \<Rightarrow> do {
               z \<leftarrow> zmd_zones zmd p;
               if z_wp_block z = zmd_zone_nr_blocks zmd
               then do {
                 zmd \<leftarrow> upd_zone p lbz_put_zone zmd;
                 open_active_zone stream_support md sid zmd gc
               }
               else Some (Inr p, zmd, gc)
             });
        case r of
          Inl e \<Rightarrow> Some (Inl e, zmd, gc)
        | Inr p \<Rightarrow> do {
            zmd \<leftarrow> take_block sid p zmd;
            Some (Inr p, zmd, gc)
          }
      })"

section \<open>Victim selection\<close>

text \<open>
  The scan keeps the first zone of least weight; weights are compared as \<open>int\<close>, and the start
  value is the largest \<open>int\<close>.
\<close>

fun victim_scan :: "(zptr \<rightharpoonup> lbz_zone) \<Rightarrow> zptr list \<Rightarrow> zptr option \<Rightarrow> int \<Rightarrow> (zptr option \<times> int) option" where
  "victim_scan zones [] min_zone min_valid = Some (min_zone, min_valid)"
| "victim_scan zones (p # ps) min_zone min_valid =
     (case zones p of
        None \<Rightarrow> None
      | Some z \<Rightarrow> (if sint (z_weight z) < min_valid
                  then victim_scan zones ps (Some p) (sint (z_weight z))
                  else victim_scan zones ps min_zone min_valid))"

definition lbz_find_victim_zone ::
  "lbz_victim_mod \<Rightarrow> lbz_zone_metadata \<Rightarrow> (zptr option \<times> lbz_zone_metadata) option" where
  "lbz_find_victim_zone md zmd =
     (if zmd_full_zone_list zmd = [] then Some (None, zmd)
      else do {
        (min_zone, min_valid) \<leftarrow> victim_scan (zmd_zones zmd) (zmd_full_zone_list zmd) None (2 ^ 31 - 1);
        if zmd_zone_nr_blocks zmd \<le> word_of_int min_valid then Some (None, zmd)
        else do {
          p \<leftarrow> min_zone;
          z \<leftarrow> zmd_zones zmd p;
          if md = LBZ_VICTIM_REGULAR \<and> \<not> lbz_check_zone_low_wm zmd z then Some (None, zmd)
          else do {
            zmd \<leftarrow> upd_zone p (\<lambda>z. lbz_set_zone_state LBZ_ZONE_GC (lbz_get_zone z))
                     (zmd\<lparr>zmd_full_zone_list := remove1 p (zmd_full_zone_list zmd)\<rparr>);
            Some (Some p, zmd\<lparr>zmd_full_zone_count := zmd_full_zone_count zmd - 1,
                              zmd_active_zone_count := zmd_active_zone_count zmd + 1\<rparr>)
          }
        }
      })"

section \<open>The life cycle of a zone\<close>

text \<open>
  The flags place a zone in one of five phases: empty, active for a stream, written to its
  end (waiting for its writes to complete), full (a candidate for collection), under
  collection.
\<close>

datatype zone_phase = PEmpty | PActive | PToFull | PFull | PGc

definition zone_phase :: "lbz_zone \<Rightarrow> zone_phase" where
  "zone_phase z =
     (if is_lbz_zone_state LBZ_ZONE_GC z then PGc
      else if is_lbz_zone_state LBZ_ZONE_FULL z then PFull
      else if is_lbz_zone_state LBZ_ZONE_TO_FULL z then PToFull
      else if is_lbz_zone_state LBZ_ZONE_ACTIVE z then PActive
      else PEmpty)"

fun phase_wp :: "zone_phase \<Rightarrow> u32 \<Rightarrow> u32 \<Rightarrow> bool" where
  "phase_wp PEmpty nrb wp = (wp = 0)"
| "phase_wp PActive nrb wp = (wp < nrb)"
| "phase_wp _ nrb wp = (wp = nrb)"

definition zone_ok :: "u32 \<Rightarrow> lbz_zone \<Rightarrow> bool" where
  "zone_ok nrb z \<longleftrightarrow> zone_acct nrb z \<and> phase_wp (zone_phase z) nrb (z_wp_block z)"

definition phase_at :: "lbz_zone_metadata \<Rightarrow> zptr \<Rightarrow> zone_phase \<Rightarrow> bool" where
  "phase_at zmd p ph \<longleftrightarrow> (\<exists>z. zmd_zones zmd p = Some z \<and> zone_phase z = ph)"

definition wf_zones :: "lbz_zone_metadata \<Rightarrow> bool" where
  "wf_zones zmd \<longleftrightarrow> zmd_zone_nr_blocks zmd \<noteq> 0 \<and>
     (\<forall>p. zmd_zones zmd p \<noteq> None \<longleftrightarrow> p < unat (zmd_nr_zones zmd)) \<and>
     (\<forall>p z. zmd_zones zmd p = Some z \<longrightarrow> zone_ok (zmd_zone_nr_blocks zmd) z)"

definition wf_lists :: "lbz_zone_metadata \<Rightarrow> bool" where
  "wf_lists zmd \<longleftrightarrow>
     distinct (zmd_empty_zone_list zmd) \<and> distinct (zmd_full_zone_list zmd) \<and>
     (\<forall>p. p \<in> set (zmd_empty_zone_list zmd) \<longleftrightarrow> phase_at zmd p PEmpty) \<and>
     (\<forall>p. p \<in> set (zmd_full_zone_list zmd) \<longleftrightarrow> phase_at zmd p PFull) \<and>
     zmd_empty_zone_count zmd = of_nat (length (zmd_empty_zone_list zmd)) \<and>
     zmd_full_zone_count zmd = of_nat (length (zmd_full_zone_list zmd))"

definition wf_active :: "lbz_zone_metadata \<Rightarrow> bool" where
  "wf_active zmd \<longleftrightarrow>
     (\<forall>sid p. zmd_active_zone zmd sid = Some p \<longrightarrow> sid < LBZ_ZONE_MAX_STREAM \<and> phase_at zmd p PActive) \<and>
     (\<forall>p. phase_at zmd p PActive \<longrightarrow> (\<exists>sid. zmd_active_zone zmd sid = Some p)) \<and>
     (\<forall>i j p. zmd_active_zone zmd i = Some p \<and> zmd_active_zone zmd j = Some p \<longrightarrow> i = j)"

definition wf_sums :: "lbz_zone_metadata \<Rightarrow> bool" where
  "wf_sums zmd \<longleftrightarrow>
     zmd_nr_allocable_blks zmd =
       msum (unat (zmd_nr_zones zmd)) (zmd_zones zmd) (\<lambda>z. zmd_zone_nr_blocks zmd - z_wp_block z) \<and>
     zmd_nr_valid_blks zmd = msum (unat (zmd_nr_zones zmd)) (zmd_zones zmd) z_weight"

definition zmd_wf :: "lbz_zone_metadata \<Rightarrow> bool" where
  "zmd_wf zmd \<longleftrightarrow> wf_zones zmd \<and> wf_lists zmd \<and> wf_active zmd \<and> wf_sums zmd"

lemmas zmd_wf_defs = zmd_wf_def wf_zones_def wf_lists_def wf_active_def wf_sums_def

lemma zone_phase_cong: "z_flags y = z_flags z \<Longrightarrow> zone_phase y = zone_phase z"
  unfolding zone_phase_def by (simp add: is_state_cong [of y z])

lemma zone_phase_frame [zone_simps]:
  "zone_phase (lbz_get_zone z) = zone_phase z"
  "zone_phase (lbz_put_zone z) = zone_phase z"
  "zone_phase (pending_write z) = zone_phase z"
  "zone_phase (alloc_res z) = zone_phase z"
  "zone_phase (lbz_zone_complete_write z) = zone_phase z"
  "zone_phase (z\<lparr>z_state := c\<rparr>) = zone_phase z"
  "zone_phase (z\<lparr>z_stream := k\<rparr>) = zone_phase z"
  "zone_phase (z\<lparr>z_zrms := r\<rparr>) = zone_phase z"
  "zone_phase (z\<lparr>z_weight := w\<rparr>) = zone_phase z"
  by (rule zone_phase_cong; simp add: zone_simps)+

lemma phase_at_upd [simp]:
  "phase_at (zmd\<lparr>zmd_zones := (zmd_zones zmd)(p \<mapsto> z)\<rparr>) q ph =
     (if q = p then zone_phase z = ph else phase_at zmd q ph)"
  by (simp add: phase_at_def)

text \<open>Every zone is in one phase, so the lists and the active zones do not overlap.\<close>

lemma phase_at_unique: "phase_at zmd p a \<Longrightarrow> phase_at zmd p b \<Longrightarrow> a = b"
  by (auto simp: phase_at_def)

lemma zmd_wf_zone_less: "zmd_wf zmd \<Longrightarrow> zmd_zones zmd p = Some z \<Longrightarrow> p < unat (zmd_nr_zones zmd)"
  unfolding zmd_wf_def wf_zones_def by (metis option.distinct(1))

lemma zmd_wf_zone_ok: "zmd_wf zmd \<Longrightarrow> zmd_zones zmd p = Some z \<Longrightarrow> zone_ok (zmd_zone_nr_blocks zmd) z"
  unfolding zmd_wf_def wf_zones_def by blast

lemma wf_activeI:
  assumes "\<And>sid p. zmd_active_zone zmd sid = Some p \<Longrightarrow> phase_at zmd p PActive"
    and "\<And>sid p. zmd_active_zone zmd sid = Some p \<Longrightarrow> sid < LBZ_ZONE_MAX_STREAM"
    and "\<And>p. phase_at zmd p PActive \<Longrightarrow> \<exists>sid. zmd_active_zone zmd sid = Some p"
    and "\<And>i j p. zmd_active_zone zmd i = Some p \<Longrightarrow> zmd_active_zone zmd j = Some p \<Longrightarrow> i = j"
  shows "wf_active zmd"
  using assms unfolding wf_active_def by blast

lemma active_phase: "zmd_wf zmd \<Longrightarrow> zmd_active_zone zmd sid = Some p \<Longrightarrow> phase_at zmd p PActive"
  unfolding zmd_wf_def wf_active_def by blast

lemma active_less: "zmd_wf zmd \<Longrightarrow> zmd_active_zone zmd sid = Some p \<Longrightarrow> sid < LBZ_ZONE_MAX_STREAM"
  unfolding zmd_wf_def wf_active_def by blast

lemma active_stream: "zmd_wf zmd \<Longrightarrow> phase_at zmd p PActive \<Longrightarrow> \<exists>sid. zmd_active_zone zmd sid = Some p"
  unfolding zmd_wf_def wf_active_def by blast

lemma active_inj:
  "zmd_wf zmd \<Longrightarrow> zmd_active_zone zmd i = Some p \<Longrightarrow> zmd_active_zone zmd j = Some p \<Longrightarrow> i = j"
  unfolding zmd_wf_def wf_active_def by blast

text \<open>An update that keeps the phase, the write pointer and the weight of one zone.\<close>

lemma zmd_wf_upd_same:
  assumes wf: "zmd_wf zmd" and p: "zmd_zones zmd p = Some z"
    and ph: "zone_phase y = zone_phase z" and wp: "z_wp_block y = z_wp_block z"
    and w: "z_weight y = z_weight z" and acct: "zone_acct (zmd_zone_nr_blocks zmd) y"
  shows "zmd_wf (zmd\<lparr>zmd_zones := (zmd_zones zmd)(p \<mapsto> y)\<rparr>)"
proof -
  let ?zmd = "zmd\<lparr>zmd_zones := (zmd_zones zmd)(p \<mapsto> y)\<rparr>"
  have at: "phase_at ?zmd q k = phase_at zmd q k" for q k
    using p ph by (auto simp: phase_at_def)
  have "zone_ok (zmd_zone_nr_blocks zmd) y"
    using acct ph wp zmd_wf_zone_ok [OF wf p] by (simp add: zone_ok_def)
  then have "wf_zones ?zmd" using wf p unfolding zmd_wf_def wf_zones_def by auto
  moreover have "wf_lists ?zmd" using wf unfolding zmd_wf_def wf_lists_def at by simp
  moreover have "wf_active ?zmd" using wf unfolding zmd_wf_def wf_active_def at by simp
  moreover have "wf_sums ?zmd" using wf unfolding zmd_wf_def wf_sums_def
    by (simp add: msum_same [of "zmd_zones zmd" p z] p wp w)
  ultimately show ?thesis by (simp add: zmd_wf_def)
qed

lemma zmd_wf_get_zone: "zmd_wf zmd \<Longrightarrow> upd_zone p lbz_get_zone zmd = Some zmd' \<Longrightarrow> zmd_wf zmd'"
  by (auto simp: upd_zone_Some zone_simps zone_ok_def intro!: zmd_wf_upd_same dest: zmd_wf_zone_ok)

lemma zmd_wf_put_zone: "zmd_wf zmd \<Longrightarrow> upd_zone p lbz_put_zone zmd = Some zmd' \<Longrightarrow> zmd_wf zmd'"
  by (auto simp: upd_zone_Some zone_simps zone_ok_def intro!: zmd_wf_upd_same dest: zmd_wf_zone_ok)

text \<open>Opening the first empty zone of the list for a stream that has no active zone.\<close>

lemma zmd_wf_open:
  assumes wf: "zmd_wf zmd" and l: "zmd_empty_zone_list zmd = p # ps"
    and none: "zmd_active_zone zmd sid = None" and sid: "sid < LBZ_ZONE_MAX_STREAM" and p: "zmd_zones zmd p = Some z"
    and ph: "zone_phase y = PActive" and wp: "z_wp_block y = z_wp_block z"
    and w: "z_weight y = z_weight z" and acct: "zone_acct (zmd_zone_nr_blocks zmd) y"
  shows "zmd_wf (zmd\<lparr>zmd_empty_zone_list := ps, zmd_empty_zone_count := zmd_empty_zone_count zmd - 1,
      zmd_active_zone := (zmd_active_zone zmd)(sid := Some p),
      zmd_zones := (zmd_zones zmd)(p \<mapsto> y)\<rparr>)" (is "zmd_wf ?zmd")
proof -
  have at: "phase_at ?zmd q k = (if q = p then k = PActive else phase_at zmd q k)" for q k
    using ph by (auto simp: phase_at_def)
  have e: "phase_at zmd p PEmpty" using wf l unfolding zmd_wf_def wf_lists_def by auto
  then have na: "\<not> phase_at zmd p PActive" "\<not> phase_at zmd p PFull" by (auto dest: phase_at_unique)
  have "z_wp_block z = 0" using e p zmd_wf_zone_ok [OF wf p] by (simp add: phase_at_def zone_ok_def)
  moreover have "0 < zmd_zone_nr_blocks zmd" using wf by (simp add: zmd_wf_def wf_zones_def word_neq_0_conv)
  ultimately have "zone_ok (zmd_zone_nr_blocks zmd) y" using acct ph wp by (simp add: zone_ok_def)
  then have "wf_zones ?zmd" using wf p unfolding zmd_wf_def wf_zones_def by auto
  moreover have "wf_lists ?zmd"
    using wf l na e unfolding zmd_wf_def wf_lists_def at by auto
  moreover have "wf_active ?zmd"
  proof (rule wf_activeI)
    fix q assume "phase_at ?zmd q PActive"
    then show "\<exists>k. zmd_active_zone ?zmd k = Some q"
    proof (cases "q = p")
      case False
      with \<open>phase_at ?zmd q PActive\<close> at obtain k where "zmd_active_zone zmd k = Some q"
        using active_stream [OF wf] by metis
      moreover from this none have "k \<noteq> sid" by auto
      ultimately show ?thesis by auto
    qed auto
  qed (use na sid active_phase [OF wf] active_less [OF wf] active_inj [OF wf] at in \<open>auto split: if_splits\<close>)
  moreover have "wf_sums ?zmd" using wf unfolding zmd_wf_def wf_sums_def
    by (simp add: msum_same [of "zmd_zones zmd" p z] p wp w)
  ultimately show ?thesis by (simp add: zmd_wf_def)
qed

text \<open>One block of the active zone is taken and the zone stays active.\<close>

lemma zmd_wf_take:
  assumes wf: "zmd_wf zmd" and p: "zmd_zones zmd p = Some z"
    and ph: "zone_phase z = PActive" "zone_phase y = PActive"
    and wp: "z_wp_block y = z_wp_block z + 1" "z_wp_block y \<noteq> zmd_zone_nr_blocks zmd"
    and w: "z_weight y = z_weight z + 1" and acct: "zone_acct (zmd_zone_nr_blocks zmd) y"
  shows "zmd_wf (zmd\<lparr>zmd_zones := (zmd_zones zmd)(p \<mapsto> y), zmd_active_zone_writes := f,
      zmd_nr_allocable_blks := zmd_nr_allocable_blks zmd - 1,
      zmd_nr_valid_blks := zmd_nr_valid_blks zmd + 1\<rparr>)" (is "zmd_wf ?zmd")
proof -
  have at: "phase_at ?zmd q k = phase_at zmd q k" for q k
    using p ph by (auto simp: phase_at_def)
  have "z_wp_block y < zmd_zone_nr_blocks zmd" using acct wp(2)
    by (simp add: zone_acct_def order_less_le)
  then have "zone_ok (zmd_zone_nr_blocks zmd) y" using acct ph by (simp add: zone_ok_def)
  then have "wf_zones ?zmd" using wf p unfolding zmd_wf_def wf_zones_def by auto
  moreover have "wf_lists ?zmd" using wf unfolding zmd_wf_def wf_lists_def at by simp
  moreover have "wf_active ?zmd" using wf unfolding zmd_wf_def wf_active_def at by simp
  moreover have "wf_sums ?zmd" using wf unfolding zmd_wf_def wf_sums_def
    by (simp add: msum_upd [of "zmd_zones zmd" p z] p zmd_wf_zone_less [OF wf p] wp w)
  ultimately show ?thesis by (simp add: zmd_wf_def)
qed

text \<open>The last block of the active zone is taken: the stream loses its active zone.\<close>

lemma zmd_wf_take_last:
  assumes wf: "zmd_wf zmd" and p: "zmd_zones zmd p = Some z" and sid: "zmd_active_zone zmd sid = Some p"
    and ph: "zone_phase y = PToFull"
    and wp: "z_wp_block y = z_wp_block z + 1" "z_wp_block y = zmd_zone_nr_blocks zmd"
    and w: "z_weight y = z_weight z + 1" and acct: "zone_acct (zmd_zone_nr_blocks zmd) y"
  shows "zmd_wf (zmd\<lparr>zmd_zones := (zmd_zones zmd)(p \<mapsto> y), zmd_active_zone_writes := f,
      zmd_nr_allocable_blks := zmd_nr_allocable_blks zmd - 1,
      zmd_nr_valid_blks := zmd_nr_valid_blks zmd + 1,
      zmd_active_zone := (zmd_active_zone zmd)(sid := None)\<rparr>)" (is "zmd_wf ?zmd")
proof -
  have at: "phase_at ?zmd q k = (if q = p then k = PToFull else phase_at zmd q k)" for q k
    using ph by (auto simp: phase_at_def)
  have a: "phase_at zmd p PActive" using wf sid unfolding zmd_wf_def wf_active_def by blast
  then have na: "\<not> phase_at zmd p PEmpty" "\<not> phase_at zmd p PFull" by (auto dest: phase_at_unique)
  have "zone_ok (zmd_zone_nr_blocks zmd) y" using acct ph wp(2) by (simp add: zone_ok_def)
  then have "wf_zones ?zmd" using wf p unfolding zmd_wf_def wf_zones_def by auto
  moreover have "wf_lists ?zmd" using wf na unfolding zmd_wf_def wf_lists_def at by auto
  moreover have "wf_active ?zmd"
  proof (rule wf_activeI)
    fix q assume q: "phase_at ?zmd q PActive"
    then have "q \<noteq> p" using at by auto
    with q at obtain k where "zmd_active_zone zmd k = Some q" using active_stream [OF wf] by metis
    with sid \<open>q \<noteq> p\<close> have "zmd_active_zone ?zmd k = Some q" by auto
    then show "\<exists>k. zmd_active_zone ?zmd k = Some q" by blast
  next
    fix i q assume "zmd_active_zone ?zmd i = Some q"
    then have i: "i \<noteq> sid" "zmd_active_zone zmd i = Some q" by (auto split: if_splits)
    with active_inj [OF wf] sid have "q \<noteq> p" by blast
    with i active_phase [OF wf] at show "phase_at ?zmd q PActive" by auto
  qed (use active_inj [OF wf] active_less [OF wf] in \<open>auto split: if_splits\<close>)
  moreover have "wf_sums ?zmd" using wf unfolding zmd_wf_def wf_sums_def
    by (simp add: msum_upd [of "zmd_zones zmd" p z] p zmd_wf_zone_less [OF wf p] wp w)
  ultimately show ?thesis by (simp add: zmd_wf_def)
qed

section \<open>What an allocation does\<close>

lemma zone_phase_flags:
  "zone_phase z = PActive \<Longrightarrow> zone_phase (lbz_set_zone_state LBZ_ZONE_TO_FULL
     (lbz_clear_zone_state LBZ_ZONE_ACTIVE z)) = PToFull"
  "zone_phase z = PEmpty \<Longrightarrow> zone_phase (lbz_set_zone_state LBZ_ZONE_ACTIVE z) = PActive"
  "zone_phase (lbz_set_zone_state LBZ_ZONE_GC z) = PGc"
  "zone_phase (zone_only_state LBZ_ZONE_FULL z) = PFull"
  "zone_phase (zone_only_state LBZ_ZONE_INIT z) = PEmpty"
  by (auto simp: zone_phase_def bit_flags split: if_splits)

definition taken :: "lbz_zone \<Rightarrow> lbz_zone" where
  "taken z = pending_write (alloc_res (lbz_get_zone z))"

definition taken_last :: "lbz_zone \<Rightarrow> lbz_zone" where
  "taken_last z = lbz_put_zone (lbz_set_zone_state LBZ_ZONE_TO_FULL
     (lbz_clear_zone_state LBZ_ZONE_ACTIVE (taken z)))"

lemma taken_fields [zone_simps]:
  "z_wp_block (taken z) = z_wp_block z + 1" "z_weight (taken z) = z_weight z + 1"
  "z_pending_write_io (taken z) = z_pending_write_io z + 1" "z_refcount (taken z) = z_refcount z + 1"
  "zone_phase (taken z) = zone_phase z" "z_zrms (taken z) = z_zrms z" "z_start_sector (taken z) = z_start_sector z"
  by (simp_all add: taken_def zone_simps)

lemma taken_last_fields [zone_simps]:
  "z_wp_block (taken_last z) = z_wp_block z + 1" "z_weight (taken_last z) = z_weight z + 1"
  "z_pending_write_io (taken_last z) = z_pending_write_io z + 1" "z_refcount (taken_last z) = z_refcount z"
  "z_zrms (taken_last z) = z_zrms z" "z_start_sector (taken_last z) = z_start_sector z"
  by (simp_all add: taken_last_def zone_simps)

text \<open>The whole of \<open>take_block\<close> as one update of the zone and the counters.\<close>

lemma take_block_eq:
  assumes "zmd_zones zmd p = Some z"
  shows "take_block sid p zmd =
    (if z_wp_block z + 1 = zmd_zone_nr_blocks zmd
     then Some (zmd\<lparr>zmd_zones := (zmd_zones zmd)(p \<mapsto> taken_last z),
            zmd_active_zone_writes := (zmd_active_zone_writes zmd)(sid := zmd_active_zone_writes zmd sid + 1),
            zmd_nr_allocable_blks := zmd_nr_allocable_blks zmd - 1,
            zmd_nr_valid_blks := zmd_nr_valid_blks zmd + 1,
            zmd_active_zone := (zmd_active_zone zmd)(sid := None)\<rparr>)
     else Some (zmd\<lparr>zmd_zones := (zmd_zones zmd)(p \<mapsto> taken z),
            zmd_active_zone_writes := (zmd_active_zone_writes zmd)(sid := zmd_active_zone_writes zmd sid + 1),
            zmd_nr_allocable_blks := zmd_nr_allocable_blks zmd - 1,
            zmd_nr_valid_blks := zmd_nr_valid_blks zmd + 1\<rparr>))"
  using assms
  by (simp add: take_block_def upd_zone_def Let_def taken_def [symmetric] taken_last_def zone_simps)

lemma zone_acct_taken:
  assumes "zone_acct nrb z" "z_wp_block z < nrb"
  shows "zone_acct nrb (taken z)" "zone_acct nrb (taken_last z)"
  using zone_acct_alloc [of nrb "lbz_get_zone z"] assms
  by (simp_all add: taken_def taken_last_def zone_simps)

lemma take_block_wf:
  assumes wf: "zmd_wf zmd" and sid: "zmd_active_zone zmd sid = Some p"
  shows "\<exists>zmd'. take_block sid p zmd = Some zmd' \<and> zmd_wf zmd'"
proof -
  from active_phase [OF wf sid] obtain z where p: "zmd_zones zmd p = Some z" "zone_phase z = PActive"
    by (auto simp: phase_at_def)
  have ok: "zone_acct (zmd_zone_nr_blocks zmd) z" "z_wp_block z < zmd_zone_nr_blocks zmd"
    using zmd_wf_zone_ok [OF wf p(1)] p(2) by (auto simp: zone_ok_def)
  have acct: "zone_acct (zmd_zone_nr_blocks zmd) (taken z)" "zone_acct (zmd_zone_nr_blocks zmd) (taken_last z)"
    using zone_acct_taken [OF ok] by auto
  have last: "zone_phase (taken_last z) = PToFull"
    using p(2) by (simp add: taken_last_def zone_simps zone_phase_flags)
  show ?thesis
  proof (cases "z_wp_block z + 1 = zmd_zone_nr_blocks zmd")
    case True
    show ?thesis
      unfolding take_block_eq [OF p(1)] using True p last acct
      by (auto intro!: zmd_wf_take_last [OF wf p(1) sid] simp: zone_simps)
  next
    case False
    show ?thesis
      unfolding take_block_eq [OF p(1)] using False p acct
      by (auto intro!: zmd_wf_take [OF wf p(1)] simp: zone_simps)
  qed
qed

definition opened :: "nat \<Rightarrow> lbz_zone \<Rightarrow> lbz_zone" where
  "opened sid z = (lbz_set_zone_state LBZ_ZONE_ACTIVE
     (lbz_get_zone (z\<lparr>z_stream := int sid\<rparr>)))\<lparr>z_state := BLK_ZONE_COND_EXP_OPEN\<rparr>"

lemma opened_fields [zone_simps]:
  "z_wp_block (opened sid z) = z_wp_block z" "z_weight (opened sid z) = z_weight z"
  "z_pending_write_io (opened sid z) = z_pending_write_io z" "z_zrms (opened sid z) = z_zrms z"
  "z_start_sector (opened sid z) = z_start_sector z" "z_refcount (opened sid z) = z_refcount z + 1" "zone_acct nrb (opened sid z) = zone_acct nrb z"
  by (simp_all add: opened_def zone_simps)

lemma opened_phase: "zone_phase z = PEmpty \<Longrightarrow> zone_phase (opened sid z) = PActive"
  by (simp add: opened_def zone_simps zone_phase_flags)

lemma open_active_zone_eq:
  assumes "zmd_empty_zone_list zmd = p # ps" "zmd_zones zmd p = Some z"
  shows "open_active_zone ss md sid zmd gc =
    Some (Inr p, zmd\<lparr>zmd_empty_zone_list := ps, zmd_empty_zone_count := zmd_empty_zone_count zmd - 1,
      zmd_active_zone := (zmd_active_zone zmd)(sid := Some p),
      zmd_zones := (zmd_zones zmd)(p \<mapsto> opened sid z)\<rparr>, gc)"
  using assms by (simp add: open_active_zone_def get_free_zone_def upd_zone_def opened_def)

lemma open_active_zone_wf:
  assumes wf: "zmd_wf zmd" and sid: "sid < LBZ_ZONE_MAX_STREAM" "zmd_active_zone zmd sid = None"
    and l: "zmd_empty_zone_list zmd = p # ps"
  shows "\<exists>zmd'. open_active_zone ss md sid zmd gc = Some (Inr p, zmd', gc) \<and> zmd_wf zmd' \<and>
    zmd_active_zone zmd' sid = Some p"
proof -
  have "phase_at zmd p PEmpty" using wf l unfolding zmd_wf_def wf_lists_def by auto
  then obtain z where p: "zmd_zones zmd p = Some z" "zone_phase z = PEmpty"
    by (auto simp: phase_at_def)
  have "zone_acct (zmd_zone_nr_blocks zmd) (opened sid z)"
    using zmd_wf_zone_ok [OF wf p(1)] by (simp add: zone_ok_def zone_simps)
  then show ?thesis
    unfolding open_active_zone_eq [OF l p(1)]
    using zmd_wf_open [OF wf l sid(2) sid(1) p(1) opened_phase [OF p(2)], of sid]
    by (simp add: zone_simps)
qed

lemma active_not_full:
  assumes wf: "zmd_wf zmd" and sid: "zmd_active_zone zmd sid = Some p"
  shows "\<exists>z. zmd_zones zmd p = Some z \<and> z_wp_block z \<noteq> zmd_zone_nr_blocks zmd"
proof -
  from active_phase [OF wf sid] obtain z where p: "zmd_zones zmd p = Some z" "zone_phase z = PActive"
    by (auto simp: phase_at_def)
  with zmd_wf_zone_ok [OF wf p(1)] show ?thesis by (auto simp: zone_ok_def)
qed

text \<open>The result of an allocation on a well-formed table, branch by branch.\<close>

definition alloc_blocked :: "bool \<Rightarrow> lbz_alloc_flag \<Rightarrow> nat \<Rightarrow> lbz_zone_metadata \<Rightarrow> bool" where
  "alloc_blocked dev_faulty md sid zmd \<longleftrightarrow>
     dev_faulty \<or>
     md = LBZ_ALLOC_FLAG_USER \<and> zmd_nr_allocable_blks zmd < zmd_reserved_blks_gc zmd \<or>
     zmd_active_zone zmd sid = None \<and> zmd_empty_zone_list zmd = []"

lemma alloc_res_blocked:
  assumes "zmd_wf zmd" "alloc_blocked dev_faulty md sid zmd"
  shows "lbz_zone_alloc_res True dev_faulty md sid zmd gc =
    Some (Inl (if dev_faulty then EIO else EAGAIN), zmd, gc)"
proof -
  have "zmd\<lparr>zmd_active_zone := (zmd_active_zone zmd)(sid := None)\<rparr> = zmd"
    if "zmd_active_zone zmd sid = None"
    using that by (simp add: fun_upd_idem)
  with assms show ?thesis
    by (auto simp: lbz_zone_alloc_res_def alloc_blocked_def open_active_zone_def get_free_zone_def)
qed

lemma alloc_res_success:
  assumes wf: "zmd_wf zmd" and sid: "sid < LBZ_ZONE_MAX_STREAM"
    and nb: "\<not> alloc_blocked dev_faulty md sid zmd"
  shows "\<exists>p zmd1 zmd'. lbz_zone_alloc_res ss dev_faulty md sid zmd gc = Some (Inr p, zmd', gc) \<and>
    zmd_wf zmd1 \<and> zmd_active_zone zmd1 sid = Some p \<and> take_block sid p zmd1 = Some zmd' \<and> zmd_wf zmd' \<and>
    (if zmd_active_zone zmd sid = None
     then p = hd (zmd_empty_zone_list zmd) \<and> open_active_zone ss md sid zmd gc = Some (Inr p, zmd1, gc)
     else zmd1 = zmd)"
proof (cases "zmd_active_zone zmd sid")
  case None
  with nb obtain p ps where l: "zmd_empty_zone_list zmd = p # ps"
    by (cases "zmd_empty_zone_list zmd") (auto simp: alloc_blocked_def)
  from open_active_zone_wf [OF wf sid None l] obtain zmd1
    where o: "open_active_zone ss md sid zmd gc = Some (Inr p, zmd1, gc)" "zmd_wf zmd1"
      "zmd_active_zone zmd1 sid = Some p" by blast
  from take_block_wf [OF o(2,3)] obtain zmd' where t: "take_block sid p zmd1 = Some zmd'" "zmd_wf zmd'"
    by blast
  show ?thesis
    using None nb l o t by (auto simp: lbz_zone_alloc_res_def alloc_blocked_def)
next
  case (Some p)
  from take_block_wf [OF wf Some] obtain zmd' where t: "take_block sid p zmd = Some zmd'" "zmd_wf zmd'"
    by blast
  from active_not_full [OF wf Some] obtain z
    where "zmd_zones zmd p = Some z" "z_wp_block z \<noteq> zmd_zone_nr_blocks zmd" by blast
  then show ?thesis
    using Some nb t wf by (auto simp: lbz_zone_alloc_res_def alloc_blocked_def)
qed

lemma alloc_res_not_blocked:
  "lbz_zone_alloc_res ss dev_faulty md sid zmd gc = Some (Inr p, zmd', gc') \<Longrightarrow> \<not> alloc_blocked dev_faulty md sid zmd"
  by (auto simp: lbz_zone_alloc_res_def alloc_blocked_def open_active_zone_def get_free_zone_def Let_def split: if_splits)

text \<open>
  C10. Allocation keeps the zone table well-formed (with stream support compiled in): it never
  stops the kernel, it fails with \<open>EIO\<close> on a faulty device and with \<open>EAGAIN\<close> exactly when the
  user would enter the collector's reserve or the stream has neither an active nor an empty
  zone, leaving the table unchanged, and otherwise it returns a zone.
\<close>

theorem alloc_res_wf:
  assumes "zmd_wf zmd" and "sid < LBZ_ZONE_MAX_STREAM"
  shows "\<exists>r zmd'. lbz_zone_alloc_res True dev_faulty md sid zmd gc = Some (r, zmd', gc) \<and> zmd_wf zmd' \<and>
    (if dev_faulty then r = Inl EIO \<and> zmd' = zmd
     else if alloc_blocked dev_faulty md sid zmd then r = Inl EAGAIN \<and> zmd' = zmd
     else \<exists>p. r = Inr p)"
proof (cases "alloc_blocked dev_faulty md sid zmd")
  case True
  with alloc_res_blocked [OF assms(1) True] assms(1) show ?thesis by (cases dev_faulty) auto
next
  case False
  with alloc_res_success [OF assms False, of True gc] show ?thesis
    by (auto simp: alloc_blocked_def)
qed

text \<open>
  The references of a zone, apart from the one its stream holds while it is active, and the
  geometry, which no operation on the table changes.
\<close>

definition active_ref :: "lbz_zone \<Rightarrow> u32" where
  "active_ref z = (if zone_phase z = PActive then 1 else 0)"

definition alloc_refs :: "lbz_zone \<Rightarrow> lbz_zone \<Rightarrow> bool" where
  "alloc_refs z z' \<longleftrightarrow> z_refcount z' - active_ref z' = z_refcount z - active_ref z + 1 \<and>
     (is_lbz_zone_state LBZ_ZONE_TO_FULL z' \<longrightarrow> is_lbz_zone_state LBZ_ZONE_TO_FULL z \<or> zone_phase z' = PToFull)"

definition zmd_const :: "lbz_zone_metadata \<Rightarrow> lbz_zone_metadata \<Rightarrow> bool" where
  "zmd_const zmd zmd' \<longleftrightarrow> zmd_nr_zones zmd' = zmd_nr_zones zmd \<and> zmd_zone_nr_blocks zmd' = zmd_zone_nr_blocks zmd \<and>
     zmd_zone_nr_reverse_map_blocks zmd' = zmd_zone_nr_reverse_map_blocks zmd"

lemma zmd_const_refl [simp]: "zmd_const zmd zmd"
  by (simp add: zmd_const_def)

lemma zmd_const_trans: "zmd_const a b \<Longrightarrow> zmd_const b c \<Longrightarrow> zmd_const a c"
  by (simp add: zmd_const_def)

lemma opened_to_full:
  "is_lbz_zone_state LBZ_ZONE_TO_FULL (opened sid z) = is_lbz_zone_state LBZ_ZONE_TO_FULL z"
  by (simp add: opened_def is_lbz_zone_state_def lbz_set_zone_state_def lbz_get_zone_def bit_set_bit_iff)

lemma taken_to_full: "is_lbz_zone_state LBZ_ZONE_TO_FULL (taken z) = is_lbz_zone_state LBZ_ZONE_TO_FULL z"
  by (simp add: taken_def bit_flags)

text \<open>The change of the table by one allocation.\<close>

lemma alloc_res_step:
  assumes "zmd_wf zmd" and "sid < LBZ_ZONE_MAX_STREAM"
    and "lbz_zone_alloc_res ss dev_faulty md sid zmd gc = Some (Inr p, zmd', gc')"
  shows "\<exists>z z'. alloc_refs z z' \<and> zmd_const zmd zmd' \<and> zmd_zones zmd p = Some z \<and> zmd_zones zmd' p = Some z' \<and>
      z_wp_block z < zmd_zone_nr_blocks zmd \<and>
      z_wp_block z' = z_wp_block z + 1 \<and> z_weight z' = z_weight z + 1 \<and>
      z_pending_write_io z' = z_pending_write_io z + 1 \<and> z_zrms z' = z_zrms z \<and>
      z_start_sector z' = z_start_sector z \<and>
      zone_phase z' = (if z_wp_block z' = zmd_zone_nr_blocks zmd then PToFull else PActive) \<and>
      (\<forall>q. q \<noteq> p \<longrightarrow> zmd_zones zmd' q = zmd_zones zmd q) \<and>
      zmd_nr_allocable_blks zmd' = zmd_nr_allocable_blks zmd - 1 \<and>
      zmd_nr_valid_blks zmd' = zmd_nr_valid_blks zmd + 1"
proof -
  have nb: "\<not> alloc_blocked dev_faulty md sid zmd" by (rule alloc_res_not_blocked [OF assms(3)])
  from alloc_res_success [OF assms(1,2) nb, of ss gc] assms(3) obtain zmd1 where
    wf1: "zmd_wf zmd1" and a: "zmd_active_zone zmd1 sid = Some p" and t: "take_block sid p zmd1 = Some zmd'"
    and o: "if zmd_active_zone zmd sid = None
       then p = hd (zmd_empty_zone_list zmd) \<and> open_active_zone ss md sid zmd gc = Some (Inr p, zmd1, gc)
       else zmd1 = zmd" by auto
  from active_phase [OF wf1 a] obtain z1 where z1: "zmd_zones zmd1 p = Some z1" "zone_phase z1 = PActive"
    by (auto simp: phase_at_def)
  have lt: "z_wp_block z1 < zmd_zone_nr_blocks zmd1"
    using zmd_wf_zone_ok [OF wf1 z1(1)] z1(2) by (auto simp: zone_ok_def)
  obtain z where z: "zmd_zones zmd p = Some z" "z_wp_block z1 = z_wp_block z" "z_weight z1 = z_weight z"
    "z_pending_write_io z1 = z_pending_write_io z" "z_zrms z1 = z_zrms z" "z_start_sector z1 = z_start_sector z"
    and rf: "z_refcount z1 - active_ref z1 = z_refcount z - active_ref z"
      "is_lbz_zone_state LBZ_ZONE_TO_FULL z1 \<Longrightarrow> is_lbz_zone_state LBZ_ZONE_TO_FULL z"
    and fr: "zmd_const zmd zmd1" "\<And>q. q \<noteq> p \<Longrightarrow> zmd_zones zmd1 q = zmd_zones zmd q"
      "zmd_nr_allocable_blks zmd1 = zmd_nr_allocable_blks zmd" "zmd_nr_valid_blks zmd1 = zmd_nr_valid_blks zmd"
      "zmd_zone_nr_blocks zmd1 = zmd_zone_nr_blocks zmd"
  proof (cases "zmd_active_zone zmd sid = None")
    case True
    with nb o obtain ps where l: "zmd_empty_zone_list zmd = p # ps"
      by (cases "zmd_empty_zone_list zmd") (auto simp: alloc_blocked_def)
    then have "phase_at zmd p PEmpty" using assms(1) unfolding zmd_wf_def wf_lists_def by auto
    then obtain z where z: "zmd_zones zmd p = Some z" "zone_phase z = PEmpty" by (auto simp: phase_at_def)
    have "active_ref z = 0" "active_ref (opened sid z) = 1"
      "is_lbz_zone_state LBZ_ZONE_TO_FULL (opened sid z) = is_lbz_zone_state LBZ_ZONE_TO_FULL z"
      using z(2) opened_phase [OF z(2), of sid] by (simp_all add: active_ref_def opened_to_full)
    with True o z1 open_active_zone_eq [OF l z(1), of ss md sid gc] z that [of z] show ?thesis
      by (auto simp: zone_simps zmd_const_def)
  qed (use o z1 that in auto)
  have last: "zone_phase (taken_last z1) = PToFull"
    using z1(2) by (simp add: taken_last_def zone_simps zone_phase_flags)
  have "active_ref z1 = 1" "active_ref (taken z1) = 1" "active_ref (taken_last z1) = 0"
    using z1(2) last by (simp_all add: active_ref_def zone_simps)
  then have rf': "alloc_refs z (taken z1)" "alloc_refs z (taken_last z1)"
    using rf last by (simp_all add: alloc_refs_def zone_simps taken_to_full algebra_simps)
  show ?thesis
    using t z fr rf' lt last z1(2) unfolding take_block_eq [OF z1(1)]
    by (intro exI [of _ z] exI [of _ "if z_wp_block z1 + 1 = zmd_zone_nr_blocks zmd1 then taken_last z1 else taken z1"])
      (auto simp: zone_simps zmd_const_def split: if_splits)
qed

text \<open>Where the block comes from, and what the stream keeps.\<close>

lemma alloc_res_source:
  assumes "zmd_wf zmd" and "sid < LBZ_ZONE_MAX_STREAM"
    and "lbz_zone_alloc_res ss dev_faulty md sid zmd gc = Some (Inr p, zmd', gc')"
  shows "(case zmd_active_zone zmd sid of
        Some q \<Rightarrow> p = q \<and> zmd_empty_zone_list zmd' = zmd_empty_zone_list zmd
      | None \<Rightarrow> zmd_empty_zone_list zmd = p # zmd_empty_zone_list zmd' \<and>
          (\<exists>z'. zmd_zones zmd' p = Some z' \<and> z_stream z' = int sid)) \<and>
    zmd_active_zone zmd' = (zmd_active_zone zmd)(sid := if phase_at zmd' p PActive then Some p else None) \<and>
    zmd_active_zone_writes zmd' = (zmd_active_zone_writes zmd)(sid := zmd_active_zone_writes zmd sid + 1) \<and> gc' = gc"
proof -
  have nb: "\<not> alloc_blocked dev_faulty md sid zmd" by (rule alloc_res_not_blocked [OF assms(3)])
  from alloc_res_success [OF assms(1,2) nb, of ss gc] assms(3) obtain zmd1 where
    wf1: "zmd_wf zmd1" and a: "zmd_active_zone zmd1 sid = Some p" and t: "take_block sid p zmd1 = Some zmd'"
    and o: "if zmd_active_zone zmd sid = None
       then p = hd (zmd_empty_zone_list zmd) \<and> open_active_zone ss md sid zmd gc = Some (Inr p, zmd1, gc)
       else zmd1 = zmd" and gc: "gc' = gc" by auto
  from active_phase [OF wf1 a] obtain z1 where z1: "zmd_zones zmd1 p = Some z1" "zone_phase z1 = PActive"
    by (auto simp: phase_at_def)
  have last: "zone_phase (taken_last z1) = PToFull"
    using z1(2) by (simp add: taken_last_def zone_simps zone_phase_flags)
  have s: "z_stream (taken z1) = z_stream z1" "z_stream (taken_last z1) = z_stream z1"
    by (simp_all add: taken_def taken_last_def pending_write_def alloc_res_def lbz_get_zone_def lbz_put_zone_def
        lbz_set_zone_state_def lbz_clear_zone_state_def Let_def)
  have f: "zmd_empty_zone_list zmd' = zmd_empty_zone_list zmd1" "\<exists>z'. zmd_zones zmd' p = Some z' \<and> z_stream z' = z_stream z1"
    "zmd_active_zone zmd' = (zmd_active_zone zmd1)(sid := if phase_at zmd' p PActive then Some p else None)"
    "zmd_active_zone_writes zmd' = (zmd_active_zone_writes zmd1)(sid := zmd_active_zone_writes zmd1 sid + 1)"
    using t a last z1 unfolding take_block_eq [OF z1(1)]
    by (auto simp: s phase_at_def zone_simps fun_upd_idem split: if_splits)
  show ?thesis
  proof (cases "zmd_active_zone zmd sid")
    case None
    with nb o obtain ps where l: "zmd_empty_zone_list zmd = p # ps"
      by (cases "zmd_empty_zone_list zmd") (auto simp: alloc_blocked_def)
    then have "phase_at zmd p PEmpty" using assms(1) unfolding zmd_wf_def wf_lists_def by auto
    then obtain z where z: "zmd_zones zmd p = Some z" by (auto simp: phase_at_def)
    have "z_stream (opened sid z) = int sid" by (simp add: opened_def lbz_set_zone_state_def lbz_get_zone_def)
    then show ?thesis using None o f gc z1 l open_active_zone_eq [OF l z, of ss md sid gc] by auto
  qed (use o a f gc in auto)
qed

text \<open>
  C11. A successful allocation for a stream takes one block of that stream's active zone, or, if it
  has none, of the first zone of the list of empty zones, which leaves the list and is given to
  the stream. The zone had room; its write pointer, weight and pending writes grow by one and its
  reverse map is untouched; it leaves the active phase, and the stream loses it, exactly when its
  last block is taken. Every other zone and every other stream is unchanged, and the global
  counters move by one block.
\<close>

theorem alloc_res_effect:
  assumes "zmd_wf zmd" and "sid < LBZ_ZONE_MAX_STREAM"
    and "lbz_zone_alloc_res ss dev_faulty md sid zmd gc = Some (Inr p, zmd', gc')"
  shows "(case zmd_active_zone zmd sid of
        Some q \<Rightarrow> p = q \<and> zmd_empty_zone_list zmd' = zmd_empty_zone_list zmd
      | None \<Rightarrow> zmd_empty_zone_list zmd = p # zmd_empty_zone_list zmd' \<and>
          (\<exists>z'. zmd_zones zmd' p = Some z' \<and> z_stream z' = int sid)) \<and>
    (\<exists>z z'. zmd_zones zmd p = Some z \<and> zmd_zones zmd' p = Some z' \<and>
      z_wp_block z < zmd_zone_nr_blocks zmd \<and>
      z_wp_block z' = z_wp_block z + 1 \<and> z_weight z' = z_weight z + 1 \<and>
      z_pending_write_io z' = z_pending_write_io z + 1 \<and> z_zrms z' = z_zrms z \<and>
      z_start_sector z' = z_start_sector z \<and>
      zone_phase z' = (if z_wp_block z' = zmd_zone_nr_blocks zmd then PToFull else PActive) \<and>
      zmd_active_zone zmd' = (zmd_active_zone zmd)(sid := if zone_phase z' = PActive then Some p else None)) \<and>
    (\<forall>q. q \<noteq> p \<longrightarrow> zmd_zones zmd' q = zmd_zones zmd q) \<and>
    zmd_active_zone_writes zmd' = (zmd_active_zone_writes zmd)(sid := zmd_active_zone_writes zmd sid + 1) \<and>
    zmd_nr_allocable_blks zmd' = zmd_nr_allocable_blks zmd - 1 \<and>
    zmd_nr_valid_blks zmd' = zmd_nr_valid_blks zmd + 1"
proof -
  note s = alloc_res_source [OF assms]
  from alloc_res_step [OF assms] obtain z z' where
    z: "zmd_zones zmd p = Some z" "zmd_zones zmd' p = Some z'" "z_wp_block z < zmd_zone_nr_blocks zmd"
      "z_wp_block z' = z_wp_block z + 1" "z_weight z' = z_weight z + 1"
      "z_pending_write_io z' = z_pending_write_io z + 1" "z_zrms z' = z_zrms z"
      "z_start_sector z' = z_start_sector z"
      "zone_phase z' = (if z_wp_block z' = zmd_zone_nr_blocks zmd then PToFull else PActive)"
    and g: "\<forall>q. q \<noteq> p \<longrightarrow> zmd_zones zmd' q = zmd_zones zmd q"
      "zmd_nr_allocable_blks zmd' = zmd_nr_allocable_blks zmd - 1" "zmd_nr_valid_blks zmd' = zmd_nr_valid_blks zmd + 1" by blast
  have "phase_at zmd' p PActive \<longleftrightarrow> zone_phase z' = PActive" using z(2) by (simp add: phase_at_def)
  with s have "zmd_active_zone zmd' = (zmd_active_zone zmd)(sid := if zone_phase z' = PActive then Some p else None)" by simp
  with z g s show ?thesis by blast
qed

lemma open_active_gc_zone: "open_active_zone ss md sid zmd gc = Some (r, zmd', gc') \<Longrightarrow> gc_zone gc' = gc_zone gc"
  by (auto simp: open_active_zone_def Let_def split: if_splits option.splits prod.splits Option.bind_splits)

lemma alloc_gc_zone:
  assumes "lbz_zone_alloc_res ss fy md sid zmd gc = Some (Inr p, zmd', gc')"
  shows "gc_zone gc' = gc_zone gc"
proof -
  let ?open = "case zmd_active_zone zmd sid of
      None \<Rightarrow> open_active_zone ss md sid zmd gc
    | Some p \<Rightarrow> do {
        z \<leftarrow> zmd_zones zmd p;
        if z_wp_block z = zmd_zone_nr_blocks zmd
        then do { zmd \<leftarrow> upd_zone p lbz_put_zone zmd; open_active_zone ss md sid zmd gc }
        else Some (Inr p, zmd, gc)
      }"
  from assms obtain r zmd1 where "?open = Some (r, zmd1, gc')"
    unfolding lbz_zone_alloc_res_def by (cases ?open) (auto split: if_split_asm sum.split_asm Option.bind_split_asm)
  then show ?thesis
    by (auto dest: open_active_gc_zone split: option.split_asm if_split_asm Option.bind_split_asm)
qed

text \<open>While a block is allocatable, some stream is not blocked for the collector.\<close>

lemma gc_some_stream:
  assumes "zmd_wf zmd" and "zmd_nr_allocable_blks zmd \<noteq> 0"
  shows "\<exists>sid < LBZ_ZONE_MAX_STREAM. \<not> alloc_blocked False LBZ_ALLOC_FLAG_GC sid zmd"
proof -
  let ?f = "\<lambda>i. case zmd_zones zmd i of None \<Rightarrow> 0 | Some z \<Rightarrow> zmd_zone_nr_blocks zmd - z_wp_block z"
  have "(\<Sum>i<unat (zmd_nr_zones zmd). ?f i) \<noteq> 0"
    using assms unfolding zmd_wf_def wf_sums_def msum_def by metis
  then obtain p where "?f p \<noteq> 0" using sum.neutral [of "{..<unat (zmd_nr_zones zmd)}" ?f] by blast
  then obtain z where p: "zmd_zones zmd p = Some z" "z_wp_block z \<noteq> zmd_zone_nr_blocks zmd"
    by (auto split: option.splits)
  then have "zone_phase z = PEmpty \<or> zone_phase z = PActive"
    using zmd_wf_zone_ok [OF assms(1) p(1)] by (cases "zone_phase z") (auto simp: zone_ok_def)
  then consider "phase_at zmd p PEmpty" | "phase_at zmd p PActive" using p by (auto simp: phase_at_def)
  then show ?thesis
  proof cases
    case 1
    then have "zmd_empty_zone_list zmd \<noteq> []" using assms(1) unfolding zmd_wf_def wf_lists_def by auto
    then have "\<not> alloc_blocked False LBZ_ALLOC_FLAG_GC 0 zmd" by (simp add: alloc_blocked_def)
    moreover have "0 < LBZ_ZONE_MAX_STREAM" by (simp add: LBZ_ZONE_MAX_STREAM_def)
    ultimately show ?thesis by blast
  next
    case 2
    with active_stream [OF assms(1)] obtain sid where s: "zmd_active_zone zmd sid = Some p" by blast
    with active_less [OF assms(1) s] show ?thesis by (auto simp: alloc_blocked_def)
  qed
qed

section \<open>What the victim choice does\<close>

lemma victim_scan_min:
  assumes "\<forall>p\<in>set ps. zones p \<noteq> None"
  shows "\<exists>r v. victim_scan zones ps m n = Some (r, v) \<and> v \<le> n \<and>
    (\<forall>p\<in>set ps. \<forall>z. zones p = Some z \<longrightarrow> v \<le> sint (z_weight z)) \<and>
    (r = m \<and> v = n \<or> (\<exists>p\<in>set ps. \<exists>z. r = Some p \<and> zones p = Some z \<and> v = sint (z_weight z)))"
  using assms
proof (induction ps arbitrary: m n)
  case Nil
  then show ?case by simp
next
  case (Cons p ps)
  then obtain z where p: "zones p = Some z" by auto
  let ?m = "if sint (z_weight z) < n then Some p else m" and ?n = "min (sint (z_weight z)) n"
  from Cons.IH [of ?m ?n] Cons.prems obtain r v where
    rv: "victim_scan zones ps ?m ?n = Some (r, v)" "v \<le> ?n"
      "\<forall>p\<in>set ps. \<forall>z. zones p = Some z \<longrightarrow> v \<le> sint (z_weight z)"
      "r = ?m \<and> v = ?n \<or> (\<exists>p\<in>set ps. \<exists>z. r = Some p \<and> zones p = Some z \<and> v = sint (z_weight z))"
    by auto
  then have "victim_scan zones (p # ps) m n = Some (r, v)" using p by (auto simp: min_def split: if_splits)
  with rv p show ?case by (auto simp: min_def split: if_splits)
qed

lemma zmd_wf_victim:
  assumes wf: "zmd_wf zmd" and p: "zmd_zones zmd p = Some z" and l: "p \<in> set (zmd_full_zone_list zmd)"
    and ph: "zone_phase y = PGc" and wp: "z_wp_block y = z_wp_block z"
    and w: "z_weight y = z_weight z" and acct: "zone_acct (zmd_zone_nr_blocks zmd) y"
  shows "zmd_wf (zmd\<lparr>zmd_full_zone_list := remove1 p (zmd_full_zone_list zmd),
      zmd_zones := (zmd_zones zmd)(p \<mapsto> y),
      zmd_full_zone_count := zmd_full_zone_count zmd - 1,
      zmd_active_zone_count := zmd_active_zone_count zmd + 1\<rparr>)" (is "zmd_wf ?zmd")
proof -
  have at: "phase_at ?zmd q k = (if q = p then k = PGc else phase_at zmd q k)" for q k
    using ph by (auto simp: phase_at_def)
  have f: "phase_at zmd p PFull" using wf l unfolding zmd_wf_def wf_lists_def by auto
  then have na: "\<not> phase_at zmd p PEmpty" "\<not> phase_at zmd p PActive" by (auto dest: phase_at_unique)
  have "z_wp_block z = zmd_zone_nr_blocks zmd"
    using f p zmd_wf_zone_ok [OF wf p] by (auto simp: phase_at_def zone_ok_def)
  then have "zone_ok (zmd_zone_nr_blocks zmd) y" using acct ph wp by (simp add: zone_ok_def)
  then have "wf_zones ?zmd" using wf p unfolding zmd_wf_def wf_zones_def by auto
  moreover have "length (zmd_full_zone_list zmd) = Suc (length (remove1 p (zmd_full_zone_list zmd)))"
    using l length_pos_if_in_set [OF l] by (simp add: length_remove1)
  then have "wf_lists ?zmd" using wf na unfolding zmd_wf_def wf_lists_def at by auto
  moreover have "wf_active ?zmd" using na wf unfolding zmd_wf_def wf_active_def at by auto
  moreover have "wf_sums ?zmd" using wf unfolding zmd_wf_def wf_sums_def
    by (simp add: msum_same [of "zmd_zones zmd" p z] p wp w)
  ultimately show ?thesis by (simp add: zmd_wf_def)
qed

lemma zone_weight_le:
  assumes "zone_acct nrb z" shows "z_weight z \<le> nrb"
  using assms by (simp add: zone_acct_def word_le_nat_alt)

lemma check_zone_low_wm_mono:
  "z_weight y \<le> z_weight z \<Longrightarrow> lbz_check_zone_low_wm zmd z \<Longrightarrow> lbz_check_zone_low_wm zmd y"
  by (simp add: lbz_check_zone_low_wm_def Let_def)

lemma victim_scan_least:
  assumes wf: "zmd_wf zmd" and nrb: "unat (zmd_zone_nr_blocks zmd) < 2 ^ 31 - 1"
    and ne: "zmd_full_zone_list zmd \<noteq> []"
  shows "\<exists>p z. p \<in> set (zmd_full_zone_list zmd) \<and> zmd_zones zmd p = Some z \<and>
    victim_scan (zmd_zones zmd) (zmd_full_zone_list zmd) None (2 ^ 31 - 1) = Some (Some p, sint (z_weight z)) \<and>
    (\<forall>q y. q \<in> set (zmd_full_zone_list zmd) \<longrightarrow> zmd_zones zmd q = Some y \<longrightarrow> z_weight z \<le> z_weight y)"
proof -
  let ?zs = "zmd_zones zmd" and ?L = "zmd_full_zone_list zmd"
  have small: "sint (z_weight z) = int (unat (z_weight z))" "unat (z_weight z) < 2 ^ 31 - 1"
    if "?zs q = Some z" for q z
  proof -
    have "z_weight z \<le> zmd_zone_nr_blocks zmd"
      using zmd_wf_zone_ok [OF wf that] by (auto simp: zone_ok_def intro: zone_weight_le)
    then show "unat (z_weight z) < 2 ^ 31 - 1" using nrb by (simp add: word_le_nat_alt)
    then show "sint (z_weight z) = int (unat (z_weight z))" by (intro sint_small) simp
  qed
  have ex: "\<forall>p\<in>set ?L. ?zs p \<noteq> None"
    using wf unfolding zmd_wf_def wf_lists_def by (auto simp: phase_at_def)
  from victim_scan_min [OF ex] obtain r v where
    scan: "victim_scan ?zs ?L None (2 ^ 31 - 1) = Some (r, v)"
      and le: "\<forall>p\<in>set ?L. \<forall>z. ?zs p = Some z \<longrightarrow> v \<le> sint (z_weight z)"
      and res: "r = None \<and> v = 2 ^ 31 - 1 \<or>
        (\<exists>p\<in>set ?L. \<exists>z. r = Some p \<and> ?zs p = Some z \<and> v = sint (z_weight z))" by blast
  from ne ex obtain q y where q: "q \<in> set ?L" "?zs q = Some y" by (cases ?L) auto
  have "v \<le> sint (z_weight y)" using le q by blast
  also have "\<dots> < int (2 ^ 31 - 1)" by (rule sint_small_less [OF small(2) [OF q(2)]]) simp
  finally have "v < 2 ^ 31 - 1" by simp
  with res obtain p z where p: "p \<in> set ?L" "r = Some p" "?zs p = Some z" "v = sint (z_weight z)" by auto
  have "z_weight z \<le> z_weight y'" if "q' \<in> set ?L" "?zs q' = Some y'" for q' y'
  proof -
    have "sint (z_weight z) \<le> sint (z_weight y')" using le that p(4) by blast
    then show ?thesis unfolding small(1) [OF that(2)] small(1) [OF p(3)]
      by (simp only: word_le_nat_alt of_nat_le_iff)
  qed
  with p scan show ?thesis by blast
qed

text \<open>The choice of a victim, branch by branch.\<close>

lemma find_victim_ok:
  assumes wf: "zmd_wf zmd" and nrb: "unat (zmd_zone_nr_blocks zmd) < 2 ^ 31 - 1"
  shows "\<exists>r zmd'. lbz_find_victim_zone md zmd = Some (r, zmd') \<and> zmd_wf zmd' \<and>
    (case r of
       None \<Rightarrow> zmd' = zmd \<and> (\<forall>q z. q \<in> set (zmd_full_zone_list zmd) \<longrightarrow> zmd_zones zmd q = Some z \<longrightarrow>
           z_weight z \<ge> zmd_zone_nr_blocks zmd \<or> md = LBZ_VICTIM_REGULAR \<and> \<not> lbz_check_zone_low_wm zmd z)
     | Some p \<Rightarrow> p \<in> set (zmd_full_zone_list zmd) \<and>
         (\<exists>z. zmd_zones zmd p = Some z \<and> z_weight z < zmd_zone_nr_blocks zmd \<and>
           (\<forall>q y. q \<in> set (zmd_full_zone_list zmd) \<longrightarrow> zmd_zones zmd q = Some y \<longrightarrow> z_weight z \<le> z_weight y) \<and>
           (md = LBZ_VICTIM_REGULAR \<longrightarrow> lbz_check_zone_low_wm zmd z) \<and>
           zmd_zones zmd' = (zmd_zones zmd)(p \<mapsto> lbz_set_zone_state LBZ_ZONE_GC (lbz_get_zone z))) \<and>
         zmd_full_zone_list zmd' = remove1 p (zmd_full_zone_list zmd))"
proof (cases "zmd_full_zone_list zmd = []")
  case True
  with wf show ?thesis by (auto simp: lbz_find_victim_zone_def)
next
  case False
  let ?zs = "zmd_zones zmd" and ?L = "zmd_full_zone_list zmd" and ?n = "zmd_zone_nr_blocks zmd"
  from victim_scan_least [OF wf nrb False] obtain p z where
    p: "p \<in> set ?L" "?zs p = Some z"
      "victim_scan ?zs ?L None (2 ^ 31 - 1) = Some (Some p, sint (z_weight z))"
    and least: "\<And>q y. q \<in> set ?L \<Longrightarrow> ?zs q = Some y \<Longrightarrow> z_weight z \<le> z_weight y" by blast
  let ?y = "lbz_set_zone_state LBZ_ZONE_GC (lbz_get_zone z)"
  have "zone_acct ?n ?y" using zmd_wf_zone_ok [OF wf p(2)] by (simp add: zone_ok_def zone_simps)
  then have wf': "zmd_wf (zmd\<lparr>zmd_full_zone_list := remove1 p ?L, zmd_zones := ?zs(p \<mapsto> ?y),
      zmd_full_zone_count := zmd_full_zone_count zmd - 1,
      zmd_active_zone_count := zmd_active_zone_count zmd + 1\<rparr>)"
    by (intro zmd_wf_victim [OF wf p(2,1)]) (simp_all add: zone_simps zone_phase_flags)
  consider "?n \<le> z_weight z" | "z_weight z < ?n" "md = LBZ_VICTIM_REGULAR" "\<not> lbz_check_zone_low_wm zmd z"
    | "z_weight z < ?n" "md = LBZ_VICTIM_REGULAR \<longrightarrow> lbz_check_zone_low_wm zmd z" by fastforce
  then show ?thesis
  proof cases
    case 1
    with False p wf least order.trans [OF 1] show ?thesis by (auto simp: lbz_find_victim_zone_def)
  next
    case 2
    with False p wf least check_zone_low_wm_mono [of z _ zmd] show ?thesis
      by (auto simp: lbz_find_victim_zone_def)
  next
    case 3
    with False p least wf' show ?thesis by (auto simp: lbz_find_victim_zone_def upd_zone_def)
  qed
qed

text \<open>
  C19. The victim choice is sound and complete. When it answers with a zone, that zone was in
  the full list, has the least weight of all full zones, has at least one dead block, and in
  the regular mode is below the zone water mark; it is taken off the list, referenced and
  marked as under collection. When it answers with none, the table is unchanged and every full
  zone is completely live or, in the regular mode, above the mark.
\<close>

theorem find_victim_zone_spec:
  assumes wf: "zmd_wf zmd" and nrb: "unat (zmd_zone_nr_blocks zmd) < 2 ^ 31 - 1"
  shows "\<exists>r zmd'. lbz_find_victim_zone md zmd = Some (r, zmd') \<and> zmd_wf zmd' \<and>
    (case r of
       None \<Rightarrow> zmd' = zmd \<and> (\<forall>q z. q \<in> set (zmd_full_zone_list zmd) \<longrightarrow> zmd_zones zmd q = Some z \<longrightarrow>
           z_weight z \<ge> zmd_zone_nr_blocks zmd \<or> md = LBZ_VICTIM_REGULAR \<and> \<not> lbz_check_zone_low_wm zmd z)
     | Some p \<Rightarrow> p \<in> set (zmd_full_zone_list zmd) \<and>
         (\<exists>z. zmd_zones zmd p = Some z \<and> z_weight z < zmd_zone_nr_blocks zmd \<and>
           (\<forall>q y. q \<in> set (zmd_full_zone_list zmd) \<longrightarrow> zmd_zones zmd q = Some y \<longrightarrow> z_weight z \<le> z_weight y) \<and>
           (md = LBZ_VICTIM_REGULAR \<longrightarrow> lbz_check_zone_low_wm zmd z) \<and>
           zmd_zones zmd' = (zmd_zones zmd)(p \<mapsto> lbz_set_zone_state LBZ_ZONE_GC (lbz_get_zone z))) \<and>
         zmd_full_zone_list zmd' = remove1 p (zmd_full_zone_list zmd))"
  by (rule find_victim_ok [OF assms])

end
