(* ===== verification/Zone_Init.thy ===== *)
theory Zone_Init
  imports Zone_Alloc "HOL-Library.Log_Nat"
begin

text \<open>
  \<^verbatim>\<open>lbz-zone-metadata.c\<close>: building the zone table from the zone report of the backing device,
  and tearing it down. What the kernel supplies (the report, whether an allocation succeeds,
  whether the work queue is created) is an argument. The periodic timer and the work queue
  themselves are not part of the state: the worker they run is \<open>zone_state_wk_fn\<close> of theory
  \<open>Zone_State\<close>.
\<close>

record blk_zone =
  bz_start :: u64
  bz_len :: u64
  bz_wp :: u64
  bz_cond :: blk_zone_cond
  bz_capacity :: u64

text \<open>The kernel's \<open>ilog2\<close>: the position of the highest bit, \<open>fls(n) - 1\<close>.\<close>

definition ilog2 :: "u32 \<Rightarrow> u32" where
  "ilog2 n = of_nat (floorlog 2 (unat n)) - 1"

definition init_zmd_by_first_zone :: "blk_zone \<Rightarrow> lbz_zone_metadata \<Rightarrow> lbz_zone_metadata" where
  "init_zmd_by_first_zone blkz zmd =
     (let nr_sectors = (ucast (bz_capacity blkz) :: u32);
          nr_blocks = sector_to_blkid (ucast nr_sectors);
          bitmap_size = drop_bit 3 (nr_blocks + 7);
          reverse_map_size = (ucast ((ucast nr_blocks :: u64) * 4) :: u32)
      in zmd\<lparr>zmd_zone_nr_sectors := nr_sectors,
             zmd_zone_nr_sectors_shift := ilog2 nr_sectors,
             zmd_zone_nr_blocks := nr_blocks,
             zmd_zone_nr_blocks_shift := ilog2 nr_blocks,
             zmd_zone_bitmap_size := bitmap_size,
             zmd_zone_nr_bitmap_blocks := drop_bit 12 (bitmap_size + 4096 - 1),
             zmd_zone_bits_per_block := push_bit 15 1,
             zmd_zone_reverse_map_size := reverse_map_size,
             zmd_zone_nr_reverse_map_blocks := drop_bit 12 (reverse_map_size + 4096 - 1)\<rparr>)"

text \<open>
  A new zone descriptor; \<open>mem_ok\<close> says whether the descriptor itself could be allocated. The
  bitmap starts all clear and the reverse map all invalid.
\<close>

definition lbz_zone_insert :: "bool \<Rightarrow> lbz_zone_metadata \<Rightarrow> u32 \<Rightarrow> errno + lbz_zone" where
  "lbz_zone_insert mem_ok zmd zone_id =
     (if \<not> mem_ok then Inl ENOMEM
      else Inr \<lparr>z_state = BLK_ZONE_COND_NOT_WP, z_flags = 0, z_refcount = 0, z_stream = 0,
             z_id = zone_id, z_wp_block = 0, z_start_sector = 0, z_len_sectors = 0,
             z_capacity_sectors = 0, z_cond = BLK_ZONE_COND_NOT_WP, z_weight = 0,
             z_pending_write_io = 0,
             z_zrms = replicate (unat (zmd_zone_nr_reverse_map_blocks zmd))
                        (replicate LBZ_REVERSE_MAP_ENTRIES LBZ_INVALID_PBID),
             z_valid_bitmap = replicate (unat (zmd_zone_nr_bitmap_blocks zmd)) (replicate 512 0)\<rparr>)"

text \<open>The fields of the descriptor that come from the report.\<close>

definition zone_from_report :: "blk_zone \<Rightarrow> lbz_zone \<Rightarrow> lbz_zone" where
  "zone_from_report blkz zone =
     (let wp = sector_to_blkid (bz_wp blkz - bz_start blkz)
      in zone\<lparr>z_wp_block := wp, z_weight := wp, z_start_sector := ucast (bz_start blkz),
              z_len_sectors := ucast (bz_len blkz), z_capacity_sectors := ucast (bz_capacity blkz),
              z_cond := bz_cond blkz, z_pending_write_io := 0, z_stream := - 1\<rparr>)"

text \<open>The first stream below \<open>LBZ_ZONE_MAX_STREAM\<close> without an active zone.\<close>

definition free_stream :: "lbz_zone_metadata \<Rightarrow> nat option" where
  "free_stream zmd = find (\<lambda>i. zmd_active_zone zmd i = None) [0..<LBZ_ZONE_MAX_STREAM]"

definition lbz_init_zone ::
  "bool \<Rightarrow> blk_zone \<Rightarrow> nat \<Rightarrow> lbz_zone_metadata \<Rightarrow> ((errno + unit) \<times> lbz_zone_metadata) option" where
  "lbz_init_zone mem_ok blkz num zmd =
     (let zmd = (if num = 0 then init_zmd_by_first_zone blkz zmd else zmd)
      in case lbz_zone_insert mem_ok zmd (of_nat num) of
           Inl e \<Rightarrow> Some (Inl e, zmd)
         | Inr zone \<Rightarrow> do {
             let zone = zone_from_report blkz zone;
             (zone, zmd) \<leftarrow>
               (if z_wp_block zone = 0
                then do {
                  let zone = lbz_set_zone_state LBZ_ZONE_INIT (zone\<lparr>z_state := BLK_ZONE_COND_EMPTY\<rparr>);
                  zmd \<leftarrow> lbz_zone_add_to_list num LBZ_ZONE_INIT
                    (zmd\<lparr>zmd_nr_allocable_blks := zmd_nr_allocable_blks zmd + zmd_zone_nr_blocks zmd\<rparr>);
                  Some (zone, zmd)
                }
                else if z_wp_block zone < sector_to_blkid (bz_capacity blkz)
                then do {
                  let zone = lbz_set_zone_state LBZ_ZONE_ACTIVE
                               ((lbz_get_zone zone)\<lparr>z_state := BLK_ZONE_COND_IMP_OPEN\<rparr>);
                  i \<leftarrow> free_stream zmd;
                  Some (zone\<lparr>z_stream := int i\<rparr>,
                    zmd\<lparr>zmd_active_zone := (zmd_active_zone zmd)(i := Some num),
                        zmd_nr_allocable_blks := zmd_nr_allocable_blks zmd +
                          (zmd_zone_nr_blocks zmd - z_wp_block zone)\<rparr>)
                }
                else do {
                  let zone = lbz_set_zone_state LBZ_ZONE_FULL (zone\<lparr>z_state := BLK_ZONE_COND_FULL\<rparr>);
                  zmd \<leftarrow> lbz_zone_add_to_list num LBZ_ZONE_FULL zmd;
                  Some (zone, zmd)
                });
             let zmd = zmd\<lparr>zmd_nr_valid_blks := zmd_nr_valid_blks zmd + z_wp_block zone\<rparr>;
             let (zone, zmd) =
               (case bz_cond blkz of
                  BLK_ZONE_COND_OFFLINE \<Rightarrow>
                    ((lbz_set_zone_state LBZ_ZONE_OFFLINE zone)\<lparr>z_state := BLK_ZONE_COND_OFFLINE\<rparr>, zmd)
                | BLK_ZONE_COND_READONLY \<Rightarrow>
                    ((lbz_set_zone_state LBZ_ZONE_READ_ONLY zone)\<lparr>z_state := BLK_ZONE_COND_READONLY\<rparr>, zmd)
                | _ \<Rightarrow> (zone, zmd\<lparr>zmd_nr_useable_zones := zmd_nr_useable_zones zmd + 1\<rparr>));
             let zmd = zmd\<lparr>zmd_nr_total_blks := zmd_nr_total_blks zmd + zmd_zone_nr_blocks zmd,
                           zmd_zones := (zmd_zones zmd)(num \<mapsto> zone)\<rparr>;
             Some (Inr (), lbz_close_zone zone zmd)
           })"

section \<open>The whole table\<close>

definition lbz_zone_destroy :: "zptr \<Rightarrow> lbz_zone_metadata \<Rightarrow> lbz_zone_metadata option" where
  "lbz_zone_destroy p zmd =
     (case zmd_zones zmd p of
        None \<Rightarrow> None
      | Some _ \<Rightarrow> Some (zmd\<lparr>zmd_zones := (zmd_zones zmd)(p := None)\<rparr>))"

fun drop_zones_from :: "nat \<Rightarrow> nat \<Rightarrow> lbz_zone_metadata \<Rightarrow> lbz_zone_metadata option" where
  "drop_zones_from i 0 zmd = Some zmd"
| "drop_zones_from i (Suc n) zmd = do {
     zmd \<leftarrow> lbz_zone_destroy i zmd;
     drop_zones_from (Suc i) n zmd
   }"

definition lbz_drop_zones :: "lbz_zone_metadata \<Rightarrow> lbz_zone_metadata option" where
  "lbz_drop_zones zmd = drop_zones_from 0 (unat (zmd_nr_zones zmd)) zmd"

text \<open>
  \<open>blkdev_report_zones\<close> calls \<open>lbz_init_zone\<close> for every reported zone, numbered from 0, until a
  call fails; after the last one the device may still report an error of its own.
\<close>

fun report_zones ::
  "(blk_zone \<times> bool) list \<Rightarrow> errno option \<Rightarrow> nat \<Rightarrow> lbz_zone_metadata \<Rightarrow>
     ((errno + unit) \<times> lbz_zone_metadata) option" where
  "report_zones [] dev_err num zmd =
     Some (case dev_err of None \<Rightarrow> Inr () | Some e \<Rightarrow> Inl e, zmd)"
| "report_zones ((blkz, mem_ok) # zs) dev_err num zmd = do {
     (r, zmd) \<leftarrow> lbz_init_zone mem_ok blkz num zmd;
     case r of
       Inl e \<Rightarrow> Some (Inl e, zmd)
     | Inr _ \<Rightarrow> report_zones zs dev_err (Suc num) zmd
   }"

definition lbz_init_zones ::
  "(blk_zone \<times> bool) list \<Rightarrow> errno option \<Rightarrow> lbz_zone_metadata \<Rightarrow>
     ((errno + unit) \<times> lbz_zone_metadata) option" where
  "lbz_init_zones report dev_err zmd =
     (if zmd_nr_zones zmd = 0 then Some (Inl ENXIO, zmd)
      else do {
        (r, zmd) \<leftarrow> report_zones report dev_err 0 (zmd\<lparr>zmd_zones := Map.empty\<rparr>);
        case r of
          Inl e \<Rightarrow> do {
            zmd \<leftarrow> lbz_drop_zones zmd;
            Some (Inl e, zmd)
          }
        | Inr _ \<Rightarrow> Some (Inr (), zmd)
      })"

definition lbz_init_zone_metadata ::
  "u32 \<Rightarrow> u32 \<Rightarrow> (blk_zone \<times> bool) list \<Rightarrow> errno option \<Rightarrow> wq_ptr \<Rightarrow> lbz_zone_metadata \<Rightarrow>
     ((errno + unit) \<times> lbz_zone_metadata) option" where
  "lbz_init_zone_metadata nr_zones zone_sectors report dev_err wq zmd = do {
     let zmd = zmd\<lparr>zmd_empty_zone_list := [], zmd_full_zone_list := [], zmd_active_zone_list := [],
       zmd_active_zone := (zmd_active_zone zmd)(0 := None, 1 := None),
       zmd_active_zone_writes := (zmd_active_zone_writes zmd)(0 := 0, 1 := 0),
       zmd_empty_zone_count := 0, zmd_full_zone_count := 0, zmd_active_zone_count := 0,
       zmd_nr_zones := nr_zones, zmd_zone_size_sectors := zone_sectors,
       zmd_zone_size_blks := sector_to_blkid (ucast zone_sectors),
       zmd_nr_total_blks := 0, zmd_nr_allocable_blks := 0, zmd_nr_valid_blks := 0\<rparr>;
     (r, zmd) \<leftarrow> lbz_init_zones report dev_err zmd;
     case r of
       Inl e \<Rightarrow> Some (Inl e, zmd)
     | Inr _ \<Rightarrow> do {
         let zmd = zmd\<lparr>zmd_reserved_blks_gc := zmd_zone_nr_blocks zmd,
           zmd_reclaim_wm_gc_low := 2, zmd_reclaim_wm_gc_high := 4, zmd_zone_reclaim_wm := 1,
           zmd_zs_close_times := 0, zmd_zs_reset_times := 0, zmd_zone_state_wq := wq\<rparr>;
         case wq_error wq of
           Some e \<Rightarrow> do {
             zmd \<leftarrow> lbz_drop_zones zmd;
             Some (Inl e, zmd)
           }
         | None \<Rightarrow> Some (Inr (), zmd)
       }
   }"

fun close_zones_from :: "nat \<Rightarrow> nat \<Rightarrow> lbz_zone_metadata \<Rightarrow> lbz_zone_metadata option" where
  "close_zones_from i 0 zmd = Some zmd"
| "close_zones_from i (Suc n) zmd = do {
     z \<leftarrow> zmd_zones zmd i;
     close_zones_from (Suc i) n (lbz_close_zone z zmd)
   }"

definition lbz_destroy_zone_metadata :: "lbz_zone_metadata \<Rightarrow> lbz_zone_metadata option" where
  "lbz_destroy_zone_metadata zmd = do {
     (if zmd_zone_state_wq zmd = WqOk then Some () else None);
     zmd \<leftarrow> close_zones_from 0 (unat (zmd_nr_zones zmd)) zmd;
     lbz_drop_zones zmd
   }"

section \<open>The geometry computed from the first zone\<close>

lemma unat_drop_bit: "unat (drop_bit n (w :: 'a::len word)) = unat w div 2 ^ n"
  by (simp only: unat_drop_bit_eq) (simp only: drop_bit_eq_div)

lemma unat_sector_to_blkid_u32: "unat (sector_to_blkid (ucast (x :: u32))) = unat x div 8"
  using unat_u32_less [of x] by (simp add: unat_sector_to_blkid)

lemma geometry_ok:
  "unat (zmd_zone_nr_blocks (init_zmd_by_first_zone blkz zmd)) < 2 ^ 29 \<and>
   unat (zmd_zone_nr_blocks (init_zmd_by_first_zone blkz zmd)) \<le>
     LBZ_REVERSE_MAP_ENTRIES * unat (zmd_zone_nr_reverse_map_blocks (init_zmd_by_first_zone blkz zmd))"
proof -
  let ?n = "zmd_zone_nr_blocks (init_zmd_by_first_zone blkz zmd)"
  let ?x = "ucast (bz_capacity blkz) :: u32"
  have n: "?n = sector_to_blkid (ucast ?x)" by (simp add: init_zmd_by_first_zone_def Let_def)
  have lt: "unat ?n < 2 ^ 29"
    unfolding n unat_sector_to_blkid_u32 using unat_u32_less [of ?x] by (simp add: less_mult_imp_div_less)
  define sz where "sz = (ucast ((ucast ?n :: u64) * 4) :: u32)"
  have sz: "unat sz = 4 * unat ?n"
    using lt unfolding sz_def
    by (simp add: unsigned_ucast_eq take_bit_eq_mod unat_word_ariths)
  have "unat (sz + 4096 - 1) = 4 * unat ?n + 4095"
  proof -
    have "sz + 4096 - 1 = sz + 4095" by simp
    then show ?thesis using lt sz by (simp add: unat_word_ariths)
  qed
  then have "unat (zmd_zone_nr_reverse_map_blocks (init_zmd_by_first_zone blkz zmd)) =
      (4 * unat ?n + 4095) div 4096"
    by (simp add: init_zmd_by_first_zone_def Let_def n sz_def unat_drop_bit)
  with lt show ?thesis by (simp add: LBZ_REVERSE_MAP_ENTRIES_def)
qed

text \<open>
  The geometry of the table is sound for every reported capacity: a zone has fewer than
  \<open>2 ^ 29\<close> blocks, and the reverse-map pages computed for it hold an entry for each of them.
\<close>

theorem init_geometry:
  "unat (zmd_zone_nr_blocks (init_zmd_by_first_zone blkz zmd)) < 2 ^ 29 \<and>
   unat (zmd_zone_nr_blocks (init_zmd_by_first_zone blkz zmd)) \<le>
     LBZ_REVERSE_MAP_ENTRIES * unat (zmd_zone_nr_reverse_map_blocks (init_zmd_by_first_zone blkz zmd))"
  by (rule geometry_ok)

section \<open>A device whose zones are all empty\<close>

definition fresh_report :: "(blk_zone \<times> bool) list \<Rightarrow> bool" where
  "fresh_report report \<longleftrightarrow>
     (\<forall>(blkz, mem_ok)\<in>set report. mem_ok \<and> bz_wp blkz = bz_start blkz \<and> bz_cond blkz = BLK_ZONE_COND_EMPTY)"

definition fresh_zone :: "lbz_zone \<Rightarrow> bool" where
  "fresh_zone z \<longleftrightarrow> zone_phase z = PEmpty \<and> z_wp_block z = 0 \<and> z_weight z = 0 \<and>
     z_pending_write_io z = 0 \<and> z_refcount z = 0 \<and> z_state z = BLK_ZONE_COND_EMPTY"

lemma fresh_zrms:
  "zrms_shape (replicate n (replicate LBZ_REVERSE_MAP_ENTRIES v))"
  "zrms_get (replicate n (replicate LBZ_REVERSE_MAP_ENTRIES v)) i =
     (if i < LBZ_REVERSE_MAP_ENTRIES * n then Some v else None)"
proof -
  show shape: "zrms_shape (replicate n (replicate LBZ_REVERSE_MAP_ENTRIES v))"
    by (simp add: zrms_shape_def)
  from zrms_get_in_shape [OF shape, of i]
  show "zrms_get (replicate n (replicate LBZ_REVERSE_MAP_ENTRIES v)) i =
     (if i < LBZ_REVERSE_MAP_ENTRIES * n then Some v else None)"
    by (auto simp: zrms_get_def Let_def split: if_splits)
qed

text \<open>The state of the table after \<open>k\<close> empty zones of \<open>nrb\<close> blocks.\<close>

definition init_inv :: "nat \<Rightarrow> lbz_zone_metadata \<Rightarrow> bool" where
  "init_inv k zmd \<longleftrightarrow>
     (\<forall>p. zmd_zones zmd p \<noteq> None \<longleftrightarrow> p < k) \<and>
     (\<forall>p z. zmd_zones zmd p = Some z \<longrightarrow> fresh_zone z \<and> zone_acct (zmd_zone_nr_blocks zmd) z \<and>
        length (z_zrms z) = unat (zmd_zone_nr_reverse_map_blocks zmd)) \<and>
     zmd_empty_zone_list zmd = [0..<k] \<and> zmd_full_zone_list zmd = [] \<and>
     zmd_empty_zone_count zmd = of_nat k \<and> zmd_full_zone_count zmd = 0 \<and>
     zmd_active_zone zmd = (\<lambda>_. None) \<and>
     zmd_nr_allocable_blks zmd = of_nat k * zmd_zone_nr_blocks zmd \<and>
     zmd_nr_total_blks zmd = of_nat k * zmd_zone_nr_blocks zmd \<and>
     zmd_nr_valid_blks zmd = 0 \<and>
     unat (zmd_zone_nr_blocks zmd) \<le> LBZ_REVERSE_MAP_ENTRIES * unat (zmd_zone_nr_reverse_map_blocks zmd)"

text \<open>The descriptor of an empty zone.\<close>

definition new_zone :: "blk_zone \<Rightarrow> nat \<Rightarrow> lbz_zone_metadata \<Rightarrow> lbz_zone" where
  "new_zone blkz num zmd =
     lbz_set_zone_state LBZ_ZONE_INIT ((zone_from_report blkz
       (projr (lbz_zone_insert True zmd (of_nat num))))\<lparr>z_state := BLK_ZONE_COND_EMPTY\<rparr>)"

lemma new_zone_fresh:
  assumes "bz_wp blkz = bz_start blkz"
    and "unat nrb \<le> LBZ_REVERSE_MAP_ENTRIES * unat (zmd_zone_nr_reverse_map_blocks zmd)"
  shows "fresh_zone (new_zone blkz num zmd)" "zone_acct nrb (new_zone blkz num zmd)"
    "length (z_zrms (new_zone blkz num zmd)) = unat (zmd_zone_nr_reverse_map_blocks zmd)"
proof -
  let ?z = "new_zone blkz num zmd"
  have zr: "z_zrms ?z = replicate (unat (zmd_zone_nr_reverse_map_blocks zmd))
      (replicate LBZ_REVERSE_MAP_ENTRIES LBZ_INVALID_PBID)"
    by (simp add: new_zone_def lbz_zone_insert_def zone_from_report_def Let_def zone_simps)
  have f: "z_wp_block ?z = 0" "z_weight ?z = 0" "z_pending_write_io ?z = 0" "z_refcount ?z = 0"
      "z_state ?z = BLK_ZONE_COND_EMPTY" "z_flags ?z = 4"
    using assms(1)
    by (simp_all add: new_zone_def lbz_zone_insert_def zone_from_report_def Let_def zone_simps
        sector_to_blkid_def lbz_set_zone_state_def set_bit_eq_or)
  have nv: "zone_valid ?z = (\<lambda>_. False)" by (simp add: zone_valid_def zr fresh_zrms fun_eq_iff)
  have "valid_count ?z = 0" unfolding valid_count_def nv by (simp add: countf_zero)
  then show "zone_acct nrb ?z"
    using assms(2) f nv by (simp add: zone_acct_def zr fresh_zrms)
  have "zone_phase ?z = PEmpty" by (simp add: zone_phase_def is_lbz_zone_state_def f bit_numeral_rec)
  then show "fresh_zone ?z" using f by (simp add: fresh_zone_def)
  show "length (z_zrms ?z) = unat (zmd_zone_nr_reverse_map_blocks zmd)" by (simp add: zr)
qed

definition first_geometry :: "blk_zone \<Rightarrow> nat \<Rightarrow> lbz_zone_metadata \<Rightarrow> lbz_zone_metadata" where
  "first_geometry blkz num zmd = (if num = 0 then init_zmd_by_first_zone blkz zmd else zmd)"

lemma init_inv_first: "init_inv num zmd \<Longrightarrow> init_inv num (first_geometry blkz num zmd)"
  using geometry_ok [of blkz zmd]
  by (auto simp: init_inv_def first_geometry_def init_zmd_by_first_zone_def Let_def)

lemma init_zone_fresh_eq:
  assumes "bz_wp blkz = bz_start blkz" "bz_cond blkz = BLK_ZONE_COND_EMPTY"
    and z: "zmd1 = first_geometry blkz num zmd"
  shows "\<exists>mg. lbz_init_zone True blkz num zmd = Some (Inr (), zmd1\<lparr>
      zmd_nr_allocable_blks := zmd_nr_allocable_blks zmd1 + zmd_zone_nr_blocks zmd1,
      zmd_empty_zone_list := zmd_empty_zone_list zmd1 @ [num],
      zmd_empty_zone_count := zmd_empty_zone_count zmd1 + 1,
      zmd_nr_valid_blks := zmd_nr_valid_blks zmd1 + z_wp_block (new_zone blkz num zmd1),
      zmd_nr_useable_zones := zmd_nr_useable_zones zmd1 + 1,
      zmd_nr_total_blks := zmd_nr_total_blks zmd1 + zmd_zone_nr_blocks zmd1,
      zmd_zones := (zmd_zones zmd1)(num \<mapsto> new_zone blkz num zmd1),
      zmd_mgmt := mg\<rparr>)"
proof -
  let ?z0 = "zone_from_report blkz (projr (lbz_zone_insert True zmd1 (of_nat num)))"
  have ins: "lbz_zone_insert True zmd1 (of_nat num) = Inr (projr (lbz_zone_insert True zmd1 (of_nat num)))"
    by (simp add: lbz_zone_insert_def)
  have wp: "z_wp_block ?z0 = 0"
    using assms(1) by (simp add: zone_from_report_def Let_def sector_to_blkid_def)
  show ?thesis
    unfolding lbz_init_zone_def first_geometry_def [symmetric] z [symmetric] Let_def
    by (subst ins, simp add: wp assms(2) lbz_zone_add_to_list_def lbz_close_zone_def zone_simps
        new_zone_def [symmetric], rule exI, rule refl)
qed

lemma init_zone_step:
  assumes inv: "init_inv num zmd" and "bz_wp blkz = bz_start blkz" "bz_cond blkz = BLK_ZONE_COND_EMPTY"
  shows "\<exists>zmd'. lbz_init_zone True blkz num zmd = Some (Inr (), zmd') \<and> init_inv (Suc num) zmd' \<and>
    zmd_nr_zones zmd' = zmd_nr_zones zmd \<and>
    zmd_zone_nr_blocks zmd' = zmd_zone_nr_blocks (first_geometry blkz num zmd)"
proof -
  let ?zmd = "first_geometry blkz num zmd"
  from init_zone_fresh_eq [OF assms(2,3) refl] obtain mg where
    eq: "lbz_init_zone True blkz num zmd = Some (Inr (), ?zmd\<lparr>
      zmd_nr_allocable_blks := zmd_nr_allocable_blks ?zmd + zmd_zone_nr_blocks ?zmd,
      zmd_empty_zone_list := zmd_empty_zone_list ?zmd @ [num],
      zmd_empty_zone_count := zmd_empty_zone_count ?zmd + 1,
      zmd_nr_valid_blks := zmd_nr_valid_blks ?zmd + z_wp_block (new_zone blkz num ?zmd),
      zmd_nr_useable_zones := zmd_nr_useable_zones ?zmd + 1,
      zmd_nr_total_blks := zmd_nr_total_blks ?zmd + zmd_zone_nr_blocks ?zmd,
      zmd_zones := (zmd_zones ?zmd)(num \<mapsto> new_zone blkz num ?zmd), zmd_mgmt := mg\<rparr>)" (is "_ = Some (_, ?r)")
    by blast
  have i: "init_inv num ?zmd" by (rule init_inv_first [OF inv])
  then have nz: "fresh_zone (new_zone blkz num ?zmd)"
      "zone_acct (zmd_zone_nr_blocks ?zmd) (new_zone blkz num ?zmd)"
      "length (z_zrms (new_zone blkz num ?zmd)) = unat (zmd_zone_nr_reverse_map_blocks ?zmd)"
    using new_zone_fresh [OF assms(2)] by (auto simp: init_inv_def)
  have "init_inv (Suc num) ?r"
    using i nz unfolding init_inv_def by (auto simp: less_Suc_eq algebra_simps fresh_zone_def)
  moreover have "zmd_nr_zones ?r = zmd_nr_zones zmd"
    by (simp add: first_geometry_def init_zmd_by_first_zone_def Let_def)
  ultimately show ?thesis using eq by auto
qed

lemma report_zones_fresh:
  assumes "fresh_report report" and "init_inv num zmd"
  shows "\<exists>zmd'. report_zones report None num zmd = Some (Inr (), zmd') \<and>
    init_inv (num + length report) zmd' \<and> zmd_nr_zones zmd' = zmd_nr_zones zmd \<and>
    (0 < num \<longrightarrow> zmd_zone_nr_blocks zmd' = zmd_zone_nr_blocks zmd)"
  using assms
proof (induction report arbitrary: num zmd)
  case Nil
  then show ?case by auto
next
  case (Cons r report)
  obtain blkz m where r: "r = (blkz, m)" by (cases r)
  with Cons.prems have b: "bz_wp blkz = bz_start blkz" "bz_cond blkz = BLK_ZONE_COND_EMPTY" "m"
    and f: "fresh_report report" by (auto simp: fresh_report_def)
  from init_zone_step [OF Cons.prems(2) b(1,2)] obtain zmd1 where
    s: "lbz_init_zone True blkz num zmd = Some (Inr (), zmd1)" "init_inv (Suc num) zmd1"
      "zmd_nr_zones zmd1 = zmd_nr_zones zmd"
      "zmd_zone_nr_blocks zmd1 = zmd_zone_nr_blocks (first_geometry blkz num zmd)" by blast
  from Cons.IH [OF f s(2)] s r b show ?case
    by (auto simp: first_geometry_def)
qed

lemma init_inv_wf:
  assumes inv: "init_inv (unat (zmd_nr_zones zmd)) zmd" and nrb: "zmd_zone_nr_blocks zmd \<noteq> 0"
  shows "zmd_wf zmd"
proof -
  let ?n = "unat (zmd_nr_zones zmd)"
  have z: "fresh_zone z \<and> zone_acct (zmd_zone_nr_blocks zmd) z" if "zmd_zones zmd p = Some z" for p z
    using inv that by (auto simp: init_inv_def)
  have at: "phase_at zmd p k \<longleftrightarrow> p < ?n \<and> k = PEmpty" for p k
    using inv z unfolding init_inv_def phase_at_def fresh_zone_def by (metis not_None_eq)
  have "wf_zones zmd" using inv nrb z by (auto simp: wf_zones_def init_inv_def zone_ok_def fresh_zone_def)
  moreover have "wf_lists zmd" using inv by (auto simp: wf_lists_def init_inv_def at)
  moreover have "wf_active zmd" using inv by (auto simp: wf_active_def init_inv_def at)
  moreover have c: "msum ?n (zmd_zones zmd) f = of_nat ?n * v" if "\<And>p y. zmd_zones zmd p = Some y \<Longrightarrow> f y = v"
    for f :: "lbz_zone \<Rightarrow> u32" and v
  proof -
    have "msum ?n (zmd_zones zmd) f = (\<Sum>i<?n. v)"
    proof (unfold msum_def, rule sum.cong)
      fix i assume "i \<in> {..<?n}"
      with inv obtain y where "zmd_zones zmd i = Some y" unfolding init_inv_def by (metis lessThan_iff not_None_eq)
      with that show "(case zmd_zones zmd i of None \<Rightarrow> 0 | Some x \<Rightarrow> f x) = v" by simp
    qed simp
    then show ?thesis by simp
  qed
  have "wf_sums zmd"
    using inv z c [of "\<lambda>z. zmd_zone_nr_blocks zmd - z_wp_block z" "zmd_zone_nr_blocks zmd"] c [of z_weight 0]
    by (auto simp: wf_sums_def init_inv_def fresh_zone_def)
  ultimately show ?thesis by (simp add: zmd_wf_def)
qed

lemma report_zones_init:
  assumes "fresh_report report" and "report = (blkz, ok) # rest" and "init_inv 0 zmd"
    and "8 \<le> unat (ucast (bz_capacity blkz) :: u32)"
  shows "\<exists>zmd'. report_zones report None 0 zmd = Some (Inr (), zmd') \<and> init_inv (length report) zmd' \<and>
    zmd_nr_zones zmd' = zmd_nr_zones zmd \<and> zmd_zone_nr_blocks zmd' \<noteq> 0"
proof -
  have b: "bz_wp blkz = bz_start blkz" "bz_cond blkz = BLK_ZONE_COND_EMPTY" "ok = True" "fresh_report rest"
    using assms(1,2) by (auto simp: fresh_report_def)
  from init_zone_step [OF assms(3) b(1,2)] obtain zmd1 where
    s: "lbz_init_zone True blkz 0 zmd = Some (Inr (), zmd1)" "init_inv (Suc 0) zmd1"
      "zmd_nr_zones zmd1 = zmd_nr_zones zmd"
      "zmd_zone_nr_blocks zmd1 = zmd_zone_nr_blocks (first_geometry blkz 0 zmd)" by blast
  from report_zones_fresh [OF b(4) s(2)] obtain zmd2 where
    r: "report_zones rest None (Suc 0) zmd1 = Some (Inr (), zmd2)" "init_inv (Suc 0 + length rest) zmd2"
      "zmd_nr_zones zmd2 = zmd_nr_zones zmd1" "zmd_zone_nr_blocks zmd2 = zmd_zone_nr_blocks zmd1" by auto
  have "unat (zmd_zone_nr_blocks zmd2) = unat (ucast (bz_capacity blkz) :: u32) div 8"
    by (simp add: r(4) s(4) first_geometry_def init_zmd_by_first_zone_def Let_def unat_sector_to_blkid_u32)
  with assms(4) have "zmd_zone_nr_blocks zmd2 \<noteq> 0" by auto
  with r s b(3) assms(2) show ?thesis by auto
qed

text \<open>
  The outcome of the initialisation on a device whose zones are all reset, for every outcome of
  the kernel services: the error of the report or of the work queue is returned after the
  zones were dropped, and without one the table is the one that the report describes.
\<close>

lemma report_zones_err:
  "report_zones report None num zmd = Some (Inr (), zmd') \<Longrightarrow>
     report_zones report (Some e) num zmd = Some (Inl e, zmd')"
proof (induction report arbitrary: num zmd)
  case (Cons r report)
  obtain blkz ok where "r = (blkz, ok)" by (cases r)
  moreover from this Cons.prems obtain x zmd1 where "lbz_init_zone ok blkz num zmd = Some (x, zmd1)" by auto
  ultimately show ?case using Cons.prems Cons.IH by (cases x) auto
qed simp

lemma drop_zones_from_ok:
  assumes "\<And>p. i \<le> p \<Longrightarrow> p < i + n \<Longrightarrow> zmd_zones zmd p \<noteq> None"
  shows "\<exists>zs. drop_zones_from i n zmd = Some (zmd\<lparr>zmd_zones := zs\<rparr>)"
  using assms
proof (induction n arbitrary: i zmd)
  case 0
  have "zmd = zmd\<lparr>zmd_zones := zmd_zones zmd\<rparr>" by simp
  then show ?case by (metis drop_zones_from.simps(1))
next
  case (Suc n)
  let ?zmd = "zmd\<lparr>zmd_zones := (zmd_zones zmd)(i := None)\<rparr>"
  from Suc.prems [of i] obtain z where z: "zmd_zones zmd i = Some z" by auto
  have "\<exists>zs. drop_zones_from (Suc i) n ?zmd = Some (?zmd\<lparr>zmd_zones := zs\<rparr>)"
    by (rule Suc.IH) (use Suc.prems in auto)
  with z show ?case by (auto simp: lbz_zone_destroy_def)
qed

lemma drop_zones_ok:
  assumes "\<And>p. p < unat (zmd_nr_zones zmd) \<Longrightarrow> zmd_zones zmd p \<noteq> None"
  shows "\<exists>zs. lbz_drop_zones zmd = Some (zmd\<lparr>zmd_zones := zs\<rparr>)"
  unfolding lbz_drop_zones_def by (rule drop_zones_from_ok) (use assms in simp)

lemma close_zones_from_ok:
  assumes "\<And>p. i \<le> p \<Longrightarrow> p < i + n \<Longrightarrow> zmd_zones zmd p \<noteq> None"
  shows "\<exists>mg. close_zones_from i n zmd = Some (zmd\<lparr>zmd_mgmt := mg\<rparr>)"
  using assms
proof (induction n arbitrary: i zmd)
  case 0
  have "zmd = zmd\<lparr>zmd_mgmt := zmd_mgmt zmd\<rparr>" by simp
  then show ?case by (metis close_zones_from.simps(1))
next
  case (Suc n)
  from Suc.prems [of i] obtain z where z: "zmd_zones zmd i = Some z" by auto
  have "\<exists>mg. close_zones_from (Suc i) n (lbz_close_zone z zmd) = Some ((lbz_close_zone z zmd)\<lparr>zmd_mgmt := mg\<rparr>)"
    by (rule Suc.IH) (use Suc.prems in \<open>auto simp: lbz_close_zone_def\<close>)
  with z show ?case by (auto simp: lbz_close_zone_def)
qed

lemma destroy_zone_metadata_ok:
  assumes "\<And>p. p < unat (zmd_nr_zones zmd) \<Longrightarrow> zmd_zones zmd p \<noteq> None" "zmd_zone_state_wq zmd = WqOk"
  shows "\<exists>zs mg. lbz_destroy_zone_metadata zmd = Some (zmd\<lparr>zmd_mgmt := mg, zmd_zones := zs\<rparr>)"
proof -
  from close_zones_from_ok [of 0 "unat (zmd_nr_zones zmd)" zmd] assms obtain mg where
    c: "close_zones_from 0 (unat (zmd_nr_zones zmd)) zmd = Some (zmd\<lparr>zmd_mgmt := mg\<rparr>)" by auto
  have "\<exists>zs. lbz_drop_zones (zmd\<lparr>zmd_mgmt := mg\<rparr>) = Some (zmd\<lparr>zmd_mgmt := mg, zmd_zones := zs\<rparr>)"
    by (rule drop_zones_ok) (use assms in simp)
  with c assms(2) show ?thesis by (auto simp: lbz_destroy_zone_metadata_def)
qed

text \<open>The table of a device whose zones are all reset.\<close>

definition fresh_table :: "u32 \<Rightarrow> lbz_zone_metadata \<Rightarrow> bool" where
  "fresh_table nr_zones zmd \<longleftrightarrow> init_inv (unat nr_zones) zmd \<and> zmd_nr_zones zmd = nr_zones \<and>
     zmd_zone_nr_blocks zmd \<noteq> 0 \<and> zmd_reserved_blks_gc zmd = zmd_zone_nr_blocks zmd"

definition report_ok :: "u32 \<Rightarrow> (blk_zone \<times> bool) list \<Rightarrow> bool" where
  "report_ok nr_zones report \<longleftrightarrow> fresh_report report \<and> report \<noteq> [] \<and> length report = unat nr_zones \<and>
     8 \<le> unat (ucast (bz_capacity (fst (hd report))) :: u32)"

lemma init_zone_metadata_fresh:
  assumes "report_ok nr_zones report"
  shows "\<exists>zmd. fresh_table nr_zones zmd \<and>
    (\<forall>dev_err wq. \<exists>zmd'. zmd_nr_zones zmd' = nr_zones \<and>
       lbz_init_zone_metadata nr_zones zone_sectors report dev_err wq zmd_zero =
       Some (case (dev_err, wq_error wq) of
           (Some e, _) \<Rightarrow> (Inl e, zmd') | (None, Some e) \<Rightarrow> (Inl e, zmd') | (None, None) \<Rightarrow> (Inr (), zmd\<lparr>zmd_zone_state_wq := wq\<rparr>)))"
proof -
  obtain blkz ok rest where rep: "report = (blkz, ok) # rest"
    using assms by (cases report) (auto simp: report_ok_def)
  have a: "fresh_report report" "length report = unat nr_zones" "8 \<le> unat (ucast (bz_capacity blkz) :: u32)"
    using assms rep by (auto simp: report_ok_def)
  define zmd0 where "zmd0 = zmd_zero\<lparr>zmd_nr_zones := nr_zones, zmd_zone_size_sectors := zone_sectors,
      zmd_zone_size_blks := sector_to_blkid (ucast zone_sectors)\<rparr>"
  have inv0: "init_inv 0 zmd0" by (simp add: init_inv_def zmd0_def zmd_zero_def)
  from report_zones_init [OF a(1) rep inv0 a(3)] obtain zmd2 where
    r: "report_zones report None 0 zmd0 = Some (Inr (), zmd2)" "init_inv (unat nr_zones) zmd2"
      "zmd_nr_zones zmd2 = nr_zones" "zmd_zone_nr_blocks zmd2 \<noteq> 0"
    unfolding a(2) [symmetric] by (auto simp: zmd0_def)
  define zmd where "zmd = zmd2\<lparr>zmd_reserved_blks_gc := zmd_zone_nr_blocks zmd2,
           zmd_reclaim_wm_gc_low := 2, zmd_reclaim_wm_gc_high := 4, zmd_zone_reclaim_wm := 1,
           zmd_zs_close_times := 0, zmd_zs_reset_times := 0\<rparr>"
  let ?q = "\<lambda>wq. zmd\<lparr>zmd_zone_state_wq := wq\<rparr>"
  have f: "fresh_table nr_zones zmd" using r(2-4) by (simp add: fresh_table_def zmd_def init_inv_def)
  have p: "p < unat nr_zones \<Longrightarrow> zmd_zones zmd2 p \<noteq> None" for p using r(2) by (simp add: init_inv_def)
  have "\<exists>zs. lbz_drop_zones zmd2 = Some (zmd2\<lparr>zmd_zones := zs\<rparr>)"
    by (rule drop_zones_ok) (use p r(3) in simp)
  then obtain d2 where d2: "lbz_drop_zones zmd2 = Some d2" "zmd_nr_zones d2 = nr_zones" using r(3) by auto
  have "\<exists>zs. lbz_drop_zones (?q wq) = Some ((?q wq)\<lparr>zmd_zones := zs\<rparr>)" for wq
    by (rule drop_zones_ok) (use p r(3) in \<open>simp add: zmd_def\<close>)
  then have "\<forall>wq. \<exists>d. lbz_drop_zones (?q wq) = Some d \<and> zmd_nr_zones d = nr_zones" using r(3) by (fastforce simp: zmd_def)
  then obtain d where d: "\<And>wq. lbz_drop_zones (?q wq) = Some (d wq)" "\<And>wq. zmd_nr_zones (d wq) = nr_zones" by metis
  have "nr_zones \<noteq> 0" using a(2) rep by auto
  then have "lbz_init_zones report dev_err zmd0 = Some (case dev_err of
      Some e \<Rightarrow> (Inl e, d2) | None \<Rightarrow> (Inr (), zmd2))" for dev_err
    using r(1) report_zones_err [OF r(1)] d2
    by (cases dev_err) (simp_all add: lbz_init_zones_def zmd0_def zmd_zero_def)
  moreover have "zmd_zero\<lparr>zmd_empty_zone_list := [], zmd_full_zone_list := [], zmd_active_zone_list := [],
       zmd_active_zone := (zmd_active_zone zmd_zero)(0 := None, 1 := None),
       zmd_active_zone_writes := (zmd_active_zone_writes zmd_zero)(0 := 0, 1 := 0),
       zmd_empty_zone_count := 0, zmd_full_zone_count := 0, zmd_active_zone_count := 0,
       zmd_nr_zones := nr_zones, zmd_zone_size_sectors := zone_sectors,
       zmd_zone_size_blks := sector_to_blkid (ucast zone_sectors),
       zmd_nr_total_blks := 0, zmd_nr_allocable_blks := 0, zmd_nr_valid_blks := 0\<rparr> = zmd0"
    by (simp add: zmd0_def zmd_zero_def fun_upd_idem)
  ultimately have e: "lbz_init_zone_metadata nr_zones zone_sectors report dev_err wq zmd_zero =
      Some (case (dev_err, wq_error wq) of (Some e, _) \<Rightarrow> (Inl e, d2) | (None, Some e) \<Rightarrow> (Inl e, d wq)
        | (None, None) \<Rightarrow> (Inr (), zmd\<lparr>zmd_zone_state_wq := wq\<rparr>))" for dev_err wq
    using d by (cases dev_err; cases wq) (simp_all add: lbz_init_zone_metadata_def zmd_def [symmetric])
  have "\<exists>zmd'. zmd_nr_zones zmd' = nr_zones \<and>
       lbz_init_zone_metadata nr_zones zone_sectors report dev_err wq zmd_zero =
       Some (case (dev_err, wq_error wq) of
           (Some e, _) \<Rightarrow> (Inl e, zmd') | (None, Some e) \<Rightarrow> (Inl e, zmd') | (None, None) \<Rightarrow> (Inr (), zmd\<lparr>zmd_zone_state_wq := wq\<rparr>))"
    for dev_err wq
    using d(2) d2(2) by (cases dev_err; cases wq) (auto simp: e)
  with f show ?thesis by blast
qed

lemma fresh_table_wf: "fresh_table nr_zones zmd \<Longrightarrow> zmd_wf zmd"
  by (rule init_inv_wf) (auto simp: fresh_table_def)

lemma fresh_table_unmapped:
  "fresh_table nr_zones zmd \<Longrightarrow> zmd_zones zmd p = Some z \<Longrightarrow> fresh_zone z \<and> (\<forall>i. \<not> zone_valid z i)"
  using zone_acct_weightless [of "zmd_zone_nr_blocks zmd" z] by (auto simp: fresh_table_def init_inv_def fresh_zone_def)

text \<open>
  C21. On a backing device whose zones are all reset, initialisation succeeds and establishes
  the invariant of the zone table: every zone is empty and on the empty list, nothing is
  live, every block is allocatable, and the reserve is one zone.
\<close>

theorem init_zone_metadata_wf:
  assumes "report_ok nr_zones report"
  shows "\<exists>zmd. lbz_init_zone_metadata nr_zones zone_sectors report None WqOk zmd_zero = Some (Inr (), zmd) \<and>
    zmd_wf zmd \<and> (\<forall>p z. zmd_zones zmd p = Some z \<longrightarrow> fresh_zone z \<and> (\<forall>i. \<not> zone_valid z i)) \<and>
    zmd_empty_zone_list zmd = [0..<unat nr_zones] \<and>
    zmd_nr_allocable_blks zmd = zmd_nr_total_blks zmd \<and>
    zmd_reserved_blks_gc zmd = zmd_zone_nr_blocks zmd"
proof -
  from init_zone_metadata_fresh [OF assms, of zone_sectors] obtain zmd where
    f: "fresh_table nr_zones zmd" and
    e: "\<forall>dev_err wq. \<exists>zmd'. zmd_nr_zones zmd' = nr_zones \<and>
       lbz_init_zone_metadata nr_zones zone_sectors report dev_err wq zmd_zero =
       Some (case (dev_err, wq_error wq) of
           (Some e, _) \<Rightarrow> (Inl e, zmd') | (None, Some e) \<Rightarrow> (Inl e, zmd') | (None, None) \<Rightarrow> (Inr (), zmd\<lparr>zmd_zone_state_wq := wq\<rparr>))"
    by blast
  let ?zmd = "zmd\<lparr>zmd_zone_state_wq := WqOk\<rparr>"
  from e [rule_format, of None WqOk]
  have "lbz_init_zone_metadata nr_zones zone_sectors report None WqOk zmd_zero = Some (Inr (), ?zmd)" by simp
  moreover have f': "fresh_table nr_zones ?zmd" using f by (simp add: fresh_table_def init_inv_def)
  ultimately show ?thesis using fresh_table_wf [OF f'] fresh_table_unmapped [OF f']
    by (intro exI [of _ ?zmd]) (auto simp: fresh_table_def init_inv_def)
qed

end
