(* ===== verification/Mapping_Tree.thy ===== *)
theory Mapping_Tree
  imports Zone
begin

text \<open>
  \<^verbatim>\<open>lbz-mapping.c\<close> and \<^verbatim>\<open>include/lbz-mapping.h\<close>: the three level tree that maps logical blocks
  to physical blocks. The root is an array of pointers to internal nodes, an internal node an
  array of pointers to leaf nodes, a leaf node an array of physical block addresses. A pointer
  that was never written is \<open>None\<close>; following it, or leaving an array, stops the model.

  The locale \<open>forward_map\<close> is the contract of the tree for its clients; the tree is shown to
  meet it.
\<close>

section \<open>Nodes\<close>

record mapping_leaf_node =
  lf_blkid :: u32
  lf_pbids :: "u32 list"

record mapping_internal_node =
  in_entries :: u32
  in_blkid :: u32
  in_childern :: "mapping_leaf_node option list"

record lbz_mapping =
  m_root :: "mapping_internal_node option list"
  m_max_blkid :: u32
  m_superblock_pbid :: u32

definition LBZ_MAPPING_BLK_SHIFT :: nat where "LBZ_MAPPING_BLK_SHIFT = 12"

definition LBZ_MAPPING_BLK_SIZE :: nat where "LBZ_MAPPING_BLK_SIZE = 2 ^ LBZ_MAPPING_BLK_SHIFT"

definition LBZ_LEAF_NODE_ENTIRES :: "kern \<Rightarrow> nat" where
  "LBZ_LEAF_NODE_ENTIRES K = (LBZ_MAPPING_BLK_SIZE - sizeof_leaf_node_headr K) div 4"

text \<open>The header of an internal node is two \<open>unsigned int\<close>, a pointer has 8 bytes.\<close>

definition LBZ_INT_NODE_ENTRIES :: nat where
  "LBZ_INT_NODE_ENTRIES = (LBZ_MAPPING_BLK_SIZE - 8) div 8"

definition LBZ_INT_NODE_INDEXED_BLKS :: "kern \<Rightarrow> nat" where
  "LBZ_INT_NODE_INDEXED_BLKS K = LBZ_LEAF_NODE_ENTIRES K * LBZ_INT_NODE_ENTRIES"

definition MAX_INTERNAL_NODES :: "kern \<Rightarrow> nat" where
  "MAX_INTERNAL_NODES K =
     (LBZ_MAX_DEV_SIZE * 2 ^ (30 - LBZ_DATA_BLK_SHIFT) + LBZ_INT_NODE_INDEXED_BLKS K - 1)
       div LBZ_INT_NODE_INDEXED_BLKS K"

section \<open>Lookup and update\<close>

text \<open>The three indices of a block; the leaf pointer is the pair of the first two.\<close>

definition find_specific_node :: "kern \<Rightarrow> lbz_mapping \<Rightarrow> u32 \<Rightarrow> (nat \<times> nat \<times> nat) option" where
  "find_specific_node K mapping blkid =
     (if m_max_blkid mapping \<le> blkid then None
      else
        (let root_index = unat blkid div LBZ_INT_NODE_INDEXED_BLKS K;
             int_index = unat blkid div LBZ_LEAF_NODE_ENTIRES K mod LBZ_INT_NODE_ENTRIES;
             leaf_index = unat blkid mod LBZ_LEAF_NODE_ENTIRES K
         in Some (root_index, int_index, leaf_index)))"

definition root_node :: "lbz_mapping \<Rightarrow> nat \<Rightarrow> mapping_internal_node option" where
  "root_node mapping i = (if i < length (m_root mapping) then m_root mapping ! i else None)"

definition child_node :: "mapping_internal_node \<Rightarrow> nat \<Rightarrow> mapping_leaf_node option" where
  "child_node node j = (if j < length (in_childern node) then in_childern node ! j else None)"

definition read_pbid :: "lbz_mapping \<Rightarrow> nat \<times> nat \<times> nat \<Rightarrow> u32 option" where
  "read_pbid mapping = (\<lambda>(i, j, k). do {
     node \<leftarrow> root_node mapping i;
     leaf \<leftarrow> child_node node j;
     if k < length (lf_pbids leaf) then Some (lf_pbids leaf ! k) else None
   })"

definition write_pbid :: "lbz_mapping \<Rightarrow> nat \<times> nat \<times> nat \<Rightarrow> u32 \<Rightarrow> lbz_mapping option" where
  "write_pbid mapping = (\<lambda>(i, j, k) pbid. do {
     node \<leftarrow> root_node mapping i;
     leaf \<leftarrow> child_node node j;
     if k < length (lf_pbids leaf)
     then Some (mapping\<lparr>m_root := (m_root mapping)[i := Some (node\<lparr>in_childern :=
            (in_childern node)[j := Some (leaf\<lparr>lf_pbids := (lf_pbids leaf)[k := pbid]\<rparr>)]\<rparr>)]\<rparr>)
     else None
   })"

text \<open>A lookup takes a reference on the zone that holds the block.\<close>

definition lbz_mapping_lookup ::
  "kern \<Rightarrow> lbz_mapping \<Rightarrow> u32 \<Rightarrow> lbz_zone_metadata \<Rightarrow>
     ((errno + zptr \<times> u32) \<times> lbz_zone_metadata) option" where
  "lbz_mapping_lookup K mapping blkid zmd = do {
     idx \<leftarrow> find_specific_node K mapping blkid;
     pbid \<leftarrow> read_pbid mapping idx;
     if pbid \<noteq> LBZ_INVALID_PBID
     then do {
       let zone = get_zone_by_pbid K pbid;
       zmd \<leftarrow> upd_zone zone lbz_get_zone zmd;
       Some (Inr (zone, pbid), zmd)
     }
     else Some (Inl ENOENT, zmd)
   }"

definition lbz_mapping_add :: "kern \<Rightarrow> lbz_mapping \<Rightarrow> u32 \<Rightarrow> u32 \<Rightarrow> (u32 \<times> lbz_mapping) option" where
  "lbz_mapping_add K mapping blkid pbid = do {
     idx \<leftarrow> find_specific_node K mapping blkid;
     old_pbid \<leftarrow> read_pbid mapping idx;
     mapping \<leftarrow> write_pbid mapping idx pbid;
     Some (old_pbid, mapping)
   }"

definition lbz_mapping_remove :: "kern \<Rightarrow> lbz_mapping \<Rightarrow> u32 \<Rightarrow> (u32 \<times> lbz_mapping) option" where
  "lbz_mapping_remove K mapping blkid = do {
     idx \<leftarrow> find_specific_node K mapping blkid;
     old_pbid \<leftarrow> read_pbid mapping idx;
     mapping \<leftarrow> write_pbid mapping idx LBZ_INVALID_PBID;
     Some (old_pbid, mapping)
   }"

section \<open>Creation and destruction\<close>

definition init_internal_node :: "u32 \<Rightarrow> mapping_internal_node" where
  "init_internal_node blkid =
     \<lparr>in_entries = 0, in_blkid = blkid, in_childern = replicate LBZ_INT_NODE_ENTRIES None\<rparr>"

definition init_leaf_node :: "kern \<Rightarrow> u32 \<Rightarrow> mapping_leaf_node" where
  "init_leaf_node K blkid =
     \<lparr>lf_blkid = blkid, lf_pbids = replicate (LBZ_LEAF_NODE_ENTIRES K) LBZ_INVALID_PBID\<rparr>"

text \<open>
  The number of nodes, computed on \<open>unsigned long\<close> from the \<open>int\<close> block count and stored in an
  \<open>int\<close>; the loops run while their counter is below it.
\<close>

definition nr_nodes :: "u32 \<Rightarrow> nat \<Rightarrow> nat" where
  "nr_nodes max_blkid per =
     nat (sint (ucast (((scast max_blkid :: u64) + of_nat per - 1) div of_nat per) :: u32))"

function init_childern ::
  "kern \<Rightarrow> nat \<Rightarrow> nat \<Rightarrow> nat \<Rightarrow> u32 \<Rightarrow> mapping_internal_node \<Rightarrow> mapping_internal_node \<times> nat \<times> u32" where
  "init_childern K nr_leaf j count start node =
     (if j < LBZ_INT_NODE_ENTRIES \<and> count < nr_leaf
      then init_childern K nr_leaf (j + 1) (count + 1) (start + of_nat (LBZ_LEAF_NODE_ENTIRES K))
             (node\<lparr>in_childern := (in_childern node)[j := Some (init_leaf_node K start)],
                   in_entries := in_entries node + 1\<rparr>)
      else (node, count, start))"
  by pat_completeness auto
termination by (relation "measure (\<lambda>(K, nr_leaf, j, count, start, node). LBZ_INT_NODE_ENTRIES - j)") auto

function init_roots ::
  "kern \<Rightarrow> nat \<Rightarrow> nat \<Rightarrow> nat \<Rightarrow> nat \<Rightarrow> u32 \<Rightarrow> mapping_internal_node option list \<Rightarrow>
     mapping_internal_node option list option" where
  "init_roots K nr_int nr_leaf i count start root =
     (if i < nr_int
      then if i < length root
           then (case init_childern K nr_leaf 0 count start (init_internal_node start) of
                   (node, count, start) \<Rightarrow>
                     init_roots K nr_int nr_leaf (i + 1) count start (root[i := Some node]))
           else None
      else Some root)"
  by pat_completeness auto
termination by (relation "measure (\<lambda>(K, nr_int, nr_leaf, i, count, start, root). nr_int - i)") auto

declare init_childern.simps [simp del] init_roots.simps [simp del]

definition lbz_mapping_init :: "kern \<Rightarrow> u64 \<Rightarrow> lbz_mapping option" where
  "lbz_mapping_init K dev_size =
     (let max_blkid = ucast (drop_bit (LBZ_DATA_BLK_SHIFT - SECTOR_SHIFT) dev_size);
          nr_internal_node = nr_nodes max_blkid (LBZ_INT_NODE_INDEXED_BLKS K);
          nr_leaf_node = nr_nodes max_blkid (LBZ_LEAF_NODE_ENTIRES K)
      in do {
        root \<leftarrow> init_roots K nr_internal_node nr_leaf_node 0 0 0
                  (replicate (MAX_INTERNAL_NODES K) None);
        Some \<lparr>m_root = root, m_max_blkid = max_blkid, m_superblock_pbid = LBZ_INVALID_PBID\<rparr>
      })"

text \<open>Freeing walks the same loops; each node that is freed must be there.\<close>

function destroy_childern :: "nat \<Rightarrow> nat \<Rightarrow> nat \<Rightarrow> mapping_internal_node \<Rightarrow> (mapping_internal_node \<times> nat) option" where
  "destroy_childern nr_leaf j count node =
     (if j < LBZ_INT_NODE_ENTRIES \<and> count < nr_leaf
      then do {
        leaf \<leftarrow> child_node node j;
        destroy_childern nr_leaf (j + 1) (count + 1) (node\<lparr>in_childern := (in_childern node)[j := None]\<rparr>)
      }
      else Some (node, count))"
  by pat_completeness auto
termination by (relation "measure (\<lambda>(nr_leaf, j, count, node). LBZ_INT_NODE_ENTRIES - j)") auto

function destroy_roots :: "nat \<Rightarrow> nat \<Rightarrow> nat \<Rightarrow> nat \<Rightarrow> lbz_mapping \<Rightarrow> lbz_mapping option" where
  "destroy_roots nr_int nr_leaf i count mapping =
     (if i < nr_int
      then do {
        node \<leftarrow> root_node mapping i;
        (node, count) \<leftarrow> destroy_childern nr_leaf 0 count node;
        destroy_roots nr_int nr_leaf (i + 1) count (mapping\<lparr>m_root := (m_root mapping)[i := None]\<rparr>)
      }
      else Some mapping)"
  by pat_completeness auto
termination by (relation "measure (\<lambda>(nr_int, nr_leaf, i, count, mapping). nr_int - i)") auto

declare destroy_childern.simps [simp del] destroy_roots.simps [simp del]

definition lbz_mapping_destroy :: "kern \<Rightarrow> lbz_mapping \<Rightarrow> lbz_mapping option" where
  "lbz_mapping_destroy K mapping =
     destroy_roots (nr_nodes (m_max_blkid mapping) (LBZ_INT_NODE_INDEXED_BLKS K))
       (nr_nodes (m_max_blkid mapping) (LBZ_LEAF_NODE_ENTIRES K)) 0 0 mapping"

section \<open>Allocation of a node\<close>

text \<open>
  \<open>get k\<close> is the answer of the \<open>k\<close>-th call of \<open>__get_free_page\<close>; \<open>IS_ERR\<close> holds of the last 4095
  addresses.
\<close>

definition is_err :: "u64 \<Rightarrow> bool" where
  "is_err p \<longleftrightarrow> - 4095 \<le> p"

partial_function (option) alloc_mapping_node :: "(nat \<Rightarrow> u64) \<Rightarrow> nat \<Rightarrow> u64 option" where
  "alloc_mapping_node get k = (if is_err (get k) then alloc_mapping_node get (k + 1) else Some (get k))"

text \<open>
  \<open>__get_free_page\<close> returns the address of a page or 0, never an error pointer: the first answer
  is taken, and without memory it is the null pointer.
\<close>

lemma alloc_mapping_node_first:
  assumes "get k = 0 \<or> unat (get k) mod 4096 = 0 \<and> unat (get k) + 4096 < 2 ^ 64"
  shows "alloc_mapping_node get k = Some (get k)"
proof -
  have "unat (- 4095 :: u64) = 2 ^ 64 - 4095" by simp
  then have "\<not> is_err (get k)" using assms by (auto simp: is_err_def word_le_nat_alt)
  then show ?thesis by (simp add: alloc_mapping_node.simps)
qed

section \<open>The contract of the map\<close>

text \<open>
  What a client of the map relies on: \<open>get\<close> is the entry of a block, \<open>None\<close> for a block that
  is outside the device; \<open>add\<close> and \<open>remove\<close> return the old entry, write one entry, and fail
  only outside the device.
\<close>

locale forward_map =
  fixes get :: "'m \<Rightarrow> u32 \<Rightarrow> u32 option"
    and add :: "'m \<Rightarrow> u32 \<Rightarrow> u32 \<Rightarrow> (u32 \<times> 'm) option"
    and remove :: "'m \<Rightarrow> u32 \<Rightarrow> (u32 \<times> 'm) option"
  assumes add_some: "get m b = Some old \<Longrightarrow> \<exists>m'. add m b p = Some (old, m')"
    and add_none: "get m b = None \<Longrightarrow> add m b p = None"
    and get_add: "add m b p = Some (old, m') \<Longrightarrow> get m' c = (if c = b then Some p else get m c)"
    and remove_some: "get m b = Some old \<Longrightarrow> \<exists>m'. remove m b = Some (old, m')"
    and remove_none: "get m b = None \<Longrightarrow> remove m b = None"
    and get_remove: "remove m b = Some (old, m') \<Longrightarrow>
          get m' c = (if c = b then Some LBZ_INVALID_PBID else get m c)"
begin

lemma add_old: "add m b p = Some (old, m') \<Longrightarrow> get m b = Some old"
  using add_some add_none by (metis not_None_eq option.inject prod.inject)

lemma remove_old: "remove m b = Some (old, m') \<Longrightarrow> get m b = Some old"
  using remove_some remove_none by (metis not_None_eq option.inject prod.inject)

text \<open>The entries that exist never change, so a block that can be mapped stays mappable.\<close>

lemma add_dom: "add m b p = Some (old, m') \<Longrightarrow> get m' c = None \<longleftrightarrow> get m c = None"
  using get_add [of m b p old m' c] add_old [of m b p old m'] by auto

lemma remove_dom: "remove m b = Some (old, m') \<Longrightarrow> get m' c = None \<longleftrightarrow> get m c = None"
  using get_remove [of m b old m' c] remove_old [of m b old m'] by auto

lemma remove_add:
  assumes "add m b p = Some (old, m1)" and "remove m1 b = Some (p', m2)"
  shows "p' = p \<and> get m2 = (get m)(b \<mapsto> LBZ_INVALID_PBID)"
  using get_add [OF assms(1)] get_remove [OF assms(2)] remove_old [OF assms(2)]
  by (auto simp: fun_eq_iff)

text \<open>Adding to two different blocks commutes.\<close>

lemma add_commute:
  assumes "b \<noteq> c" "add m b p = Some (x1, m1)" "add m1 c q = Some (y1, m2)"
    "add m c q = Some (y2, n1)" "add n1 b p = Some (x2, n2)"
  shows "x1 = x2 \<and> y1 = y2 \<and> get m2 = get n2"
  using assms(1) get_add [OF assms(2)] get_add [OF assms(3)] get_add [OF assms(4)] get_add [OF assms(5)]
    add_old [OF assms(2)] add_old [OF assms(3)] add_old [OF assms(4)] add_old [OF assms(5)]
  by (auto simp: fun_eq_iff)

end

section \<open>The tree meets the contract\<close>

definition map_get :: "kern \<Rightarrow> lbz_mapping \<Rightarrow> u32 \<Rightarrow> u32 option" where
  "map_get K m b = Option.bind (find_specific_node K m b) (read_pbid m)"

lemma div_mod_3_inj:
  assumes "x div (l * e) = y div (l * e)" "x div l mod e = y div l mod e" "x mod l = (y mod l :: nat)"
  shows "x = y"
proof -
  have "x div l = y div l" using assms(1,2) by (metis div_mult2_eq div_mult_mod_eq)
  then show ?thesis using assms(3) by (metis div_mult_mod_eq)
qed

lemma find_specific_node_inj:
  "find_specific_node K m b = Some idx \<Longrightarrow> find_specific_node K m c = Some idx \<Longrightarrow> b = c"
  unfolding find_specific_node_def LBZ_INT_NODE_INDEXED_BLKS_def word_unat_eq_iff
  by (rule div_mod_3_inj [of _ "LBZ_LEAF_NODE_ENTIRES K" LBZ_INT_NODE_ENTRIES])
    (auto simp: Let_def split: if_splits)

lemma read_write_pbid:
  assumes "write_pbid m idx p = Some m'"
  shows "read_pbid m' idx' = (if idx' = idx then Some p else read_pbid m idx')"
proof -
  obtain i j k i' j' k' where idx: "idx = (i, j, k)" "idx' = (i', j', k')" by (metis prod_cases3)
  from assms obtain node leaf where n: "root_node m i = Some node" "child_node node j = Some leaf"
      "k < length (lf_pbids leaf)"
    and m': "m' = m\<lparr>m_root := (m_root m)[i := Some (node\<lparr>in_childern :=
            (in_childern node)[j := Some (leaf\<lparr>lf_pbids := (lf_pbids leaf)[k := p]\<rparr>)]\<rparr>)]\<rparr>"
    by (auto simp: write_pbid_def idx split: if_splits)
  have r: "root_node m' t = (if t = i then Some (node\<lparr>in_childern :=
            (in_childern node)[j := Some (leaf\<lparr>lf_pbids := (lf_pbids leaf)[k := p]\<rparr>)]\<rparr>)
          else root_node m t)" for t
    using n(1) by (auto simp: m' root_node_def nth_list_update split: if_splits)
  have c: "child_node (node\<lparr>in_childern := (in_childern node)[j := Some x]\<rparr>) t =
      (if t = j then Some x else child_node node t)" for t x
    using n(2) by (auto simp: child_node_def nth_list_update split: if_splits)
  show ?thesis
    using n by (auto simp: idx read_pbid_def r c nth_list_update)
qed

lemma write_pbid_iff: "(\<exists>m'. write_pbid m idx p = Some m') \<longleftrightarrow> (\<exists>q. read_pbid m idx = Some q)"
  by (cases idx) (auto simp: read_pbid_def write_pbid_def)

lemma write_pbid_max: "write_pbid m idx p = Some m' \<Longrightarrow> m_max_blkid m' = m_max_blkid m"
  by (cases idx) (auto simp: write_pbid_def split: if_splits)

lemma find_specific_node_write:
  "write_pbid m idx p = Some m' \<Longrightarrow> find_specific_node K m' b = find_specific_node K m b"
  by (simp add: find_specific_node_def write_pbid_max)

lemma map_get_write:
  assumes "find_specific_node K m b = Some idx" "write_pbid m idx p = Some m'"
  shows "map_get K m' c = (if c = b then Some p else map_get K m c)"
  using assms find_specific_node_inj [of K m b idx c]
  by (cases "find_specific_node K m c")
    (auto simp: map_get_def find_specific_node_write [OF assms(2)] read_write_pbid [OF assms(2)])

lemma mapping_add_Some:
  "lbz_mapping_add K m b p = Some (old, m') \<longleftrightarrow> map_get K m b = Some old \<and>
     (\<exists>idx. find_specific_node K m b = Some idx \<and> write_pbid m idx p = Some m')"
  by (auto simp: lbz_mapping_add_def map_get_def)

lemma mapping_remove_Some:
  "lbz_mapping_remove K m b = Some (old, m') \<longleftrightarrow> map_get K m b = Some old \<and>
     (\<exists>idx. find_specific_node K m b = Some idx \<and> write_pbid m idx LBZ_INVALID_PBID = Some m')"
  by (auto simp: lbz_mapping_remove_def map_get_def)

interpretation fm: forward_map "map_get K" "lbz_mapping_add K" "lbz_mapping_remove K" for K
proof unfold_locales
  fix m b old p
  assume a: "map_get K m b = Some old"
  then obtain idx where i: "find_specific_node K m b = Some idx" "read_pbid m idx = Some old"
    by (auto simp: map_get_def)
  then have "\<exists>m'. write_pbid m idx q = Some m'" for q using write_pbid_iff by blast
  then show "\<exists>m'. lbz_mapping_add K m b p = Some (old, m')" "\<exists>m'. lbz_mapping_remove K m b = Some (old, m')"
    using a i by (auto simp: mapping_add_Some mapping_remove_Some)
next
  fix m b p
  assume a: "map_get K m b = None"
  show "lbz_mapping_add K m b p = None"
    using mapping_add_Some [of K m b p] a by (cases "lbz_mapping_add K m b p") auto
  show "lbz_mapping_remove K m b = None"
    using mapping_remove_Some [of K m b] a by (cases "lbz_mapping_remove K m b") auto
qed (auto simp: mapping_add_Some mapping_remove_Some map_get_write)

section \<open>Initialisation builds the whole tree\<close>

lemma leaf_entries_pos: "kern_ok K \<Longrightarrow> 0 < LBZ_LEAF_NODE_ENTIRES K"
  by (auto simp: kern_ok_def LBZ_LEAF_NODE_ENTIRES_def LBZ_MAPPING_BLK_SIZE_def LBZ_MAPPING_BLK_SHIFT_def
      div_greater_zero_iff)

lemma leaf_entries_le: "LBZ_LEAF_NODE_ENTIRES K \<le> 1024"
  by (simp add: LBZ_LEAF_NODE_ENTIRES_def LBZ_MAPPING_BLK_SIZE_def LBZ_MAPPING_BLK_SHIFT_def)

lemma int_entries: "LBZ_INT_NODE_ENTRIES = 511"
  by (simp add: LBZ_INT_NODE_ENTRIES_def LBZ_MAPPING_BLK_SIZE_def LBZ_MAPPING_BLK_SHIFT_def)

lemma ceil_less: "0 < per \<Longrightarrow> x < (n + per - 1) div per \<longleftrightarrow> x * per < (n::nat)"
proof -
  assume p: "0 < per"
  have "x < (n + per - 1) div per \<longleftrightarrow> Suc x * per \<le> n + per - 1"
    using p by (simp add: less_eq_div_iff_mult_less_eq Suc_le_eq [symmetric])
  then show ?thesis using p by auto
qed

lemma nr_nodes_eq:
  assumes n: "unat n < 2 ^ 31" and p: "0 < per" "per \<le> 2 ^ 20"
  shows "nr_nodes n per = (unat n + per - 1) div per"
proof -
  have sc: "(scast n :: u64) = of_nat (unat n)"
    using n by (simp add: scast_eq sint_small)
  have u: "unat ((scast n :: u64) + of_nat per - 1) = unat n + per - 1"
  proof -
    have "(scast n :: u64) + of_nat per - 1 = of_nat (unat n + per - 1)"
      using p by (simp add: sc of_nat_diff)
    moreover have "unat n + per - 1 < 2 ^ 64" using n p by simp
    ultimately show ?thesis by (simp add: unat_of_nat)
  qed
  have le: "(unat n + per - 1) div per \<le> unat n"
    using ceil_less [OF p(1), of "unat n" "unat n"] p(1) by (simp add: not_less [symmetric])
  have "unat (((scast n :: u64) + of_nat per - 1) div of_nat per) = (unat n + per - 1) div per"
    using p by (simp add: unat_div u unat_of_nat)
  then have "unat (ucast (((scast n :: u64) + of_nat per - 1) div of_nat per) :: u32) =
      (unat n + per - 1) div per"
    using le n by (simp add: unsigned_ucast_eq take_bit_eq_mod)
  then show ?thesis using le n by (simp add: nr_nodes_def sint_small)
qed

definition fresh_leaf :: "kern \<Rightarrow> mapping_leaf_node option \<Rightarrow> bool" where
  "fresh_leaf K x \<longleftrightarrow> (\<exists>leaf. x = Some leaf \<and>
     lf_pbids leaf = replicate (LBZ_LEAF_NODE_ENTIRES K) LBZ_INVALID_PBID)"

lemma init_childern_spec:
  assumes "init_childern K nl j count start node = (node', count', start')"
    and "length (in_childern node) = LBZ_INT_NODE_ENTRIES" "j \<le> LBZ_INT_NODE_ENTRIES" "count \<le> nl"
  shows "length (in_childern node') = LBZ_INT_NODE_ENTRIES \<and>
     count' = min nl (count + (LBZ_INT_NODE_ENTRIES - j)) \<and>
     (\<forall>t<j. in_childern node' ! t = in_childern node ! t) \<and>
     (\<forall>t. j \<le> t \<and> t < LBZ_INT_NODE_ENTRIES \<and> count + (t - j) < nl \<longrightarrow> fresh_leaf K (in_childern node' ! t))"
  using assms
proof (induction K nl j count start node rule: init_childern.induct)
  case (1 K nl j count start node)
  show ?case
  proof (cases "j < LBZ_INT_NODE_ENTRIES \<and> count < nl")
    case True
    let ?node = "node\<lparr>in_childern := (in_childern node)[j := Some (init_leaf_node K start)],
                   in_entries := in_entries node + 1\<rparr>"
    from 1(2) True have eq: "init_childern K nl (j + 1) (count + 1)
        (start + of_nat (LBZ_LEAF_NODE_ENTIRES K)) ?node = (node', count', start')"
      by (subst (asm) init_childern.simps) simp
    note ih = 1(1) [OF True eq]
    have s: "length (in_childern node') = LBZ_INT_NODE_ENTRIES"
        "count' = min nl (count + 1 + (LBZ_INT_NODE_ENTRIES - (j + 1)))"
        "\<And>t. t < j + 1 \<Longrightarrow> in_childern node' ! t = (in_childern node)[j := Some (init_leaf_node K start)] ! t"
        "\<And>t. j + 1 \<le> t \<Longrightarrow> t < LBZ_INT_NODE_ENTRIES \<Longrightarrow> count + 1 + (t - (j + 1)) < nl \<Longrightarrow>
            fresh_leaf K (in_childern node' ! t)"
      using ih 1(3) True by auto
    have "fresh_leaf K (in_childern node' ! j)"
      using s(3) [of j] True 1(3) by (simp add: fresh_leaf_def init_leaf_node_def)
    then have "fresh_leaf K (in_childern node' ! t)"
      if "j \<le> t" "t < LBZ_INT_NODE_ENTRIES" "count + (t - j) < nl" for t
      using s(4) [of t] that by (cases "t = j") auto
    moreover have "in_childern node' ! t = in_childern node ! t" if "t < j" for t using s(3) [of t] that by simp
    ultimately show ?thesis using s(1,2) True by auto
  next
    case False
    with 1(2) have "node' = node" "count' = count" by (subst (asm) init_childern.simps; simp)+
    with False 1(3-5) show ?thesis by auto
  qed
qed

definition fresh_node :: "kern \<Rightarrow> nat \<Rightarrow> nat \<Rightarrow> mapping_internal_node option \<Rightarrow> bool" where
  "fresh_node K nl i x \<longleftrightarrow> (\<exists>node. x = Some node \<and> length (in_childern node) = LBZ_INT_NODE_ENTRIES \<and>
     (\<forall>j<LBZ_INT_NODE_ENTRIES. i * LBZ_INT_NODE_ENTRIES + j < nl \<longrightarrow> fresh_leaf K (in_childern node ! j)))"

lemma init_roots_spec:
  assumes "ni \<le> length root" "i \<le> ni" "count = min nl (i * LBZ_INT_NODE_ENTRIES)"
  shows "\<exists>root'. init_roots K ni nl i count start root = Some root' \<and> length root' = length root \<and>
     (\<forall>t<i. root' ! t = root ! t) \<and> (\<forall>t. i \<le> t \<and> t < ni \<longrightarrow> fresh_node K nl t (root' ! t))"
  using assms
proof (induction K ni nl i count start root rule: init_roots.induct)
  case (1 K ni nl i count start root)
  show ?case
  proof (cases "i < ni")
    case True
    obtain node count' start' where
      c: "init_childern K nl 0 count start (init_internal_node start) = (node, count', start')"
      by (metis prod_cases3)
    have len: "length (in_childern (init_internal_node start)) = LBZ_INT_NODE_ENTRIES"
      by (simp add: init_internal_node_def)
    have sp: "length (in_childern node) = LBZ_INT_NODE_ENTRIES"
        "count' = min nl (count + LBZ_INT_NODE_ENTRIES)"
        "\<And>t. t < LBZ_INT_NODE_ENTRIES \<Longrightarrow> count + t < nl \<Longrightarrow> fresh_leaf K (in_childern node ! t)"
      using init_childern_spec [OF c len] 1(4) by auto
    have cnt: "count' = min nl ((i + 1) * LBZ_INT_NODE_ENTRIES)" using sp(2) 1(4) by auto
    have fresh: "fresh_node K nl i (Some node)"
      unfolding fresh_node_def using sp(1,3) 1(4) by auto
    have "i < length root" using True 1(2) by simp
    from 1(1) [OF True this c [symmetric] refl _ _ cnt] True 1(2) obtain root' where
      r: "init_roots K ni nl (i + 1) count' start' (root[i := Some node]) = Some root'"
        "length root' = length root"
        "\<And>t. t < i + 1 \<Longrightarrow> root' ! t = root[i := Some node] ! t"
        "\<And>t. i + 1 \<le> t \<Longrightarrow> t < ni \<Longrightarrow> fresh_node K nl t (root' ! t)"
      by auto
    have "fresh_node K nl t (root' ! t)" if "i \<le> t" "t < ni" for t
      using r(3) [of i] r(4) [of t] fresh that \<open>i < length root\<close> by (cases "t = i") auto
    moreover have "root' ! t = root ! t" if "t < i" for t using r(3) [of t] that by simp
    moreover have "init_roots K ni nl i count start root = Some root'"
      using r(1) c True \<open>i < length root\<close> by (subst init_roots.simps) simp
    ultimately show ?thesis using r(2) by auto
  qed (auto simp: init_roots.simps)
qed

lemma init_roots_overflow:
  assumes "length root < ni" "i \<le> length root"
  shows "init_roots K ni nl i count start root = None"
  using assms
proof (induction K ni nl i count start root rule: init_roots.induct)
  case (1 K ni nl i count start root)
  then show ?case by (subst init_roots.simps) (auto split: prod.splits)
qed

text \<open>A tree whose nodes are all there, whatever the leaves hold.\<close>

definition live_node :: "kern \<Rightarrow> nat \<Rightarrow> nat \<Rightarrow> mapping_internal_node option \<Rightarrow> bool" where
  "live_node K nl i x \<longleftrightarrow> (\<exists>node. x = Some node \<and> length (in_childern node) = LBZ_INT_NODE_ENTRIES \<and>
     (\<forall>j<LBZ_INT_NODE_ENTRIES. i * LBZ_INT_NODE_ENTRIES + j < nl \<longrightarrow>
        (\<exists>leaf. in_childern node ! j = Some leaf \<and> length (lf_pbids leaf) = LBZ_LEAF_NODE_ENTIRES K)))"

definition mapping_wf :: "kern \<Rightarrow> lbz_mapping \<Rightarrow> bool" where
  "mapping_wf K m \<longleftrightarrow>
     unat (m_max_blkid m) < 2 ^ 31 \<and>
     nr_nodes (m_max_blkid m) (LBZ_INT_NODE_INDEXED_BLKS K) \<le> length (m_root m) \<and>
     (\<forall>i < nr_nodes (m_max_blkid m) (LBZ_INT_NODE_INDEXED_BLKS K).
        live_node K (nr_nodes (m_max_blkid m) (LBZ_LEAF_NODE_ENTIRES K)) i (m_root m ! i))"

lemma fresh_node_live: "fresh_node K nl i x \<Longrightarrow> live_node K nl i x"
  by (fastforce simp: fresh_node_def live_node_def fresh_leaf_def)

lemma indexed_blks:
  assumes "kern_ok K"
  shows "0 < LBZ_INT_NODE_INDEXED_BLKS K" "LBZ_INT_NODE_INDEXED_BLKS K \<le> 2 ^ 20"
  using leaf_entries_pos [OF assms] leaf_entries_le [of K]
  by (auto simp: LBZ_INT_NODE_INDEXED_BLKS_def int_entries)

lemma block_indices:
  assumes K: "kern_ok K" and n: "unat n < 2 ^ 31" and b: "b < unat n"
  shows "b div LBZ_INT_NODE_INDEXED_BLKS K < nr_nodes n (LBZ_INT_NODE_INDEXED_BLKS K)"
    and "b div LBZ_LEAF_NODE_ENTIRES K mod LBZ_INT_NODE_ENTRIES < LBZ_INT_NODE_ENTRIES"
    and "b div LBZ_INT_NODE_INDEXED_BLKS K * LBZ_INT_NODE_ENTRIES +
      b div LBZ_LEAF_NODE_ENTIRES K mod LBZ_INT_NODE_ENTRIES < nr_nodes n (LBZ_LEAF_NODE_ENTIRES K)"
proof -
  let ?L = "LBZ_LEAF_NODE_ENTIRES K" and ?E = LBZ_INT_NODE_ENTRIES
  have L: "0 < ?L" "?L \<le> 2 ^ 20" using leaf_entries_pos [OF K] leaf_entries_le [of K] by auto
  show "b div LBZ_INT_NODE_INDEXED_BLKS K < nr_nodes n (LBZ_INT_NODE_INDEXED_BLKS K)"
    unfolding nr_nodes_eq [OF n indexed_blks [OF K]] ceil_less [OF indexed_blks(1) [OF K]]
    using b div_times_less_eq_dividend le_less_trans by blast
  show "b div ?L mod ?E < ?E" by (simp add: int_entries)
  have "b div LBZ_INT_NODE_INDEXED_BLKS K * ?E + b div ?L mod ?E = b div ?L"
    by (simp add: LBZ_INT_NODE_INDEXED_BLKS_def div_mult2_eq)
  moreover have "b div ?L < nr_nodes n ?L"
    unfolding nr_nodes_eq [OF n L] ceil_less [OF L(1)]
    using b div_times_less_eq_dividend le_less_trans by blast
  ultimately show "b div LBZ_INT_NODE_INDEXED_BLKS K * ?E + b div ?L mod ?E < nr_nodes n ?L" by simp
qed

text \<open>Every block of the device has an entry in a well-formed tree.\<close>

lemma mapping_wf_get:
  assumes K: "kern_ok K" and wf: "mapping_wf K m"
  shows "map_get K m b \<noteq> None \<longleftrightarrow> b < m_max_blkid m"
proof
  assume b: "b < m_max_blkid m"
  then have b': "unat b < unat (m_max_blkid m)" by (simp add: word_less_nat_alt)
  have n: "unat (m_max_blkid m) < 2 ^ 31" using wf by (simp add: mapping_wf_def)
  note i = block_indices [OF K n b']
  have live: "live_node K (nr_nodes (m_max_blkid m) (LBZ_LEAF_NODE_ENTIRES K))
      (unat b div LBZ_INT_NODE_INDEXED_BLKS K) (m_root m ! (unat b div LBZ_INT_NODE_INDEXED_BLKS K))"
    and len: "unat b div LBZ_INT_NODE_INDEXED_BLKS K < length (m_root m)"
    using wf i(1) by (auto simp: mapping_wf_def)
  from live i(2,3) obtain node leaf where
    "m_root m ! (unat b div LBZ_INT_NODE_INDEXED_BLKS K) = Some node"
    "length (in_childern node) = LBZ_INT_NODE_ENTRIES"
    "in_childern node ! (unat b div LBZ_LEAF_NODE_ENTIRES K mod LBZ_INT_NODE_ENTRIES) = Some leaf"
    "length (lf_pbids leaf) = LBZ_LEAF_NODE_ENTIRES K"
    by (auto simp: live_node_def)
  then show "map_get K m b \<noteq> None"
    using b len i(2) leaf_entries_pos [OF K]
    by (auto simp: map_get_def find_specific_node_def read_pbid_def root_node_def child_node_def)
qed (auto simp: map_get_def find_specific_node_def split: if_splits)

lemma mapping_wf_write:
  assumes wf: "mapping_wf K m" and w: "write_pbid m idx p = Some m'"
  shows "mapping_wf K m'"
proof -
  obtain i j k where idx: "idx = (i, j, k)" by (metis prod_cases3)
  from w obtain node leaf where n: "root_node m i = Some node" "child_node node j = Some leaf"
      "k < length (lf_pbids leaf)"
    and m': "m' = m\<lparr>m_root := (m_root m)[i := Some (node\<lparr>in_childern :=
            (in_childern node)[j := Some (leaf\<lparr>lf_pbids := (lf_pbids leaf)[k := p]\<rparr>)]\<rparr>)]\<rparr>"
    by (auto simp: write_pbid_def idx split: if_splits)
  have "live_node K nl t (m_root m' ! t)" if "live_node K nl t (m_root m ! t)" for nl t
    using that n by (cases "t = i")
      (auto simp: live_node_def m' root_node_def child_node_def nth_list_update split: if_splits)
  then show ?thesis using wf by (auto simp: mapping_wf_def m')
qed

lemma mapping_wf_add: "mapping_wf K m \<Longrightarrow> lbz_mapping_add K m b p = Some (old, m') \<Longrightarrow> mapping_wf K m'"
  by (auto simp: mapping_add_Some intro: mapping_wf_write)

lemma mapping_wf_remove: "mapping_wf K m \<Longrightarrow> lbz_mapping_remove K m b = Some (old, m') \<Longrightarrow> mapping_wf K m'"
  by (auto simp: mapping_remove_Some intro: mapping_wf_write)

text \<open>The result of the initialisation in terms of its loops.\<close>

lemma mapping_init_roots:
  assumes K: "kern_ok K" and n: "unat dev_size div 8 < 2 ^ 31"
  defines "N \<equiv> MAX_INTERNAL_NODES K * LBZ_INT_NODE_INDEXED_BLKS K"
  shows "unat dev_size div 8 \<le> N \<Longrightarrow> \<exists>m. lbz_mapping_init K dev_size = Some m \<and>
      unat (m_max_blkid m) = unat dev_size div 8 \<and> length (m_root m) = MAX_INTERNAL_NODES K \<and>
      (\<forall>i < nr_nodes (m_max_blkid m) (LBZ_INT_NODE_INDEXED_BLKS K).
        fresh_node K (nr_nodes (m_max_blkid m) (LBZ_LEAF_NODE_ENTIRES K)) i (m_root m ! i))"
    and "N < unat dev_size div 8 \<Longrightarrow> lbz_mapping_init K dev_size = None"
proof -
  let ?n = "ucast (drop_bit 3 dev_size) :: u32" and ?I = "LBZ_INT_NODE_INDEXED_BLKS K"
  have un: "unat ?n = unat dev_size div 8"
    using n unat_sector_to_blkid [of dev_size]
    by (simp add: sector_to_blkid_def LBZ_DATA_BLK_SHIFT_def SECTOR_SHIFT_def)
  then have n': "unat ?n < 2 ^ 31" using n by simp
  have I: "0 < ?I" "?I \<le> 2 ^ 20" using indexed_blks [OF K] by auto
  have le: "nr_nodes ?n ?I \<le> MAX_INTERNAL_NODES K \<longleftrightarrow> unat dev_size div 8 \<le> N"
    using ceil_less [OF I(1), of "MAX_INTERNAL_NODES K" "unat ?n"]
    by (simp add: nr_nodes_eq [OF n' I] un N_def not_less [symmetric])
  have init: "lbz_mapping_init K dev_size = do {
        root \<leftarrow> init_roots K (nr_nodes ?n ?I) (nr_nodes ?n (LBZ_LEAF_NODE_ENTIRES K)) 0 0 0
                  (replicate (MAX_INTERNAL_NODES K) None);
        Some \<lparr>m_root = root, m_max_blkid = ?n, m_superblock_pbid = LBZ_INVALID_PBID\<rparr> }"
    by (simp add: lbz_mapping_init_def Let_def LBZ_DATA_BLK_SHIFT_def SECTOR_SHIFT_def)
  {
    assume "unat dev_size div 8 \<le> N"
    with le have "nr_nodes ?n ?I \<le> length (replicate (MAX_INTERNAL_NODES K) None)" by simp
    from init_roots_spec [OF this, of 0 0 "nr_nodes ?n (LBZ_LEAF_NODE_ENTIRES K)" K 0] un
    show "\<exists>m. lbz_mapping_init K dev_size = Some m \<and>
      unat (m_max_blkid m) = unat dev_size div 8 \<and> length (m_root m) = MAX_INTERNAL_NODES K \<and>
      (\<forall>i < nr_nodes (m_max_blkid m) ?I.
        fresh_node K (nr_nodes (m_max_blkid m) (LBZ_LEAF_NODE_ENTIRES K)) i (m_root m ! i))"
      unfolding init by fastforce
  next
    assume "N < unat dev_size div 8"
    with le have "length (replicate (MAX_INTERNAL_NODES K) None) < nr_nodes ?n ?I" by simp
    from init_roots_overflow [OF this, of 0] show "lbz_mapping_init K dev_size = None"
      unfolding init by simp
  }
qed

lemma fresh_node_get:
  assumes K: "kern_ok K" and n: "unat (m_max_blkid m) < 2 ^ 31"
    and len: "nr_nodes (m_max_blkid m) (LBZ_INT_NODE_INDEXED_BLKS K) \<le> length (m_root m)"
    and fresh: "\<And>i. i < nr_nodes (m_max_blkid m) (LBZ_INT_NODE_INDEXED_BLKS K) \<Longrightarrow>
        fresh_node K (nr_nodes (m_max_blkid m) (LBZ_LEAF_NODE_ENTIRES K)) i (m_root m ! i)"
  shows "map_get K m b = (if b < m_max_blkid m then Some LBZ_INVALID_PBID else None)"
proof (cases "b < m_max_blkid m")
  case True
  then have "unat b < unat (m_max_blkid m)" by (simp add: word_less_nat_alt)
  note i = block_indices [OF K n this]
  from fresh [OF i(1)] i(2,3) obtain node leaf where
    "m_root m ! (unat b div LBZ_INT_NODE_INDEXED_BLKS K) = Some node"
    "length (in_childern node) = LBZ_INT_NODE_ENTRIES"
    "in_childern node ! (unat b div LBZ_LEAF_NODE_ENTIRES K mod LBZ_INT_NODE_ENTRIES) = Some leaf"
    "lf_pbids leaf = replicate (LBZ_LEAF_NODE_ENTIRES K) LBZ_INVALID_PBID"
    by (auto simp: fresh_node_def fresh_leaf_def)
  then show ?thesis
    using True len i(1,2) leaf_entries_pos [OF K]
    by (auto simp: map_get_def find_specific_node_def read_pbid_def root_node_def child_node_def)
qed (auto simp: map_get_def find_specific_node_def)

lemma max_internal_nodes_cover:
  assumes "kern_ok K"
  shows "64 * 2 ^ 18 \<le> MAX_INTERNAL_NODES K * LBZ_INT_NODE_INDEXED_BLKS K"
proof -
  have "MAX_INTERNAL_NODES K =
      (64 * 2 ^ 18 + LBZ_INT_NODE_INDEXED_BLKS K - 1) div LBZ_INT_NODE_INDEXED_BLKS K"
    by (simp add: MAX_INTERNAL_NODES_def LBZ_MAX_DEV_SIZE_def LBZ_DATA_BLK_SHIFT_def)
  then have "\<not> MAX_INTERNAL_NODES K * LBZ_INT_NODE_INDEXED_BLKS K < 64 * 2 ^ 18"
    using ceil_less [OF indexed_blks(1) [OF assms], of "MAX_INTERNAL_NODES K" "64 * 2 ^ 18"] by linarith
  then show ?thesis by simp
qed

lemma mapping_init_fits:
  assumes K: "kern_ok K" and n: "unat dev_size div 8 < 2 ^ 31"
    and fits: "unat dev_size div 8 \<le> MAX_INTERNAL_NODES K * LBZ_INT_NODE_INDEXED_BLKS K"
  shows "\<exists>m. lbz_mapping_init K dev_size = Some m \<and> mapping_wf K m \<and>
     unat (m_max_blkid m) = unat dev_size div 8 \<and>
     (\<forall>b. map_get K m b = (if unat b < unat dev_size div 8 then Some LBZ_INVALID_PBID else None))"
proof -
  from mapping_init_roots(1) [OF K n fits] obtain m where
    m: "lbz_mapping_init K dev_size = Some m" "unat (m_max_blkid m) = unat dev_size div 8"
      "length (m_root m) = MAX_INTERNAL_NODES K"
    and fresh: "\<And>i. i < nr_nodes (m_max_blkid m) (LBZ_INT_NODE_INDEXED_BLKS K) \<Longrightarrow>
        fresh_node K (nr_nodes (m_max_blkid m) (LBZ_LEAF_NODE_ENTIRES K)) i (m_root m ! i)" by blast
  have n': "unat (m_max_blkid m) < 2 ^ 31" using m(2) n by simp
  have len: "nr_nodes (m_max_blkid m) (LBZ_INT_NODE_INDEXED_BLKS K) \<le> length (m_root m)"
    using fits ceil_less [OF indexed_blks(1) [OF K], of "MAX_INTERNAL_NODES K" "unat (m_max_blkid m)"]
    by (simp add: nr_nodes_eq [OF n' indexed_blks [OF K]] m not_less [symmetric])
  have "mapping_wf K m" using n' len fresh fresh_node_live by (simp add: mapping_wf_def)
  then show ?thesis using m fresh_node_get [OF K n' len fresh] by (simp add: word_less_nat_alt)
qed

text \<open>The number of blocks is cut to 32 bits; it alone decides what the initialisation does.\<close>

definition dev_blocks :: "u64 \<Rightarrow> nat" where
  "dev_blocks dev_size = (unat dev_size div 8) mod 2 ^ 32"

lemma mapping_init_cut:
  "lbz_mapping_init K dev_size = lbz_mapping_init K (of_nat (8 * dev_blocks dev_size)) \<and>
   unat (of_nat (8 * dev_blocks dev_size) :: u64) div 8 = dev_blocks dev_size"
proof -
  let ?s = "of_nat (8 * dev_blocks dev_size) :: u64"
  have lt: "dev_blocks dev_size < 2 ^ 32" by (simp add: dev_blocks_def)
  then have "8 * dev_blocks dev_size < 2 ^ LENGTH(64)" by simp
  then have "unat ?s = 8 * dev_blocks dev_size" unfolding unat_of_nat by (rule mod_less)
  then have u: "unat ?s div 8 = dev_blocks dev_size" by (simp del: of_nat_mult)
  have "unat (sector_to_blkid ?s) = unat (sector_to_blkid dev_size)"
    unfolding unat_sector_to_blkid u using lt by (simp add: dev_blocks_def)
  then have "sector_to_blkid ?s = sector_to_blkid dev_size" by (simp add: word_unat_eq_iff)
  then show ?thesis using u by (simp add: lbz_mapping_init_def sector_to_blkid_def)
qed

text \<open>
  C22. Initialising the map of a device whose number of blocks, cut to 32 bits as the code does, is
  below \<open>2 ^ 31\<close> (the counters of the loops are signed): it succeeds exactly when the root array has
  room for the internal nodes, which covers every device of up to 64 GiB; every block below the
  cut number is then unmapped and no other block has an entry. With more blocks the
  loop writes behind the root array (nothing checks the size before); but a device of 16 TiB, whose number
  of blocks is cut to 0, gets an empty map without an error.
\<close>

theorem mapping_init_spec:
  assumes "kern_ok K" and "dev_blocks dev_size < 2 ^ 31"
  shows "(case lbz_mapping_init K dev_size of
       None \<Rightarrow> MAX_INTERNAL_NODES K * LBZ_INT_NODE_INDEXED_BLKS K < dev_blocks dev_size \<and>
         64 * 2 ^ 18 < dev_blocks dev_size
     | Some m \<Rightarrow> dev_blocks dev_size \<le> MAX_INTERNAL_NODES K * LBZ_INT_NODE_INDEXED_BLKS K \<and>
         mapping_wf K m \<and> unat (m_max_blkid m) = dev_blocks dev_size \<and>
         (\<forall>b. map_get K m b = (if unat b < dev_blocks dev_size then Some LBZ_INVALID_PBID else None))) \<and>
     (\<exists>m. lbz_mapping_init K (2 ^ 35) = Some m \<and> (\<forall>b. map_get K m b = None))"
proof
  let ?s = "of_nat (8 * dev_blocks dev_size) :: u64"
  have e: "lbz_mapping_init K dev_size = lbz_mapping_init K ?s" and u: "unat ?s div 8 = dev_blocks dev_size"
    using mapping_init_cut by blast+
  show "case lbz_mapping_init K dev_size of
       None \<Rightarrow> MAX_INTERNAL_NODES K * LBZ_INT_NODE_INDEXED_BLKS K < dev_blocks dev_size \<and>
         64 * 2 ^ 18 < dev_blocks dev_size
     | Some m \<Rightarrow> dev_blocks dev_size \<le> MAX_INTERNAL_NODES K * LBZ_INT_NODE_INDEXED_BLKS K \<and>
         mapping_wf K m \<and> unat (m_max_blkid m) = dev_blocks dev_size \<and>
         (\<forall>b. map_get K m b = (if unat b < dev_blocks dev_size then Some LBZ_INVALID_PBID else None))"
  proof (cases "dev_blocks dev_size \<le> MAX_INTERNAL_NODES K * LBZ_INT_NODE_INDEXED_BLKS K")
    case True
    with mapping_init_fits [OF assms(1), of ?s, unfolded u] assms(2) show ?thesis unfolding e by auto
  next
    case False
    with mapping_init_roots(2) [OF assms(1), of ?s, unfolded u] assms(2) have "lbz_mapping_init K ?s = None" by simp
    with False max_internal_nodes_cover [OF assms(1)] show ?thesis unfolding e by simp
  qed
  have "dev_blocks (2 ^ 35) = 0" by (simp add: dev_blocks_def)
  with mapping_init_cut [of K "2 ^ 35"] mapping_init_fits [OF assms(1), of 0]
  show "\<exists>m. lbz_mapping_init K (2 ^ 35) = Some m \<and> (\<forall>b. map_get K m b = None)" by auto
qed

theorem mapping_init_spec_witness:
  "\<exists>m. lbz_mapping_init demo_kern 4096 = Some m \<and> mapping_wf demo_kern m \<and> unat (m_max_blkid m) = 512"
proof -
  have "dev_blocks 4096 = 512" by (simp add: dev_blocks_def)
  with mapping_init_spec [OF demo_kern_ok, of 4096] show ?thesis by (auto split: option.splits)
qed

text \<open>A lookup in terms of the entry of the block.\<close>

lemma lookup_eq:
  "lbz_mapping_lookup K m b zmd = Option.bind (map_get K m b) (\<lambda>q.
      if q = LBZ_INVALID_PBID then Some (Inl ENOENT, zmd)
      else map_option (\<lambda>zmd. (Inr (get_zone_by_pbid K q, q), zmd)) (upd_zone (get_zone_by_pbid K q) lbz_get_zone zmd))"
proof (cases "map_get K m b")
  case None
  then show ?thesis by (cases "find_specific_node K m b") (auto simp: lbz_mapping_lookup_def map_get_def)
next
  case (Some q)
  then show ?thesis by (cases "upd_zone (get_zone_by_pbid K q) lbz_get_zone zmd")
    (auto simp: lbz_mapping_lookup_def map_get_def Let_def)
qed

lemma lookup_by_get:
  assumes "map_get K m b = Some q"
  shows "lbz_mapping_lookup K m b zmd =
      (if q = LBZ_INVALID_PBID then Some (Inl ENOENT, zmd)
       else map_option (\<lambda>zmd. (Inr (get_zone_by_pbid K q, q), zmd))
              (upd_zone (get_zone_by_pbid K q) lbz_get_zone zmd))"
  unfolding lookup_eq assms by simp

text \<open>
  C12. A block that was mapped to a physical block of an existing zone is found there: the
  lookup returns that address and its zone and takes exactly one reference on that zone. Once
  it is unmapped it reads as absent, and no zone is referenced. Lookups of other blocks answer
  as before.
\<close>

theorem mapping_lookup_after_update:
  assumes "zmd_zones zmd (get_zone_by_pbid K p) = Some z" and "p \<noteq> LBZ_INVALID_PBID"
    and "lbz_mapping_add K m b p = Some (old, m1)"
  shows "lbz_mapping_lookup K m1 b zmd = Some (Inr (get_zone_by_pbid K p, p),
        zmd\<lparr>zmd_zones := (zmd_zones zmd)(get_zone_by_pbid K p \<mapsto> lbz_get_zone z)\<rparr>) \<and>
      (\<exists>m2. lbz_mapping_remove K m1 b = Some (p, m2) \<and>
        lbz_mapping_lookup K m2 b zmd = Some (Inl ENOENT, zmd) \<and>
        (\<forall>c. c \<noteq> b \<longrightarrow> lbz_mapping_lookup K m1 c zmd = lbz_mapping_lookup K m c zmd \<and>
           lbz_mapping_lookup K m2 c zmd = lbz_mapping_lookup K m c zmd))"
proof -
  have fr: "lbz_mapping_lookup K m' c zmd = lbz_mapping_lookup K m c zmd" if "map_get K m' c = map_get K m c" for m' c
    unfolding lookup_eq that by (rule refl)
  have g: "map_get K m1 b = Some p" using fm.get_add [OF assms(3), of b] by simp
  then obtain m2 where r: "lbz_mapping_remove K m1 b = Some (p, m2)" using fm.remove_some by blast
  have "map_get K m2 b = Some LBZ_INVALID_PBID" using fm.get_remove [OF r, of b] by simp
  then have l2: "lbz_mapping_lookup K m2 b zmd = Some (Inl ENOENT, zmd)" by (simp add: lookup_by_get)
  have l1: "lbz_mapping_lookup K m1 b zmd = Some (Inr (get_zone_by_pbid K p, p),
        zmd\<lparr>zmd_zones := (zmd_zones zmd)(get_zone_by_pbid K p \<mapsto> lbz_get_zone z)\<rparr>)"
    unfolding lookup_by_get [OF g] using assms(1,2) by (simp add: upd_zone_def)
  have "lbz_mapping_lookup K m1 c zmd = lbz_mapping_lookup K m c zmd"
    "lbz_mapping_lookup K m2 c zmd = lbz_mapping_lookup K m c zmd" if "c \<noteq> b" for c
    using fm.get_add [OF assms(3), of c] fm.get_remove [OF r, of c] that by (auto intro: fr)
  then show ?thesis using r l1 l2 by blast
qed

section \<open>Destruction frees the whole tree\<close>

lemma destroy_childern_live:
  assumes "\<And>t. j \<le> t \<Longrightarrow> t < LBZ_INT_NODE_ENTRIES \<Longrightarrow> count + (t - j) < nl \<Longrightarrow> child_node node t \<noteq> None"
    and "j \<le> LBZ_INT_NODE_ENTRIES" and "count \<le> nl"
  shows "\<exists>node'. destroy_childern nl j count node = Some (node', min nl (count + (LBZ_INT_NODE_ENTRIES - j)))"
  using assms
proof (induction nl j count node rule: destroy_childern.induct)
  case (1 nl j count node)
  show ?case
  proof (cases "j < LBZ_INT_NODE_ENTRIES \<and> count < nl")
    case True
    with 1(2) [of j] obtain leaf where leaf: "child_node node j = Some leaf" by auto
    let ?node = "node\<lparr>in_childern := (in_childern node)[j := None]\<rparr>"
    have "child_node ?node t \<noteq> None"
      if t: "j + 1 \<le> t" "t < LBZ_INT_NODE_ENTRIES" "count + 1 + (t - (j + 1)) < nl" for t
    proof -
      have "count + (t - j) < nl" "j \<le> t" "t \<noteq> j" using t by linarith+
      with 1(2) [of t] t(2) show ?thesis by (simp add: child_node_def split: if_splits)
    qed
    from 1(1) [OF True leaf this] True leaf show ?thesis
      by (subst destroy_childern.simps) auto
  next
    case False
    with 1(3,4) show ?thesis by (subst destroy_childern.simps) auto
  qed
qed

lemma destroy_roots_live:
  assumes "\<And>t. i \<le> t \<Longrightarrow> t < ni \<Longrightarrow> live_node K nl t (m_root m ! t)" and "ni \<le> length (m_root m)"
    and "count = min nl (i * LBZ_INT_NODE_ENTRIES)"
  shows "\<exists>m'. destroy_roots ni nl i count m = Some m' \<and>
     (\<forall>t<i. m_root m' ! t = m_root m ! t) \<and> (\<forall>t. i \<le> t \<and> t < ni \<longrightarrow> m_root m' ! t = None)"
  using assms
proof (induction ni nl i count m rule: destroy_roots.induct)
  case (1 ni nl i count m)
  show ?case
  proof (cases "i < ni")
    case True
    from 1(2) [OF order_refl True] obtain node where node: "m_root m ! i = Some node"
        "length (in_childern node) = LBZ_INT_NODE_ENTRIES"
        "\<forall>j<LBZ_INT_NODE_ENTRIES. i * LBZ_INT_NODE_ENTRIES + j < nl \<longrightarrow> in_childern node ! j \<noteq> None"
      unfolding live_node_def by fastforce
    have rn: "root_node m i = Some node" using node(1) True 1(3) by (simp add: root_node_def)
    have ch: "child_node node t \<noteq> None" if "0 \<le> t" "t < LBZ_INT_NODE_ENTRIES" "count + (t - 0) < nl" for t
    proof -
      have "i * LBZ_INT_NODE_ENTRIES + t < nl" using that(3) 1(4) by (simp add: min_def split: if_splits)
      with node(2,3) that(2) show ?thesis by (simp add: child_node_def)
    qed
    have "count \<le> nl" using 1(4) by simp
    from destroy_childern_live [of 0 count nl node, OF ch _ this]
    obtain node' where d: "destroy_childern nl 0 count node =
        Some (node', min nl (count + (LBZ_INT_NODE_ENTRIES - 0)))" by auto
    have c: "min nl (count + (LBZ_INT_NODE_ENTRIES - 0)) = min nl ((i + 1) * LBZ_INT_NODE_ENTRIES)"
      using 1(4) by simp
    let ?m = "m\<lparr>m_root := (m_root m)[i := None]\<rparr>"
    have l: "live_node K nl t (m_root ?m ! t)" if "i + 1 \<le> t" "t < ni" for t
      using 1(2) [of t] that by simp
    have len: "ni \<le> length (m_root ?m)" using 1(3) by simp
    from 1(1) [OF True rn d refl l len c] obtain m' where
      m': "destroy_roots ni nl (i + 1) (min nl (count + (LBZ_INT_NODE_ENTRIES - 0))) ?m = Some m'"
        "\<forall>t<i + 1. m_root m' ! t = m_root ?m ! t" "\<forall>t. i + 1 \<le> t \<and> t < ni \<longrightarrow> m_root m' ! t = None"
      by blast
    have "destroy_roots ni nl i count m = Some m'"
      using True rn d m'(1) by (subst destroy_roots.simps) simp
    moreover have "m_root m' ! t = None" if "i \<le> t" "t < ni" for t
      using m'(2,3) that True 1(3) by (cases "t = i") auto
    moreover have "m_root m' ! t = m_root m ! t" if "t < i" for t using m'(2) that by simp
    ultimately show ?thesis by blast
  qed (subst destroy_roots.simps, auto)
qed

lemma mapping_destroy_live:
  assumes "mapping_wf K m"
  shows "\<exists>m'. lbz_mapping_destroy K m = Some m' \<and>
     (\<forall>i < nr_nodes (m_max_blkid m) (LBZ_INT_NODE_INDEXED_BLKS K). m_root m' ! i = None)"
  using destroy_roots_live [of 0 "nr_nodes (m_max_blkid m) (LBZ_INT_NODE_INDEXED_BLKS K)" K
      "nr_nodes (m_max_blkid m) (LBZ_LEAF_NODE_ENTIRES K)" m 0] assms
  by (auto simp: mapping_wf_def lbz_mapping_destroy_def)

text \<open>
  C29. Destroying the map of a well-formed tree never follows a pointer that is not there and
  frees every internal node with its leaves.
\<close>

theorem mapping_destroy_frees:
  assumes "mapping_wf K m"
  shows "\<exists>m'. lbz_mapping_destroy K m = Some m' \<and>
     (\<forall>i < nr_nodes (m_max_blkid m) (LBZ_INT_NODE_INDEXED_BLKS K). m_root m' ! i = None)"
  using assms by (rule mapping_destroy_live)

theorem mapping_destroy_frees_witness:
  "\<exists>m old m1 m'. mapping_wf demo_kern m \<and> lbz_mapping_add demo_kern m 3 7 = Some (old, m1) \<and>
     lbz_mapping_destroy demo_kern m1 = Some m' \<and> m_root m' ! 0 = None"
proof -
  have e: "unat (4096::u64) div 8 < 2 ^ 31"
      "unat (4096::u64) div 8 \<le> MAX_INTERNAL_NODES demo_kern * LBZ_INT_NODE_INDEXED_BLKS demo_kern"
    using max_internal_nodes_cover [OF demo_kern_ok] by simp_all
  from mapping_init_roots(1) [OF demo_kern_ok e]
  obtain m :: lbz_mapping where m: "unat (m_max_blkid m) = unat (4096::u64) div 8" "length (m_root m) = MAX_INTERNAL_NODES demo_kern"
      "\<And>i. i < nr_nodes (m_max_blkid m) (LBZ_INT_NODE_INDEXED_BLKS demo_kern) \<Longrightarrow>
        fresh_node demo_kern (nr_nodes (m_max_blkid m) (LBZ_LEAF_NODE_ENTIRES demo_kern)) i (m_root m ! i)"
    by blast
  have c: "LBZ_LEAF_NODE_ENTIRES demo_kern = 1020" "LBZ_INT_NODE_INDEXED_BLKS demo_kern = 521220"
      "MAX_INTERNAL_NODES demo_kern = 33"
    by (simp_all add: LBZ_LEAF_NODE_ENTIRES_def demo_kern_def LBZ_MAPPING_BLK_SIZE_def
        LBZ_MAPPING_BLK_SHIFT_def LBZ_INT_NODE_INDEXED_BLKS_def int_entries MAX_INTERNAL_NODES_def
        LBZ_MAX_DEV_SIZE_def LBZ_DATA_BLK_SHIFT_def)
  have nr: "nr_nodes (m_max_blkid m) (LBZ_INT_NODE_INDEXED_BLKS demo_kern) = 1"
    using nr_nodes_eq [of "m_max_blkid m" "LBZ_INT_NODE_INDEXED_BLKS demo_kern"] m(1) c by simp
  have wf: "mapping_wf demo_kern m"
    using m nr c fresh_node_live by (simp add: mapping_wf_def)
  have "3 < m_max_blkid m" using m(1) by (simp add: word_less_nat_alt)
  then obtain old m1 where a: "lbz_mapping_add demo_kern m 3 7 = Some (old, m1)"
    using mapping_wf_get [OF demo_kern_ok wf, of 3] fm.add_some by blast
  have wf1: "mapping_wf demo_kern m1" by (rule mapping_wf_add [OF wf a])
  have "m_max_blkid m1 = m_max_blkid m" using a by (auto simp: mapping_add_Some write_pbid_max)
  with mapping_destroy_frees [OF wf1] nr wf a show ?thesis by auto
qed

end
