(* ===== verification/Ftl.thy ===== *)
theory Ftl
  imports Zone_Alloc Mapping_Tree
begin

text \<open>
  The translation layer: the forward map of \<^verbatim>\<open>lbz-mapping.c\<close> and the reverse maps of the zones
  of \<^verbatim>\<open>lbz-zone-metadata.c\<close> are updated together by the completion handlers of
  \<^verbatim>\<open>lbz-io-scheduler.c\<close> and by the transaction commit of \<^verbatim>\<open>lbz-nat-sit.c\<close>. This theory states
  the contract of a reverse map as a locale, proves once, for any forward map and any reverse
  map, that the three updates of the driver keep the two maps inverse to each other, and
  interprets both contracts on the driver's own maps. The zone table stays well formed
  through the same updates.
\<close>

section \<open>Two maps that are inverse to each other\<close>

definition map_consistent :: "(u32 \<Rightarrow> u32 option) \<Rightarrow> (u32 \<Rightarrow> u32 option) \<Rightarrow> bool" where
  "map_consistent f r \<longleftrightarrow>
     f LBZ_INVALID_PBID = None \<and>
     (\<forall>b p. f b = Some p \<and> p \<noteq> LBZ_INVALID_PBID \<longrightarrow> r p = Some b) \<and>
     (\<forall>p b. r p = Some b \<and> b \<noteq> LBZ_INVALID_PBID \<longrightarrow> f b = Some p \<and> p \<noteq> LBZ_INVALID_PBID)"

lemma map_consistentI:
  assumes "f LBZ_INVALID_PBID = None"
    and "\<And>b p. f b = Some p \<Longrightarrow> p \<noteq> LBZ_INVALID_PBID \<Longrightarrow> r p = Some b"
    and "\<And>p b. r p = Some b \<Longrightarrow> b \<noteq> LBZ_INVALID_PBID \<Longrightarrow> f b = Some p"
    and "\<And>p b. r p = Some b \<Longrightarrow> b \<noteq> LBZ_INVALID_PBID \<Longrightarrow> p \<noteq> LBZ_INVALID_PBID"
  shows "map_consistent f r"
  using assms unfolding map_consistent_def by blast

lemma map_consistent_fr: "map_consistent f r \<Longrightarrow> f b = Some p \<Longrightarrow> p \<noteq> LBZ_INVALID_PBID \<Longrightarrow> r p = Some b"
  unfolding map_consistent_def by blast

lemma map_consistent_rf: "map_consistent f r \<Longrightarrow> r p = Some b \<Longrightarrow> b \<noteq> LBZ_INVALID_PBID \<Longrightarrow> f b = Some p"
  unfolding map_consistent_def by blast

lemma map_consistent_rp:
  "map_consistent f r \<Longrightarrow> r p = Some b \<Longrightarrow> b \<noteq> LBZ_INVALID_PBID \<Longrightarrow> p \<noteq> LBZ_INVALID_PBID"
  unfolding map_consistent_def by blast

lemma map_consistent_none: "map_consistent f r \<Longrightarrow> f LBZ_INVALID_PBID = None"
  unfolding map_consistent_def by blast

lemma map_consistent_valid: "map_consistent f r \<Longrightarrow> f b = Some p \<Longrightarrow> b \<noteq> LBZ_INVALID_PBID"
  using map_consistent_none by fastforce

lemma map_consistent_inj:
  "map_consistent f r \<Longrightarrow> f b = Some p \<Longrightarrow> f c = Some p \<Longrightarrow> p \<noteq> LBZ_INVALID_PBID \<Longrightarrow> b = c"
  by (metis map_consistent_fr option.inject)

lemma map_consistent_unmap:
  assumes c: "map_consistent f r" and b: "f b = Some old" and old: "old \<noteq> LBZ_INVALID_PBID"
    and f': "\<And>c. f' c = (if c = b then Some LBZ_INVALID_PBID else f c)"
    and r': "\<And>q. r' q = (if q = old then Some LBZ_INVALID_PBID else r q)"
  shows "map_consistent f' r'"
proof (rule map_consistentI)
  show "f' LBZ_INVALID_PBID = None"
    unfolding f' using map_consistent_none [OF c] map_consistent_valid [OF c b] by simp
next
  fix d p assume "f' d = Some p" "p \<noteq> LBZ_INVALID_PBID"
  then have d: "d \<noteq> b" "f d = Some p" unfolding f' by (auto split: if_splits)
  have "p \<noteq> old" using map_consistent_inj [OF c b, of d] d old by auto
  then show "r' p = Some d" unfolding r' using map_consistent_fr [OF c d(2) \<open>p \<noteq> LBZ_INVALID_PBID\<close>] by simp
next
  fix p d assume "r' p = Some d" and d: "d \<noteq> LBZ_INVALID_PBID"
  then have r: "p \<noteq> old" "r p = Some d" unfolding r' by (auto split: if_splits)
  show "p \<noteq> LBZ_INVALID_PBID" using map_consistent_rp [OF c r(2) d] .
  have "f d = Some p" using map_consistent_rf [OF c r(2) d] .
  moreover from this b r(1) have "d \<noteq> b" by auto
  ultimately show "f' d = Some p" unfolding f' by simp
qed

lemma map_consistent_map:
  assumes c: "map_consistent f r" and b: "f b = Some LBZ_INVALID_PBID"
    and p: "p \<noteq> LBZ_INVALID_PBID" "r p = Some LBZ_INVALID_PBID"
    and f': "\<And>c. f' c = (if c = b then Some p else f c)"
    and r': "\<And>q. r' q = (if q = p then Some b else r q)"
  shows "map_consistent f' r'"
proof (rule map_consistentI)
  show "f' LBZ_INVALID_PBID = None"
    unfolding f' using map_consistent_none [OF c] map_consistent_valid [OF c b] by simp
next
  fix d q assume q: "f' d = Some q" "q \<noteq> LBZ_INVALID_PBID"
  show "r' q = Some d"
  proof (cases "d = b")
    case True
    with q(1) have "q = p" unfolding f' by simp
    with True show ?thesis unfolding r' by simp
  next
    case False
    with q(1) have d: "f d = Some q" unfolding f' by simp
    have "r q = Some d" "d \<noteq> LBZ_INVALID_PBID"
      using map_consistent_fr [OF c d q(2)] map_consistent_valid [OF c d] by auto
    with p(2) have "q \<noteq> p" by auto
    with \<open>r q = Some d\<close> show ?thesis unfolding r' by simp
  qed
next
  fix q d assume q: "r' q = Some d" "d \<noteq> LBZ_INVALID_PBID"
  show "q \<noteq> LBZ_INVALID_PBID"
    using q p(1) map_consistent_rp [OF c _ q(2), of q] unfolding r' by (cases "q = p") auto
  show "f' d = Some q"
  proof (cases "q = p")
    case True
    with q(1) have "d = b" unfolding r' by simp
    with True show ?thesis unfolding f' by simp
  next
    case False
    with q(1) have "r q = Some d" unfolding r' by simp
    then have "f d = Some q" using map_consistent_rf [OF c _ q(2)] by simp
    moreover from this b map_consistent_rp [OF c \<open>r q = Some d\<close> q(2)] have "d \<noteq> b" by auto
    ultimately show ?thesis unfolding f' by simp
  qed
qed

section \<open>The contract of a reverse map, and its use with a forward map\<close>

locale reverse_map =
  fixes rget :: "'z \<Rightarrow> u32 \<Rightarrow> u32 option"
    and update :: "'z \<Rightarrow> u32 \<Rightarrow> u32 \<Rightarrow> 'z option"
  assumes update_some: "rget z p = Some v \<Longrightarrow> \<exists>z'. update z p w = Some z'"
    and rget_update: "update z p w = Some z' \<Longrightarrow> rget z' q = (if q = p then Some w else rget z q)"

text \<open>A translation layer keeps one map of each kind.\<close>

locale ftl = forward_map get add remove + reverse_map rget update
  for get :: "'m \<Rightarrow> u32 \<Rightarrow> u32 option"
    and add :: "'m \<Rightarrow> u32 \<Rightarrow> u32 \<Rightarrow> (u32 \<times> 'm) option"
    and remove :: "'m \<Rightarrow> u32 \<Rightarrow> (u32 \<times> 'm) option"
    and rget :: "'z \<Rightarrow> u32 \<Rightarrow> u32 option"
    and update :: "'z \<Rightarrow> u32 \<Rightarrow> u32 \<Rightarrow> 'z option"
begin

text \<open>Removing a mapped block and clearing its reverse entry.\<close>

lemma unmap_consistent:
  assumes c: "map_consistent (get m) (rget z)" and r: "remove m b = Some (old, m')"
    and old: "old \<noteq> LBZ_INVALID_PBID"
  shows "\<exists>z'. update z old LBZ_INVALID_PBID = Some z' \<and> map_consistent (get m') (rget z')"
proof -
  have b: "get m b = Some old" by (rule remove_old [OF r])
  from map_consistent_fr [OF c b old] obtain z' where u: "update z old LBZ_INVALID_PBID = Some z'"
    using update_some by blast
  show ?thesis
    using u map_consistent_unmap [OF c b old get_remove [OF r] rget_update [OF u]] by blast
qed

text \<open>
  A block is written to a fresh physical block \<open>p\<close>: the old physical block, if any, is
  released first, then the reverse entry of \<open>p\<close> is written.
\<close>

lemma remap_consistent:
  assumes c: "map_consistent (get m) (rget z)" and a: "add m b p = Some (old, m')"
    and p: "p \<noteq> LBZ_INVALID_PBID" "rget z p = Some LBZ_INVALID_PBID"
    and z1: "if old = LBZ_INVALID_PBID then z1 = z else update z old LBZ_INVALID_PBID = Some z1"
    and z2: "update z1 p b = Some z2"
  shows "map_consistent (get m') (rget z2)"
proof (cases "old = LBZ_INVALID_PBID")
  case True
  then have "z1 = z" "get m b = Some LBZ_INVALID_PBID" using z1 add_old [OF a] by simp_all
  then show ?thesis
    using map_consistent_map [OF c _ p get_add [OF a], of "rget z2"] rget_update [OF z2] by simp
next
  case False
  then have z1: "update z old LBZ_INVALID_PBID = Some z1" using z1 by simp
  have b: "get m b = Some old" by (rule add_old [OF a])
  let ?f = "(get m)(b \<mapsto> LBZ_INVALID_PBID)"
  have c1: "map_consistent ?f (rget z1)"
    by (rule map_consistent_unmap [OF c b False _ rget_update [OF z1]]) simp
  have p1: "rget z1 p = Some LBZ_INVALID_PBID" using p rget_update [OF z1, of p] by simp
  show ?thesis
    by (rule map_consistent_map [OF c1 _ p(1) p1 _ rget_update [OF z2]]) (auto simp: get_add [OF a])
qed

text \<open>
  A block is moved by the collector from \<open>old\<close> to the fresh physical block \<open>p\<close>: the new
  reverse entry is written before the old one is cleared.
\<close>

lemma move_consistent:
  assumes c: "map_consistent (get m) (rget z)" and z1: "update z p b = Some z1"
    and p: "p \<noteq> LBZ_INVALID_PBID" "rget z p = Some LBZ_INVALID_PBID"
    and a: "add m b p = Some (old, m')" and old: "old \<noteq> LBZ_INVALID_PBID"
    and z2: "update z1 old LBZ_INVALID_PBID = Some z2"
  shows "map_consistent (get m') (rget z2)"
proof -
  have b: "get m b = Some old" by (rule add_old [OF a])
  have bi: "b \<noteq> LBZ_INVALID_PBID" using map_consistent_valid [OF c b] .
  have po: "p \<noteq> old" using map_consistent_fr [OF c b old] p(2) bi by auto
  let ?f = "(get m)(b \<mapsto> LBZ_INVALID_PBID)" and ?r = "(rget z)(old \<mapsto> LBZ_INVALID_PBID)"
  have c1: "map_consistent ?f ?r" by (rule map_consistent_unmap [OF c b old]) auto
  show ?thesis
    by (rule map_consistent_map [OF c1 _ p(1), of b])
      (use po p in \<open>auto simp: get_add [OF a] rget_update [OF z2] rget_update [OF z1]\<close>)
qed

end

section \<open>The zones' reverse maps\<close>

definition zmd_rget :: "kern \<Rightarrow> lbz_zone_metadata \<Rightarrow> u32 \<Rightarrow> u32 option" where
  "zmd_rget K zmd pbid = do {
     zone \<leftarrow> zmd_zones zmd (get_zone_by_pbid K pbid);
     zrms_get (z_zrms zone) (unat (pbid_dis zone pbid))
   }"

definition zmd_update :: "kern \<Rightarrow> lbz_zone_metadata \<Rightarrow> u32 \<Rightarrow> u32 \<Rightarrow> lbz_zone_metadata option" where
  "zmd_update K zmd pbid blkid = lbz_zone_update_reverse_map (get_zone_by_pbid K pbid) pbid blkid zmd"

lemma update_reverse_map_Some:
  "lbz_zone_update_reverse_map p pbid v zmd = Some zmd' \<longleftrightarrow>
     (\<exists>z zrms. zmd_zones zmd p = Some z \<and> zrms_set (z_zrms z) (unat (pbid_dis z pbid)) v = Some zrms \<and>
        zmd' = zmd\<lparr>zmd_zones := (zmd_zones zmd)(p \<mapsto> z\<lparr>z_zrms := zrms\<rparr>)\<rparr>)"
  by (auto simp: lbz_zone_update_reverse_map_def upd_zone_Some)

lemma pbid_dis_inject [simp]: "unat (pbid_dis z p) = unat (pbid_dis z q) \<longleftrightarrow> p = q"
  by (simp add: pbid_dis_def word_unat_eq_iff [symmetric])

lemma zmd_rget_set:
  assumes p: "zmd_zones zmd (get_zone_by_pbid K p) = Some z"
    and s: "zrms_set (z_zrms z) (unat (pbid_dis z p)) w = Some zrms"
    and y: "z_zrms y = zrms" "z_start_sector y = z_start_sector z"
  shows "zmd_rget K (zmd\<lparr>zmd_zones := (zmd_zones zmd)(get_zone_by_pbid K p \<mapsto> y)\<rparr>) q =
    (if q = p then Some w else zmd_rget K zmd q)"
proof -
  have d: "pbid_dis y q = pbid_dis z q" for q by (simp add: pbid_dis_def y)
  show ?thesis using p y zrms_get_set [OF s] by (auto simp: zmd_rget_def d)
qed

interpretation rm: reverse_map "zmd_rget K" "zmd_update K" for K
proof unfold_locales
  fix zmd p v w
  assume "zmd_rget K zmd p = Some v"
  then obtain z where z: "zmd_zones zmd (get_zone_by_pbid K p) = Some z"
    and "zrms_get (z_zrms z) (unat (pbid_dis z p)) \<noteq> None" by (auto simp: zmd_rget_def)
  then obtain zrms where "zrms_set (z_zrms z) (unat (pbid_dis z p)) w = Some zrms"
    using zrms_set_some by blast
  with z show "\<exists>z'. zmd_update K zmd p w = Some z'" by (auto simp: zmd_update_def update_reverse_map_Some)
next
  fix zmd p w zmd' q
  assume "zmd_update K zmd p w = Some zmd'"
  then obtain z zrms where z: "zmd_zones zmd (get_zone_by_pbid K p) = Some z"
    and s: "zrms_set (z_zrms z) (unat (pbid_dis z p)) w = Some zrms"
    and zmd': "zmd' = zmd\<lparr>zmd_zones := (zmd_zones zmd)(get_zone_by_pbid K p \<mapsto> z\<lparr>z_zrms := zrms\<rparr>)\<rparr>"
    by (auto simp: zmd_update_def update_reverse_map_Some)
  show "zmd_rget K zmd' q = (if q = p then Some w else zmd_rget K zmd q)"
    unfolding zmd' by (rule zmd_rget_set [OF z s]) simp_all
qed

interpretation lbz: ftl "map_get K" "lbz_mapping_add K" "lbz_mapping_remove K" "zmd_rget K" "zmd_update K"
  for K by unfold_locales

section \<open>Releasing a block\<close>

text \<open>
  The statements that follow an update of the forward map which returned the old physical block
  \<open>old_pbid\<close>: its reverse entry is cleared and its zone loses one live block.
\<close>

definition invalidate_block :: "kern \<Rightarrow> u32 \<Rightarrow> lbz_zone_metadata \<Rightarrow> lbz_zone_metadata option" where
  "invalidate_block K old_pbid zmd =
     (if old_pbid \<noteq> LBZ_INVALID_PBID
      then do {
        let old_zone = get_zone_by_pbid K old_pbid;
        zmd \<leftarrow> lbz_zone_update_reverse_map old_zone old_pbid LBZ_INVALID_PBID zmd;
        lbz_zone_release_global_res old_zone zmd
      }
      else Some zmd)"

text \<open>A change of the weight of one zone that is accounted in \<open>nr_valid_blks\<close>.\<close>

lemma zmd_wf_upd_weight:
  assumes wf: "zmd_wf zmd" and p: "zmd_zones zmd p = Some z"
    and ph: "zone_phase y = zone_phase z" and wp: "z_wp_block y = z_wp_block z"
    and acct: "zone_acct (zmd_zone_nr_blocks zmd) y"
  shows "zmd_wf (zmd\<lparr>zmd_zones := (zmd_zones zmd)(p \<mapsto> y),
     zmd_nr_valid_blks := zmd_nr_valid_blks zmd - z_weight z + z_weight y\<rparr>)" (is "zmd_wf ?zmd")
proof -
  have at: "phase_at ?zmd q k = phase_at zmd q k" for q k
    using p ph by (auto simp: phase_at_def)
  have "zone_ok (zmd_zone_nr_blocks zmd) y"
    using acct ph wp zmd_wf_zone_ok [OF wf p] by (simp add: zone_ok_def)
  then have "wf_zones ?zmd" using wf p unfolding zmd_wf_def wf_zones_def by auto
  moreover have "wf_lists ?zmd" using wf unfolding zmd_wf_def wf_lists_def at by simp
  moreover have "wf_active ?zmd" using wf unfolding zmd_wf_def wf_active_def at by simp
  moreover have "wf_sums ?zmd" using wf zmd_wf_zone_less [OF wf p] unfolding zmd_wf_def wf_sums_def
    by (simp add: msum_same [of "zmd_zones zmd" p z] msum_upd [of "zmd_zones zmd" p z] p wp)
  ultimately show ?thesis by (simp add: zmd_wf_def)
qed

lemma zmd_rget_zone:
  "zmd_rget K zmd q = Some v \<Longrightarrow> \<exists>z. zmd_zones zmd (get_zone_by_pbid K q) = Some z \<and>
     zrms_get (z_zrms z) (unat (pbid_dis z q)) = Some v"
  by (auto simp: zmd_rget_def)

lemma zmd_rget_cong:
  assumes "zmd_zones zmd p = Some z" "z_zrms y = z_zrms z" "z_start_sector y = z_start_sector z"
    and "zmd_zones zmd' = (zmd_zones zmd)(p \<mapsto> y)"
  shows "zmd_rget K zmd' q = zmd_rget K zmd q"
  using assms by (auto simp: zmd_rget_def pbid_dis_def)

text \<open>What a change of the reverse maps and weights leaves alone.\<close>

definition zone_frame :: "lbz_zone \<Rightarrow> lbz_zone \<Rightarrow> bool" where
  "zone_frame z z' \<longleftrightarrow> z_wp_block z' = z_wp_block z \<and> z_pending_write_io z' = z_pending_write_io z \<and>
     z_start_sector z' = z_start_sector z \<and> z_flags z' = z_flags z \<and> z_refcount z' = z_refcount z \<and>
     z_state z' = z_state z \<and> length (z_zrms z') = length (z_zrms z)"

definition zmd_frame :: "lbz_zone_metadata \<Rightarrow> lbz_zone_metadata \<Rightarrow> bool" where
  "zmd_frame zmd zmd' \<longleftrightarrow> (\<forall>p. rel_option zone_frame (zmd_zones zmd p) (zmd_zones zmd' p)) \<and> zmd_const zmd zmd'"

lemma zone_frame_refl [simp]: "zone_frame z z"
  by (simp add: zone_frame_def)

lemma zmd_frame_refl [simp]: "zmd_frame zmd zmd"
  by (auto simp: zmd_frame_def option.rel_refl)

lemma zmd_frame_upd:
  assumes "zmd_zones zmd p = Some z" "zone_frame z y" "zmd_zones zmd' = (zmd_zones zmd)(p \<mapsto> y)"
    "zmd_const zmd zmd'"
  shows "zmd_frame zmd zmd'"
  using assms by (auto simp: zmd_frame_def option.rel_refl)

lemma zmd_frame_trans:
  assumes "zmd_frame a b" "zmd_frame b c"
  shows "zmd_frame a c"
proof -
  have "rel_option zone_frame x y \<Longrightarrow> rel_option zone_frame y z \<Longrightarrow> rel_option zone_frame x z" for x y z
    by (cases x; cases y; cases z) (auto simp: zone_frame_def)
  then show ?thesis using assms zmd_const_trans unfolding zmd_frame_def by metis
qed

lemma zmd_frameD:
  "zmd_frame zmd zmd' \<Longrightarrow> zmd_zones zmd p = Some z \<Longrightarrow> \<exists>z'. zmd_zones zmd' p = Some z' \<and> zone_frame z z'"
  unfolding zmd_frame_def by (metis option.rel_cases option.distinct(1) option.inject)

lemma invalidate_some:
  assumes wf: "zmd_wf zmd" and r: "zmd_rget K zmd old = Some b" and b: "b \<noteq> LBZ_INVALID_PBID"
    and old: "old \<noteq> LBZ_INVALID_PBID"
  shows "\<exists>zmd1 zmd'. zmd_update K zmd old LBZ_INVALID_PBID = Some zmd1 \<and>
     invalidate_block K old zmd = Some zmd' \<and> zmd_wf zmd' \<and> zmd_rget K zmd' = zmd_rget K zmd1 \<and>
     zmd_frame zmd zmd'"
proof -
  let ?p = "get_zone_by_pbid K old"
  from zmd_rget_zone [OF r] obtain z where z: "zmd_zones zmd ?p = Some z"
    and g: "zrms_get (z_zrms z) (unat (pbid_dis z old)) = Some b" by blast
  then obtain zrms where s: "zrms_set (z_zrms z) (unat (pbid_dis z old)) LBZ_INVALID_PBID = Some zrms"
    using zrms_set_some by (metis option.distinct(1))
  let ?y = "z\<lparr>z_zrms := zrms, z_weight := z_weight z - 1\<rparr>"
  let ?zmd1 = "zmd\<lparr>zmd_zones := (zmd_zones zmd)(?p \<mapsto> z\<lparr>z_zrms := zrms\<rparr>)\<rparr>"
  let ?zmd' = "zmd\<lparr>zmd_zones := (zmd_zones zmd)(?p \<mapsto> ?y),
     zmd_nr_valid_blks := zmd_nr_valid_blks zmd - z_weight z + z_weight ?y\<rparr>"
  have u: "zmd_update K zmd old LBZ_INVALID_PBID = Some ?zmd1"
    using z s by (auto simp: zmd_update_def update_reverse_map_Some)
  have live: "zone_valid z (unat (pbid_dis z old))" using g b by (simp add: zone_valid_def)
  have "zone_acct (zmd_zone_nr_blocks zmd) z" using zmd_wf_zone_ok [OF wf z] by (simp add: zone_ok_def)
  then have "zmd_wf ?zmd'"
    by (intro zmd_wf_upd_weight [OF wf z] zone_acct_release [OF _ s live]) (auto simp: zone_simps)
  moreover have "invalidate_block K old zmd = Some ?zmd'"
    using u old by (simp add: invalidate_block_def zmd_update_def lbz_zone_release_global_res_def
        upd_zone_def)
  moreover have "zmd_rget K ?zmd' q = zmd_rget K ?zmd1 q" for q
    by (rule zmd_rget_cong [of ?zmd1 ?p "z\<lparr>z_zrms := zrms\<rparr>" ?y]) simp_all
  moreover have "zmd_frame zmd ?zmd'"
    by (rule zmd_frame_upd [OF z, of ?y]) (simp_all add: zone_frame_def zmd_const_def zrms_set_length [OF s])
  ultimately show ?thesis using u by (auto simp: fun_eq_iff)
qed

section \<open>Completing a write\<close>

text \<open>
  The address \<open>pbid\<close> that a zone append to the zone \<open>p\<close> returned: it lies in that zone, below the
  write pointer up to which blocks were handed out, it has no live data, and the append is one
  of the writes in flight.
\<close>

definition append_ok :: "kern \<Rightarrow> lbz_zone_metadata \<Rightarrow> zptr \<Rightarrow> u32 \<Rightarrow> bool" where
  "append_ok K zmd p pbid \<longleftrightarrow>
     get_zone_by_pbid K pbid = p \<and> pbid \<noteq> LBZ_INVALID_PBID \<and>
     (case zmd_zones zmd p of
        None \<Rightarrow> False
      | Some z \<Rightarrow> unat (pbid_dis z pbid) < unat (z_wp_block z) \<and> z_pending_write_io z \<noteq> 0 \<and>
          zrms_get (z_zrms z) (unat (pbid_dis z pbid)) = Some LBZ_INVALID_PBID)"

definition complete_zone :: "zptr \<Rightarrow> lbz_zone_metadata \<Rightarrow> lbz_zone_metadata" where
  "complete_zone p zmd = zmd\<lparr>zmd_zones := (zmd_zones zmd)(p \<mapsto>
     lbz_zone_complete_write (the (zmd_zones zmd p)))\<rparr>"

lemma append_ok_rget: "append_ok K zmd p pbid \<Longrightarrow> zmd_rget K zmd pbid = Some LBZ_INVALID_PBID"
  by (auto simp: append_ok_def zmd_rget_def split: option.splits)

lemma append_ok_frame:
  assumes ok: "append_ok K zmd p pbid" and f: "zmd_frame zmd zmd'"
    and r: "zmd_rget K zmd' pbid = Some LBZ_INVALID_PBID"
  shows "append_ok K zmd' p pbid"
proof -
  from ok obtain z where z: "zmd_zones zmd p = Some z" and p: "get_zone_by_pbid K pbid = p" "pbid \<noteq> LBZ_INVALID_PBID"
    and wp: "unat (pbid_dis z pbid) < unat (z_wp_block z)" "z_pending_write_io z \<noteq> 0"
    by (auto simp: append_ok_def split: option.splits)
  from zmd_frameD [OF f z] obtain z' where z': "zmd_zones zmd' p = Some z'" "zone_frame z z'" by blast
  then have "pbid_dis z' pbid = pbid_dis z pbid" by (simp add: zone_frame_def pbid_dis_def)
  then show ?thesis using z' p wp r by (simp add: append_ok_def zmd_rget_def zone_frame_def)
qed

text \<open>
  The reverse entry is written and the write leaves the set of writes in flight, in either
  order: the table is well formed again.
\<close>

lemma complete_write_some:
  assumes wf: "zmd_wf zmd" and ok: "append_ok K zmd p pbid" and v: "v \<noteq> LBZ_INVALID_PBID"
  shows "\<exists>zmd1. zmd_update K zmd pbid v = Some zmd1 \<and> zmd_wf (complete_zone p zmd1) \<and>
     zmd_update K (complete_zone p zmd) pbid v = Some (complete_zone p zmd1) \<and>
     zmd_zones zmd1 p \<noteq> None \<and> zmd_frame zmd zmd1"
proof -
  from ok obtain z where z: "zmd_zones zmd p = Some z" and p: "get_zone_by_pbid K pbid = p"
    and wp: "unat (pbid_dis z pbid) < unat (z_wp_block z)" and pend: "z_pending_write_io z \<noteq> 0"
    and g: "zrms_get (z_zrms z) (unat (pbid_dis z pbid)) = Some LBZ_INVALID_PBID"
    by (auto simp: append_ok_def split: option.splits)
  from g obtain zrms where s: "zrms_set (z_zrms z) (unat (pbid_dis z pbid)) v = Some zrms"
    using zrms_set_some by (metis option.distinct(1))
  let ?zmd1 = "zmd\<lparr>zmd_zones := (zmd_zones zmd)(p \<mapsto> z\<lparr>z_zrms := zrms\<rparr>)\<rparr>"
  have c: "complete_zone p ?zmd1 = zmd\<lparr>zmd_zones := (zmd_zones zmd)(p \<mapsto>
      lbz_zone_complete_write (z\<lparr>z_zrms := zrms\<rparr>))\<rparr>" by (simp add: complete_zone_def)
  have fresh: "\<not> zone_valid z (unat (pbid_dis z pbid))" using g by (simp add: zone_valid_def)
  have "zone_acct (zmd_zone_nr_blocks zmd) z" using zmd_wf_zone_ok [OF wf z] by (simp add: zone_ok_def)
  from zone_acct_complete [OF this s v wp fresh pend]
  have "zmd_wf (complete_zone p ?zmd1)"
    unfolding c by (intro zmd_wf_upd_same [OF wf z]) (auto simp: zone_simps)
  moreover have "zmd_update K zmd pbid v = Some ?zmd1"
    using z s p by (auto simp: zmd_update_def update_reverse_map_Some)
  moreover have "zmd_update K (complete_zone p zmd) pbid v = Some (complete_zone p ?zmd1)"
  proof -
    have "(lbz_zone_complete_write z)\<lparr>z_zrms := zrms\<rparr> = lbz_zone_complete_write (z\<lparr>z_zrms := zrms\<rparr>)"
      by (simp add: lbz_zone_complete_write_def)
    moreover have "pbid_dis (lbz_zone_complete_write z) pbid = pbid_dis z pbid"
      by (simp add: pbid_dis_def zone_simps)
    ultimately show ?thesis
      using z s p unfolding c
      by (auto simp: zmd_update_def update_reverse_map_Some complete_zone_def zone_simps)
  qed
  moreover have "zmd_frame zmd ?zmd1"
    by (rule zmd_frame_upd [OF z, of "z\<lparr>z_zrms := zrms\<rparr>"]) (simp_all add: zone_frame_def zmd_const_def zrms_set_length [OF s])
  ultimately show ?thesis by (intro exI [of _ ?zmd1]) simp
qed

lemma complete_zone_rget:
  assumes "zmd_zones zmd p \<noteq> None"
  shows "zmd_rget K (complete_zone p zmd) = zmd_rget K zmd"
proof
  fix q
  from assms obtain z where z: "zmd_zones zmd p = Some z" by blast
  show "zmd_rget K (complete_zone p zmd) q = zmd_rget K zmd q"
    by (rule zmd_rget_cong [OF z, of "lbz_zone_complete_write z"])
      (simp_all add: complete_zone_def z zone_simps)
qed

end
