(* ===== verification/Nat_Sit.thy ===== *)
theory Nat_Sit
  imports Ftl
begin

text \<open>
  \<^verbatim>\<open>lbz-nat-sit.c\<close> and \<^verbatim>\<open>include/lbz-nat-sit.h\<close>: the rules that tell the blocks of an F2FS check
  point, of its duplicated areas (SIT and NAT) and other blocks apart, the log of blocks that a
  committed transaction makes obsolete, and the commit itself.

  The log is a chain of pages. \<open>ns_head\<close> is the chain in order; \<open>ns_cur_node\<close> is the position of
  the page that \<open>cur_node\<close> points to.
\<close>

section \<open>Data\<close>

record nat_sit_args =
  a_cp_blkaddr :: u32
  a_sit_blkaddr :: u32
  a_nat_blkaddr :: u32
  a_nat_blocks :: u32

text \<open>The header is packed: a pointer and an \<open>int\<close>, 12 bytes of a page.\<close>

definition NAT_SIT_NODE_ENTRIES :: nat where "NAT_SIT_NODE_ENTRIES = (4096 - 12) div 4"

record nat_sit_node =
  nn_cursor :: nat
  nn_to_free_blkids :: "u32 list"

record lbz_nat_sit_mgmt =
  ns_cp_blkaddr :: u32
  ns_sit_blkaddr :: u32
  ns_nat_blkaddr :: u32
  ns_nat_blocks :: u32
  ns_cp_blocks :: u32
  ns_sit_blocks :: u32
  ns_first_cp_blkaddr :: u32
  ns_second_cp_blkaddr :: u32
  ns_cp_length :: u32
  ns_sit_segment_no :: u32
  ns_nat_segment_no :: u32
  ns_cur_cp_pack :: u32
  ns_blocks_per_segment :: u32
  ns_inflight_writes :: u64
  ns_user_write :: u64
  ns_cp_write :: u64
  ns_ssa_write :: u64
  ns_head :: "nat_sit_node list"
  ns_cur_node :: "nat option"
  ns_to_free_count :: u32
  ns_total_freed_blks :: u64

section \<open>Counters and classification\<close>

definition lbz_nat_sit_cp_write :: "lbz_nat_sit_mgmt \<Rightarrow> lbz_nat_sit_mgmt" where
  "lbz_nat_sit_cp_write mgmt = mgmt\<lparr>ns_cp_write := ns_cp_write mgmt + 1\<rparr>"

definition lbz_nat_sit_ssa_write :: "lbz_nat_sit_mgmt \<Rightarrow> lbz_nat_sit_mgmt" where
  "lbz_nat_sit_ssa_write mgmt = mgmt\<lparr>ns_ssa_write := ns_ssa_write mgmt + 1\<rparr>"

definition lbz_nat_sit_user_write :: "lbz_nat_sit_mgmt \<Rightarrow> lbz_nat_sit_mgmt" where
  "lbz_nat_sit_user_write mgmt = mgmt\<lparr>ns_user_write := ns_user_write mgmt + 1\<rparr>"

definition lbz_nat_sit_add_write :: "lbz_nat_sit_mgmt \<Rightarrow> lbz_nat_sit_mgmt" where
  "lbz_nat_sit_add_write mgmt = mgmt\<lparr>ns_inflight_writes := ns_inflight_writes mgmt + 1\<rparr>"

definition lbz_nat_sit_complete_write :: "lbz_nat_sit_mgmt \<Rightarrow> lbz_nat_sit_mgmt" where
  "lbz_nat_sit_complete_write mgmt = mgmt\<lparr>ns_inflight_writes := ns_inflight_writes mgmt - 1\<rparr>"

text \<open>\<open>stream_support\<close> is the compile option \<open>CONFIG_LBZ_NAT_SIT_STREAM_SUPPORT\<close>.\<close>

definition lbz_nat_sit_get_stream_id :: "bool \<Rightarrow> lbz_nat_sit_mgmt \<Rightarrow> u32 \<Rightarrow> nat" where
  "lbz_nat_sit_get_stream_id stream_support mgmt block =
     (if stream_support
      then if ns_nat_blkaddr mgmt \<noteq> 0 \<and> ns_nat_blkaddr mgmt + ns_nat_blocks mgmt \<le> block then 1 else 0
      else 0)"

definition lbz_nat_sit_is_dup_block :: "lbz_nat_sit_mgmt \<Rightarrow> u32 \<Rightarrow> bool" where
  "lbz_nat_sit_is_dup_block mgmt block \<longleftrightarrow>
     ns_sit_blkaddr mgmt \<le> block \<and> block < ns_nat_blkaddr mgmt + ns_nat_blocks mgmt"

definition lbz_nat_sit_is_cp_block :: "lbz_nat_sit_mgmt \<Rightarrow> u32 \<Rightarrow> bool" where
  "lbz_nat_sit_is_cp_block mgmt block \<longleftrightarrow>
     ns_cp_blkaddr mgmt \<le> block \<and> block < ns_cp_blkaddr mgmt + ns_cp_blocks mgmt"

definition lbz_nat_sit_is_fisrt_cp_block :: "lbz_nat_sit_mgmt \<Rightarrow> u32 \<Rightarrow> bool" where
  "lbz_nat_sit_is_fisrt_cp_block mgmt block \<longleftrightarrow>
     ns_first_cp_blkaddr mgmt \<le> block \<and> block < ns_first_cp_blkaddr mgmt + ns_cp_length mgmt"

definition lbz_nat_sit_is_second_cp_block :: "lbz_nat_sit_mgmt \<Rightarrow> u32 \<Rightarrow> bool" where
  "lbz_nat_sit_is_second_cp_block mgmt block \<longleftrightarrow>
     ns_second_cp_blkaddr mgmt \<le> block \<and> block < ns_second_cp_blkaddr mgmt + ns_cp_length mgmt"

definition lbz_nat_sit_set_cur_cp :: "lbz_nat_sit_mgmt \<Rightarrow> u32 \<Rightarrow> lbz_nat_sit_mgmt" where
  "lbz_nat_sit_set_cur_cp mgmt block =
     (if lbz_nat_sit_is_fisrt_cp_block mgmt block
      then mgmt\<lparr>ns_cur_cp_pack := 1\<rparr> else mgmt\<lparr>ns_cur_cp_pack := 2\<rparr>)"

definition lbz_nat_sit_to_free :: "lbz_nat_sit_mgmt \<Rightarrow> u32 \<Rightarrow> u32" where
  "lbz_nat_sit_to_free mgmt block =
     (let segment_no = block div ns_blocks_per_segment mgmt;
          to_free_seg = (if segment_no mod 2 = 1 then segment_no - 1 else segment_no + 1)
      in to_free_seg * ns_blocks_per_segment mgmt + (block mod ns_blocks_per_segment mgmt))"

section \<open>Waiting for the writes of a transaction\<close>

text \<open>
  The wait for the end of all NAT and SIT writes: \<open>seen k\<close> is the state when the \<open>k\<close>-th wait ends,
  because the counter was zero or a second has passed. The result is the number of waits.
\<close>

partial_function (option) lbz_nat_sit_wait_completed :: "(nat \<Rightarrow> lbz_nat_sit_mgmt) \<Rightarrow> nat \<Rightarrow> nat option" where
  "lbz_nat_sit_wait_completed seen k =
     (if 0 < sint (ns_inflight_writes (seen k)) then lbz_nat_sit_wait_completed seen (k + 1) else Some (k + 1))"

text \<open>The wait ends as soon as one of its turns sees no write in flight; until then it goes on.\<close>

lemma wait_completed_returns:
  assumes "k \<le> n" "sint (ns_inflight_writes (seen n)) \<le> 0" "\<forall>i. k \<le> i \<and> i < n \<longrightarrow> 0 < sint (ns_inflight_writes (seen i))"
  shows "lbz_nat_sit_wait_completed seen k = Some (n + 1)"
  using assms
proof (induction "n - k" arbitrary: k)
  case 0
  then show ?case by (subst lbz_nat_sit_wait_completed.simps) simp
next
  case (Suc d)
  then have "0 < sint (ns_inflight_writes (seen k))" by auto
  moreover have "lbz_nat_sit_wait_completed seen (k + 1) = Some (n + 1)" using Suc by (intro Suc.hyps(1)) auto
  ultimately show ?case by (subst lbz_nat_sit_wait_completed.simps) simp
qed

section \<open>The log of obsolete blocks\<close>

text \<open>
  A page that cannot be allocated is tried again until it can, so the model starts at the
  allocation that succeeds. The array of a new page is not initialised; the model fills it with
  zeros, which are never read because only the entries below the cursor are.
\<close>

definition new_nat_sit_node :: nat_sit_node where
  "new_nat_sit_node = \<lparr>nn_cursor = 0, nn_to_free_blkids = replicate NAT_SIT_NODE_ENTRIES 0\<rparr>"

definition cur_node_full :: "lbz_nat_sit_mgmt \<Rightarrow> bool option" where
  "cur_node_full mgmt = do {
     i \<leftarrow> ns_cur_node mgmt;
     if i < length (ns_head mgmt) then Some (nn_cursor (ns_head mgmt ! i) = NAT_SIT_NODE_ENTRIES) else None
   }"

definition lbz_nat_sit_add_blkid :: "u32 \<Rightarrow> lbz_nat_sit_mgmt \<Rightarrow> lbz_nat_sit_mgmt option" where
  "lbz_nat_sit_add_blkid blkid mgmt = do {
     grow \<leftarrow> (if ns_head mgmt = [] then Some True else cur_node_full mgmt);
     mgmt \<leftarrow>
       (if grow
        then if ns_head mgmt = []
             then Some (mgmt\<lparr>ns_head := [new_nat_sit_node], ns_cur_node := Some 0\<rparr>)
             else do {
               i \<leftarrow> ns_cur_node mgmt;
               Some (mgmt\<lparr>ns_head := take (i + 1) (ns_head mgmt) @ [new_nat_sit_node],
                          ns_cur_node := Some (i + 1)\<rparr>)
             }
        else Some mgmt);
     i \<leftarrow> ns_cur_node mgmt;
     node \<leftarrow> (if i < length (ns_head mgmt) then Some (ns_head mgmt ! i) else None);
     if nn_cursor node < length (nn_to_free_blkids node)
     then Some (mgmt\<lparr>ns_head := (ns_head mgmt)[i := node\<lparr>
              nn_to_free_blkids := (nn_to_free_blkids node)[nn_cursor node := blkid],
              nn_cursor := nn_cursor node + 1\<rparr>],
            ns_to_free_count := ns_to_free_count mgmt + 1\<rparr>)
     else None
   }"

section \<open>Commit\<close>

text \<open>One block of the log: its mapping is removed and its physical block released.\<close>

definition free_blkid ::
  "kern \<Rightarrow> u32 \<Rightarrow> lbz_mapping \<times> lbz_zone_metadata \<times> u64 \<Rightarrow>
     (lbz_mapping \<times> lbz_zone_metadata \<times> u64) option" where
  "free_blkid K blkid = (\<lambda>(mapping, zmd, freed). do {
     (old_pbid, mapping) \<leftarrow> lbz_mapping_remove K mapping blkid;
     if old_pbid \<noteq> LBZ_INVALID_PBID
     then do {
       zmd \<leftarrow> invalidate_block K old_pbid zmd;
       Some (mapping, zmd, freed + 1)
     }
     else Some (mapping, zmd, freed)
   })"

fun free_blkids ::
  "kern \<Rightarrow> u32 list \<Rightarrow> lbz_mapping \<times> lbz_zone_metadata \<times> u64 \<Rightarrow>
     (lbz_mapping \<times> lbz_zone_metadata \<times> u64) option" where
  "free_blkids K [] st = Some st"
| "free_blkids K (b # bs) st = do { st \<leftarrow> free_blkid K b st; free_blkids K bs st }"

fun free_nodes ::
  "kern \<Rightarrow> nat_sit_node list \<Rightarrow> lbz_mapping \<times> lbz_zone_metadata \<times> u64 \<Rightarrow>
     (lbz_mapping \<times> lbz_zone_metadata \<times> u64) option" where
  "free_nodes K [] st = Some st"
| "free_nodes K (node # nodes) st = do {
     st \<leftarrow> (if nn_cursor node \<le> length (nn_to_free_blkids node)
           then free_blkids K (take (nn_cursor node) (nn_to_free_blkids node)) st else None);
     free_nodes K nodes st
   }"

definition lbz_nat_sit_tx_complete ::
  "kern \<Rightarrow> lbz_nat_sit_mgmt \<Rightarrow> lbz_mapping \<Rightarrow> lbz_zone_metadata \<Rightarrow>
     (lbz_nat_sit_mgmt \<times> lbz_mapping \<times> lbz_zone_metadata) option" where
  "lbz_nat_sit_tx_complete K mgmt mapping zmd = do {
     (mapping, zmd, freed) \<leftarrow> free_nodes K (ns_head mgmt) (mapping, zmd, ns_total_freed_blks mgmt);
     Some (mgmt\<lparr>ns_total_freed_blks := freed, ns_head := [], ns_cur_node := None, ns_to_free_count := 0\<rparr>,
           mapping, zmd)
   }"

section \<open>Rules\<close>

definition lbz_nat_sit_add_rule :: "nat_sit_args \<Rightarrow> lbz_nat_sit_mgmt \<Rightarrow> lbz_nat_sit_mgmt option" where
  "lbz_nat_sit_add_rule args mgmt =
     (let mgmt = mgmt\<lparr>ns_cp_blkaddr := a_cp_blkaddr args, ns_sit_blkaddr := a_sit_blkaddr args,
            ns_nat_blkaddr := a_nat_blkaddr args, ns_nat_blocks := a_nat_blocks args,
            ns_cur_cp_pack := 0, ns_blocks_per_segment := 512, ns_inflight_writes := 0,
            ns_cp_write := 0, ns_ssa_write := 0, ns_user_write := 0\<rparr>;
          mgmt = mgmt\<lparr>ns_cp_blocks := ns_sit_blkaddr mgmt - ns_cp_blkaddr mgmt,
            ns_sit_blocks := ns_nat_blkaddr mgmt - ns_sit_blkaddr mgmt,
            ns_first_cp_blkaddr := ns_cp_blkaddr mgmt\<rparr>;
          mgmt = mgmt\<lparr>ns_cp_length := ns_cp_blocks mgmt div 2\<rparr>;
          mgmt = mgmt\<lparr>ns_second_cp_blkaddr := ns_cp_blkaddr mgmt + ns_cp_length mgmt\<rparr>
      in if ns_sit_blkaddr mgmt mod ns_blocks_per_segment mgmt \<noteq> 0 then None
         else if ns_nat_blkaddr mgmt mod ns_blocks_per_segment mgmt \<noteq> 0 then None
         else Some (mgmt\<lparr>ns_sit_segment_no := ns_sit_blkaddr mgmt div ns_blocks_per_segment mgmt,
                ns_nat_segment_no := ns_nat_blkaddr mgmt div ns_blocks_per_segment mgmt,
                ns_head := [], ns_cur_node := None, ns_to_free_count := 0, ns_total_freed_blks := 0\<rparr>))"

definition lbz_nat_sit_destroy :: "lbz_nat_sit_mgmt \<Rightarrow> lbz_nat_sit_mgmt" where
  "lbz_nat_sit_destroy mgmt = mgmt\<lparr>ns_head := [], ns_cur_node := None, ns_to_free_count := 0\<rparr>"

definition ns_zero :: lbz_nat_sit_mgmt where
  "ns_zero = \<lparr>ns_cp_blkaddr = 0, ns_sit_blkaddr = 0, ns_nat_blkaddr = 0, ns_nat_blocks = 0,
     ns_cp_blocks = 0, ns_sit_blocks = 0, ns_first_cp_blkaddr = 0, ns_second_cp_blkaddr = 0,
     ns_cp_length = 0, ns_sit_segment_no = 0, ns_nat_segment_no = 0, ns_cur_cp_pack = 0,
     ns_blocks_per_segment = 0, ns_inflight_writes = 0, ns_user_write = 0, ns_cp_write = 0,
     ns_ssa_write = 0, ns_head = [], ns_cur_node = None, ns_to_free_count = 0,
     ns_total_freed_blks = 0\<rparr>"

section \<open>The partner block\<close>

lemma partner_arith:
  fixes n :: nat
  assumes "n < 2 ^ 32"
  shows "odd (n div 512) \<Longrightarrow> 512 \<le> n" and "even (n div 512) \<Longrightarrow> n + 512 < 2 ^ 32"
proof -
  have n: "n = n div 512 * 512 + n mod 512" by simp
  have m: "n mod 512 < 512" by simp
  show "512 \<le> n" if "odd (n div 512)" using that by (cases "n div 512 = 0") auto
  show "n + 512 < 2 ^ 32" if "even (n div 512)"
  proof -
    have "n div 512 < 2 ^ 23" using assms by simp
    with that obtain k where "n div 512 = 2 * k" "2 * k < 2 ^ 23" by auto
    then have "n div 512 * 512 \<le> 4294966272" by simp
    then have "n + 512 < 4294967296" using n m by linarith
    then show ?thesis by simp
  qed
qed

lemma unat_to_free:
  assumes "ns_blocks_per_segment mgmt = 512"
  shows "unat (lbz_nat_sit_to_free mgmt b) =
    (if odd (unat b div 512) then unat b - 512 else unat b + 512)"
proof -
  let ?n = "unat b" and ?s = "b div 512"
  have s: "unat ?s = ?n div 512" by (simp add: unat_div)
  have lt: "?n < 2 ^ 32" using unat_u32_less [of b] by simp
  have odd: "?s mod 2 = 1 \<longleftrightarrow> odd (?n div 512)"
    by (simp add: word_unat_eq_iff unat_mod s odd_iff_mod_2_eq_one)
  have eq: "unat (t * 512 + b mod 512) = k * 512 + ?n mod 512"
    if "unat t = k" "k * 512 + ?n mod 512 < 2 ^ 32" for t :: u32 and k
    using that by (simp add: unat_word_ariths unat_mod)
  have d: "?n div 512 * 512 + ?n mod 512 = ?n" by simp
  show ?thesis
  proof (cases "odd (?n div 512)")
    case True
    then have "?s \<noteq> 0" using s by (metis even_zero unat_0)
    then have "unat (?s - 1) = ?n div 512 - 1" by (simp add: unat_dec s)
    moreover have "(?n div 512 - 1) * 512 + ?n mod 512 = ?n - 512"
      using d partner_arith(1) [OF lt True] by (simp add: diff_mult_distrib)
    ultimately show ?thesis
      using True odd eq [of "?s - 1" "?n div 512 - 1"] lt
      by (simp add: lbz_nat_sit_to_free_def Let_def assms)
  next
    case False
    have "unat (?s + 1) = ?n div 512 + 1"
      using lt by (simp add: unat_word_ariths s)
    moreover have "(?n div 512 + 1) * 512 + ?n mod 512 = ?n + 512" using d by (simp add: algebra_simps)
    ultimately show ?thesis
      using False odd eq [of "?s + 1" "?n div 512 + 1"] partner_arith(2) [OF lt]
      by (simp add: lbz_nat_sit_to_free_def Let_def assms)
  qed
qed

text \<open>
  C27. The partner of a duplicated block (the copy that a committed transaction makes obsolete)
  lies at the same offset of the other segment of the pair, the computation never overflows,
  and the partner of the partner is the block itself. \<open>add_rule\<close> sets segments of 512 blocks.
\<close>

theorem to_free_pairing:
  assumes "ns_blocks_per_segment mgmt = 512"
  shows "lbz_nat_sit_to_free mgmt (lbz_nat_sit_to_free mgmt b) = b \<and>
    lbz_nat_sit_to_free mgmt b \<noteq> b \<and>
    unat (lbz_nat_sit_to_free mgmt b) div 1024 = unat b div 1024 \<and>
    unat (lbz_nat_sit_to_free mgmt b) mod 512 = unat b mod 512"
proof -
  let ?n = "unat b"
  have lt: "?n < 2 ^ 32" using unat_u32_less [of b] by simp
  define n where "n = unat (lbz_nat_sit_to_free mgmt b)"
  have n: "n = (if odd (?n div 512) then ?n - 512 else ?n + 512)"
    unfolding n_def by (rule unat_to_free [OF assms])
  have ge: "odd (?n div 512) \<Longrightarrow> 512 \<le> ?n" by (rule partner_arith(1) [OF lt])
  have par: "odd (n div 512) \<longleftrightarrow> even (?n div 512)"
  proof (cases "odd (?n div 512)")
    case True
    then obtain k where k: "?n = k + 512" using ge le_Suc_ex by (metis add.commute)
    with True n show ?thesis using div_add_self2 [of 512 k] by simp
  qed (use n div_add_self2 [of 512 ?n] in simp)
  have bk: "(if odd (n div 512) then n - 512 else n + 512) = ?n" using par n ge by auto
  have "n div 1024 = ?n div 1024"
  proof -
    have "n div 512 div 2 = ?n div 512 div 2"
    proof (cases "odd (?n div 512)")
      case True
      then obtain k where k: "?n = k + 512" using ge le_Suc_ex by (metis add.commute)
      with True n div_add_self2 [of 512 k] show ?thesis by simp
    next
      case False
      with n div_add_self2 [of 512 ?n] show ?thesis by simp
    qed
    then show ?thesis by (simp add: div_mult2_eq [symmetric])
  qed
  moreover have "n mod 512 = ?n mod 512" using n ge by (auto simp: le_mod_geq)
  moreover have "n \<noteq> ?n" using n ge by auto
  ultimately show ?thesis
    using bk unat_to_free [OF assms, of "lbz_nat_sit_to_free mgmt b"]
    unfolding n_def by (auto simp: word_unat_eq_iff)
qed

theorem to_free_pairing_witness:
  "lbz_nat_sit_to_free (ns_zero\<lparr>ns_blocks_per_segment := 512\<rparr>) 1030 = 1542 \<and>
   lbz_nat_sit_to_free (ns_zero\<lparr>ns_blocks_per_segment := 512\<rparr>) 1542 = 1030"
  using to_free_pairing [of "ns_zero\<lparr>ns_blocks_per_segment := 512\<rparr>" 1030]
  by (simp add: lbz_nat_sit_to_free_def)

section \<open>The classes of blocks\<close>

lemma add_rule_Some:
  "lbz_nat_sit_add_rule args mgmt = Some mgmt' \<Longrightarrow>
     ns_cp_blkaddr mgmt' = a_cp_blkaddr args \<and> ns_sit_blkaddr mgmt' = a_sit_blkaddr args \<and>
     ns_nat_blkaddr mgmt' = a_nat_blkaddr args \<and> ns_nat_blocks mgmt' = a_nat_blocks args \<and>
     ns_cp_blocks mgmt' = a_sit_blkaddr args - a_cp_blkaddr args \<and>
     ns_first_cp_blkaddr mgmt' = a_cp_blkaddr args \<and>
     ns_cp_length mgmt' = (a_sit_blkaddr args - a_cp_blkaddr args) div 2 \<and>
     ns_second_cp_blkaddr mgmt' = a_cp_blkaddr args + (a_sit_blkaddr args - a_cp_blkaddr args) div 2 \<and>
     ns_blocks_per_segment mgmt' = 512 \<and> ns_head mgmt' = [] \<and> ns_cur_node mgmt' = None \<and>
     ns_to_free_count mgmt' = 0"
  by (auto simp: lbz_nat_sit_add_rule_def Let_def split: if_splits)

lemma add_rule_accepts:
  "lbz_nat_sit_add_rule args mgmt = None \<longleftrightarrow> a_sit_blkaddr args mod 512 \<noteq> 0 \<or> a_nat_blkaddr args mod 512 \<noteq> 0"
  by (auto simp: lbz_nat_sit_add_rule_def Let_def split: if_splits)

lemma add_rule_ordered:
  assumes Some: "lbz_nat_sit_add_rule args mgmt = Some m"
    and "unat (a_cp_blkaddr args) \<le> unat (a_sit_blkaddr args)"
    and "unat (a_sit_blkaddr args) \<le> unat (a_nat_blkaddr args)"
    and "unat (a_nat_blkaddr args) + unat (a_nat_blocks args) < 2 ^ 32"
  shows "(lbz_nat_sit_is_cp_block m b \<longleftrightarrow>
               unat (a_cp_blkaddr args) \<le> unat b \<and> unat b < unat (a_sit_blkaddr args)) \<and>
            (lbz_nat_sit_is_dup_block m b \<longleftrightarrow> unat (a_sit_blkaddr args) \<le> unat b \<and>
               unat b < unat (a_nat_blkaddr args) + unat (a_nat_blocks args)) \<and>
            \<not> (lbz_nat_sit_is_cp_block m b \<and> lbz_nat_sit_is_dup_block m b) \<and>
            \<not> (lbz_nat_sit_is_fisrt_cp_block m b \<and> lbz_nat_sit_is_second_cp_block m b) \<and>
            (lbz_nat_sit_is_fisrt_cp_block m b \<or> lbz_nat_sit_is_second_cp_block m b \<longrightarrow>
               lbz_nat_sit_is_cp_block m b)"
proof -
  let ?cp = "a_cp_blkaddr args" and ?sit = "a_sit_blkaddr args" and ?nat = "a_nat_blkaddr args"
  note f = add_rule_Some [OF Some]
  have d: "unat (?sit - ?cp) = unat ?sit - unat ?cp"
    using assms(2) by (simp add: unat_sub word_le_nat_alt)
  have h: "unat ((?sit - ?cp) div 2) = (unat ?sit - unat ?cp) div 2" by (simp add: unat_div d)
  have lt: "unat ?sit < 2 ^ 32" using unat_u32_less [of ?sit] by simp
  have u: "unat (?cp + x) = unat ?cp + unat x" if "unat ?cp + unat x \<le> unat ?sit" for x
    using that lt by (simp add: unat_word_ariths)
  have u1: "unat (?cp + (?sit - ?cp)) = unat ?sit" using u [of "?sit - ?cp"] d assms(2) by simp
  have u2: "unat (?cp + (?sit - ?cp) div 2) = unat ?cp + (unat ?sit - unat ?cp) div 2"
    using u [of "(?sit - ?cp) div 2"] h assms(2) by simp
  have u3: "unat (?cp + (?sit - ?cp) div 2 + (?sit - ?cp) div 2) =
      unat ?cp + (unat ?sit - unat ?cp) div 2 + (unat ?sit - unat ?cp) div 2"
  proof -
    have "unat ?cp + (unat ?sit - unat ?cp) div 2 + (unat ?sit - unat ?cp) div 2 < 2 ^ 32"
      using lt assms(2) by linarith
    then have "unat (?cp + (?sit - ?cp) div 2) + unat ((?sit - ?cp) div 2) < 2 ^ LENGTH(32)"
      unfolding u2 h by simp
    then have "unat (?cp + (?sit - ?cp) div 2 + (?sit - ?cp) div 2) =
        unat (?cp + (?sit - ?cp) div 2) + unat ((?sit - ?cp) div 2)"
      by (rule unat_add_lem [THEN iffD1])
    then show ?thesis unfolding u2 h .
  qed
  have u4: "unat (?nat + a_nat_blocks args) = unat ?nat + unat (a_nat_blocks args)"
    using assms(4) by (simp add: unat_word_ariths)
  have cp: "lbz_nat_sit_is_cp_block m b \<longleftrightarrow> unat ?cp \<le> unat b \<and> unat b < unat ?sit" for b
    by (simp add: lbz_nat_sit_is_cp_block_def f word_le_nat_alt word_less_nat_alt u1)
  have dup: "lbz_nat_sit_is_dup_block m b \<longleftrightarrow> unat ?sit \<le> unat b \<and> unat b < unat ?nat + unat (a_nat_blocks args)" for b
    by (simp add: lbz_nat_sit_is_dup_block_def f word_le_nat_alt word_less_nat_alt u4)
  have c1: "lbz_nat_sit_is_fisrt_cp_block m b \<longleftrightarrow>
      unat ?cp \<le> unat b \<and> unat b < unat ?cp + (unat ?sit - unat ?cp) div 2" for b
    by (simp add: lbz_nat_sit_is_fisrt_cp_block_def f word_le_nat_alt word_less_nat_alt u2)
  have c2: "lbz_nat_sit_is_second_cp_block m b \<longleftrightarrow> unat ?cp + (unat ?sit - unat ?cp) div 2 \<le> unat b \<and>
      unat b < unat ?cp + (unat ?sit - unat ?cp) div 2 + (unat ?sit - unat ?cp) div 2" for b
    by (simp only: lbz_nat_sit_is_second_cp_block_def f word_le_nat_alt word_less_nat_alt u2 u3)
  show ?thesis unfolding cp dup c1 c2 using assms(2) by auto
qed



section \<open>The log is a queue\<close>

text \<open>
  The contract of the log: what was added is kept in order. Its client adds the blocks of one
  transaction one by one.
\<close>

locale block_log =
  fixes ok :: "'q \<Rightarrow> bool" and content :: "'q \<Rightarrow> u32 list" and push :: "u32 \<Rightarrow> 'q \<Rightarrow> 'q option"
  assumes push_some: "ok q \<Longrightarrow> \<exists>q'. push b q = Some q' \<and> ok q' \<and> content q' = content q @ [b]"
begin

lemma push_content: "ok q \<Longrightarrow> push b q = Some q' \<Longrightarrow> ok q' \<and> content q' = content q @ [b]"
  using push_some [of q b] by auto

lemma push_list:
  assumes "ok q"
  shows "\<exists>q'. fold (\<lambda>b s. Option.bind s (push b)) bs (Some q) = Some q' \<and> ok q' \<and> content q' = content q @ bs"
  using assms
proof (induction bs arbitrary: q)
  case (Cons b bs)
  from push_some [OF Cons.prems, of b] obtain q1 where
    q1: "push b q = Some q1" "ok q1" "content q1 = content q @ [b]" by blast
  from Cons.IH [OF q1(2)] q1 show ?case by auto
qed simp

end

definition node_log :: "nat_sit_node \<Rightarrow> u32 list" where
  "node_log node = take (nn_cursor node) (nn_to_free_blkids node)"

definition log_blkids :: "lbz_nat_sit_mgmt \<Rightarrow> u32 list" where
  "log_blkids mgmt = concat (map node_log (ns_head mgmt))"

definition log_ok :: "lbz_nat_sit_mgmt \<Rightarrow> bool" where
  "log_ok mgmt \<longleftrightarrow>
     ns_cur_node mgmt = (if ns_head mgmt = [] then None else Some (length (ns_head mgmt) - 1)) \<and>
     (\<forall>node\<in>set (ns_head mgmt). nn_cursor node \<le> NAT_SIT_NODE_ENTRIES \<and>
        length (nn_to_free_blkids node) = NAT_SIT_NODE_ENTRIES) \<and>
     ns_to_free_count mgmt = of_nat (length (log_blkids mgmt))"

definition node_push :: "u32 \<Rightarrow> nat_sit_node \<Rightarrow> nat_sit_node" where
  "node_push blkid node = node\<lparr>nn_to_free_blkids := (nn_to_free_blkids node)[nn_cursor node := blkid],
     nn_cursor := nn_cursor node + 1\<rparr>"

lemma node_log_push:
  assumes "nn_cursor node < length (nn_to_free_blkids node)"
  shows "node_log (node_push b node) = node_log node @ [b]"
  using assms by (simp add: node_log_def node_push_def take_Suc_conv_app_nth)

text \<open>Adding to the last page of a chain.\<close>

lemma log_push_last:
  fixes b :: u32
  assumes "ns_head mgmt = ns @ [node]" "nn_cursor node < NAT_SIT_NODE_ENTRIES"
    "length (nn_to_free_blkids node) = NAT_SIT_NODE_ENTRIES"
    and "\<forall>n\<in>set ns. nn_cursor n \<le> NAT_SIT_NODE_ENTRIES \<and> length (nn_to_free_blkids n) = NAT_SIT_NODE_ENTRIES"
    and "ns_cur_node mgmt = Some (length ns)"
    and "ns_to_free_count mgmt = of_nat (length (log_blkids mgmt))"
  defines "mgmt' \<equiv> mgmt\<lparr>ns_head := ns @ [node_push b node], ns_to_free_count := ns_to_free_count mgmt + 1\<rparr>"
  shows "log_ok mgmt' \<and> log_blkids mgmt' = log_blkids mgmt @ [b]"
proof -
  have l: "log_blkids mgmt' = log_blkids mgmt @ [b]"
    using node_log_push [of node b] assms(1-3) by (simp add: mgmt'_def log_blkids_def)
  moreover have "log_ok mgmt'"
    unfolding log_ok_def l using assms by (auto simp: node_push_def)
  ultimately show ?thesis by blast
qed

lemma add_blkid_push:
  assumes ok: "log_ok mgmt"
  shows "\<exists>mgmt'. lbz_nat_sit_add_blkid b mgmt = Some mgmt' \<and> log_ok mgmt' \<and>
    log_blkids mgmt' = log_blkids mgmt @ [b]"
proof -
  let ?new = "new_nat_sit_node"
  have new: "nn_cursor ?new < NAT_SIT_NODE_ENTRIES" "length (nn_to_free_blkids ?new) = NAT_SIT_NODE_ENTRIES"
      "node_log ?new = []"
    by (simp_all add: new_nat_sit_node_def NAT_SIT_NODE_ENTRIES_def node_log_def)
  show ?thesis
  proof (cases "ns_head mgmt" rule: rev_cases)
    case Nil
    let ?m = "mgmt\<lparr>ns_head := [?new], ns_cur_node := Some 0\<rparr>"
    have "log_blkids ?m = log_blkids mgmt" by (simp add: log_blkids_def Nil new)
    with log_push_last [of ?m "[]" ?new b] new ok Nil show ?thesis
      by (simp add: lbz_nat_sit_add_blkid_def node_push_def log_ok_def)
  next
    case (snoc ns node)
    have n: "nn_cursor node \<le> NAT_SIT_NODE_ENTRIES" "length (nn_to_free_blkids node) = NAT_SIT_NODE_ENTRIES"
        "ns_cur_node mgmt = Some (length ns)" "ns_to_free_count mgmt = of_nat (length (log_blkids mgmt))"
        "\<forall>n\<in>set ns. nn_cursor n \<le> NAT_SIT_NODE_ENTRIES \<and> length (nn_to_free_blkids n) = NAT_SIT_NODE_ENTRIES"
      using ok snoc by (auto simp: log_ok_def)
    show ?thesis
    proof (cases "nn_cursor node = NAT_SIT_NODE_ENTRIES")
      case True
      let ?m = "mgmt\<lparr>ns_head := (ns @ [node]) @ [?new], ns_cur_node := Some (length (ns @ [node]))\<rparr>"
      have "log_blkids ?m = log_blkids mgmt" by (simp add: log_blkids_def snoc new)
      moreover have "lbz_nat_sit_add_blkid b mgmt = Some (?m\<lparr>ns_head := (ns @ [node]) @ [node_push b ?new],
          ns_to_free_count := ns_to_free_count ?m + 1\<rparr>)"
        using n snoc True new
        by (simp add: lbz_nat_sit_add_blkid_def cur_node_full_def node_push_def nth_append list_update_append)
      ultimately show ?thesis using log_push_last [of ?m "ns @ [node]" ?new b] new n by auto
    next
      case False
      with log_push_last [of mgmt ns node b] n snoc show ?thesis
        by (simp add: lbz_nat_sit_add_blkid_def cur_node_full_def node_push_def)
    qed
  qed
qed

interpretation nl: block_log log_ok log_blkids lbz_nat_sit_add_blkid
  by unfold_locales (rule add_blkid_push)

text \<open>
  C26. The log never loses or reorders a block: however many blocks are added (the chain grows
  by a page when one is full), the log holds what it held followed by the new blocks, and
  \<open>to_free_count\<close> counts them.
\<close>

theorem log_keeps_order:
  assumes "log_ok mgmt"
  shows "\<exists>mgmt'. fold (\<lambda>b s. Option.bind s (lbz_nat_sit_add_blkid b)) bs (Some mgmt) = Some mgmt' \<and>
    log_blkids mgmt' = log_blkids mgmt @ bs \<and>
    ns_to_free_count mgmt' = of_nat (length (log_blkids mgmt) + length bs)"
proof -
  from nl.push_list [OF assms, of bs] obtain mgmt' where
    m: "fold (\<lambda>b s. Option.bind s (lbz_nat_sit_add_blkid b)) bs (Some mgmt) = Some mgmt'" "log_ok mgmt'"
      "log_blkids mgmt' = log_blkids mgmt @ bs" by blast
  then show ?thesis by (simp add: log_ok_def)
qed

theorem log_keeps_order_witness:
  "log_ok ns_zero \<and> (\<exists>mgmt'. fold (\<lambda>b s. Option.bind s (lbz_nat_sit_add_blkid b)) [7, 9, 7] (Some ns_zero) =
     Some mgmt' \<and> log_blkids mgmt' = [7, 9, 7] \<and> ns_to_free_count mgmt' = 3)"
proof -
  have z: "log_ok ns_zero" "log_blkids ns_zero = []" by (simp_all add: log_ok_def ns_zero_def log_blkids_def)
  with log_keeps_order [OF z(1), of "[7, 9, 7]"] show ?thesis by simp
qed

section \<open>A commit releases exactly the logged blocks\<close>

lemma free_blkid_ok:
  assumes c: "map_consistent (map_get K m) (zmd_rget K zmd)" and wf: "zmd_wf zmd" and mw: "mapping_wf K m"
    and b: "map_get K m b = Some old"
  shows "\<exists>m' zmd'. free_blkid K b (m, zmd, fr) =
      Some (m', zmd', fr + (if old = LBZ_INVALID_PBID then 0 else 1)) \<and>
      map_consistent (map_get K m') (zmd_rget K zmd') \<and> zmd_wf zmd' \<and> mapping_wf K m' \<and>
      (\<forall>d. map_get K m' d = (if d = b then Some LBZ_INVALID_PBID else map_get K m d))"
proof -
  from fm.remove_some [OF b] obtain m' where r: "lbz_mapping_remove K m b = Some (old, m')" by blast
  note g = fm.get_remove [OF r]
  have mw': "mapping_wf K m'" using mapping_wf_remove [OF mw r] .
  show ?thesis
  proof (cases "old = LBZ_INVALID_PBID")
    case True
    with b have "map_get K m' d = map_get K m d" for d by (simp add: g)
    then have eq: "map_get K m' = map_get K m" by (rule ext)
    show ?thesis
    proof (intro exI conjI)
      show "free_blkid K b (m, zmd, fr) = Some (m', zmd, fr + (if old = LBZ_INVALID_PBID then 0 else 1))"
        using r True by (simp add: free_blkid_def)
    qed (use c eq wf mw' g in auto)
  next
    case False
    from map_consistent_fr [OF c b False] have rg: "zmd_rget K zmd old = Some b" .
    from invalidate_some [OF wf rg map_consistent_valid [OF c b] False] obtain zmd1 zmd' where
      i: "zmd_update K zmd old LBZ_INVALID_PBID = Some zmd1" "invalidate_block K old zmd = Some zmd'"
        "zmd_wf zmd'" "zmd_rget K zmd' = zmd_rget K zmd1" by blast
    have "map_consistent (map_get K m') (zmd_rget K zmd')"
      using lbz.unmap_consistent [OF c r False] i(1,4) by auto
    moreover have "free_blkid K b (m, zmd, fr) = Some (m', zmd', fr + 1)"
      using r False i(2) by (simp add: free_blkid_def)
    ultimately show ?thesis using False i(3) mw' g by auto
  qed
qed

definition mapped :: "(u32 \<Rightarrow> u32 option) \<Rightarrow> u32 set" where
  "mapped f = {b. \<exists>p. f b = Some p \<and> p \<noteq> LBZ_INVALID_PBID}"

lemma free_blkids_ok:
  assumes "map_consistent (map_get K m) (zmd_rget K zmd)" and "zmd_wf zmd" and "mapping_wf K m"
    and "\<forall>b\<in>set bs. map_get K m b \<noteq> None"
  shows "\<exists>m' zmd'. free_blkids K bs (m, zmd, fr) =
      Some (m', zmd', fr + of_nat (card (set bs \<inter> mapped (map_get K m)))) \<and>
      map_consistent (map_get K m') (zmd_rget K zmd') \<and> zmd_wf zmd' \<and> mapping_wf K m' \<and>
      (\<forall>d. map_get K m' d = (if d \<in> set bs then Some LBZ_INVALID_PBID else map_get K m d))"
  using assms
proof (induction bs arbitrary: m zmd fr)
  case (Cons b bs)
  from Cons.prems(4) obtain old where b: "map_get K m b = Some old" by auto
  let ?inc = "if old = LBZ_INVALID_PBID then 0 else 1 :: u64"
  from free_blkid_ok [OF Cons.prems(1-3) b, of fr] obtain m1 zmd1 where
    s: "free_blkid K b (m, zmd, fr) = Some (m1, zmd1, fr + ?inc)"
      "map_consistent (map_get K m1) (zmd_rget K zmd1)" "zmd_wf zmd1" "mapping_wf K m1"
    and g: "\<And>d. map_get K m1 d = (if d = b then Some LBZ_INVALID_PBID else map_get K m d)" by blast
  have "\<forall>d\<in>set bs. map_get K m1 d \<noteq> None" using Cons.prems(4) by (simp add: g)
  from Cons.IH [OF s(2-4) this, of "fr + ?inc"] obtain m2 zmd2 where
    t: "free_blkids K bs (m1, zmd1, fr + ?inc) =
        Some (m2, zmd2, fr + ?inc + of_nat (card (set bs \<inter> mapped (map_get K m1))))"
      "map_consistent (map_get K m2) (zmd_rget K zmd2)" "zmd_wf zmd2" "mapping_wf K m2"
    and h: "\<And>d. map_get K m2 d = (if d \<in> set bs then Some LBZ_INVALID_PBID else map_get K m1 d)" by blast
  have "mapped (map_get K m1) = mapped (map_get K m) - {b}" by (auto simp: mapped_def g)
  moreover have "b \<in> mapped (map_get K m) \<longleftrightarrow> old \<noteq> LBZ_INVALID_PBID" by (simp add: mapped_def b)
  ultimately have "?inc + of_nat (card (set bs \<inter> mapped (map_get K m1))) =
      (of_nat (card (set (b # bs) \<inter> mapped (map_get K m))) :: u64)"
  proof -
    let ?M = "mapped (map_get K m)"
    assume m1: "mapped (map_get K m1) = ?M - {b}" and bm: "b \<in> ?M \<longleftrightarrow> old \<noteq> LBZ_INVALID_PBID"
    show ?thesis
    proof (cases "b \<in> ?M")
      case True
      then have "set (b # bs) \<inter> ?M = insert b (set bs \<inter> (?M - {b}))" by auto
      then show ?thesis using True bm by (simp add: m1)
    next
      case False
      then have "set (b # bs) \<inter> ?M = set bs \<inter> (?M - {b})" by auto
      then show ?thesis using False bm by (simp add: m1)
    qed
  qed
  then have "free_blkids K (b # bs) (m, zmd, fr) =
      Some (m2, zmd2, fr + of_nat (card (set (b # bs) \<inter> mapped (map_get K m))))"
    using s(1) t(1) by (simp add: add.assoc)
  then show ?case using t(2-4) by (auto simp: h g)
qed simp

lemma free_blkids_append: "free_blkids K (xs @ ys) st = Option.bind (free_blkids K xs st) (free_blkids K ys)"
proof (induction xs arbitrary: st)
  case (Cons x xs)
  then have "free_blkids K (xs @ ys) = (\<lambda>st. Option.bind (free_blkids K xs st) (free_blkids K ys))" by (rule ext)
  then show ?case by simp
qed simp

lemma free_nodes_log:
  assumes "\<forall>node\<in>set ns. nn_cursor node \<le> length (nn_to_free_blkids node)"
  shows "free_nodes K ns st = free_blkids K (concat (map node_log ns)) st"
  using assms
proof (induction ns arbitrary: st)
  case (Cons n ns)
  then have "free_nodes K ns = free_blkids K (concat (map node_log ns))" by (intro ext) simp
  then show ?case using Cons.prems by (simp add: free_blkids_append node_log_def [symmetric])
qed simp

text \<open>
  C13. Committing a transaction: on consistent maps and a log of blocks of the device, the commit
  does not stop, unmaps exactly the logged blocks, counts each block it really freed once,
  empties the log, and leaves the maps inverse to each other and the zone table well formed.
\<close>

theorem tx_complete_commits:
  assumes c: "map_consistent (map_get K m) (zmd_rget K zmd)" and wf: "zmd_wf zmd" and mw: "mapping_wf K m"
    and ok: "log_ok mgmt" and dev: "\<forall>b\<in>set (log_blkids mgmt). map_get K m b \<noteq> None"
  shows "\<exists>mgmt' m' zmd'. lbz_nat_sit_tx_complete K mgmt m zmd = Some (mgmt', m', zmd') \<and>
     map_consistent (map_get K m') (zmd_rget K zmd') \<and> zmd_wf zmd' \<and> mapping_wf K m' \<and>
     (\<forall>b. map_get K m' b =
        (if b \<in> set (log_blkids mgmt) then Some LBZ_INVALID_PBID else map_get K m b)) \<and>
     log_ok mgmt' \<and> log_blkids mgmt' = [] \<and>
     ns_total_freed_blks mgmt' = ns_total_freed_blks mgmt +
       of_nat (card (set (log_blkids mgmt) \<inter> mapped (map_get K m)))"
proof -
  have "free_nodes K (ns_head mgmt) st = free_blkids K (log_blkids mgmt) st" for st
    unfolding log_blkids_def by (rule free_nodes_log) (use ok in \<open>auto simp: log_ok_def\<close>)
  with free_blkids_ok [OF c wf mw dev, of "ns_total_freed_blks mgmt"] obtain m' zmd' where
    r: "lbz_nat_sit_tx_complete K mgmt m zmd = Some (mgmt\<lparr>ns_total_freed_blks := ns_total_freed_blks mgmt +
          of_nat (card (set (log_blkids mgmt) \<inter> mapped (map_get K m))),
        ns_head := [], ns_cur_node := None, ns_to_free_count := 0\<rparr>, m', zmd')"
      "map_consistent (map_get K m') (zmd_rget K zmd')" "zmd_wf zmd'" "mapping_wf K m'"
      "\<forall>b. map_get K m' b =
        (if b \<in> set (log_blkids mgmt) then Some LBZ_INVALID_PBID else map_get K m b)"
    unfolding lbz_nat_sit_tx_complete_def by auto
  then show ?thesis
    by (intro exI conjI) (assumption | simp add: log_ok_def log_blkids_def)+
qed

end
