(* ===== verification/Device.thy ===== *)
theory Device
  imports Zone_Init Nat_Sit
begin

text \<open>
  \<^verbatim>\<open>include/lbz-dev.h\<close>: the device, its state bits and counters. The components a device points
  to (zone table, map, scheduler, collector, F2FS rules) are created with it and live as long
  as it does; they are fields of the model's device. The scheduler is defined here as well
  (\<^verbatim>\<open>include/lbz-io-scheduler.h\<close>) because the device contains it: the tree of tasks is a binary
  tree of task addresses, the pending lists are lists of task addresses, and \<open>s_retry_queued\<close>
  records that the retry work was queued; \<open>s_retry_wq\<close> is the work queue it runs in.
\<close>

record lbz_io_scheduler =
  s_task_tree :: "tptr tree"
  s_task_count :: u64
  s_pending_count :: u32
  s_user_pending :: "tptr list"
  s_gc_write_count :: u32
  s_gc_writes :: "tptr list"
  s_retry_queued :: bool
  s_retry_wq :: wq_ptr

datatype lbz_dev_state = LBZ_DEV_STATE_READY | LBZ_DEV_STATE_REMOVE | LBZ_DEV_STATE_FAULTY

fun dev_state_bit :: "lbz_dev_state \<Rightarrow> nat" where
  "dev_state_bit LBZ_DEV_STATE_READY = 0"
| "dev_state_bit LBZ_DEV_STATE_REMOVE = 1"
| "dev_state_bit LBZ_DEV_STATE_FAULTY = 2"

record lbz_device =
  d_minor :: nat
  d_meta_bytes :: u32
  d_dev_size :: u64
  d_refcnt :: u32
  d_transaction_id :: u64
  d_timestamp :: u64
  d_nr_zones :: u32
  d_flags :: u64
  d_zone_metadata :: lbz_zone_metadata
  d_mapping :: lbz_mapping
  d_iosched :: lbz_io_scheduler
  d_gc_ctx :: lbz_gc_context
  d_nat_sit_mgmt :: lbz_nat_sit_mgmt
  d_user_write_inflight_io_cnt :: u64
  d_user_read_inflight_io_cnt :: u64
  d_user_read_err_cnt :: u64
  d_user_read_zero_cnt :: u64
  d_user_write_err_cnt :: u64
  d_user_encounter_emergency :: u64
  d_write_alloc_encounter_eagain :: u64
  d_gc_alloc_encounter_eagain :: u64
  d_user_write_blocks :: u64
  d_user_read_blocks :: u64
  d_gc_inflight_io_cnt :: u64
  d_gc_write_err_cnt :: u64
  d_gc_read_err_cnt :: u64
  d_gc_read_blocks :: u64
  d_gc_write_blocks :: u64
  d_gc_write_agency_blocks :: u64
  d_gc_write_complete_blocks :: u64
  d_gc_write_discarded_blocks :: u64
  d_gc_reset_blocks :: u64

definition lbz_dev_set_unready :: "lbz_device \<Rightarrow> lbz_device" where
  "lbz_dev_set_unready dev =
     dev\<lparr>d_flags := Bit_Operations.unset_bit (dev_state_bit LBZ_DEV_STATE_READY) (d_flags dev)\<rparr>"

definition lbz_dev_set_ready :: "lbz_device \<Rightarrow> lbz_device" where
  "lbz_dev_set_ready dev =
     dev\<lparr>d_flags := Bit_Operations.set_bit (dev_state_bit LBZ_DEV_STATE_READY) (d_flags dev)\<rparr>"

definition is_dev_ready :: "lbz_device \<Rightarrow> bool" where
  "is_dev_ready dev = bit (d_flags dev) (dev_state_bit LBZ_DEV_STATE_READY)"

definition is_dev_faulty :: "lbz_device \<Rightarrow> bool" where
  "is_dev_faulty dev = bit (d_flags dev) (dev_state_bit LBZ_DEV_STATE_FAULTY)"

definition lbz_dev_set_remove :: "lbz_device \<Rightarrow> lbz_device" where
  "lbz_dev_set_remove dev =
     dev\<lparr>d_flags := Bit_Operations.set_bit (dev_state_bit LBZ_DEV_STATE_REMOVE) (d_flags dev)\<rparr>"

definition is_dev_remove :: "lbz_device \<Rightarrow> bool" where
  "is_dev_remove dev = bit (d_flags dev) (dev_state_bit LBZ_DEV_STATE_REMOVE)"

definition lbz_dev_set_faulty :: "lbz_device \<Rightarrow> lbz_device" where
  "lbz_dev_set_faulty dev =
     dev\<lparr>d_flags := Bit_Operations.set_bit (dev_state_bit LBZ_DEV_STATE_FAULTY) (d_flags dev)\<rparr>"

text \<open>The counters that return their new value return it with the device.\<close>

definition lbz_dev_get_tx_id :: "lbz_device \<Rightarrow> u64 \<times> lbz_device" where
  "lbz_dev_get_tx_id dev =
     (d_transaction_id dev + 1, dev\<lparr>d_transaction_id := d_transaction_id dev + 1\<rparr>)"

definition lbz_dev_read_tx_id :: "lbz_device \<Rightarrow> u64" where
  "lbz_dev_read_tx_id dev = d_transaction_id dev"

definition lbz_dev_get_timestamp :: "lbz_device \<Rightarrow> u64 \<times> lbz_device" where
  "lbz_dev_get_timestamp dev = (d_timestamp dev + 1, dev\<lparr>d_timestamp := d_timestamp dev + 1\<rparr>)"

definition lbz_inc_gc_write_err :: "lbz_device \<Rightarrow> lbz_device" where
  "lbz_inc_gc_write_err dev = dev\<lparr>d_gc_write_err_cnt := d_gc_write_err_cnt dev + 1\<rparr>"

definition lbz_inc_gc_read_err :: "lbz_device \<Rightarrow> lbz_device" where
  "lbz_inc_gc_read_err dev = dev\<lparr>d_gc_read_err_cnt := d_gc_read_err_cnt dev + 1\<rparr>"

definition lbz_inc_gc_inflight :: "lbz_device \<Rightarrow> lbz_device" where
  "lbz_inc_gc_inflight dev = dev\<lparr>d_gc_inflight_io_cnt := d_gc_inflight_io_cnt dev + 1\<rparr>"

definition lbz_dec_gc_inflight :: "lbz_device \<Rightarrow> lbz_device" where
  "lbz_dec_gc_inflight dev = dev\<lparr>d_gc_inflight_io_cnt := d_gc_inflight_io_cnt dev - 1\<rparr>"

lemmas dev_flag_defs = lbz_dev_set_unready_def lbz_dev_set_ready_def lbz_dev_set_remove_def
  lbz_dev_set_faulty_def is_dev_ready_def is_dev_faulty_def is_dev_remove_def

lemma dev_flags_set [bit_flags]:
  "is_dev_ready (lbz_dev_set_ready d)" "\<not> is_dev_ready (lbz_dev_set_unready d)"
  "is_dev_remove (lbz_dev_set_remove d)" "is_dev_faulty (lbz_dev_set_faulty d)"
  by (simp_all add: dev_flag_defs set_bit_bit_iff unset_bit_bit_iff)

lemma dev_flags_frame [bit_flags]:
  "is_dev_faulty (lbz_dev_set_ready d) = is_dev_faulty d" "is_dev_faulty (lbz_dev_set_unready d) = is_dev_faulty d"
  "is_dev_faulty (lbz_dev_set_remove d) = is_dev_faulty d" "is_dev_ready (lbz_dev_set_remove d) = is_dev_ready d"
  "is_dev_ready (lbz_dev_set_faulty d) = is_dev_ready d" "is_dev_remove (lbz_dev_set_faulty d) = is_dev_remove d"
  "is_dev_remove (lbz_dev_set_ready d) = is_dev_remove d" "is_dev_remove (lbz_dev_set_unready d) = is_dev_remove d"
  by (simp_all add: dev_flag_defs set_bit_bit_iff unset_bit_bit_iff)

end
