(* ===== verification/Zone_State.thy ===== *)
theory Zone_State
  imports Device
begin

text \<open>
  \<^verbatim>\<open>zone_state_wk_fn\<close> of \<^verbatim>\<open>lbz-zone-metadata.c\<close>: the work that closes the zones that were written
  to their end and resets the zones that were collected. \<open>reset_err\<close> is the outcome of the reset
  command of the backing device for each zone; the outcome of a close command is ignored by the
  source. \<open>send_zone_mgmgt\<close> is declared outside the loop and never cleared, so it is carried from
  zone to zone.
\<close>

section \<open>The worker\<close>

definition close_full_zone :: "zptr \<Rightarrow> lbz_zone_metadata \<Rightarrow> lbz_zone_metadata option" where
  "close_full_zone i zmd = do {
     zone \<leftarrow> zmd_zones zmd i;
     let zmd = lbz_close_zone zone zmd;
     zmd \<leftarrow> upd_zone i (zone_only_state LBZ_ZONE_FULL) zmd;
     Some (zmd\<lparr>zmd_full_zone_list := zmd_full_zone_list zmd @ [i],
               zmd_full_zone_count := zmd_full_zone_count zmd + 1,
               zmd_zs_close_times := zmd_zs_close_times zmd + 1\<rparr>)
   }"

definition clear_zrms :: "nat \<Rightarrow> u32 list list \<Rightarrow> u32 list list option" where
  "clear_zrms n zrms =
     (if n \<le> length zrms
      then Some (replicate n (replicate LBZ_REVERSE_MAP_ENTRIES LBZ_INVALID_PBID) @ drop n zrms)
      else None)"

definition reinit_zone :: "zptr \<Rightarrow> lbz_zone_metadata \<Rightarrow> lbz_zone_metadata option" where
  "reinit_zone i zmd = do {
     zone \<leftarrow> zmd_zones zmd i;
     if z_weight zone \<noteq> 0 then None
     else do {
       zrms \<leftarrow> clear_zrms (unat (zmd_zone_nr_reverse_map_blocks zmd)) (z_zrms zone);
       zmd \<leftarrow> upd_zone i (\<lambda>z. (zone_only_state LBZ_ZONE_INIT (z\<lparr>z_stream := -1, z_wp_block := 0,
                 z_state := BLK_ZONE_COND_EMPTY\<rparr>))\<lparr>z_zrms := zrms\<rparr>) zmd;
       Some (zmd\<lparr>zmd_empty_zone_list := zmd_empty_zone_list zmd @ [i],
                 zmd_empty_zone_count := zmd_empty_zone_count zmd + 1,
                 zmd_active_zone_count := zmd_active_zone_count zmd - 1,
                 zmd_nr_allocable_blks := zmd_nr_allocable_blks zmd + zmd_zone_nr_blocks zmd,
                 zmd_zs_reset_times := zmd_zs_reset_times zmd + 1\<rparr>)
     }
   }"

text \<open>One iteration; the last component of the result tells whether the loop goes on.\<close>

definition zone_state_step ::
  "(zptr \<Rightarrow> bool) \<Rightarrow> zptr \<Rightarrow> bool \<Rightarrow> lbz_device \<Rightarrow> (lbz_device \<times> bool \<times> bool) option" where
  "zone_state_step reset_err i send dev = do {
     zone \<leftarrow> zmd_zones (d_zone_metadata dev) i;
     if is_lbz_zone_state LBZ_ZONE_TO_FULL zone
     then do {
       (zmd, send) \<leftarrow>
         (if z_state zone = BLK_ZONE_COND_FULL
          then do {
            zmd \<leftarrow> upd_zone i (\<lambda>z. z\<lparr>z_state := BLK_ZONE_COND_CLOSED\<rparr>) (d_zone_metadata dev);
            Some (zmd, True)
          }
          else Some (d_zone_metadata dev, send));
       zmd \<leftarrow> (if send then close_full_zone i zmd else Some zmd);
       Some (dev\<lparr>d_zone_metadata := zmd\<rparr>, send, True)
     }
     else if z_refcount zone \<noteq> 0 then Some (dev, send, True)
     else if is_lbz_zone_state LBZ_ZONE_GC zone
     then do {
       let send = (send \<or> z_state zone = BLK_ZONE_COND_EMPTY);
       if send
       then do {
         let zmd = lbz_reset_zone zone (d_zone_metadata dev);
         if reset_err i
         then Some (lbz_dev_set_faulty (dev\<lparr>d_zone_metadata := zmd\<rparr>), send, False)
         else do {
           zmd \<leftarrow> reinit_zone i zmd;
           Some (dev\<lparr>d_zone_metadata := zmd, d_gc_ctx := lbz_complete_one_zone (d_gc_ctx dev)\<rparr>, send, True)
         }
       }
       else Some (dev\<lparr>d_gc_ctx := lbz_complete_one_zone (d_gc_ctx dev)\<rparr>, send, True)
     }
     else Some (dev, send, True)
   }"

fun zone_state_loop ::
  "(zptr \<Rightarrow> bool) \<Rightarrow> zptr list \<Rightarrow> bool \<Rightarrow> lbz_device \<Rightarrow> lbz_device option" where
  "zone_state_loop reset_err [] send dev = Some dev"
| "zone_state_loop reset_err (i # is) send dev = do {
     (dev, send, go) \<leftarrow> zone_state_step reset_err i send dev;
     if go then zone_state_loop reset_err is send dev else Some dev
   }"

definition zone_state_wk_fn :: "(zptr \<Rightarrow> bool) \<Rightarrow> lbz_device \<Rightarrow> lbz_device option" where
  "zone_state_wk_fn reset_err dev =
     (if is_dev_faulty dev \<or> \<not> is_dev_ready dev then Some dev
      else zone_state_loop reset_err [0..<unat (zmd_nr_zones (d_zone_metadata dev))] False dev)"

section \<open>The timer of the worker\<close>

text \<open>
  The members of \<open>struct lbz_zone_metadata\<close> that drive the worker. Nothing else reads them, so
  they are a record of their own; \<open>zt_queued\<close> tells that the worker is in its queue.
\<close>

record zone_state_timer =
  zt_expire :: u32
  zt_expires :: u64
  zt_last_jiffies :: u64
  zt_queued :: bool

text \<open>The end of \<open>lbz_init_zone_metadata\<close>.\<close>

definition init_zone_state_timer :: "u64 \<Rightarrow> u64 \<Rightarrow> zone_state_timer \<Rightarrow> zone_state_timer" where
  "init_zone_state_timer HZ jiffies t =
     (let t = t\<lparr>zt_expire := ucast (5 * HZ)\<rparr> in t\<lparr>zt_expires := jiffies + ucast (zt_expire t)\<rparr>)"

definition zs_timer_fn :: "u64 \<Rightarrow> wq_ptr \<Rightarrow> zone_state_timer \<Rightarrow> zone_state_timer option" where
  "zs_timer_fn jiffies wq t =
     (if wq \<noteq> WqOk then None
      else Some (t\<lparr>zt_queued := True, zt_expires := jiffies + ucast (zt_expire t), zt_last_jiffies := jiffies\<rparr>))"

text \<open>The timer fires when it expires, \<open>n\<close> times; without its queue the first time stops the kernel.\<close>

fun zs_timer_runs :: "nat \<Rightarrow> wq_ptr \<Rightarrow> zone_state_timer \<Rightarrow> zone_state_timer option" where
  "zs_timer_runs 0 wq t = Some t"
| "zs_timer_runs (Suc n) wq t = do { t \<leftarrow> zs_timer_runs n wq t; zs_timer_fn (zt_expires t) wq t }"

lemma zs_timer_period:
  assumes "5 * HZ < 2 ^ 32"
  shows "\<exists>t'. zs_timer_runs n WqOk (init_zone_state_timer HZ jiffies t) = Some t' \<and>
    zt_expires t' = jiffies + of_nat (n + 1) * (5 * HZ) \<and> zt_expire t' = ucast (5 * HZ) \<and> (0 < n \<longrightarrow> zt_queued t')"
proof (induction n)
  case 0
  have "unat (5 * HZ) < 2 ^ 32" using assms by (simp add: word_less_nat_alt)
  then have "ucast (ucast (5 * HZ) :: u32) = 5 * HZ"
    unfolding word_unat_eq_iff unat_u32_ucast64 by (simp add: unsigned_ucast_eq take_bit_eq_mod)
  then show ?case by (simp add: init_zone_state_timer_def Let_def)
next
  case (Suc n)
  have "unat (5 * HZ) < 2 ^ 32" using assms by (simp add: word_less_nat_alt)
  then have "ucast (ucast (5 * HZ) :: u32) = 5 * HZ"
    unfolding word_unat_eq_iff unat_u32_ucast64 by (simp add: unsigned_ucast_eq take_bit_eq_mod)
  with Suc show ?case by (auto simp: zs_timer_fn_def distrib_right add_ac)
qed

lemma zs_timer_no_queue: "wq \<noteq> WqOk \<Longrightarrow> zs_timer_runs (Suc n) wq t = None"
  by (induction n) (simp_all add: zs_timer_fn_def)

section \<open>The life cycle closes\<close>

text \<open>
  What the worker relies on besides a well-formed table: a zone is marked as written to its end
  only in that phase, a collected zone that nobody references holds no live block any more, and
  every zone has the reverse map blocks of the geometry.
\<close>

definition zones_settled :: "lbz_zone_metadata \<Rightarrow> bool" where
  "zones_settled zmd \<longleftrightarrow>
     (\<forall>p z. zmd_zones zmd p = Some z \<longrightarrow>
        (is_lbz_zone_state LBZ_ZONE_TO_FULL z \<longrightarrow> zone_phase z = PToFull) \<and>
        (zone_phase z = PGc \<and> z_refcount z = 0 \<longrightarrow> z_weight z = 0) \<and>
        length (z_zrms z) = unat (zmd_zone_nr_reverse_map_blocks zmd))"

lemma zmd_wf_close:
  assumes wf: "zmd_wf zmd" and p: "zmd_zones zmd p = Some z" and zp: "zone_phase z = PToFull"
    and ph: "zone_phase y = PFull" and wp: "z_wp_block y = z_wp_block z"
    and w: "z_weight y = z_weight z" and acct: "zone_acct (zmd_zone_nr_blocks zmd) y"
  shows "zmd_wf (zmd\<lparr>zmd_mgmt := l, zmd_zones := (zmd_zones zmd)(p \<mapsto> y),
      zmd_full_zone_list := zmd_full_zone_list zmd @ [p],
      zmd_full_zone_count := zmd_full_zone_count zmd + 1, zmd_zs_close_times := t\<rparr>)" (is "zmd_wf ?zmd")
proof -
  have at: "phase_at ?zmd q k = (if q = p then k = PFull else phase_at zmd q k)" for q k
    using ph by (auto simp: phase_at_def)
  have f: "phase_at zmd p PToFull" using p zp by (simp add: phase_at_def)
  then have na: "\<not> phase_at zmd p PEmpty" "\<not> phase_at zmd p PActive" "\<not> phase_at zmd p PFull"
    by (auto dest: phase_at_unique)
  have "z_wp_block z = zmd_zone_nr_blocks zmd" using zp zmd_wf_zone_ok [OF wf p] by (simp add: zone_ok_def)
  then have "zone_ok (zmd_zone_nr_blocks zmd) y" using acct ph wp by (simp add: zone_ok_def)
  then have "wf_zones ?zmd" using wf p unfolding zmd_wf_def wf_zones_def by auto
  moreover have "wf_lists ?zmd" using wf na unfolding zmd_wf_def wf_lists_def at by auto
  moreover have "wf_active ?zmd" using na wf unfolding zmd_wf_def wf_active_def at by auto
  moreover have "wf_sums ?zmd" using wf unfolding zmd_wf_def wf_sums_def
    by (simp add: msum_same [of "zmd_zones zmd" p z] p wp w)
  ultimately show ?thesis by (simp add: zmd_wf_def)
qed

lemma zmd_wf_reset:
  assumes wf: "zmd_wf zmd" and p: "zmd_zones zmd p = Some z" and zp: "zone_phase z = PGc"
    and ph: "zone_phase y = PEmpty" and wp: "z_wp_block y = 0"
    and w: "z_weight y = z_weight z" and acct: "zone_acct (zmd_zone_nr_blocks zmd) y"
  shows "zmd_wf (zmd\<lparr>zmd_mgmt := l, zmd_zones := (zmd_zones zmd)(p \<mapsto> y),
      zmd_empty_zone_list := zmd_empty_zone_list zmd @ [p],
      zmd_empty_zone_count := zmd_empty_zone_count zmd + 1, zmd_active_zone_count := a,
      zmd_nr_allocable_blks := zmd_nr_allocable_blks zmd + zmd_zone_nr_blocks zmd,
      zmd_zs_reset_times := t\<rparr>)" (is "zmd_wf ?zmd")
proof -
  have at: "phase_at ?zmd q k = (if q = p then k = PEmpty else phase_at zmd q k)" for q k
    using ph by (auto simp: phase_at_def)
  have f: "phase_at zmd p PGc" using p zp by (simp add: phase_at_def)
  then have na: "\<not> phase_at zmd p PEmpty" "\<not> phase_at zmd p PActive" "\<not> phase_at zmd p PFull"
    by (auto dest: phase_at_unique)
  have zwp: "z_wp_block z = zmd_zone_nr_blocks zmd"
    using zp zmd_wf_zone_ok [OF wf p] by (simp add: zone_ok_def)
  have "zone_ok (zmd_zone_nr_blocks zmd) y" using acct ph wp by (simp add: zone_ok_def)
  then have "wf_zones ?zmd" using wf p unfolding zmd_wf_def wf_zones_def by auto
  moreover have "wf_lists ?zmd" using wf na unfolding zmd_wf_def wf_lists_def at by auto
  moreover have "wf_active ?zmd" using na wf unfolding zmd_wf_def wf_active_def at by auto
  moreover have "wf_sums ?zmd" using wf zmd_wf_zone_less [OF wf p] unfolding zmd_wf_def wf_sums_def
    by (simp add: msum_same [of "zmd_zones zmd" p z] msum_upd [of "zmd_zones zmd" p z] p wp w zwp)
  ultimately show ?thesis by (simp add: zmd_wf_def)
qed

text \<open>A zone without weight, once its reverse map is cleared, is as good as new.\<close>

lemma zone_acct_reinit:
  assumes acct: "zone_acct nrb z" and w: "z_weight z = 0" and len: "length (z_zrms z) = n"
    and y: "z_zrms y = replicate n (replicate LBZ_REVERSE_MAP_ENTRIES LBZ_INVALID_PBID)"
      "z_wp_block y = 0" "z_weight y = 0" "z_pending_write_io y = z_pending_write_io z"
  shows "zone_acct nrb y"
proof -
  have nv: "\<not> zone_valid y i" for i by (simp add: zone_valid_def y fresh_zrms)
  then have c: "valid_count y = 0" by (simp add: valid_count_def countf_zero)
  have "z_pending_write_io z = 0" using acct w by (simp add: zone_acct_def unat_eq_0)
  then show ?thesis using acct nv c len y by (simp add: zone_acct_def fresh_zrms)
qed

lemma reinit_rget:
  assumes p: "zmd_zones zmd p = Some z" and acct: "zone_acct nrb z" and w: "z_weight z = 0"
    and len: "length (z_zrms z) = n"
    and y: "z_zrms y = replicate n (replicate LBZ_REVERSE_MAP_ENTRIES LBZ_INVALID_PBID)"
      "z_start_sector y = z_start_sector z" and zmd': "zmd_zones zmd' = (zmd_zones zmd)(p \<mapsto> y)"
  shows "zmd_rget K zmd' = zmd_rget K zmd"
proof
  fix q
  have "zrms_get (z_zrms z) i = zrms_get (z_zrms y) i" for i
  proof -
    have "zrms_shape (z_zrms z)" using acct by (simp add: zone_acct_def)
    from zrms_get_in_shape [OF this, of i] zone_acct_weightless [OF acct w, of i] show ?thesis
      by (auto simp: zone_valid_def y fresh_zrms len split: option.splits)
  qed
  then show "zmd_rget K zmd' q = zmd_rget K zmd q" using p y(2) by (auto simp: zmd_rget_def zmd' pbid_dis_def)
qed

definition table_ok :: "lbz_zone_metadata \<Rightarrow> bool" where
  "table_ok zmd \<longleftrightarrow> zmd_wf zmd \<and> zones_settled zmd"

lemma table_ok_zone:
  assumes "table_ok zmd" "zmd_zones zmd p = Some z"
  shows "zone_acct (zmd_zone_nr_blocks zmd) z" "length (z_zrms z) = unat (zmd_zone_nr_reverse_map_blocks zmd)"
    "is_lbz_zone_state LBZ_ZONE_TO_FULL z \<Longrightarrow> zone_phase z = PToFull"
    "zone_phase z = PGc \<Longrightarrow> z_refcount z = 0 \<Longrightarrow> z_weight z = 0"
  using assms zmd_wf_zone_ok [of zmd p z] by (auto simp: table_ok_def zones_settled_def zone_ok_def)

lemma settled_upd:
  assumes "zones_settled zmd" and "zmd_zones zmd' = (zmd_zones zmd)(p \<mapsto> y)"
    and "zmd_zone_nr_reverse_map_blocks zmd' = zmd_zone_nr_reverse_map_blocks zmd"
    and "is_lbz_zone_state LBZ_ZONE_TO_FULL y \<Longrightarrow> zone_phase y = PToFull"
    and "zone_phase y = PGc \<Longrightarrow> z_refcount y = 0 \<Longrightarrow> z_weight y = 0"
    and "length (z_zrms y) = unat (zmd_zone_nr_reverse_map_blocks zmd)"
  shows "zones_settled zmd'"
  using assms unfolding zones_settled_def by auto

text \<open>
  What the worker does to a zone: it keeps its references and its writes in flight; the phase
  changes only from written to the end to full, and from under collection to empty when nobody
  references the zone.
\<close>

definition worker_zone :: "lbz_zone \<Rightarrow> lbz_zone \<Rightarrow> bool" where
  "worker_zone z z' \<longleftrightarrow> z_refcount z' = z_refcount z \<and> z_pending_write_io z' = z_pending_write_io z \<and>
     z_start_sector z' = z_start_sector z \<and>
     (zone_phase z' = zone_phase z \<or> zone_phase z = PToFull \<and> zone_phase z' = PFull \<or>
      zone_phase z = PGc \<and> z_refcount z = 0 \<and> zone_phase z' = PEmpty)"

definition zmd_worker :: "lbz_zone_metadata \<Rightarrow> lbz_zone_metadata \<Rightarrow> bool" where
  "zmd_worker zmd zmd' \<longleftrightarrow> zmd_const zmd zmd' \<and> (\<forall>p. rel_option worker_zone (zmd_zones zmd p) (zmd_zones zmd' p))"

lemma worker_zone_refl [simp]: "worker_zone z z"
  by (simp add: worker_zone_def)

lemma zmd_worker_refl [simp]: "zmd_worker zmd zmd"
  by (simp add: zmd_worker_def option.rel_refl)

lemma zmd_worker_trans:
  assumes "zmd_worker a b" "zmd_worker b c"
  shows "zmd_worker a c"
proof -
  have "rel_option worker_zone x y \<Longrightarrow> rel_option worker_zone y z \<Longrightarrow> rel_option worker_zone x z" for x y z
    by (cases x; cases y; cases z) (auto simp: worker_zone_def)
  then show ?thesis using assms zmd_const_trans unfolding zmd_worker_def by metis
qed

lemma zmd_workerD:
  "zmd_worker zmd zmd' \<Longrightarrow> zmd_zones zmd p = Some z \<Longrightarrow> \<exists>z'. zmd_zones zmd' p = Some z' \<and> worker_zone z z'"
  unfolding zmd_worker_def by (metis option.rel_cases option.distinct(1) option.inject)

lemma zmd_worker_upd:
  assumes "zmd_zones zmd p = Some z" "worker_zone z y" "zmd_zones zmd' = (zmd_zones zmd)(p \<mapsto> y)" "zmd_const zmd zmd'"
  shows "zmd_worker zmd zmd'"
  using assms by (auto simp: zmd_worker_def option.rel_refl)

lemma close_step:
  assumes ok: "table_ok zmd" and z: "zmd_zones zmd i = Some z" and f: "is_lbz_zone_state LBZ_ZONE_TO_FULL z"
    and y: "y = z \<or> y = z\<lparr>z_state := BLK_ZONE_COND_CLOSED\<rparr>"
    and zmd1: "zmd1 = zmd\<lparr>zmd_zones := (zmd_zones zmd)(i \<mapsto> y)\<rparr>"
  shows "\<exists>zmd'. close_full_zone i zmd1 = Some zmd' \<and> table_ok zmd' \<and> zmd_rget K zmd' = zmd_rget K zmd \<and>
     zmd_worker zmd zmd' \<and> zmd_nr_valid_blks zmd' = zmd_nr_valid_blks zmd"
proof -
  note zo = table_ok_zone [OF ok z]
  let ?y = "zone_only_state LBZ_ZONE_FULL y"
  let ?zmd' = "zmd\<lparr>zmd_mgmt := zmd_mgmt zmd @ [(REQ_OP_ZONE_CLOSE, z_start_sector y, z_capacity_sectors y)],
      zmd_zones := (zmd_zones zmd)(i \<mapsto> ?y),
      zmd_full_zone_list := zmd_full_zone_list zmd @ [i],
      zmd_full_zone_count := zmd_full_zone_count zmd + 1, zmd_zs_close_times := zmd_zs_close_times zmd + 1\<rparr>"
  have yf: "z_wp_block ?y = z_wp_block z" "z_weight ?y = z_weight z" "z_zrms ?y = z_zrms z"
      "z_start_sector ?y = z_start_sector z" "z_pending_write_io ?y = z_pending_write_io z"
    using y by (auto simp: zone_only_state_def)
  have "zone_acct (zmd_zone_nr_blocks zmd) ?y" using zo(1) zone_acct_cong [OF yf(1,2,5,3)] by blast
  then have "zmd_wf ?zmd'"
    using ok zmd_wf_close [OF _ z zo(3) [OF f] zone_phase_flags(4) yf(1,2)] by (auto simp: table_ok_def)
  moreover have "zones_settled ?zmd'"
    by (rule settled_upd [of zmd _ i ?y]) (use ok zo yf in \<open>auto simp: table_ok_def bit_flags zone_phase_flags\<close>)
  moreover have "close_full_zone i zmd1 = Some ?zmd'"
    by (simp add: close_full_zone_def zmd1 lbz_close_zone_def upd_zone_def)
  moreover have "zmd_rget K ?zmd' q = zmd_rget K zmd q" for q
    by (rule zmd_rget_cong [OF z yf(3,4)]) simp
  moreover have "worker_zone z ?y"
    using y zo(3) [OF f] zone_phase_flags(4) [of y] by (auto simp: worker_zone_def zone_only_state_def)
  then have "zmd_worker zmd ?zmd'" by (rule zmd_worker_upd [OF z]) (simp_all add: zmd_const_def)
  ultimately show ?thesis by (auto simp: table_ok_def fun_eq_iff)
qed

lemma reset_step:
  assumes ok: "table_ok zmd" and z: "zmd_zones zmd i = Some z" and g: "zone_phase z = PGc"
    and r: "z_refcount z = 0"
  shows "\<exists>zmd'. reinit_zone i (lbz_reset_zone z zmd) = Some zmd' \<and> table_ok zmd' \<and>
     zmd_rget K zmd' = zmd_rget K zmd \<and> zmd_worker zmd zmd' \<and>
     zmd_nr_valid_blks zmd' = zmd_nr_valid_blks zmd"
proof -
  note zo = table_ok_zone [OF ok z]
  have w: "z_weight z = 0" by (rule zo(4) [OF g r])
  let ?n = "unat (zmd_zone_nr_reverse_map_blocks zmd)"
  let ?e = "replicate ?n (replicate LBZ_REVERSE_MAP_ENTRIES LBZ_INVALID_PBID)"
  let ?y = "(zone_only_state LBZ_ZONE_INIT (z\<lparr>z_stream := -1, z_wp_block := 0,
                 z_state := BLK_ZONE_COND_EMPTY\<rparr>))\<lparr>z_zrms := ?e\<rparr>"
  let ?zmd' = "zmd\<lparr>zmd_mgmt := zmd_mgmt zmd @ [(REQ_OP_ZONE_RESET, z_start_sector z, z_len_sectors z)],
      zmd_zones := (zmd_zones zmd)(i \<mapsto> ?y),
      zmd_empty_zone_list := zmd_empty_zone_list zmd @ [i],
      zmd_empty_zone_count := zmd_empty_zone_count zmd + 1,
      zmd_active_zone_count := zmd_active_zone_count zmd - 1,
      zmd_nr_allocable_blks := zmd_nr_allocable_blks zmd + zmd_zone_nr_blocks zmd,
      zmd_zs_reset_times := zmd_zs_reset_times zmd + 1\<rparr>"
  have yf: "z_wp_block ?y = 0" "z_weight ?y = 0" "z_zrms ?y = ?e" "z_start_sector ?y = z_start_sector z"
      "z_pending_write_io ?y = z_pending_write_io z"
    using w by (simp_all add: zone_only_state_def)
  have ph: "zone_phase ?y = PEmpty" by (simp add: zone_simps zone_phase_flags)
  have "zone_acct (zmd_zone_nr_blocks zmd) ?y" by (rule zone_acct_reinit [OF zo(1) w zo(2)]) (use yf in auto)
  then have "zmd_wf ?zmd'"
    using ok zmd_wf_reset [OF _ z g ph yf(1)] w yf(2) by (simp add: table_ok_def)
  moreover have "zones_settled ?zmd'"
  proof (rule settled_upd [of zmd _ i ?y])
    have "\<not> is_lbz_zone_state LBZ_ZONE_TO_FULL ?y"
      by (simp add: is_lbz_zone_state_def zone_only_state_def bit_numeral_rec)
    then show "is_lbz_zone_state LBZ_ZONE_TO_FULL ?y \<Longrightarrow> zone_phase ?y = PToFull" by blast
  qed (use ok zo yf ph in \<open>auto simp: table_ok_def\<close>)
  moreover have "reinit_zone i (lbz_reset_zone z zmd) = Some ?zmd'"
    using z w zo(2) by (simp add: reinit_zone_def lbz_reset_zone_def clear_zrms_def upd_zone_def)
  moreover have "zmd_rget K ?zmd' = zmd_rget K zmd"
    by (rule reinit_rget [OF z zo(1) w zo(2) yf(3,4)]) simp
  moreover have "worker_zone z ?y" using g r ph by (auto simp: worker_zone_def zone_only_state_def)
  then have "zmd_worker zmd ?zmd'" by (rule zmd_worker_upd [OF z]) (simp_all add: zmd_const_def)
  ultimately show ?thesis by (auto simp: table_ok_def)
qed

lemma table_ok_faulty_log:
  "table_ok zmd \<Longrightarrow> table_ok (lbz_reset_zone z zmd)"
  by (auto simp: table_ok_def zones_settled_def lbz_reset_zone_def zmd_wf_defs phase_at_def)

lemma zmd_rget_log: "zmd_rget K (lbz_reset_zone z zmd) = zmd_rget K zmd"
  by (rule ext) (simp add: zmd_rget_def lbz_reset_zone_def)

text \<open>What one iteration keeps.\<close>

definition step_rel :: "kern \<Rightarrow> lbz_device \<Rightarrow> lbz_device \<Rightarrow> bool" where
  "step_rel K dev dev' \<longleftrightarrow> table_ok (d_zone_metadata dev') \<and>
     zmd_rget K (d_zone_metadata dev') = zmd_rget K (d_zone_metadata dev) \<and>
     d_mapping dev' = d_mapping dev \<and> gc_zone (d_gc_ctx dev') = gc_zone (d_gc_ctx dev) \<and>
     zmd_worker (d_zone_metadata dev) (d_zone_metadata dev') \<and>
     zmd_nr_valid_blks (d_zone_metadata dev') = zmd_nr_valid_blks (d_zone_metadata dev)"

lemma zone_state_step_ok:
  assumes ok: "table_ok (d_zone_metadata dev)" and i: "i < unat (zmd_nr_zones (d_zone_metadata dev))"
  shows "\<exists>dev' send' go. zone_state_step reset_err i send dev = Some (dev', send', go) \<and> step_rel K dev dev'"
proof -
  let ?zmd = "d_zone_metadata dev"
  from ok i obtain z where z: "zmd_zones ?zmd i = Some z"
    unfolding table_ok_def zmd_wf_def wf_zones_def by blast
  note zo = table_ok_zone [OF ok z]
  consider (full) "is_lbz_zone_state LBZ_ZONE_TO_FULL z"
    | (gc) "\<not> is_lbz_zone_state LBZ_ZONE_TO_FULL z" "z_refcount z = 0" "is_lbz_zone_state LBZ_ZONE_GC z"
    | (skip) "\<not> is_lbz_zone_state LBZ_ZONE_TO_FULL z" "z_refcount z \<noteq> 0 \<or> \<not> is_lbz_zone_state LBZ_ZONE_GC z"
    by blast
  then show ?thesis
  proof cases
    case full
    let ?c = "z_state z = BLK_ZONE_COND_FULL"
    let ?y = "if ?c then z\<lparr>z_state := BLK_ZONE_COND_CLOSED\<rparr> else z"
    let ?zmd1 = "?zmd\<lparr>zmd_zones := (zmd_zones ?zmd)(i \<mapsto> ?y)\<rparr>"
    have same: "?zmd1 = ?zmd" if "\<not> ?c" using that z by (simp add: fun_upd_idem)
    show ?thesis
    proof (cases "send \<or> ?c")
      case True
      have "?y = z \<or> ?y = z\<lparr>z_state := BLK_ZONE_COND_CLOSED\<rparr>" by simp
      from close_step [OF ok z full this refl, of K] obtain zmd' where
        c: "close_full_zone i ?zmd1 = Some zmd'" "table_ok zmd'" "zmd_rget K zmd' = zmd_rget K ?zmd"
          "zmd_worker ?zmd zmd'" "zmd_nr_valid_blks zmd' = zmd_nr_valid_blks ?zmd" by blast
      have "zone_state_step reset_err i send dev = Some (dev\<lparr>d_zone_metadata := zmd'\<rparr>, True, True)"
        using full True c(1) z same
        by (cases ?c) (simp_all add: zone_state_step_def upd_zone_def)
      then show ?thesis using c by (auto simp: step_rel_def)
    next
      case False
      then have "zone_state_step reset_err i send dev = Some (dev, False, True)"
        using full z by (simp add: zone_state_step_def)
      then show ?thesis using ok by (auto simp: step_rel_def)
    qed
  next
    case gc
    have g: "zone_phase z = PGc" using gc(3) by (simp add: zone_phase_def)
    from reset_step [OF ok z g gc(2), of K] obtain zmd' where
      c: "reinit_zone i (lbz_reset_zone z ?zmd) = Some zmd'" "table_ok zmd'" "zmd_rget K zmd' = zmd_rget K ?zmd"
        "zmd_worker ?zmd zmd'" "zmd_nr_valid_blks zmd' = zmd_nr_valid_blks ?zmd" by blast
    show ?thesis
      using gc z c ok table_ok_faulty_log [OF ok, of z] zmd_rget_log [of K z ?zmd]
      by (auto simp: zone_state_step_def Let_def step_rel_def lbz_dev_set_faulty_def lbz_reset_zone_def
          zmd_worker_def zmd_const_def option.rel_refl)
  next
    case skip
    then show ?thesis using z ok by (auto simp: zone_state_step_def step_rel_def)
  qed
qed

lemma zone_state_loop_ok:
  assumes "table_ok (d_zone_metadata dev)" and "\<forall>i\<in>set is. i < unat (zmd_nr_zones (d_zone_metadata dev))"
  shows "\<exists>dev'. zone_state_loop reset_err is send dev = Some dev' \<and> step_rel K dev dev'"
  using assms
proof (induction "is" arbitrary: send dev)
  case Nil
  then show ?case by (simp add: step_rel_def)
next
  case (Cons i is')
  from zone_state_step_ok [OF Cons.prems(1), of i reset_err send K] Cons.prems(2) obtain dev1 send1 go where
    s: "zone_state_step reset_err i send dev = Some (dev1, send1, go)" "step_rel K dev dev1" by auto
  show ?case
  proof (cases go)
    case True
    from s(2) Cons.prems(2) have "table_ok (d_zone_metadata dev1)"
        "\<forall>i\<in>set is'. i < unat (zmd_nr_zones (d_zone_metadata dev1))"
      by (auto simp: step_rel_def zmd_worker_def zmd_const_def)
    from Cons.IH [OF this, of send1] obtain dev2 where
      "zone_state_loop reset_err is' send1 dev1 = Some dev2" "step_rel K dev1 dev2" by blast
    then show ?thesis using s True by (auto simp: step_rel_def intro: zmd_worker_trans)
  qed (use s in auto)
qed

text \<open>The whole run of the worker.\<close>

lemma zone_state_wk_ok:
  assumes "table_ok (d_zone_metadata dev)"
  shows "\<exists>dev'. zone_state_wk_fn reset_err dev = Some dev' \<and> step_rel K dev dev'"
proof (cases "is_dev_faulty dev \<or> \<not> is_dev_ready dev")
  case True
  then show ?thesis using assms by (simp add: zone_state_wk_fn_def step_rel_def)
next
  case False
  from zone_state_loop_ok [OF assms, of "[0..<unat (zmd_nr_zones (d_zone_metadata dev))]" reset_err False K]
  show ?thesis using False by (auto simp: zone_state_wk_fn_def)
qed

text \<open>
  C9. The zone state worker never panics on a settled, well-formed table, whatever zones it
  closes or resets and whether resets fail or not: it leaves the table well formed and settled,
  and it does not touch live data: the forward map, every entry of the reverse maps and the
  count of live blocks are as before. In particular a reset is only sent to a zone without live
  blocks.
\<close>

theorem zone_state_wk_keeps_data:
  assumes "zmd_wf (d_zone_metadata dev)" and "zones_settled (d_zone_metadata dev)"
  shows "\<exists>dev'. zone_state_wk_fn reset_err dev = Some dev' \<and>
     zmd_wf (d_zone_metadata dev') \<and> zones_settled (d_zone_metadata dev') \<and>
     d_mapping dev' = d_mapping dev \<and>
     zmd_rget K (d_zone_metadata dev') = zmd_rget K (d_zone_metadata dev) \<and>
     zmd_nr_valid_blks (d_zone_metadata dev') = zmd_nr_valid_blks (d_zone_metadata dev)"
  using zone_state_wk_ok [of dev reset_err K] assms by (auto simp: table_ok_def step_rel_def)

section \<open>The flag of the worker\<close>

lemma close_frame:
  assumes "close_full_zone i zmd = Some zmd'"
  shows "q \<noteq> i \<Longrightarrow> zmd_zones zmd' q = zmd_zones zmd q" "set (zmd_full_zone_list zmd) \<subseteq> set (zmd_full_zone_list zmd')"
  using assms by (auto simp: close_full_zone_def lbz_close_zone_def upd_zone_def bind_eq_Some_conv)

lemma reinit_frame:
  assumes "reinit_zone i zmd = Some zmd'"
  shows "q \<noteq> i \<Longrightarrow> zmd_zones zmd' q = zmd_zones zmd q" "zmd_full_zone_list zmd' = zmd_full_zone_list zmd"
  using assms by (auto simp: reinit_zone_def upd_zone_def bind_eq_Some_conv split: if_split_asm)

text \<open>An iteration touches its zone only, and the flag stays set.\<close>

definition frame_at :: "zptr \<Rightarrow> lbz_zone_metadata \<Rightarrow> lbz_zone_metadata \<Rightarrow> bool" where
  "frame_at k zmd zmd' \<longleftrightarrow> (\<forall>q. q \<noteq> k \<longrightarrow> zmd_zones zmd' q = zmd_zones zmd q) \<and>
     set (zmd_full_zone_list zmd) \<subseteq> set (zmd_full_zone_list zmd')"

lemma frame_at_refl [simp]: "frame_at k zmd zmd"
  by (simp add: frame_at_def)

lemma frame_at_trans: "frame_at k a b \<Longrightarrow> frame_at k b c \<Longrightarrow> frame_at k a c"
  unfolding frame_at_def by auto

lemma frame_close: "close_full_zone k zmd = Some zmd' \<Longrightarrow> frame_at k zmd zmd'"
  using close_frame unfolding frame_at_def by blast

lemma frame_reinit: "reinit_zone k (lbz_reset_zone z zmd) = Some zmd' \<Longrightarrow> frame_at k zmd zmd'"
  using reinit_frame [of k "lbz_reset_zone z zmd" zmd'] by (simp add: frame_at_def lbz_reset_zone_def)

lemma step_frame:
  assumes "zone_state_step reset_err k send dev = Some (dev', send', go)"
  shows "frame_at k (d_zone_metadata dev) (d_zone_metadata dev') \<and> (send \<longrightarrow> send') \<and> (reset_err k \<or> go) \<and>
    (\<forall>z. zmd_zones (d_zone_metadata dev) k = Some z \<longrightarrow> is_lbz_zone_state LBZ_ZONE_TO_FULL z \<longrightarrow>
      z_state z = BLK_ZONE_COND_FULL \<longrightarrow> send')"
proof -
  from assms obtain z where z: "zmd_zones (d_zone_metadata dev) k = Some z"
    by (auto simp: zone_state_step_def bind_eq_Some_conv)
  consider (full) "is_lbz_zone_state LBZ_ZONE_TO_FULL z" | (busy) "\<not> is_lbz_zone_state LBZ_ZONE_TO_FULL z" "z_refcount z \<noteq> 0"
    | (gc) "\<not> is_lbz_zone_state LBZ_ZONE_TO_FULL z" "z_refcount z = 0" by blast
  then show ?thesis
  proof cases
    case full
    let ?zmd = "if z_state z = BLK_ZONE_COND_FULL then (d_zone_metadata dev)\<lparr>zmd_zones :=
        (zmd_zones (d_zone_metadata dev))(k \<mapsto> z\<lparr>z_state := BLK_ZONE_COND_CLOSED\<rparr>)\<rparr> else d_zone_metadata dev"
    let ?send = "send \<or> z_state z = BLK_ZONE_COND_FULL"
    have e: "zone_state_step reset_err k send dev =
        (if ?send then close_full_zone k ?zmd else Some ?zmd) \<bind> (\<lambda>zmd. Some (dev\<lparr>d_zone_metadata := zmd\<rparr>, ?send, True))"
      using z full by (simp add: zone_state_step_def upd_zone_def)
    from assms obtain zmd' where d: "dev' = dev\<lparr>d_zone_metadata := zmd'\<rparr>" "go" "send' = ?send"
      and c: "(if ?send then close_full_zone k ?zmd else Some ?zmd) = Some zmd'"
      unfolding e by (auto simp only: bind_eq_Some_conv option.inject prod.inject)
    have "frame_at k (d_zone_metadata dev) ?zmd" by (simp add: frame_at_def)
    moreover have "frame_at k ?zmd zmd'" using c frame_close [of k ?zmd zmd'] by (cases ?send) (simp_all only: if_True if_False option.inject frame_at_refl)
    ultimately have "frame_at k (d_zone_metadata dev) zmd'" by (rule frame_at_trans)
    then show ?thesis using d z by simp
  next
    case busy
    then show ?thesis using assms z by (simp add: zone_state_step_def)
  next
    case gc
    show ?thesis
    proof (cases "is_lbz_zone_state LBZ_ZONE_GC z \<and> (send \<or> z_state z = BLK_ZONE_COND_EMPTY) \<and> \<not> reset_err k")
      case True
      then obtain zmd' where "reinit_zone k (lbz_reset_zone z (d_zone_metadata dev)) = Some zmd'"
          "d_zone_metadata dev' = zmd'" "go" "send'"
        using assms z gc by (cases "reinit_zone k (lbz_reset_zone z (d_zone_metadata dev))") (auto simp: zone_state_step_def Let_def)
      then show ?thesis using frame_reinit z gc by auto
    next
      case False
      then have "zmd_zones (d_zone_metadata dev') = zmd_zones (d_zone_metadata dev)"
          "zmd_full_zone_list (d_zone_metadata dev') = zmd_full_zone_list (d_zone_metadata dev)"
          "send \<longrightarrow> send'" "reset_err k \<or> go"
        using assms z gc by (auto simp: zone_state_step_def Let_def lbz_reset_zone_def lbz_dev_set_faulty_def split: if_split_asm)
      then show ?thesis using z gc by (simp add: frame_at_def)
    qed
  qed
qed

lemma step_closes:
  assumes "zmd_zones (d_zone_metadata dev) j = Some z" and "is_lbz_zone_state LBZ_ZONE_TO_FULL z"
    and "zone_state_step reset_err j True dev = Some (dev', send', go)"
  shows "\<exists>z'. zmd_zones (d_zone_metadata dev') j = Some z' \<and> zone_phase z' = PFull \<and>
     j \<in> set (zmd_full_zone_list (d_zone_metadata dev')) \<and> z_pending_write_io z' = z_pending_write_io z"
  using assms zone_phase_flags(4) [of z] zone_phase_flags(4) [of "z\<lparr>z_state := BLK_ZONE_COND_CLOSED\<rparr>"]
  by (cases "z_state z = BLK_ZONE_COND_FULL")
    (auto simp: zone_state_step_def close_full_zone_def upd_zone_def lbz_close_zone_def zone_only_state_def)

lemma loop_keeps:
  assumes "zone_state_loop reset_err is send dev = Some dev'" and "j \<notin> set is"
  shows "zmd_zones (d_zone_metadata dev') j = zmd_zones (d_zone_metadata dev) j \<and>
     set (zmd_full_zone_list (d_zone_metadata dev)) \<subseteq> set (zmd_full_zone_list (d_zone_metadata dev'))"
  using assms
proof (induction "is" arbitrary: send dev)
  case (Cons k "is")
  from Cons.prems(1) obtain dev1 send1 go where s: "zone_state_step reset_err k send dev = Some (dev1, send1, go)"
      "(if go then zone_state_loop reset_err is send1 dev1 else Some dev1) = Some dev'"
    by (auto simp: bind_eq_Some_conv)
  from step_frame [OF s(1), unfolded frame_at_def] Cons.prems(2) Cons.IH [of send1 dev1] s(2)
  show ?case by (cases go) (simp_all, blast+)
qed simp

lemma loop_closes:
  assumes "zone_state_loop reset_err (ks @ j # js) send dev = Some dev'" and "j \<notin> set ks" "j \<notin> set js"
    and "\<forall>k \<in> set ks. \<not> reset_err k" "\<not> reset_err j"
    and "zmd_zones (d_zone_metadata dev) j = Some z" "is_lbz_zone_state LBZ_ZONE_TO_FULL z"
    and "send \<or> (\<exists>i \<in> set ks. \<exists>y. zmd_zones (d_zone_metadata dev) i = Some y \<and>
      is_lbz_zone_state LBZ_ZONE_TO_FULL y \<and> z_state y = BLK_ZONE_COND_FULL)"
  shows "\<exists>z'. zmd_zones (d_zone_metadata dev') j = Some z' \<and> zone_phase z' = PFull \<and>
     j \<in> set (zmd_full_zone_list (d_zone_metadata dev')) \<and> z_pending_write_io z' = z_pending_write_io z"
  using assms
proof (induction ks arbitrary: send dev)
  case Nil
  then obtain dev1 send1 go where s: "zone_state_step reset_err j True dev = Some (dev1, send1, go)"
      "(if go then zone_state_loop reset_err js send1 dev1 else Some dev1) = Some dev'"
    by (auto simp: bind_eq_Some_conv)
  with step_frame [OF s(1)] Nil.prems(5) have l: "zone_state_loop reset_err js send1 dev1 = Some dev'" by simp
  from step_closes [OF Nil.prems(6,7) s(1)] loop_keeps [OF l Nil.prems(3)] show ?case by auto
next
  case (Cons k ks)
  then obtain dev1 send1 go where s: "zone_state_step reset_err k send dev = Some (dev1, send1, go)"
      "(if go then zone_state_loop reset_err (ks @ j # js) send1 dev1 else Some dev1) = Some dev'"
    by (auto simp: bind_eq_Some_conv)
  note fr = step_frame [OF s(1), unfolded frame_at_def]
  have l: "zone_state_loop reset_err (ks @ j # js) send1 dev1 = Some dev'" using s(2) fr Cons.prems(4) by simp
  have j: "zmd_zones (d_zone_metadata dev1) j = Some z" using fr Cons.prems(2,6) by simp
  from Cons.prems(8) have "send1 \<or> (\<exists>i \<in> set ks. \<exists>y. zmd_zones (d_zone_metadata dev1) i = Some y \<and>
      is_lbz_zone_state LBZ_ZONE_TO_FULL y \<and> z_state y = BLK_ZONE_COND_FULL)"
  proof (elim disjE bexE exE conjE)
    fix i y assume i: "i \<in> set (k # ks)" "zmd_zones (d_zone_metadata dev) i = Some y"
      "is_lbz_zone_state LBZ_ZONE_TO_FULL y" "z_state y = BLK_ZONE_COND_FULL"
    show ?thesis
    proof (cases "i = k")
      case True
      then show ?thesis using fr i(2-4) by blast
    next
      case False
      then have "i \<in> set ks" "zmd_zones (d_zone_metadata dev1) i = Some y" using i fr by auto
      then show ?thesis using i(3,4) by blast
    qed
  qed (use fr in blast)
  from Cons.IH [OF l _ Cons.prems(3) _ Cons.prems(5) j Cons.prems(7) this] Cons.prems(2,4) show ?case by simp
qed

text \<open>
  C33. A defect: the flag that tells the worker to send a command is set by one zone and still set
  for the zones after it in the same run. If a zone is complete (it was written to its end and
  all its writes have ended), every zone behind it that was written to its end is closed and
  listed as full, a candidate for collection, although writes to it are in flight, while the same
  zone is left alone by an iteration that starts with the flag clear. Resets succeed in this run:
  a failed one ends the loop.
\<close>

theorem zone_state_flag_sticky:
  assumes "zmd_wf (d_zone_metadata dev)" and "zones_settled (d_zone_metadata dev)"
    and "is_dev_ready dev" and "\<not> is_dev_faulty dev" and "i < j"
    and "zmd_zones (d_zone_metadata dev) i = Some y" and "is_lbz_zone_state LBZ_ZONE_TO_FULL y"
    and "z_state y = BLK_ZONE_COND_FULL"
    and "zmd_zones (d_zone_metadata dev) j = Some z" and "is_lbz_zone_state LBZ_ZONE_TO_FULL z"
    and "z_state z \<noteq> BLK_ZONE_COND_FULL"
  shows "(\<exists>dev' z'. zone_state_wk_fn (\<lambda>k. False) dev = Some dev' \<and>
       zmd_zones (d_zone_metadata dev') j = Some z' \<and> zone_phase z' = PFull \<and>
       j \<in> set (zmd_full_zone_list (d_zone_metadata dev')) \<and> z_pending_write_io z' = z_pending_write_io z) \<and>
     zone_state_step (\<lambda>k. False) j False dev = Some (dev, False, True)"
proof
  let ?n = "unat (zmd_nr_zones (d_zone_metadata dev))"
  have "j < ?n" by (rule zmd_wf_zone_less [OF assms(1,9)])
  then have sp: "[0..<?n] = [0..<j] @ j # [Suc j..<?n]"
    using upt_add_eq_append [of 0 j "?n - j"] upt_conv_Cons [of j ?n] by simp
  have "table_ok (d_zone_metadata dev)" using assms(1,2) by (simp add: table_ok_def)
  from zone_state_wk_ok [OF this] obtain dev' where w: "zone_state_wk_fn (\<lambda>k. False) dev = Some dev'" by blast
  then have l: "zone_state_loop (\<lambda>k. False) ([0..<j] @ j # [Suc j..<?n]) False dev = Some dev'"
    using assms(3,4) by (simp add: zone_state_wk_fn_def sp)
  from loop_closes [OF l _ _ _ _ assms(9,10)] assms(5-8) w show "\<exists>dev' z'. zone_state_wk_fn (\<lambda>k. False) dev = Some dev' \<and>
       zmd_zones (d_zone_metadata dev') j = Some z' \<and> zone_phase z' = PFull \<and>
       j \<in> set (zmd_full_zone_list (d_zone_metadata dev')) \<and> z_pending_write_io z' = z_pending_write_io z" by fastforce
  show "zone_state_step (\<lambda>k. False) j False dev = Some (dev, False, True)"
    using assms(9-11) by (simp add: zone_state_step_def)
qed

end
