(* ===== verification/Ftl_Ops.thy ===== *)
theory Ftl_Ops
  imports Zone_State
begin

text \<open>
  What the two completion handlers of \<^verbatim>\<open>lbz-io-scheduler.c\<close> that move data do to the forward map and
  the zone table, as functions of these two alone: a user write reached its address, or a copy
  of the collector did. The theory shows what they do to both maps and, zone by zone, to the
  counters; that the handlers do just this to the device is shown in \<^verbatim>\<open>Write_Path\<close> and \<^verbatim>\<open>Gc_Path\<close>.
\<close>

definition ftl_write_done ::
  "kern \<Rightarrow> zptr \<Rightarrow> u32 \<Rightarrow> u32 \<Rightarrow> lbz_mapping \<times> lbz_zone_metadata \<Rightarrow> (lbz_mapping \<times> lbz_zone_metadata) option" where
  "ftl_write_done K zone blkid pbid = (\<lambda>(m, zmd). do {
     (old_pbid, m) \<leftarrow> lbz_mapping_add K m blkid pbid;
     zmd \<leftarrow> invalidate_block K old_pbid zmd;
     zmd \<leftarrow> lbz_zone_update_reverse_map zone pbid blkid zmd;
     zmd \<leftarrow> upd_zone zone lbz_zone_complete_write zmd;
     zmd \<leftarrow> upd_zone zone lbz_put_zone zmd;
     Some (m, zmd)
   })"

definition ftl_gc_done ::
  "kern \<Rightarrow> zptr \<Rightarrow> u32 \<Rightarrow> u32 \<Rightarrow> u32 \<Rightarrow> lbz_mapping \<times> lbz_zone_metadata \<Rightarrow>
     (lbz_mapping \<times> lbz_zone_metadata) option" where
  "ftl_gc_done K zone blkid from_pbid pbid = (\<lambda>(m, zmd). do {
     let read_zone = get_zone_by_pbid K from_pbid;
     zmd \<leftarrow> upd_zone zone lbz_zone_complete_write zmd;
     zmd \<leftarrow> lbz_zone_update_reverse_map zone pbid blkid zmd;
     (old_pbid, m) \<leftarrow> lbz_mapping_add K m blkid pbid;
     if old_pbid \<noteq> from_pbid \<and> old_pbid \<noteq> LBZ_INVALID_PBID then None
     else do {
       zmd \<leftarrow> (if old_pbid \<noteq> LBZ_INVALID_PBID
              then do {
                zmd \<leftarrow> lbz_zone_update_reverse_map read_zone from_pbid LBZ_INVALID_PBID zmd;
                lbz_zone_release_global_res read_zone zmd
              }
              else Some zmd);
       zmd \<leftarrow> upd_zone zone lbz_put_zone zmd;
       zmd \<leftarrow> upd_zone read_zone lbz_put_zone zmd;
       Some (m, zmd)
     }
   })"

section \<open>Changes of the counters of the zones\<close>

text \<open>\<open>dr\<close> and \<open>dp\<close> are the changes of the reference count and of the count of writes in flight.\<close>

definition zone_keep :: "u32 \<Rightarrow> u32 \<Rightarrow> lbz_zone \<Rightarrow> lbz_zone \<Rightarrow> bool" where
  "zone_keep dr dp z z' \<longleftrightarrow> z_refcount z' = z_refcount z + dr \<and> z_pending_write_io z' = z_pending_write_io z + dp \<and>
     z_start_sector z' = z_start_sector z \<and> zone_phase z' = zone_phase z \<and>
     is_lbz_zone_state LBZ_ZONE_TO_FULL z' = is_lbz_zone_state LBZ_ZONE_TO_FULL z \<and> length (z_zrms z') = length (z_zrms z)"

definition zmd_keep :: "(zptr \<Rightarrow> u32) \<Rightarrow> (zptr \<Rightarrow> u32) \<Rightarrow> lbz_zone_metadata \<Rightarrow> lbz_zone_metadata \<Rightarrow> bool" where
  "zmd_keep dr dp zmd zmd' \<longleftrightarrow> zmd_const zmd zmd' \<and>
     (\<forall>p. rel_option (zone_keep (dr p) (dp p)) (zmd_zones zmd p) (zmd_zones zmd' p))"

definition one :: "zptr \<Rightarrow> zptr \<Rightarrow> u32" where
  "one p q = (if q = p then 1 else 0)"

lemma one_simps [simp]: "one p p = 1" "q \<noteq> p \<Longrightarrow> one p q = 0"
  by (simp_all add: one_def)

lemma zmd_keepD:
  "zmd_keep dr dp zmd zmd' \<Longrightarrow> zmd_zones zmd p = Some z \<Longrightarrow>
     \<exists>z'. zmd_zones zmd' p = Some z' \<and> zone_keep (dr p) (dp p) z z'"
  unfolding zmd_keep_def by (metis option.rel_cases option.distinct(1) option.inject)

lemma zmd_keep_trans:
  assumes "zmd_keep dr dp a b" "zmd_keep er ep b c"
  shows "zmd_keep (\<lambda>p. dr p + er p) (\<lambda>p. dp p + ep p) a c"
proof -
  have "rel_option (zone_keep i j) x y \<Longrightarrow> rel_option (zone_keep k l) y z \<Longrightarrow>
      rel_option (zone_keep (i + k) (j + l)) x z" for i j k l x y z
    by (cases x; cases y; cases z) (auto simp: zone_keep_def)
  then show ?thesis using assms zmd_const_trans unfolding zmd_keep_def by blast
qed

lemma zone_keep_frame: "zone_frame z z' \<Longrightarrow> zone_keep 0 0 z z'"
  using zone_phase_cong [of z' z] is_state_cong [of z' z] by (simp add: zone_frame_def zone_keep_def)

lemma zmd_keep_frame: "zmd_frame zmd zmd' \<Longrightarrow> zmd_keep (\<lambda>p. 0) (\<lambda>p. 0) zmd zmd'"
  unfolding zmd_frame_def zmd_keep_def
  using option.rel_mono [of zone_frame "zone_keep 0 0"] by (auto simp: zone_keep_frame le_fun_def)

lemma zmd_keep_upd:
  assumes u: "upd_zone p f zmd = Some zmd'" and f: "\<And>z. zone_keep r q z (f z)"
  shows "zmd_keep (\<lambda>i. r * one p i) (\<lambda>i. q * one p i) zmd zmd'"
proof -
  have "zone_keep 0 0 z z" for z by (simp add: zone_keep_def)
  then show ?thesis using u f
    by (auto simp: zmd_keep_def upd_zone_Some zmd_const_def one_def option.rel_refl)
qed

lemma put_keep: "upd_zone p lbz_put_zone zmd = Some zmd' \<Longrightarrow> zmd_keep (\<lambda>i. - one p i) (\<lambda>i. 0) zmd zmd'"
  using zmd_keep_upd [of p lbz_put_zone zmd zmd' "-1" 0] by (simp add: zone_keep_def zone_simps bit_flags)

lemma get_keep: "upd_zone p lbz_get_zone zmd = Some zmd' \<Longrightarrow> zmd_keep (one p) (\<lambda>i. 0) zmd zmd'"
  using zmd_keep_upd [of p lbz_get_zone zmd zmd' 1 0] by (simp add: zone_keep_def zone_simps bit_flags)

lemma complete_keep:
  "upd_zone p lbz_zone_complete_write zmd = Some zmd' \<Longrightarrow> zmd_keep (\<lambda>i. 0) (\<lambda>i. - one p i) zmd zmd'"
  using zmd_keep_upd [of p lbz_zone_complete_write zmd zmd' 0 "-1"] by (simp add: zone_keep_def zone_simps bit_flags)

text \<open>Releasing the block a write replaces, if there is one.\<close>

lemma invalidate_old:
  assumes c: "map_consistent (map_get K m) (zmd_rget K zmd)" and wf: "zmd_wf zmd" and b: "map_get K m b = Some old"
  shows "\<exists>zmd'. invalidate_block K old zmd = Some zmd' \<and> zmd_wf zmd' \<and> zmd_frame zmd zmd' \<and>
     (if old = LBZ_INVALID_PBID then zmd' = zmd
      else \<exists>z1. zmd_update K zmd old LBZ_INVALID_PBID = Some z1 \<and> zmd_rget K zmd' = zmd_rget K z1)"
proof (cases "old = LBZ_INVALID_PBID")
  case True
  then show ?thesis using wf by (simp add: invalidate_block_def)
next
  case False
  from map_consistent_fr [OF c b False] have "zmd_rget K zmd old = Some b" .
  from invalidate_some [OF wf this map_consistent_valid [OF c b] False] False show ?thesis by auto
qed

text \<open>
  The consistency argument of the translation layer needs only the reverse entries, so it can be
  used with a table that has the same entries.
\<close>

lemma remap_entries:
  assumes c: "map_consistent f r" and b: "f b = Some old" and p: "p \<noteq> LBZ_INVALID_PBID" "r p = Some LBZ_INVALID_PBID"
    and r1: "if old = LBZ_INVALID_PBID then r1 = r else r1 = r(old \<mapsto> LBZ_INVALID_PBID)"
  shows "map_consistent (f(b \<mapsto> p)) (r1(p \<mapsto> b))"
proof (cases "old = LBZ_INVALID_PBID")
  case True
  then show ?thesis using map_consistent_map [OF c _ p, of b] b r1 by auto
next
  case False
  have c1: "map_consistent (f(b \<mapsto> LBZ_INVALID_PBID)) (r(old \<mapsto> LBZ_INVALID_PBID))"
    by (rule map_consistent_unmap [OF c b False]) auto
  show ?thesis
    by (rule map_consistent_map [OF c1 _ p(1), of b]) (use p False r1 in auto)
qed

section \<open>The completions keep the maps inverse to each other\<close>

definition maps_ok :: "kern \<Rightarrow> lbz_mapping \<Rightarrow> lbz_zone_metadata \<Rightarrow> bool" where
  "maps_ok K m zmd \<longleftrightarrow> zmd_wf zmd \<and> mapping_wf K m \<and> map_consistent (map_get K m) (zmd_rget K zmd)"

lemma put_zone_ok:
  assumes wf: "zmd_wf zmd" and p: "zmd_zones zmd p \<noteq> None"
  shows "\<exists>zmd'. upd_zone p lbz_put_zone zmd = Some zmd' \<and> zmd_wf zmd' \<and> zmd_rget K zmd' = zmd_rget K zmd \<and>
     (\<forall>q. zmd_zones zmd q \<noteq> None \<longrightarrow> zmd_zones zmd' q \<noteq> None)"
proof -
  from p obtain y where y: "zmd_zones zmd p = Some y" by blast
  let ?zmd' = "zmd\<lparr>zmd_zones := (zmd_zones zmd)(p \<mapsto> lbz_put_zone y)\<rparr>"
  have e: "upd_zone p lbz_put_zone zmd = Some ?zmd'" using y by (simp add: upd_zone_def)
  have "zmd_rget K ?zmd' r = zmd_rget K zmd r" for r
    by (rule zmd_rget_cong [OF y, of "lbz_put_zone y"]) (simp_all add: zone_simps)
  then show ?thesis using e zmd_wf_put_zone [OF wf e] by auto
qed

lemma zmd_put_commute:
  assumes "zmd_wf (complete_zone p zmd)" "zmd_zones zmd p \<noteq> None"
  shows "\<exists>zmd1 zmd2. upd_zone p lbz_zone_complete_write zmd = Some zmd1 \<and> upd_zone p lbz_put_zone zmd1 = Some zmd2 \<and>
     zmd_wf zmd2 \<and> zmd_rget K zmd2 = zmd_rget K zmd"
proof -
  from assms(2) obtain z where z: "zmd_zones zmd p = Some z" by blast
  let ?zmd1 = "complete_zone p zmd"
  have 1: "upd_zone p lbz_zone_complete_write zmd = Some ?zmd1"
    using z by (simp add: upd_zone_def complete_zone_def)
  have z1: "zmd_zones ?zmd1 p = Some (lbz_zone_complete_write z)" using z by (simp add: complete_zone_def)
  let ?zmd2 = "?zmd1\<lparr>zmd_zones := (zmd_zones ?zmd1)(p \<mapsto> lbz_put_zone (lbz_zone_complete_write z))\<rparr>"
  have 2: "upd_zone p lbz_put_zone ?zmd1 = Some ?zmd2" using z1 by (simp add: upd_zone_def)
  have "zmd_rget K ?zmd2 q = zmd_rget K ?zmd1 q" for q
    by (rule zmd_rget_cong [OF z1, of "lbz_put_zone (lbz_zone_complete_write z)"]) (simp_all add: zone_simps)
  then show ?thesis
    using 1 2 zmd_wf_put_zone [OF assms(1) 2] complete_zone_rget [OF assms(2), of K] by auto
qed

text \<open>The reverse entry of a replaced block is cleared.\<close>

definition drop_entry :: "u32 \<Rightarrow> (u32 \<Rightarrow> u32 option) \<Rightarrow> u32 \<Rightarrow> u32 option" where
  "drop_entry old r = (if old = LBZ_INVALID_PBID then r else r(old \<mapsto> LBZ_INVALID_PBID))"

lemma remap_ok:
  assumes ok: "maps_ok K m zmd" and ap: "append_ok K zmd p pbid" and b: "map_get K m b = Some old"
  shows "\<exists>m' zmd1 zmd2. lbz_mapping_add K m b pbid = Some (old, m') \<and> invalidate_block K old zmd = Some zmd1 \<and>
     lbz_zone_update_reverse_map p pbid b zmd1 = Some zmd2 \<and>
     zmd_wf (complete_zone p zmd2) \<and> zmd_zones zmd2 p \<noteq> None \<and> mapping_wf K m' \<and>
     map_consistent (map_get K m') (zmd_rget K zmd2) \<and> map_get K m' = (map_get K m)(b \<mapsto> pbid) \<and>
     zmd_rget K zmd2 = (drop_entry old (zmd_rget K zmd))(pbid \<mapsto> b) \<and> zmd_frame zmd zmd2"
proof -
  have c: "map_consistent (map_get K m) (zmd_rget K zmd)" and wf: "zmd_wf zmd" and mw: "mapping_wf K m"
    using ok by (auto simp: maps_ok_def)
  have p: "pbid \<noteq> LBZ_INVALID_PBID" "zmd_rget K zmd pbid = Some LBZ_INVALID_PBID" "get_zone_by_pbid K pbid = p"
    using ap append_ok_rget [OF ap] by (auto simp: append_ok_def)
  from fm.add_some [OF b] obtain m' where a: "lbz_mapping_add K m b pbid = Some (old, m')" by blast
  have g: "map_get K m' = (map_get K m)(b \<mapsto> pbid)" using fm.get_add [OF a] by auto
  from invalidate_old [OF c wf b] obtain zmd1 where i: "invalidate_block K old zmd = Some zmd1" "zmd_wf zmd1"
      "zmd_frame zmd zmd1"
    and r: "if old = LBZ_INVALID_PBID then zmd1 = zmd
        else \<exists>z1. zmd_update K zmd old LBZ_INVALID_PBID = Some z1 \<and> zmd_rget K zmd1 = zmd_rget K z1" by blast
  have r1: "zmd_rget K zmd1 = drop_entry old (zmd_rget K zmd)"
    using r rm.rget_update [of K zmd old LBZ_INVALID_PBID] by (auto simp: drop_entry_def fun_eq_iff split: if_splits)
  have "zmd_rget K zmd1 pbid = Some LBZ_INVALID_PBID" using r1 p(2) by (auto simp: drop_entry_def)
  then have ap1: "append_ok K zmd1 p pbid" by (rule append_ok_frame [OF ap i(3)])
  have bv: "b \<noteq> LBZ_INVALID_PBID" by (rule map_consistent_valid [OF c b])
  from complete_write_some [OF i(2) ap1 bv] obtain zmd2 where
    u: "zmd_update K zmd1 pbid b = Some zmd2" "zmd_wf (complete_zone p zmd2)" "zmd_zones zmd2 p \<noteq> None"
      "zmd_frame zmd1 zmd2" by blast
  have rg: "zmd_rget K zmd2 = (drop_entry old (zmd_rget K zmd))(pbid \<mapsto> b)"
    using rm.rget_update [OF u(1)] r1 by auto
  have "map_consistent (map_get K m') (zmd_rget K zmd2)"
    unfolding g rg by (rule remap_entries [OF c b p(1,2)]) (simp add: drop_entry_def)
  moreover have "zmd_frame zmd zmd2" by (rule zmd_frame_trans [OF i(3) u(4)])
  moreover have "lbz_zone_update_reverse_map p pbid b zmd1 = Some zmd2" using u(1) p(3) by (simp add: zmd_update_def)
  ultimately show ?thesis using a i(1) u(2,3) g rg mapping_wf_add [OF mw a] by blast
qed

lemma ftl_write_done_ok:
  assumes ok: "maps_ok K m zmd" and ap: "append_ok K zmd p pbid" and b: "map_get K m b = Some old"
  shows "\<exists>m' zmd'. ftl_write_done K p b pbid (m, zmd) = Some (m', zmd') \<and> maps_ok K m' zmd' \<and>
     map_get K m' = (map_get K m)(b \<mapsto> pbid) \<and>
     zmd_rget K zmd' = (drop_entry old (zmd_rget K zmd))(pbid \<mapsto> b) \<and>
     zmd_keep (\<lambda>i. - one p i) (\<lambda>i. - one p i) zmd zmd'"
proof -
  from remap_ok [OF assms] obtain m' zmd1 zmd2 where
    r: "lbz_mapping_add K m b pbid = Some (old, m')" "invalidate_block K old zmd = Some zmd1"
      "lbz_zone_update_reverse_map p pbid b zmd1 = Some zmd2" "zmd_wf (complete_zone p zmd2)" "zmd_zones zmd2 p \<noteq> None"
      "mapping_wf K m'" "map_consistent (map_get K m') (zmd_rget K zmd2)" "map_get K m' = (map_get K m)(b \<mapsto> pbid)"
      "zmd_rget K zmd2 = (drop_entry old (zmd_rget K zmd))(pbid \<mapsto> b)" "zmd_frame zmd zmd2" by blast
  from zmd_put_commute [OF r(4,5), of K] obtain zmd3 zmd4 where
    z: "upd_zone p lbz_zone_complete_write zmd2 = Some zmd3" "upd_zone p lbz_put_zone zmd3 = Some zmd4"
      "zmd_wf zmd4" "zmd_rget K zmd4 = zmd_rget K zmd2" by blast
  have "zmd_keep (\<lambda>i. - one p i) (\<lambda>i. - one p i) zmd zmd4"
    using zmd_keep_trans [OF zmd_keep_trans [OF zmd_keep_frame [OF r(10)] complete_keep [OF z(1)]] put_keep [OF z(2)]]
    by simp
  moreover have "ftl_write_done K p b pbid (m, zmd) = Some (m', zmd4)" using r(1-3) z(1,2) by (simp add: ftl_write_done_def)
  ultimately show ?thesis using r(6-9) z(3,4) by (auto simp: maps_ok_def)
qed

text \<open>The collector writes the new reverse entry first, and the write has already left the set of writes in flight.\<close>

lemma move_ok:
  assumes ok: "maps_ok K m zmd" and ap: "append_ok K zmd p pbid" and b: "map_get K m b = Some old"
    and old: "old \<noteq> LBZ_INVALID_PBID"
  shows "\<exists>m' zmd1 zmd2 zmd3. upd_zone p lbz_zone_complete_write zmd = Some (complete_zone p zmd) \<and>
     lbz_zone_update_reverse_map p pbid b (complete_zone p zmd) = Some zmd1 \<and>
     lbz_mapping_add K m b pbid = Some (old, m') \<and>
     lbz_zone_update_reverse_map (get_zone_by_pbid K old) old LBZ_INVALID_PBID zmd1 = Some zmd2 \<and>
     lbz_zone_release_global_res (get_zone_by_pbid K old) zmd2 = Some zmd3 \<and> maps_ok K m' zmd3 \<and>
     map_get K m' = (map_get K m)(b \<mapsto> pbid) \<and>
     zmd_rget K zmd3 = (drop_entry old (zmd_rget K zmd))(pbid \<mapsto> b) \<and> pbid \<noteq> old \<and>
     zmd_keep (\<lambda>i. 0) (\<lambda>i. - one p i) zmd zmd3 \<and> zmd_zones zmd3 p \<noteq> None \<and>
     zmd_zones zmd3 (get_zone_by_pbid K old) \<noteq> None"
proof -
  let ?rz = "get_zone_by_pbid K old"
  have c: "map_consistent (map_get K m) (zmd_rget K zmd)" and wf: "zmd_wf zmd" and mw: "mapping_wf K m"
    using ok by (auto simp: maps_ok_def)
  have p: "pbid \<noteq> LBZ_INVALID_PBID" "zmd_rget K zmd pbid = Some LBZ_INVALID_PBID" "get_zone_by_pbid K pbid = p"
    using ap append_ok_rget [OF ap] by (auto simp: append_ok_def)
  obtain z where z: "zmd_zones zmd p = Some z" using ap by (auto simp: append_ok_def split: option.splits)
  have cz: "upd_zone p lbz_zone_complete_write zmd = Some (complete_zone p zmd)"
    using z by (simp add: upd_zone_def complete_zone_def)
  have bv: "b \<noteq> LBZ_INVALID_PBID" by (rule map_consistent_valid [OF c b])
  have ro: "zmd_rget K zmd old = Some b" by (rule map_consistent_fr [OF c b old])
  have po: "pbid \<noteq> old" using ro p(2) bv by auto
  from complete_write_some [OF wf ap bv] obtain zmd1 where
    u: "zmd_update K zmd pbid b = Some zmd1" "zmd_wf (complete_zone p zmd1)"
      "zmd_update K (complete_zone p zmd) pbid b = Some (complete_zone p zmd1)" "zmd_zones zmd1 p \<noteq> None"
      "zmd_frame zmd zmd1" by blast
  let ?zmd1 = "complete_zone p zmd1"
  have c1: "upd_zone p lbz_zone_complete_write zmd1 = Some ?zmd1"
    using u(4) by (auto simp: upd_zone_def complete_zone_def)
  have r1: "zmd_rget K ?zmd1 = (zmd_rget K zmd)(pbid \<mapsto> b)"
    using rm.rget_update [OF u(1)] by (auto simp: complete_zone_rget [OF u(4)])
  have ro1: "zmd_rget K ?zmd1 old = Some b" using r1 ro po by simp
  from invalidate_some [OF u(2) ro1 bv old] obtain z1 zmd3 where
    i: "zmd_update K ?zmd1 old LBZ_INVALID_PBID = Some z1" "invalidate_block K old ?zmd1 = Some zmd3" "zmd_wf zmd3"
      "zmd_rget K zmd3 = zmd_rget K z1" "zmd_frame ?zmd1 zmd3" by blast
  from i(2) old obtain zmd2 where
    i2: "lbz_zone_update_reverse_map ?rz old LBZ_INVALID_PBID ?zmd1 = Some zmd2"
      "lbz_zone_release_global_res ?rz zmd2 = Some zmd3" by (auto simp: invalidate_block_def Let_def)
  from fm.add_some [OF b] obtain m' where a: "lbz_mapping_add K m b pbid = Some (old, m')" by blast
  have g: "map_get K m' = (map_get K m)(b \<mapsto> pbid)" using fm.get_add [OF a] by auto
  have r2: "zmd_rget K zmd3 = (drop_entry old (zmd_rget K zmd))(pbid \<mapsto> b)"
    using rm.rget_update [OF i(1)] po old by (auto simp: i(4) r1 drop_entry_def)
  have "map_consistent (map_get K m') (zmd_rget K zmd3)"
    unfolding g r2 by (rule remap_entries [OF c b p(1,2)]) (simp add: drop_entry_def)
  moreover have "zmd_zones ?zmd1 p \<noteq> None" by (simp add: complete_zone_def)
  then have "zmd_zones zmd3 p \<noteq> None" using zmd_frameD [OF i(5)] by blast
  moreover have "zmd_zones zmd3 ?rz \<noteq> None" using zmd_rget_zone [OF ro1] zmd_frameD [OF i(5)] by blast
  moreover have "zmd_keep (\<lambda>i. 0) (\<lambda>i. - one p i) zmd zmd3"
    using zmd_keep_trans [OF zmd_keep_trans [OF zmd_keep_frame [OF u(5)] complete_keep [OF c1]] zmd_keep_frame [OF i(5)]]
    by simp
  moreover have "lbz_zone_update_reverse_map p pbid b (complete_zone p zmd) = Some ?zmd1"
    using u(3) p(3) by (simp add: zmd_update_def)
  ultimately show ?thesis
    using cz a i2 i(3) g r2 po mapping_wf_add [OF mw a] unfolding maps_ok_def by blast
qed

lemma ftl_gc_done_ok:
  assumes ok: "maps_ok K m zmd" and ap: "append_ok K zmd p pbid" and b: "map_get K m b = Some old"
    and old: "old \<noteq> LBZ_INVALID_PBID"
  shows "\<exists>m' zmd'. ftl_gc_done K p b old pbid (m, zmd) = Some (m', zmd') \<and> maps_ok K m' zmd' \<and>
     map_get K m' = (map_get K m)(b \<mapsto> pbid) \<and>
     zmd_rget K zmd' = (drop_entry old (zmd_rget K zmd))(pbid \<mapsto> b) \<and>
     zmd_keep (\<lambda>i. - one p i - one (get_zone_by_pbid K old) i) (\<lambda>i. - one p i) zmd zmd'"
proof -
  let ?rz = "get_zone_by_pbid K old"
  from move_ok [OF assms] obtain m' zmd1 zmd2 zmd3 where
    r: "upd_zone p lbz_zone_complete_write zmd = Some (complete_zone p zmd)"
     "lbz_zone_update_reverse_map p pbid b (complete_zone p zmd) = Some zmd1"
     "lbz_mapping_add K m b pbid = Some (old, m')"
     "lbz_zone_update_reverse_map ?rz old LBZ_INVALID_PBID zmd1 = Some zmd2"
     "lbz_zone_release_global_res ?rz zmd2 = Some zmd3"
     "maps_ok K m' zmd3" "map_get K m' = (map_get K m)(b \<mapsto> pbid)"
     "zmd_rget K zmd3 = (drop_entry old (zmd_rget K zmd))(pbid \<mapsto> b)"
     "zmd_keep (\<lambda>i. 0) (\<lambda>i. - one p i) zmd zmd3" "zmd_zones zmd3 p \<noteq> None" "zmd_zones zmd3 ?rz \<noteq> None" by blast
  have "zmd_wf zmd3" using r(6) by (simp add: maps_ok_def)
  from put_zone_ok [OF this r(10), of K] r(11) obtain zmd4 where
    p: "upd_zone p lbz_put_zone zmd3 = Some zmd4" "zmd_wf zmd4" "zmd_rget K zmd4 = zmd_rget K zmd3"
      "zmd_zones zmd4 ?rz \<noteq> None" by blast
  from put_zone_ok [OF p(2,4), of K] obtain zmd5 where
    q: "upd_zone ?rz lbz_put_zone zmd4 = Some zmd5" "zmd_wf zmd5" "zmd_rget K zmd5 = zmd_rget K zmd4" by blast
  have "ftl_gc_done K p b old pbid (m, zmd) = Some (m', zmd5)"
    using r(1-5) p(1) q(1) old by (simp add: ftl_gc_done_def Let_def)
  moreover have "zmd_keep (\<lambda>i. - one p i - one ?rz i) (\<lambda>i. - one p i) zmd zmd5"
    using zmd_keep_trans [OF zmd_keep_trans [OF r(9) put_keep [OF p(1)]] put_keep [OF q(1)]] by simp
  ultimately show ?thesis using r(6-8) p(3) q(2,3) by (auto simp: maps_ok_def)
qed

section \<open>A block that was freed while it was copied\<close>

text \<open>The collector checks the block before its write only; \<^verbatim>\<open>__gc_task_callback\<close> does not check it again.\<close>

lemma gc_done_freed:
  assumes ok: "maps_ok K m zmd" and ap: "append_ok K zmd p pbid" and b: "map_get K m b = Some LBZ_INVALID_PBID"
    and rz: "zmd_zones zmd (get_zone_by_pbid K old) \<noteq> None"
  shows "\<exists>m' zmd'. ftl_gc_done K p b old pbid (m, zmd) = Some (m', zmd') \<and> maps_ok K m' zmd' \<and>
     map_get K m' = (map_get K m)(b \<mapsto> pbid)"
proof -
  let ?rz = "get_zone_by_pbid K old"
  have wf: "zmd_wf zmd" and bv: "b \<noteq> LBZ_INVALID_PBID"
    using ok b map_consistent_valid [of "map_get K m" "zmd_rget K zmd" b] by (auto simp: maps_ok_def)
  have gp: "get_zone_by_pbid K pbid = p" using ap by (simp add: append_ok_def)
  from remap_ok [OF ok ap b] obtain m' zmd1 where
    r: "lbz_mapping_add K m b pbid = Some (LBZ_INVALID_PBID, m')" "lbz_zone_update_reverse_map p pbid b zmd = Some zmd1"
      "mapping_wf K m'" "map_consistent (map_get K m') (zmd_rget K zmd1)" "map_get K m' = (map_get K m)(b \<mapsto> pbid)"
    by (auto simp: invalidate_block_def)
  from complete_write_some [OF wf ap bv] obtain zmd1' where
    u: "zmd_update K zmd pbid b = Some zmd1'" "zmd_wf (complete_zone p zmd1')"
      "zmd_update K (complete_zone p zmd) pbid b = Some (complete_zone p zmd1')" "zmd_zones zmd1' p \<noteq> None"
      "zmd_frame zmd zmd1'" by blast
  let ?zmd2 = "complete_zone p zmd1"
  have e: "zmd1' = zmd1" using u(1) r(2) gp by (simp add: zmd_update_def)
  have c: "upd_zone p lbz_zone_complete_write zmd = Some (complete_zone p zmd)"
    using ap by (auto simp: append_ok_def upd_zone_def complete_zone_def split: option.splits)
  have up: "lbz_zone_update_reverse_map p pbid b (complete_zone p zmd) = Some ?zmd2"
    using u(3) gp by (simp add: zmd_update_def e)
  have z: "zmd_zones ?zmd2 p \<noteq> None" "zmd_zones ?zmd2 ?rz \<noteq> None"
    using zmd_frameD [OF u(5)] rz by (auto simp: complete_zone_def e)
  have "zmd_wf ?zmd2" using u(2) e by simp
  from put_zone_ok [OF this z(1), of K] z(2) obtain zmd3 where
    p: "upd_zone p lbz_put_zone ?zmd2 = Some zmd3" "zmd_wf zmd3" "zmd_rget K zmd3 = zmd_rget K ?zmd2"
      "zmd_zones zmd3 ?rz \<noteq> None" by blast
  from put_zone_ok [OF p(2,4), of K] obtain zmd4 where
    q: "upd_zone ?rz lbz_put_zone zmd3 = Some zmd4" "zmd_wf zmd4" "zmd_rget K zmd4 = zmd_rget K zmd3" by blast
  have "zmd_rget K ?zmd2 = zmd_rget K zmd1" using u(4) e by (simp add: complete_zone_rget fun_eq_iff)
  then have "maps_ok K m' zmd4" using r(3,4) p(3) q(2,3) by (simp add: maps_ok_def)
  moreover have "ftl_gc_done K p b old pbid (m, zmd) = Some (m', zmd4)"
    using c up r(1) p(1) q(1) by (simp add: ftl_gc_done_def Let_def)
  ultimately show ?thesis using r(5) by auto
qed

text \<open>
  C34. A defect: when a block is freed (by a committed transaction) while the collector writes
  its copy, the completion of the copy maps the block again, to the copy. The maps stay
  inverse to each other, so nothing notices: the freed block reads as its old content and
  occupies a physical block for good.
\<close>

theorem gc_done_resurrects:
  assumes "maps_ok K m zmd" and "map_get K m b = Some LBZ_INVALID_PBID"
    and "append_ok K zmd p pbid" and "zmd_zones zmd (get_zone_by_pbid K old) \<noteq> None"
  shows "\<exists>m' zmd'. ftl_gc_done K p b old pbid (m, zmd) = Some (m', zmd') \<and> maps_ok K m' zmd' \<and>
     map_get K m' b = Some pbid \<and> pbid \<noteq> LBZ_INVALID_PBID \<and> zmd_rget K zmd' pbid = Some b"
proof -
  have p: "pbid \<noteq> LBZ_INVALID_PBID" using assms(3) by (simp add: append_ok_def)
  from gc_done_freed [OF assms(1,3,2,4)] obtain m' zmd' where
    "ftl_gc_done K p b old pbid (m, zmd) = Some (m', zmd')" "maps_ok K m' zmd'" "map_get K m' b = Some pbid" by auto
  then show ?thesis using p map_consistent_fr [OF _ _ p, of "map_get K m'" "zmd_rget K zmd'" b] by (auto simp: maps_ok_def)
qed

end
