(* ===== verification/Ftl_Machine.thy ===== *)
theory Ftl_Machine
  imports Ftl_Ops "HOL-Library.Multiset"
begin

text \<open>
  The translation layer as a state machine. The driver handles many requests at once: user
  writes and reads, the collector's scan of a victim zone, its copies, the freeing of blocks by
  a committed transaction and the zone state worker interleave in any order. A state is the
  device, the content of the backing device by physical block, and the multiset of operations in
  flight; a step is one handler, or the part of a handler between two waits, made of the
  functions that model the code. The theory states the invariant that ties the reference and write counters of the
  zones to the operations in flight, shows that every step keeps it, and derives that these
  interleavings neither lose data nor read a reset zone: the layer refines a store that maps logical
  blocks to their last committed content. Inputs and outputs succeed in the machine, and two races of the
  code are left out by guards: a block is not freed while a copy of it is being written, and a step of the
  worker closes no zone that has a write in flight.
\<close>

section \<open>Operations in flight\<close>

text \<open>
  A user write that was given a zone; a user read of an address; a copy of the collector: its
  read, its data waiting for the block's lock, its write; the scan of a victim zone, with the
  index it is at and the entry it has read. A read and a copy carry the content of the
  backing device at the time they were started.
\<close>

datatype fop =
    FWrite zptr u32 nat
  | FRead zptr u32 "nat option"
  | FCopy u32 u32
  | FHold u32 u32 "nat option"
  | FMove zptr u32 u32 "nat option"
  | FScan zptr nat u32

record fstate =
  fs_dev :: lbz_device
  fs_media :: "u32 \<Rightarrow> nat option"
  fs_ops :: "fop multiset"

abbreviation fs_zmd :: "fstate \<Rightarrow> lbz_zone_metadata" where
  "fs_zmd s \<equiv> d_zone_metadata (fs_dev s)"

abbreviation fs_map :: "fstate \<Rightarrow> lbz_mapping" where
  "fs_map s \<equiv> d_mapping (fs_dev s)"

text \<open>The references that an operation holds on a zone, its writes in flight there, and the block it locks.\<close>

fun op_refs :: "kern \<Rightarrow> zptr \<Rightarrow> fop \<Rightarrow> nat" where
  "op_refs K p (FWrite q b v) = of_bool (q = p)"
| "op_refs K p (FRead q a v) = of_bool (q = p)"
| "op_refs K p (FCopy b old) = of_bool (get_zone_by_pbid K old = p)"
| "op_refs K p (FHold b old v) = of_bool (get_zone_by_pbid K old = p)"
| "op_refs K p (FMove q b old v) = of_bool (q = p) + of_bool (get_zone_by_pbid K old = p)"
| "op_refs K p (FScan q k pos) = of_bool (q = p)"

fun op_pend :: "zptr \<Rightarrow> fop \<Rightarrow> nat" where
  "op_pend p (FWrite q b v) = of_bool (q = p)"
| "op_pend p (FMove q b old v) = of_bool (q = p)"
| "op_pend p _ = 0"

fun op_lock :: "fop \<Rightarrow> u32 option" where
  "op_lock (FWrite q b v) = Some b"
| "op_lock (FMove q b old v) = Some b"
| "op_lock _ = None"

definition refs :: "kern \<Rightarrow> fop multiset \<Rightarrow> zptr \<Rightarrow> nat" where
  "refs K ops p = (\<Sum>op\<in>#ops. op_refs K p op)"

definition pend :: "fop multiset \<Rightarrow> zptr \<Rightarrow> nat" where
  "pend ops p = (\<Sum>op\<in>#ops. op_pend p op)"

definition locked :: "fop multiset \<Rightarrow> u32 \<Rightarrow> bool" where
  "locked ops b \<longleftrightarrow> (\<exists>op\<in>#ops. op_lock op = Some b)"

definition max_ops :: nat where "max_ops = 2 ^ 30"

section \<open>Steps\<close>

definition zone_pbid :: "lbz_zone \<Rightarrow> nat \<Rightarrow> u32" where
  "zone_pbid z k = sector_to_blkid (ucast (z_start_sector z)) + of_nat k"

text \<open>
  The address that the backing device chooses for a zone append: in the zone, below the write
  pointer up to which the driver has handed out blocks, and not written since the last reset.
\<close>

definition fresh_append :: "kern \<Rightarrow> fstate \<Rightarrow> zptr \<Rightarrow> u32 \<Rightarrow> bool" where
  "fresh_append K s p a \<longleftrightarrow> get_zone_by_pbid K a = p \<and> a \<noteq> LBZ_INVALID_PBID \<and> fs_media s a = None \<and>
     (\<exists>z. zmd_zones (fs_zmd s) p = Some z \<and> unat (pbid_dis z a) < unat (z_wp_block z))"

text \<open>The check of the collector before it moves a block: is the block still where the scan saw it?\<close>

definition ftl_gc_check ::
  "kern \<Rightarrow> u32 \<Rightarrow> u32 \<Rightarrow> lbz_mapping \<Rightarrow> lbz_zone_metadata \<Rightarrow> (bool \<times> lbz_zone_metadata) option" where
  "ftl_gc_check K blkid pbid m zmd = do {
     (l, zmd) \<leftarrow> lbz_mapping_lookup K m blkid zmd;
     case l of
       Inl e \<Rightarrow> Some (False, zmd)
     | Inr (z, origin_pbid) \<Rightarrow> do {
         zmd \<leftarrow> upd_zone z lbz_put_zone zmd;
         Some (origin_pbid = pbid, zmd)
       }
   }"

text \<open>The end of the scan of a zone.\<close>

definition ftl_scan_end :: "zptr \<Rightarrow> lbz_zone_metadata \<Rightarrow> lbz_zone_metadata option" where
  "ftl_scan_end p zmd = do {
     zmd \<leftarrow> upd_zone p (lbz_set_zone_state LBZ_ZONE_GC_COMPLETED) zmd;
     upd_zone p lbz_put_zone zmd
   }"

text \<open>The content of a zone is erased when the worker resets it.\<close>

definition erase_reset :: "kern \<Rightarrow> lbz_zone_metadata \<Rightarrow> lbz_zone_metadata \<Rightarrow> (u32 \<Rightarrow> nat option) \<Rightarrow> u32 \<Rightarrow> nat option" where
  "erase_reset K zmd zmd' media a =
     (if phase_at zmd (get_zone_by_pbid K a) PGc \<and> phase_at zmd' (get_zone_by_pbid K a) PEmpty then None else media a)"

text \<open>
  The worker's flag that is carried from zone to zone can close a zone with writes in flight. The
  machine has the runs of the worker that close no such zone.
\<close>

definition worker_spares :: "lbz_zone_metadata \<Rightarrow> lbz_zone_metadata \<Rightarrow> bool" where
  "worker_spares zmd zmd' \<longleftrightarrow> (\<forall>p z. zmd_zones zmd p = Some z \<longrightarrow> zone_phase z = PToFull \<longrightarrow>
     phase_at zmd' p PFull \<longrightarrow> z_pending_write_io z = 0)"

text \<open>The collector takes no new victim while the last one is not reset (\<open>gc_pass\<close>).\<close>

definition gc_idle :: "lbz_gc_context \<Rightarrow> lbz_zone_metadata \<Rightarrow> bool" where
  "gc_idle ctx zmd \<longleftrightarrow> (\<forall>p. gc_zone ctx = Some p \<longrightarrow> (\<exists>z. zmd_zones zmd p = Some z \<and> \<not> is_lbz_zone_state LBZ_ZONE_GC z))"

text \<open>What a step shows to the layer above.\<close>

datatype fevent =
    Internal
  | Submit u32 nat
  | Commit u32 nat
  | Discard u32
  | Lookup u32 "nat option"
  | Deliver "nat option" "nat option"

inductive ftl_step :: "bool \<Rightarrow> kern \<Rightarrow> fstate \<Rightarrow> fevent \<Rightarrow> fstate \<Rightarrow> bool" for ss K where
  write_start:
    "\<lbrakk>size (fs_ops s) < max_ops; map_get K (fs_map s) b \<noteq> None; \<not> locked (fs_ops s) b; sid < LBZ_ZONE_MAX_STREAM;
      lbz_zone_alloc_res ss (is_dev_faulty (fs_dev s)) md sid (fs_zmd s) (d_gc_ctx (fs_dev s)) = Some (Inr p, zmd', gc')\<rbrakk>
     \<Longrightarrow> ftl_step ss K s (Submit b v) (s\<lparr>fs_dev := (fs_dev s)\<lparr>d_zone_metadata := zmd', d_gc_ctx := gc'\<rparr>,
           fs_ops := fs_ops s + {#FWrite p b v#}\<rparr>)"
| write_done:
    "\<lbrakk>fs_ops s = R + {#FWrite p b v#}; fresh_append K s p a;
      ftl_write_done K p b a (fs_map s, fs_zmd s) = Some (m', zmd')\<rbrakk>
     \<Longrightarrow> ftl_step ss K s (Commit b v) (s\<lparr>fs_dev := (fs_dev s)\<lparr>d_mapping := m', d_zone_metadata := zmd'\<rparr>,
           fs_media := (fs_media s)(a \<mapsto> v), fs_ops := R\<rparr>)"
| read_start:
    "\<lbrakk>size (fs_ops s) < max_ops; lbz_mapping_lookup K (fs_map s) b (fs_zmd s) = Some (Inr (p, a), zmd')\<rbrakk>
     \<Longrightarrow> ftl_step ss K s (Lookup b (fs_media s a)) (s\<lparr>fs_dev := (fs_dev s)\<lparr>d_zone_metadata := zmd'\<rparr>,
           fs_ops := fs_ops s + {#FRead p a (fs_media s a)#}\<rparr>)"
| read_done:
    "\<lbrakk>fs_ops s = R + {#FRead p a v#}; upd_zone p lbz_put_zone (fs_zmd s) = Some zmd'\<rbrakk>
     \<Longrightarrow> ftl_step ss K s (Deliver v (fs_media s a)) (s\<lparr>fs_dev := (fs_dev s)\<lparr>d_zone_metadata := zmd'\<rparr>, fs_ops := R\<rparr>)"
| victim:
    "\<lbrakk>size (fs_ops s) < max_ops; gc_idle (d_gc_ctx (fs_dev s)) (fs_zmd s);
      lbz_find_victim_zone md (fs_zmd s) = Some (Some p, zmd'); zmd_zones zmd' p = Some z; zrms_get (z_zrms z) 0 = Some pos\<rbrakk>
     \<Longrightarrow> ftl_step ss K s Internal (s\<lparr>fs_dev := (fs_dev s)\<lparr>d_zone_metadata := zmd',
             d_gc_ctx := (d_gc_ctx (fs_dev s))\<lparr>gc_zone := Some p\<rparr>\<rparr>,
           fs_ops := fs_ops s + {#FScan p 0 pos#}\<rparr>)"
| scan_entry:
    "\<lbrakk>size (fs_ops s) < max_ops; fs_ops s = R + {#FScan p k pos#}; zmd_zones (fs_zmd s) p = Some z;
      k < unat (z_wp_block z); pos \<noteq> LBZ_INVALID_PBID; upd_zone p lbz_get_zone (fs_zmd s) = Some zmd';
      \<forall>v. zrms_get (z_zrms z) (k + 1) = Some v \<longrightarrow> pos' = v\<rbrakk>
     \<Longrightarrow> ftl_step ss K s Internal (s\<lparr>fs_dev := (fs_dev s)\<lparr>d_zone_metadata := zmd'\<rparr>,
           fs_ops := R + {#FCopy pos (zone_pbid z k), FScan p (k + 1) pos'#}\<rparr>)"
| scan_skip:
    "\<lbrakk>fs_ops s = R + {#FScan p k LBZ_INVALID_PBID#}; zmd_zones (fs_zmd s) p = Some z;
      k < unat (z_wp_block z); \<forall>v. zrms_get (z_zrms z) (k + 1) = Some v \<longrightarrow> pos' = v\<rbrakk>
     \<Longrightarrow> ftl_step ss K s Internal (s\<lparr>fs_ops := R + {#FScan p (k + 1) pos'#}\<rparr>)"
| scan_end:
    "\<lbrakk>fs_ops s = R + {#FScan p k pos#}; zmd_zones (fs_zmd s) p = Some z; unat (z_wp_block z) \<le> k;
      ftl_scan_end p (fs_zmd s) = Some zmd'\<rbrakk>
     \<Longrightarrow> ftl_step ss K s Internal (s\<lparr>fs_dev := (fs_dev s)\<lparr>d_zone_metadata := zmd'\<rparr>, fs_ops := R\<rparr>)"
| copy_read:
    "\<lbrakk>fs_ops s = R + {#FCopy b old#}\<rbrakk>
     \<Longrightarrow> ftl_step ss K s Internal (s\<lparr>fs_ops := R + {#FHold b old (fs_media s old)#}\<rparr>)"
| move_skip:
    "\<lbrakk>fs_ops s = R + {#FHold b old v#}; \<not> locked (fs_ops s) b;
      ftl_gc_check K b old (fs_map s) (fs_zmd s) = Some (False, zmd1);
      upd_zone (get_zone_by_pbid K old) lbz_put_zone zmd1 = Some zmd2\<rbrakk>
     \<Longrightarrow> ftl_step ss K s Internal (s\<lparr>fs_dev := (fs_dev s)\<lparr>d_zone_metadata := zmd2\<rparr>, fs_ops := R\<rparr>)"
| move_agency:
    "\<lbrakk>fs_ops s = R + {#FHold b old v#}; map_get K (fs_map s) b \<noteq> Some old;
      upd_zone (get_zone_by_pbid K old) lbz_put_zone (fs_zmd s) = Some zmd'\<rbrakk>
     \<Longrightarrow> ftl_step ss K s Internal (s\<lparr>fs_dev := (fs_dev s)\<lparr>d_zone_metadata := zmd'\<rparr>, fs_ops := R\<rparr>)"
| move_start:
    "\<lbrakk>fs_ops s = R + {#FHold b old v#}; \<not> locked (fs_ops s) b; sid < LBZ_ZONE_MAX_STREAM;
      ftl_gc_check K b old (fs_map s) (fs_zmd s) = Some (True, zmd1);
      lbz_zone_alloc_res ss (is_dev_faulty (fs_dev s)) LBZ_ALLOC_FLAG_GC sid zmd1 (d_gc_ctx (fs_dev s)) = Some (Inr p, zmd2, gc')\<rbrakk>
     \<Longrightarrow> ftl_step ss K s Internal (s\<lparr>fs_dev := (fs_dev s)\<lparr>d_zone_metadata := zmd2, d_gc_ctx := gc'\<rparr>,
           fs_ops := R + {#FMove p b old v#}\<rparr>)"
| move_done:
    "\<lbrakk>fs_ops s = R + {#FMove p b old v#}; fresh_append K s p a;
      ftl_gc_done K p b old a (fs_map s, fs_zmd s) = Some (m', zmd')\<rbrakk>
     \<Longrightarrow> ftl_step ss K s Internal (s\<lparr>fs_dev := (fs_dev s)\<lparr>d_mapping := m', d_zone_metadata := zmd'\<rparr>,
           fs_media := (fs_media s)(a := v), fs_ops := R\<rparr>)"
| discard:
    "\<lbrakk>map_get K (fs_map s) b \<noteq> None; \<forall>p old v. FMove p b old v \<notin># fs_ops s;
      free_blkid K b (fs_map s, fs_zmd s, n) = Some (m', zmd', n')\<rbrakk>
     \<Longrightarrow> ftl_step ss K s (Discard b) (s\<lparr>fs_dev := (fs_dev s)\<lparr>d_mapping := m', d_zone_metadata := zmd'\<rparr>\<rparr>)"
| worker:
    "\<lbrakk>zone_state_wk_fn reset_err (fs_dev s) = Some d'; worker_spares (fs_zmd s) (d_zone_metadata d')\<rbrakk>
     \<Longrightarrow> ftl_step ss K s Internal (s\<lparr>fs_dev := d',
           fs_media := erase_reset K (fs_zmd s) (d_zone_metadata d') (fs_media s)\<rparr>)"

section \<open>The invariant\<close>

definition geometry :: "kern \<Rightarrow> lbz_zone_metadata \<Rightarrow> bool" where
  "geometry K zmd \<longleftrightarrow> unat (zmd_zone_nr_blocks zmd) < 2 ^ 31 - 1 \<and> (\<forall>p z i. zmd_zones zmd p = Some z \<longrightarrow> i < unat (zmd_zone_nr_blocks zmd) \<longrightarrow>
     get_zone_by_pbid K (zone_pbid z i) = p)"

text \<open>The counters of a zone are those of the operations in flight and of its stream.\<close>

definition zone_counts :: "kern \<Rightarrow> fop multiset \<Rightarrow> zptr \<Rightarrow> lbz_zone \<Rightarrow> bool" where
  "zone_counts K ops p z \<longleftrightarrow> z_refcount z - active_ref z = of_nat (refs K ops p) \<and>
     z_pending_write_io z = of_nat (pend ops p) \<and>
     (is_lbz_zone_state LBZ_ZONE_TO_FULL z \<longrightarrow> zone_phase z = PToFull) \<and>
     (zone_phase z = PFull \<or> zone_phase z = PGc \<longrightarrow> z_pending_write_io z = 0)"

definition counts_ok :: "kern \<Rightarrow> fop multiset \<Rightarrow> lbz_zone_metadata \<Rightarrow> bool" where
  "counts_ok K ops zmd \<longleftrightarrow> (\<forall>p z. zmd_zones zmd p = Some z \<longrightarrow>
     zone_counts K ops p z \<and> length (z_zrms z) = unat (zmd_zone_nr_reverse_map_blocks zmd))"

fun op_data :: "kern \<Rightarrow> fstate \<Rightarrow> fop \<Rightarrow> bool" where
  "op_data K s (FWrite q b v) = (map_get K (fs_map s) b \<noteq> None)"
| "op_data K s (FRead q a v) = (q = get_zone_by_pbid K a \<and> v \<noteq> None \<and> fs_media s a = v)"
| "op_data K s (FCopy b old) = (fs_media s old \<noteq> None)"
| "op_data K s (FHold b old v) = (v \<noteq> None \<and> fs_media s old = v)"
| "op_data K s (FMove q b old v) = (v \<noteq> None \<and> fs_media s old = v \<and> map_get K (fs_map s) b = Some old \<and>
     old \<noteq> LBZ_INVALID_PBID)"
| "op_data K s (FScan q k pos) = (\<forall>z. zmd_zones (fs_zmd s) q = Some z \<longrightarrow> pos \<noteq> LBZ_INVALID_PBID \<longrightarrow>
     k < unat (zmd_zone_nr_blocks (fs_zmd s)) \<longrightarrow> fs_media s (zone_pbid z k) \<noteq> None)"

definition op_ok :: "kern \<Rightarrow> fstate \<Rightarrow> fop \<Rightarrow> bool" where
  "op_ok K s op \<longleftrightarrow> op_data K s op \<and> (\<forall>q. op_refs K q op \<noteq> 0 \<longrightarrow> zmd_zones (fs_zmd s) q \<noteq> None)"

text \<open>No block is locked twice.\<close>

definition locks_ok :: "fop multiset \<Rightarrow> bool" where
  "locks_ok ops \<longleftrightarrow> (\<forall>b. size {#op \<in># ops. op_lock op = Some b#} \<le> 1)"

text \<open>Every live block of a zone under collection will still be looked at, or is being moved.\<close>

fun covers :: "kern \<Rightarrow> lbz_zone_metadata \<Rightarrow> u32 \<Rightarrow> u32 \<Rightarrow> fop \<Rightarrow> bool" where
  "covers K zmd a b (FScan q k pos) = (q = get_zone_by_pbid K a \<and>
     (\<exists>z. zmd_zones zmd q = Some z \<and> (k < unat (pbid_dis z a) \<or> k = unat (pbid_dis z a) \<and> pos = b)))"
| "covers K zmd a b (FCopy c old) = (c = b \<and> old = a)"
| "covers K zmd a b (FHold c old v) = (c = b \<and> old = a)"
| "covers K zmd a b (FMove q c old v) = (c = b \<and> old = a)"
| "covers K zmd a b _ = False"

definition live_at :: "kern \<Rightarrow> lbz_zone_metadata \<Rightarrow> u32 \<Rightarrow> u32 \<Rightarrow> bool" where
  "live_at K zmd a b \<longleftrightarrow> zmd_rget K zmd a = Some b \<and> b \<noteq> LBZ_INVALID_PBID"

definition covered :: "kern \<Rightarrow> fop multiset \<Rightarrow> lbz_zone_metadata \<Rightarrow> bool" where
  "covered K ops zmd \<longleftrightarrow> (\<forall>a b. live_at K zmd a b \<longrightarrow> phase_at zmd (get_zone_by_pbid K a) PGc \<longrightarrow>
     (\<exists>op\<in>#ops. covers K zmd a b op))"

text \<open>Every mapped address holds data.\<close>

definition mapped_data :: "kern \<Rightarrow> fstate \<Rightarrow> bool" where
  "mapped_data K s \<longleftrightarrow> (\<forall>b a. map_get K (fs_map s) b = Some a \<longrightarrow> a \<noteq> LBZ_INVALID_PBID \<longrightarrow> fs_media s a \<noteq> None)"

definition ftl_inv :: "kern \<Rightarrow> fstate \<Rightarrow> bool" where
  "ftl_inv K s \<longleftrightarrow> maps_ok K (fs_map s) (fs_zmd s) \<and> geometry K (fs_zmd s) \<and>
     size (fs_ops s) \<le> max_ops \<and> counts_ok K (fs_ops s) (fs_zmd s) \<and>
     (\<forall>op\<in>#fs_ops s. op_ok K s op) \<and> locks_ok (fs_ops s) \<and> covered K (fs_ops s) (fs_zmd s) \<and> mapped_data K s"

section \<open>Sums over the operations\<close>

lemma refs_simps [simp]:
  "refs K {#} p = 0" "refs K (A + B) p = refs K A p + refs K B p"
  "refs K (add_mset x A) p = op_refs K p x + refs K A p"
  by (simp_all add: refs_def)

lemma pend_simps [simp]:
  "pend {#} p = 0" "pend (A + B) p = pend A p + pend B p" "pend (add_mset x A) p = op_pend p x + pend A p"
  by (simp_all add: pend_def)

lemma op_refs_le: "op_refs K p op \<le> 2"
  by (cases op) auto

lemma op_pend_le: "op_pend p op \<le> op_refs K p op"
  by (cases op) auto

lemma refs_le: "refs K ops p \<le> 2 * size ops"
proof (induction ops)
  case (add x ops)
  then show ?case using op_refs_le [of K p x] by simp
qed simp

lemma pend_le: "pend ops p \<le> refs K ops p"
proof (induction ops)
  case (add x ops)
  then show ?case using op_pend_le [of p x K] by simp
qed simp

lemma refs_member: "op \<in># ops \<Longrightarrow> op_refs K p op \<le> refs K ops p"
  by (induction ops) auto

lemma of_nat_u32_0: "n < 2 ^ 32 \<Longrightarrow> (of_nat n :: u32) = 0 \<longleftrightarrow> n = 0"
  using dvd_imp_le [of "2 ^ 32" n] by (auto simp: word_of_nat_eq_0_iff)

lemma refs_0: "size ops \<le> max_ops \<Longrightarrow> (of_nat (refs K ops p) :: u32) = 0 \<longleftrightarrow> refs K ops p = 0"
  using refs_le [of K ops p] by (intro of_nat_u32_0) (simp add: max_ops_def)

lemma pend_0: "size ops \<le> max_ops \<Longrightarrow> (of_nat (pend ops p) :: u32) = 0 \<longleftrightarrow> pend ops p = 0"
  using refs_le [of undefined ops p] pend_le [of ops p undefined] by (intro of_nat_u32_0) (simp add: max_ops_def)

section \<open>A step on the counters\<close>

text \<open>
  The change of a zone by a step, apart from its data: \<open>dr\<close> references besides the one of its
  stream, \<open>dp\<close> writes in flight.
\<close>

definition zone_delta :: "u32 \<Rightarrow> u32 \<Rightarrow> lbz_zone \<Rightarrow> lbz_zone \<Rightarrow> bool" where
  "zone_delta dr dp z z' \<longleftrightarrow> z_start_sector z' = z_start_sector z \<and> length (z_zrms z') = length (z_zrms z) \<and>
     z_refcount z' - active_ref z' = z_refcount z - active_ref z + dr \<and>
     z_pending_write_io z' = z_pending_write_io z + dp \<and>
     ((is_lbz_zone_state LBZ_ZONE_TO_FULL z \<longrightarrow> zone_phase z = PToFull) \<longrightarrow>
        is_lbz_zone_state LBZ_ZONE_TO_FULL z' \<longrightarrow> zone_phase z' = PToFull) \<and>
     (zone_phase z' = PFull \<or> zone_phase z' = PGc \<longrightarrow> zone_phase z' = zone_phase z \<or> z_pending_write_io z' = 0)"

definition zmd_delta :: "kern \<Rightarrow> fop multiset \<Rightarrow> fop multiset \<Rightarrow> lbz_zone_metadata \<Rightarrow> lbz_zone_metadata \<Rightarrow> bool" where
  "zmd_delta K gone new zmd zmd' \<longleftrightarrow> zmd_const zmd zmd' \<and> (\<forall>p z. zmd_zones zmd p = Some z \<longrightarrow>
     (\<exists>z'. zmd_zones zmd' p = Some z' \<and> (pend new p \<noteq> 0 \<longrightarrow> zone_phase z' = PActive \<or> zone_phase z' = PToFull) \<and>
       zone_delta (of_nat (refs K new p) - of_nat (refs K gone p)) (of_nat (pend new p) - of_nat (pend gone p)) z z'))"

lemma zone_counts_step:
  assumes c: "zone_counts K (R + gone) p z" and d: "zone_delta (of_nat (refs K new p) - of_nat (refs K gone p))
      (of_nat (pend new p) - of_nat (pend gone p)) z z'"
    and new: "pend new p \<noteq> 0 \<Longrightarrow> zone_phase z' = PActive \<or> zone_phase z' = PToFull"
    and size: "size (R + gone) \<le> max_ops" "size (R + new) \<le> max_ops"
  shows "zone_counts K (R + new) p z'"
proof -
  have r: "z_refcount z' - active_ref z' = of_nat (refs K (R + new) p)" and
    w: "z_pending_write_io z' = of_nat (pend (R + new) p)"
    using c d by (simp_all add: zone_counts_def zone_delta_def)
  have "z_pending_write_io z' = 0" if "zone_phase z' = PFull \<or> zone_phase z' = PGc"
  proof (cases "zone_phase z' = zone_phase z")
    case True
    then have "z_pending_write_io z = 0" using c that by (auto simp: zone_counts_def)
    then have "pend (R + gone) p = 0" using c size pend_0 [of "R + gone" p] by (simp add: zone_counts_def)
    moreover have "pend new p = 0" using new that by (cases "pend new p = 0") auto
    ultimately show ?thesis using w by simp
  qed (use d that in \<open>auto simp: zone_delta_def\<close>)
  then show ?thesis using r w c d by (auto simp: zone_counts_def zone_delta_def)
qed

lemma zmd_deltaD:
  "zmd_delta K gone new zmd zmd' \<Longrightarrow> zmd_zones zmd p = Some z \<Longrightarrow> \<exists>z'. zmd_zones zmd' p = Some z' \<and>
     (pend new p \<noteq> 0 \<longrightarrow> zone_phase z' = PActive \<or> zone_phase z' = PToFull) \<and>
     zone_delta (of_nat (refs K new p) - of_nat (refs K gone p)) (of_nat (pend new p) - of_nat (pend gone p)) z z'"
  by (simp add: zmd_delta_def)

text \<open>The two tables have the same zones.\<close>

lemma zmd_delta_zones:
  assumes "zmd_wf zmd" "zmd_wf zmd'" "zmd_const zmd zmd'"
  shows "zmd_zones zmd' p = None \<longleftrightarrow> zmd_zones zmd p = None"
  using assms unfolding zmd_wf_def wf_zones_def zmd_const_def by (metis (no_types, lifting))

lemma zmd_delta_back:
  assumes wf: "zmd_wf zmd" "zmd_wf zmd'" and d: "zmd_delta K gone new zmd zmd'" and z: "zmd_zones zmd' p = Some z'"
  shows "\<exists>z. zmd_zones zmd p = Some z \<and> (pend new p \<noteq> 0 \<longrightarrow> zone_phase z' = PActive \<or> zone_phase z' = PToFull) \<and>
     zone_delta (of_nat (refs K new p) - of_nat (refs K gone p)) (of_nat (pend new p) - of_nat (pend gone p)) z z'"
proof -
  have "zmd_const zmd zmd'" using d by (simp add: zmd_delta_def)
  then obtain z where "zmd_zones zmd p = Some z" using zmd_delta_zones [OF wf, of p] z by fastforce
  with zmd_deltaD [OF d this] z show ?thesis by auto
qed

lemma counts_ok_step:
  assumes wf: "zmd_wf zmd" "zmd_wf zmd'" and c: "counts_ok K (R + gone) zmd" and d: "zmd_delta K gone new zmd zmd'"
    and size: "size (R + gone) \<le> max_ops" "size (R + new) \<le> max_ops"
  shows "counts_ok K (R + new) zmd'"
  unfolding counts_ok_def
proof (intro allI impI conjI)
  fix p z' assume z': "zmd_zones zmd' p = Some z'"
  from zmd_delta_back [OF wf d this] obtain z where
    z: "zmd_zones zmd p = Some z" "pend new p \<noteq> 0 \<longrightarrow> zone_phase z' = PActive \<or> zone_phase z' = PToFull"
      "zone_delta (of_nat (refs K new p) - of_nat (refs K gone p)) (of_nat (pend new p) - of_nat (pend gone p)) z z'" by blast
  have cz: "zone_counts K (R + gone) p z" "length (z_zrms z) = unat (zmd_zone_nr_reverse_map_blocks zmd)"
    using c z(1) by (auto simp: counts_ok_def)
  show "zone_counts K (R + new) p z'" by (rule zone_counts_step [OF cz(1) z(3) _ size]) (use z(2) in blast)
  show "length (z_zrms z') = unat (zmd_zone_nr_reverse_map_blocks zmd')"
    using cz(2) z(3) d by (simp add: zone_delta_def zmd_delta_def zmd_const_def)
qed

lemma geometry_step:
  assumes wf: "zmd_wf zmd" "zmd_wf zmd'" and g: "geometry K zmd" and d: "zmd_delta K gone new zmd zmd'"
  shows "geometry K zmd'"
  unfolding geometry_def
proof (intro conjI allI impI)
  show "unat (zmd_zone_nr_blocks zmd') < 2 ^ 31 - 1"
    using g d by (simp add: geometry_def zmd_delta_def zmd_const_def)
  fix p z' i assume z': "zmd_zones zmd' p = Some z'" and i: "i < unat (zmd_zone_nr_blocks zmd')"
  from zmd_delta_back [OF wf d z'] obtain z where
    "zmd_zones zmd p = Some z" "z_start_sector z' = z_start_sector z" by (auto simp: zone_delta_def)
  moreover have "zmd_zone_nr_blocks zmd' = zmd_zone_nr_blocks zmd" using d by (simp add: zmd_delta_def zmd_const_def)
  ultimately show "get_zone_by_pbid K (zone_pbid z' i) = p"
    using g i unfolding geometry_def by (metis zone_pbid_def)
qed

text \<open>Changes that keep the phases.\<close>

lemma zmd_delta_keep:
  assumes k: "zmd_keep dr dp zmd zmd'" and new: "\<And>p. pend new p = 0"
    and dr: "\<And>p. dr p = of_nat (refs K new p) - of_nat (refs K gone p)" and dp: "\<And>p. dp p = - of_nat (pend gone p)"
  shows "zmd_delta K gone new zmd zmd'"
  unfolding zmd_delta_def
proof (intro conjI allI impI)
  show "zmd_const zmd zmd'" using k by (simp add: zmd_keep_def)
next
  fix p z assume "zmd_zones zmd p = Some z"
  from zmd_keepD [OF k this] obtain z' where z': "zmd_zones zmd' p = Some z'" "zone_keep (dr p) (dp p) z z'" by blast
  then have "zone_delta (dr p) (dp p) z z'" using z'(2) by (auto simp: zone_delta_def zone_keep_def active_ref_def)
  then show "\<exists>z'. zmd_zones zmd' p = Some z' \<and> (pend new p \<noteq> 0 \<longrightarrow> zone_phase z' = PActive \<or> zone_phase z' = PToFull) \<and>
     zone_delta (of_nat (refs K new p) - of_nat (refs K gone p)) (of_nat (pend new p) - of_nat (pend gone p)) z z'"
    using z'(1) new dr [of p] dp [of p] by simp
qed

lemma zmd_keep_phase:
  assumes k: "zmd_keep dr dp zmd zmd'" and wf: "zmd_wf zmd" "zmd_wf zmd'"
  shows "phase_at zmd' p ph \<longleftrightarrow> phase_at zmd p ph"
proof (cases "zmd_zones zmd p")
  case None
  then show ?thesis using zmd_delta_zones [OF wf, of p] k by (simp add: zmd_keep_def phase_at_def)
next
  case (Some z)
  from zmd_keepD [OF k Some] obtain z' where z': "zmd_zones zmd' p = Some z'" "zone_phase z' = zone_phase z"
    by (auto simp: zone_keep_def)
  then show ?thesis using Some by (simp add: phase_at_def)
qed

section \<open>A step on the whole state\<close>

lemma op_ok_step:
  assumes inv: "ftl_inv K s" and op: "op \<in># fs_ops s" and maps: "zmd_wf (fs_zmd s')"
    and d: "zmd_delta K gone new (fs_zmd s) (fs_zmd s')"
    and media: "\<And>a. op_refs K (get_zone_by_pbid K a) op \<noteq> 0 \<Longrightarrow> fs_media s a \<noteq> None \<Longrightarrow> fs_media s' a = fs_media s a"
    and dom: "\<And>b. map_get K (fs_map s) b \<noteq> None \<Longrightarrow> map_get K (fs_map s') b \<noteq> None"
    and moves: "\<And>q b old v. op = FMove q b old v \<Longrightarrow> map_get K (fs_map s') b = map_get K (fs_map s) b"
  shows "op_ok K s' op"
proof -
  have ok: "op_ok K s op" and wf: "zmd_wf (fs_zmd s)" and g: "geometry K (fs_zmd s)"
    using inv op by (auto simp: ftl_inv_def maps_ok_def)
  have zones: "zmd_zones (fs_zmd s') q = None \<longleftrightarrow> zmd_zones (fs_zmd s) q = None" for q
    using zmd_delta_zones [OF wf maps] d by (simp add: zmd_delta_def)
  have "op_data K s' op"
  proof (cases op)
    case (FScan q k pos)
    have "fs_media s' (zone_pbid z' k) \<noteq> None"
      if z': "zmd_zones (fs_zmd s') q = Some z'" and pos: "pos \<noteq> LBZ_INVALID_PBID"
        and k: "k < unat (zmd_zone_nr_blocks (fs_zmd s'))" for z'
    proof -
      from zmd_delta_back [OF wf maps d z'] obtain z where z: "zmd_zones (fs_zmd s) q = Some z"
        "z_start_sector z' = z_start_sector z" by (auto simp: zone_delta_def)
      have k': "k < unat (zmd_zone_nr_blocks (fs_zmd s))" using k d by (simp add: zmd_delta_def zmd_const_def)
      have m: "fs_media s (zone_pbid z k) \<noteq> None" using ok z pos k' unfolding FScan op_ok_def by auto
      have "get_zone_by_pbid K (zone_pbid z k) = q" using g z k' unfolding geometry_def by blast
      then have "fs_media s' (zone_pbid z k) = fs_media s (zone_pbid z k)" using media [OF _ m] by (simp add: FScan)
      then show ?thesis using m z(2) by (simp add: zone_pbid_def)
    qed
    then show ?thesis by (auto simp: FScan)
  next
    case (FMove q b old v)
    then show ?thesis using ok media [of old] moves [OF FMove] by (simp add: op_ok_def)
  next
    case (FWrite q b v)
    then show ?thesis using ok dom [of b] by (simp add: op_ok_def)
  next
    case (FRead q a v)
    then show ?thesis using ok media [of a] by (simp add: op_ok_def)
  next
    case (FCopy b old)
    then show ?thesis using ok media [of old] by (simp add: op_ok_def)
  next
    case (FHold b old v)
    then show ?thesis using ok media [of old] by (simp add: op_ok_def)
  qed
  then show ?thesis using ok zones by (simp add: op_ok_def)
qed

lemma covers_step:
  assumes "zmd_delta K gone new zmd zmd'" "covers K zmd a b op"
  shows "covers K zmd' a b op"
proof (cases op)
  case (FScan q k pos)
  with assms(2) obtain z where z: "zmd_zones zmd q = Some z" "q = get_zone_by_pbid K a"
    "k < unat (pbid_dis z a) \<or> k = unat (pbid_dis z a) \<and> pos = b" by auto
  from zmd_deltaD [OF assms(1) z(1)] obtain z' where "zmd_zones zmd' q = Some z'" "z_start_sector z' = z_start_sector z"
    by (auto simp: zone_delta_def)
  then show ?thesis using z by (auto simp: FScan pbid_dis_def)
qed (use assms in auto)

lemma ftl_inv_step:
  assumes inv: "ftl_inv K s" and ops: "fs_ops s = R + gone" "fs_ops s' = R + new" and size: "size (R + new) \<le> max_ops"
    and maps: "maps_ok K (fs_map s') (fs_zmd s')" and d: "zmd_delta K gone new (fs_zmd s) (fs_zmd s')"
    and media: "\<And>a op. op \<in># R \<Longrightarrow> op_refs K (get_zone_by_pbid K a) op \<noteq> 0 \<Longrightarrow> fs_media s a \<noteq> None \<Longrightarrow>
        fs_media s' a = fs_media s a"
    and dom: "\<And>b. map_get K (fs_map s) b \<noteq> None \<Longrightarrow> map_get K (fs_map s') b \<noteq> None"
    and moves: "\<And>q b old v. FMove q b old v \<in># R \<Longrightarrow> map_get K (fs_map s') b = map_get K (fs_map s) b"
    and new: "\<And>op. op \<in># new \<Longrightarrow> op_ok K s' op" and locks: "locks_ok (R + new)" and data: "mapped_data K s'"
    and cov: "\<And>a b. live_at K (fs_zmd s') a b \<Longrightarrow> phase_at (fs_zmd s') (get_zone_by_pbid K a) PGc \<Longrightarrow>
        live_at K (fs_zmd s) a b \<and> phase_at (fs_zmd s) (get_zone_by_pbid K a) PGc \<and>
          (\<forall>op\<in>#gone. covers K (fs_zmd s) a b op \<longrightarrow> (\<exists>op\<in>#new. covers K (fs_zmd s') a b op)) \<or>
        (\<exists>op\<in>#new. covers K (fs_zmd s') a b op)"
  shows "ftl_inv K s'"
proof -
  have wf: "zmd_wf (fs_zmd s)" "zmd_wf (fs_zmd s')" using inv maps by (auto simp: ftl_inv_def maps_ok_def)
  have "op_ok K s' op" if "op \<in># R + new" for op
  proof (cases "op \<in># R")
    case True
    then show ?thesis using ops(1) media dom moves by (intro op_ok_step [OF inv _ wf(2) d]) auto
  qed (use that new in auto)
  moreover have "covered K (R + new) (fs_zmd s')"
    unfolding covered_def
  proof (intro allI impI)
    fix a b assume l: "live_at K (fs_zmd s') a b" "phase_at (fs_zmd s') (get_zone_by_pbid K a) PGc"
    show "\<exists>op\<in>#R + new. covers K (fs_zmd s') a b op"
    proof (cases "\<exists>op\<in>#new. covers K (fs_zmd s') a b op")
      case False
      with cov [OF l] inv ops obtain op where op: "op \<in># R + gone" "covers K (fs_zmd s) a b op" "op \<notin># gone"
        unfolding ftl_inv_def covered_def by metis
      then show ?thesis using covers_step [OF d op(2)] by auto
    qed auto
  qed
  moreover have "counts_ok K (R + new) (fs_zmd s')"
    by (rule counts_ok_step [OF wf _ d]) (use inv ops size in \<open>auto simp: ftl_inv_def\<close>)
  moreover have "geometry K (fs_zmd s')" by (rule geometry_step [OF wf _ d]) (use inv in \<open>simp add: ftl_inv_def\<close>)
  ultimately show ?thesis using maps size locks data by (simp add: ftl_inv_def ops(2))
qed

section \<open>A zone that nobody references holds no live block\<close>

lemma unreferenced_zone:
  assumes inv: "ftl_inv K s" and z: "zmd_zones (fs_zmd s) p = Some z" "z_refcount z = 0" "zone_phase z \<noteq> PActive"
    and op: "op \<in># fs_ops s"
  shows "op_refs K p op = 0"
proof -
  have "zone_counts K (fs_ops s) p z" using inv z(1) by (auto simp: ftl_inv_def counts_ok_def)
  then have "(of_nat (refs K (fs_ops s) p) :: u32) = 0" using z(2,3) by (simp add: zone_counts_def active_ref_def)
  then have "refs K (fs_ops s) p = 0" using inv refs_0 by (auto simp: ftl_inv_def)
  then show ?thesis using refs_member [OF op, of K p] by simp
qed

lemma covers_refs:
  assumes "covers K zmd a b op"
  shows "op_refs K (get_zone_by_pbid K a) op \<noteq> 0"
  using assms by (cases op) auto

lemma ftl_inv_settled:
  assumes inv: "ftl_inv K s"
  shows "zones_settled (fs_zmd s)"
  unfolding zones_settled_def
proof (intro allI impI conjI)
  fix p z assume z: "zmd_zones (fs_zmd s) p = Some z"
  have c: "zone_counts K (fs_ops s) p z" and len: "length (z_zrms z) = unat (zmd_zone_nr_reverse_map_blocks (fs_zmd s))"
    using inv z by (auto simp: ftl_inv_def counts_ok_def)
  show "length (z_zrms z) = unat (zmd_zone_nr_reverse_map_blocks (fs_zmd s))" by (rule len)
  show "zone_phase z = PToFull" if "is_lbz_zone_state LBZ_ZONE_TO_FULL z" using c that by (simp add: zone_counts_def)
  assume gc: "zone_phase z = PGc \<and> z_refcount z = 0"
  have acct: "zone_acct (zmd_zone_nr_blocks (fs_zmd s)) z"
    using inv zmd_wf_zone_ok [OF _ z] by (auto simp: ftl_inv_def maps_ok_def zone_ok_def)
  have "\<not> zone_valid z i" for i
  proof
    assume v: "zone_valid z i"
    then have i: "i < unat (zmd_zone_nr_blocks (fs_zmd s))"
      using acct by (auto simp: zone_acct_def word_le_nat_alt)
    let ?a = "zone_pbid z i"
    have p: "get_zone_by_pbid K ?a = p" using inv z i unfolding ftl_inv_def geometry_def by blast
    have "i < 2 ^ 32" using i unat_u32_less [of "zmd_zone_nr_blocks (fs_zmd s)"] by simp
    then have "unat (pbid_dis z ?a) = i" by (simp add: pbid_dis_def zone_pbid_def unat_of_nat)
    then obtain b where "live_at K (fs_zmd s) ?a b"
      using v z p by (auto simp: live_at_def zmd_rget_def zone_valid_def split: option.splits)
    moreover have "phase_at (fs_zmd s) (get_zone_by_pbid K ?a) PGc" using p z gc by (simp add: phase_at_def)
    ultimately obtain op where "op \<in># fs_ops s" "covers K (fs_zmd s) ?a b op"
      using inv unfolding ftl_inv_def covered_def by blast
    then show False using covers_refs [of K _ ?a b op] unreferenced_zone [OF inv z] gc p by auto
  qed
  then have "valid_count z = 0" by (simp add: valid_count_def countf_zero)
  moreover have "z_pending_write_io z = 0" using c gc unfolding zone_counts_def by blast
  ultimately show "z_weight z = 0" using acct by (simp add: zone_acct_def unat_eq_0)
qed

end
