(* ===== verification/Ftl_Safety.thy ===== *)
theory Ftl_Safety
  imports Ftl_Machine
begin

text \<open>
  Every step of the translation layer keeps its invariant, and the machine refines a store of
  logical blocks.
\<close>

section \<open>Facts the invariant gives\<close>

lemma ftl_inv_facts:
  assumes "ftl_inv K s"
  shows "zmd_wf (fs_zmd s)" "mapping_wf K (fs_map s)" "map_consistent (map_get K (fs_map s)) (zmd_rget K (fs_zmd s))"
    "maps_ok K (fs_map s) (fs_zmd s)" "locks_ok (fs_ops s)" "size (fs_ops s) \<le> max_ops" "mapped_data K s"
  using assms by (auto simp: ftl_inv_def maps_ok_def)

lemma ftl_inv_counts: "ftl_inv K s \<Longrightarrow> zmd_zones (fs_zmd s) p = Some z \<Longrightarrow> zone_counts K (fs_ops s) p z"
  by (simp add: ftl_inv_def counts_ok_def)

lemma ftl_inv_op: "ftl_inv K s \<Longrightarrow> op \<in># fs_ops s \<Longrightarrow> op_ok K s op"
  by (simp add: ftl_inv_def)

lemma ftl_inv_zone: "ftl_inv K s \<Longrightarrow> op \<in># fs_ops s \<Longrightarrow> op_refs K p op \<noteq> 0 \<Longrightarrow> \<exists>z. zmd_zones (fs_zmd s) p = Some z"
  using ftl_inv_op [of K s op] unfolding op_ok_def by blast

lemma live_mapped:
  assumes "ftl_inv K s" "live_at K (fs_zmd s) a b"
  shows "map_get K (fs_map s) b = Some a" "a \<noteq> LBZ_INVALID_PBID" "fs_media s a \<noteq> None"
proof -
  note c = ftl_inv_facts(3) [OF assms(1)]
  show m: "map_get K (fs_map s) b = Some a" using map_consistent_rf [OF c] assms(2) by (auto simp: live_at_def)
  show a: "a \<noteq> LBZ_INVALID_PBID" using map_consistent_rp [OF c] assms(2) by (auto simp: live_at_def)
  show "fs_media s a \<noteq> None" using ftl_inv_facts(7) [OF assms(1)] m a unfolding mapped_data_def by blast
qed

lemma live_below:
  assumes wf: "zmd_wf zmd" and l: "live_at K zmd a b" and z: "zmd_zones zmd (get_zone_by_pbid K a) = Some z"
  shows "unat (pbid_dis z a) < unat (z_wp_block z)" "zrms_get (z_zrms z) (unat (pbid_dis z a)) = Some b"
proof -
  show g: "zrms_get (z_zrms z) (unat (pbid_dis z a)) = Some b" using l z by (simp add: live_at_def zmd_rget_def)
  have "zone_valid z (unat (pbid_dis z a))" using g l by (simp add: zone_valid_def live_at_def)
  then show "unat (pbid_dis z a) < unat (z_wp_block z)"
    using zmd_wf_zone_ok [OF wf z] by (simp add: zone_ok_def zone_acct_def)
qed

lemma zone_pbid_index:
  assumes "k < 2 ^ 32"
  shows "unat (pbid_dis z (zone_pbid z k)) = k" "unat (pbid_dis z a) = k \<Longrightarrow> zone_pbid z k = a"
proof -
  show "unat (pbid_dis z (zone_pbid z k)) = k" using assms by (simp add: pbid_dis_def zone_pbid_def unat_of_nat)
  show "zone_pbid z k = a" if "unat (pbid_dis z a) = k"
  proof -
    have "(of_nat k :: u32) = pbid_dis z a" using that by auto
    then show ?thesis by (simp add: zone_pbid_def pbid_dis_def)
  qed
qed

lemma scan_index:
  assumes inv: "ftl_inv K s" and z: "zmd_zones (fs_zmd s) p = Some z" and k: "k < unat (zmd_zone_nr_blocks (fs_zmd s))"
  shows "get_zone_by_pbid K (zone_pbid z k) = p" "unat (pbid_dis z (zone_pbid z k)) = k"
    "\<exists>v. zrms_get (z_zrms z) k = Some v"
    "zrms_get (z_zrms z) k = Some v \<Longrightarrow> v \<noteq> LBZ_INVALID_PBID \<Longrightarrow> fs_media s (zone_pbid z k) \<noteq> None"
proof -
  have k32: "k < 2 ^ 32" using k unat_u32_less [of "zmd_zone_nr_blocks (fs_zmd s)"] by simp
  show g: "get_zone_by_pbid K (zone_pbid z k) = p" using inv z k unfolding ftl_inv_def geometry_def by blast
  show i: "unat (pbid_dis z (zone_pbid z k)) = k" by (rule zone_pbid_index(1) [OF k32])
  have "zone_acct (zmd_zone_nr_blocks (fs_zmd s)) z"
    using zmd_wf_zone_ok [OF ftl_inv_facts(1) [OF inv] z] by (simp add: zone_ok_def)
  then show "\<exists>v. zrms_get (z_zrms z) k = Some v"
    using k zrms_get_in_shape [of "z_zrms z" k] by (auto simp: zone_acct_def)
  show "fs_media s (zone_pbid z k) \<noteq> None" if "zrms_get (z_zrms z) k = Some v" "v \<noteq> LBZ_INVALID_PBID"
    by (rule live_mapped(3) [OF inv, of _ v]) (use that z g i in \<open>simp add: live_at_def zmd_rget_def\<close>)
qed

text \<open>Adding operations that lock nothing.\<close>

lemma locks_ok_mono:
  assumes "locks_ok (R + gone)"
  shows "size {#op \<in># R. op_lock op = Some b#} \<le> 1"
proof -
  have "size {#op \<in># R + gone. op_lock op = Some b#} \<le> 1" using assms unfolding locks_ok_def by blast
  then show ?thesis by simp
qed

lemma locks_ok_unlock:
  assumes "locks_ok (R + gone)" "\<And>op. op \<in># new \<Longrightarrow> op_lock op = None"
  shows "locks_ok (R + new)"
proof -
  have "{#op \<in># new. op_lock op = Some b#} = {#}" for b using assms(2) by auto
  then have "size {#op \<in># R + new. op_lock op = Some b#} = size {#op \<in># R. op_lock op = Some b#}" for b
    by (metis add.right_neutral filter_union_mset)
  then show ?thesis using locks_ok_mono [OF assms(1)] unfolding locks_ok_def by metis
qed

lemma locks_ok_lock:
  assumes l: "locks_ok (R + gone)" and n: "\<not> locked (R + gone) b" and op: "op_lock op = Some b"
  shows "locks_ok (R + {#op#})"
proof -
  have e: "{#op \<in># R. op_lock op = Some b#} = {#}" using n by (auto simp: locked_def)
  then show ?thesis using locks_ok_mono [OF l] op by (auto simp: locks_ok_def)
qed

lemma locks_ok_other:
  assumes l: "locks_ok (R + {#op#})" and op: "op_lock op = Some b" "op' \<in># R" "op_lock op' = Some c"
  shows "c \<noteq> b"
proof
  assume c: "c = b"
  have "op' \<in># {#op \<in># R. op_lock op = Some b#}" using op(2,3) c by simp
  then have "1 \<le> size {#op \<in># R. op_lock op = Some b#}" by (metis Suc_leI empty_iff set_mset_empty nonempty_has_size One_nat_def)
  then have "2 \<le> size {#x \<in># R + {#op#}. op_lock x = Some b#}" using op(1) by simp
  then show False using l unfolding locks_ok_def by (metis Suc_1 not_less_eq_eq)
qed

section \<open>Steps that change no data\<close>

lemma ftl_inv_quiet:
  assumes inv: "ftl_inv K s" and ops: "fs_ops s = R + gone"
    and s': "s' = s\<lparr>fs_dev := (fs_dev s)\<lparr>d_zone_metadata := zmd'\<rparr>, fs_ops := R + new\<rparr>"
    and size: "size (R + new) \<le> max_ops" and wf: "zmd_wf zmd'" and rg: "zmd_rget K zmd' = zmd_rget K (fs_zmd s)"
    and k: "zmd_keep dr (\<lambda>p. 0) (fs_zmd s) zmd'"
    and dr: "\<And>p. dr p = of_nat (refs K new p) - of_nat (refs K gone p)"
    and pend: "\<And>p. pend new p = 0" "\<And>p. pend gone p = 0" and lock: "\<And>op. op \<in># new \<Longrightarrow> op_lock op = None"
    and new: "\<And>op. op \<in># new \<Longrightarrow> op_data K s' op"
      "\<And>op q. op \<in># new \<Longrightarrow> op_refs K q op \<noteq> 0 \<Longrightarrow> zmd_zones (fs_zmd s) q \<noteq> None"
    and cov: "\<And>a b op. op \<in># gone \<Longrightarrow> live_at K (fs_zmd s) a b \<Longrightarrow> covers K (fs_zmd s) a b op \<Longrightarrow>
        \<exists>op\<in>#new. covers K (fs_zmd s) a b op"
  shows "ftl_inv K s'"
proof -
  note f = ftl_inv_facts [OF inv]
  have d: "zmd_delta K gone new (fs_zmd s) zmd'" by (rule zmd_delta_keep [OF k pend(1) dr]) (simp add: pend)
  have zones: "zmd_zones zmd' q = None \<longleftrightarrow> zmd_zones (fs_zmd s) q = None" for q
    using zmd_delta_zones [OF f(1) wf] k by (simp add: zmd_keep_def)
  have z': "fs_zmd s' = zmd'" "fs_map s' = fs_map s" "fs_media s' = fs_media s" "fs_ops s' = R + new" by (simp_all add: s')
  show ?thesis
  proof (rule ftl_inv_step [OF inv ops z'(4) size])
    show "maps_ok K (fs_map s') (fs_zmd s')" using f wf rg by (simp add: z' maps_ok_def)
    show "zmd_delta K gone new (fs_zmd s) (fs_zmd s')" using d by (simp add: z')
    show "op_ok K s' op" if "op \<in># new" for op
      using new that zones by (simp add: op_ok_def z')
    show "locks_ok (R + new)" by (rule locks_ok_unlock [OF _ lock]) (use f(5) ops in auto)
    show "mapped_data K s'" using f(7) by (simp add: mapped_data_def z')
    fix a b assume l: "live_at K (fs_zmd s') a b" "phase_at (fs_zmd s') (get_zone_by_pbid K a) PGc"
    have l0: "live_at K (fs_zmd s) a b" "phase_at (fs_zmd s) (get_zone_by_pbid K a) PGc"
      using l zmd_keep_phase [OF k f(1) wf] by (simp_all add: z' rg live_at_def)
    moreover have "\<exists>op\<in>#new. covers K zmd' a b op" if "op \<in># gone" "covers K (fs_zmd s) a b op" for op
      using cov [OF that(1) l0(1) that(2)] covers_step [OF d] by blast
    ultimately show "live_at K (fs_zmd s) a b \<and> phase_at (fs_zmd s) (get_zone_by_pbid K a) PGc \<and>
          (\<forall>op\<in>#gone. covers K (fs_zmd s) a b op \<longrightarrow> (\<exists>op\<in>#new. covers K (fs_zmd s') a b op)) \<or>
        (\<exists>op\<in>#new. covers K (fs_zmd s') a b op)" by (auto simp: z')
  qed (simp_all add: z')
qed

lemma get_zone_ok:
  assumes wf: "zmd_wf zmd" and u: "upd_zone p lbz_get_zone zmd = Some zmd'"
  shows "zmd_wf zmd'" "zmd_rget K zmd' = zmd_rget K zmd" "zmd_keep (one p) (\<lambda>i. 0) zmd zmd'"
proof -
  show "zmd_wf zmd'" by (rule zmd_wf_get_zone [OF wf u])
  show "zmd_keep (one p) (\<lambda>i. 0) zmd zmd'" by (rule get_keep [OF u])
  from u obtain z where z: "zmd_zones zmd p = Some z" "zmd' = zmd\<lparr>zmd_zones := (zmd_zones zmd)(p \<mapsto> lbz_get_zone z)\<rparr>"
    by (auto simp: upd_zone_Some)
  have "zmd_rget K zmd' q = zmd_rget K zmd q" for q
    by (rule zmd_rget_cong [OF z(1), of "lbz_get_zone z"]) (simp_all add: z zone_simps)
  then show "zmd_rget K zmd' = zmd_rget K zmd" by (rule ext)
qed

lemma put_zone_facts:
  assumes wf: "zmd_wf zmd" and u: "upd_zone p lbz_put_zone zmd = Some zmd'"
  shows "zmd_wf zmd'" "zmd_rget K zmd' = zmd_rget K zmd" "zmd_keep (\<lambda>i. - one p i) (\<lambda>i. 0) zmd zmd'"
proof -
  have "zmd_zones zmd p \<noteq> None" using u by (auto simp: upd_zone_Some)
  from put_zone_ok [OF wf this, of K] u show "zmd_wf zmd'" "zmd_rget K zmd' = zmd_rget K zmd" by auto
  show "zmd_keep (\<lambda>i. - one p i) (\<lambda>i. 0) zmd zmd'" by (rule put_keep [OF u])
qed

lemma lookup_found:
  assumes "lbz_mapping_lookup K m b zmd = Some (Inr (p, a), zmd')"
  shows "map_get K m b = Some a" "a \<noteq> LBZ_INVALID_PBID" "p = get_zone_by_pbid K a" "upd_zone p lbz_get_zone zmd = Some zmd'"
  using assms unfolding lookup_eq by (auto simp: bind_eq_Some_conv split: if_splits)

lemma inv_read_start:
  assumes inv: "ftl_inv K s" and size: "size (fs_ops s) < max_ops"
    and l: "lbz_mapping_lookup K (fs_map s) b (fs_zmd s) = Some (Inr (p, a), zmd')"
  shows "ftl_inv K (s\<lparr>fs_dev := (fs_dev s)\<lparr>d_zone_metadata := zmd'\<rparr>, fs_ops := fs_ops s + {#FRead p a (fs_media s a)#}\<rparr>)"
proof -
  note lf = lookup_found [OF l]
  note g = get_zone_ok [OF ftl_inv_facts(1) [OF inv] lf(4)]
  have m: "fs_media s a \<noteq> None" using ftl_inv_facts(7) [OF inv] lf(1,2) unfolding mapped_data_def by blast
  have z: "zmd_zones (fs_zmd s) p \<noteq> None" using lf(4) by (auto simp: upd_zone_Some)
  show ?thesis
    by (rule ftl_inv_quiet [OF inv _ refl _ g(1,2,3), of _ "{#}"])
      (use size m z lf(3) in \<open>auto simp: one_def\<close>)
qed

lemma inv_read_done:
  assumes inv: "ftl_inv K s" and ops: "fs_ops s = R + {#FRead p a v#}"
    and u: "upd_zone p lbz_put_zone (fs_zmd s) = Some zmd'"
  shows "ftl_inv K (s\<lparr>fs_dev := (fs_dev s)\<lparr>d_zone_metadata := zmd'\<rparr>, fs_ops := R\<rparr>)"
proof -
  note g = put_zone_facts [OF ftl_inv_facts(1) [OF inv] u]
  show ?thesis
    by (rule ftl_inv_quiet [OF inv ops _ _ g(1,2,3), of _ "{#}"])
      (use ftl_inv_facts(6) [OF inv] ops in \<open>auto simp: one_def\<close>)
qed

text \<open>The scan of a zone.\<close>

lemma wp_le: "ftl_inv K s \<Longrightarrow> zmd_zones (fs_zmd s) p = Some z \<Longrightarrow> unat (z_wp_block z) \<le> unat (zmd_zone_nr_blocks (fs_zmd s))"
  using zmd_wf_zone_ok [OF ftl_inv_facts(1), of K s p z] by (simp add: zone_ok_def zone_acct_def word_le_nat_alt)

lemma scan_next_covers:
  assumes wf: "zmd_wf (fs_zmd s)" and l: "live_at K (fs_zmd s) a b" and z: "zmd_zones (fs_zmd s) p = Some z"
    and c: "covers K (fs_zmd s) a b (FScan p k pos)" and nx: "\<forall>v. zrms_get (z_zrms z) (k + 1) = Some v \<longrightarrow> pos' = v"
    and nk: "\<not> (unat (pbid_dis z a) = k \<and> pos = b)"
  shows "covers K (fs_zmd s) a b (FScan p (k + 1) pos')"
proof -
  have p: "p = get_zone_by_pbid K a" and k: "k < unat (pbid_dis z a)" using c z nk by auto
  note lb = live_below [OF wf l, unfolded p [symmetric], OF z]
  show ?thesis using p z k nx lb(2) by (cases "unat (pbid_dis z a) = k + 1") auto
qed

lemma scan_next_data:
  assumes inv: "ftl_inv K s" and z: "zmd_zones (fs_zmd s) p = Some z"
    and nx: "\<forall>v. zrms_get (z_zrms z) (k + 1) = Some v \<longrightarrow> pos' = v"
    and pos: "pos' \<noteq> LBZ_INVALID_PBID" and k: "k + 1 < unat (zmd_zone_nr_blocks (fs_zmd s))"
  shows "fs_media s (zone_pbid z (k + 1)) \<noteq> None"
proof -
  note si = scan_index [OF inv z k]
  from si(3) nx have "zrms_get (z_zrms z) (k + 1) = Some pos'" by auto
  then show ?thesis by (rule si(4) [OF _ pos])
qed

lemma inv_scan_entry:
  assumes inv: "ftl_inv K s" and size: "size (fs_ops s) < max_ops" and ops: "fs_ops s = R + {#FScan p k pos#}"
    and z: "zmd_zones (fs_zmd s) p = Some z" and k: "k < unat (z_wp_block z)" and pos: "pos \<noteq> LBZ_INVALID_PBID"
    and u: "upd_zone p lbz_get_zone (fs_zmd s) = Some zmd'" and nx: "\<forall>v. zrms_get (z_zrms z) (k + 1) = Some v \<longrightarrow> pos' = v"
  shows "ftl_inv K (s\<lparr>fs_dev := (fs_dev s)\<lparr>d_zone_metadata := zmd'\<rparr>,
           fs_ops := R + {#FCopy pos (zone_pbid z k), FScan p (k + 1) pos'#}\<rparr>)" (is "ftl_inv K ?s'")
proof -
  note f = ftl_inv_facts [OF inv]
  note g = get_zone_ok [OF f(1) u]
  have kn: "k < unat (zmd_zone_nr_blocks (fs_zmd s))" using k wp_le [OF inv z] by simp
  note si = scan_index [OF inv z kn]
  have m: "fs_media s (zone_pbid z k) \<noteq> None"
    using ftl_inv_op [OF inv, of "FScan p k pos"] ops z pos kn by (auto simp: op_ok_def)
  from u obtain y where y: "zmd' = (fs_zmd s)\<lparr>zmd_zones := (zmd_zones (fs_zmd s))(p \<mapsto> lbz_get_zone z)\<rparr>"
    using z by (auto simp: upd_zone_Some)
  have nz: "op_data K ?s' op" if "op \<in># {#FCopy pos (zone_pbid z k), FScan p (k + 1) pos'#}" for op
    using that m scan_next_data [OF inv z nx] by (auto simp: y zone_pbid_def zone_simps)
  show ?thesis
  proof (rule ftl_inv_quiet [OF inv ops refl _ g(1,2,3)])
    fix a b op assume op: "op \<in># {#FScan p k pos#}" and l: "live_at K (fs_zmd s) a b" and c: "covers K (fs_zmd s) a b op"
    show "\<exists>op\<in>#{#FCopy pos (zone_pbid z k), FScan p (k + 1) pos'#}. covers K (fs_zmd s) a b op"
    proof (cases "unat (pbid_dis z a) = k \<and> pos = b")
      case True
      have "k < 2 ^ 32" using kn unat_u32_less [of "zmd_zone_nr_blocks (fs_zmd s)"] by simp
      from zone_pbid_index(2) [OF this, of z a] True show ?thesis by auto
    next
      case False
      then show ?thesis using scan_next_covers [OF f(1) l z _ nx] c op by auto
    qed
  qed (use size ops z si(1) nz in \<open>auto simp: one_def\<close>)
qed

lemma inv_scan_skip:
  assumes inv: "ftl_inv K s" and ops: "fs_ops s = R + {#FScan p k LBZ_INVALID_PBID#}"
    and z: "zmd_zones (fs_zmd s) p = Some z" and k: "k < unat (z_wp_block z)"
    and nx: "\<forall>v. zrms_get (z_zrms z) (k + 1) = Some v \<longrightarrow> pos' = v"
  shows "ftl_inv K (s\<lparr>fs_ops := R + {#FScan p (k + 1) pos'#}\<rparr>)" (is "ftl_inv K ?s'")
proof -
  note f = ftl_inv_facts [OF inv]
  have nz: "op_data K ?s' op" if "op \<in># {#FScan p (k + 1) pos'#}" for op
    using that z scan_next_data [OF inv z nx] by auto
  have keep: "zmd_keep (\<lambda>p. 0) (\<lambda>p. 0) (fs_zmd s) (fs_zmd s)" by (rule zmd_keep_frame) simp
  show ?thesis
  proof (rule ftl_inv_quiet [OF inv ops _ _ f(1) refl keep])
    fix a b op assume op: "op \<in># {#FScan p k LBZ_INVALID_PBID#}" and l: "live_at K (fs_zmd s) a b" and c: "covers K (fs_zmd s) a b op"
    then show "\<exists>op\<in>#{#FScan p (k + 1) pos'#}. covers K (fs_zmd s) a b op"
      using scan_next_covers [OF f(1) l z _ nx, of LBZ_INVALID_PBID] by (auto simp: live_at_def)
  qed (use f(6) ops z nz in auto)
qed

text \<open>The end of a scan sets a flag that no phase depends on.\<close>

lemma scan_end_ok:
  assumes wf: "zmd_wf zmd" and e: "ftl_scan_end p zmd = Some zmd'"
  shows "zmd_wf zmd'" "zmd_rget K zmd' = zmd_rget K zmd" "zmd_keep (\<lambda>i. - one p i) (\<lambda>i. 0) zmd zmd'"
proof -
  from e obtain zmd1 where u: "upd_zone p (lbz_set_zone_state LBZ_ZONE_GC_COMPLETED) zmd = Some zmd1"
      "upd_zone p lbz_put_zone zmd1 = Some zmd'" by (auto simp: ftl_scan_end_def bind_eq_Some_conv)
  from u(1) obtain z where z: "zmd_zones zmd p = Some z" and zmd1: "zmd1 = zmd\<lparr>zmd_zones := (zmd_zones zmd)(p \<mapsto>
      lbz_set_zone_state LBZ_ZONE_GC_COMPLETED z)\<rparr>" by (auto simp: upd_zone_Some)
  have ph: "zone_phase (lbz_set_zone_state LBZ_ZONE_GC_COMPLETED y) = zone_phase y" for y
    by (simp add: zone_phase_def bit_flags)
  have acct: "zone_acct (zmd_zone_nr_blocks zmd) (lbz_set_zone_state LBZ_ZONE_GC_COMPLETED z)"
    using zmd_wf_zone_ok [OF wf z] by (simp add: zone_ok_def zone_simps)
  have wf1: "zmd_wf zmd1"
    unfolding zmd1 by (rule zmd_wf_upd_same [OF wf z ph _ _ acct]) (simp_all add: zone_simps)
  have r1: "zmd_rget K zmd1 q = zmd_rget K zmd q" for q
    by (rule zmd_rget_cong [OF z, of "lbz_set_zone_state LBZ_ZONE_GC_COMPLETED z"]) (simp_all add: zmd1 zone_simps)
  have k1: "zmd_keep (\<lambda>i. 0 * one p i) (\<lambda>i. 0 * one p i) zmd zmd1"
    by (rule zmd_keep_upd [OF u(1)]) (simp add: zone_keep_def ph zone_simps bit_flags)
  note pf = put_zone_facts [OF wf1 u(2)]
  show "zmd_wf zmd'" by (rule pf(1))
  show "zmd_rget K zmd' = zmd_rget K zmd" using pf(2) [of K] r1 by auto
  show "zmd_keep (\<lambda>i. - one p i) (\<lambda>i. 0) zmd zmd'" using zmd_keep_trans [OF k1 pf(3)] by simp
qed

lemma inv_scan_end:
  assumes inv: "ftl_inv K s" and ops: "fs_ops s = R + {#FScan p k pos#}" and z: "zmd_zones (fs_zmd s) p = Some z"
    and k: "unat (z_wp_block z) \<le> k" and e: "ftl_scan_end p (fs_zmd s) = Some zmd'"
  shows "ftl_inv K (s\<lparr>fs_dev := (fs_dev s)\<lparr>d_zone_metadata := zmd'\<rparr>, fs_ops := R\<rparr>)"
proof -
  note f = ftl_inv_facts [OF inv]
  note g = scan_end_ok [OF f(1) e]
  show ?thesis
  proof (rule ftl_inv_quiet [OF inv ops _ _ g, of _ "{#}"])
    fix a b op assume op: "op \<in># {#FScan p k pos#}" and l: "live_at K (fs_zmd s) a b" and c: "covers K (fs_zmd s) a b op"
    then have "p = get_zone_by_pbid K a" "k \<le> unat (pbid_dis z a)" using z by auto
    then show "\<exists>op\<in>#{#}. covers K (fs_zmd s) a b op" using live_below(1) [OF f(1) l, of z] z k by simp
  qed (use f(6) ops in \<open>auto simp: one_def\<close>)
qed

section \<open>Copies that have not been given a zone\<close>

lemma inv_copy_read:
  assumes inv: "ftl_inv K s" and ops: "fs_ops s = R + {#FCopy b old#}"
  shows "ftl_inv K (s\<lparr>fs_ops := R + {#FHold b old (fs_media s old)#}\<rparr>)"
proof -
  note f = ftl_inv_facts [OF inv]
  have o: "op_ok K s (FCopy b old)" using ftl_inv_op [OF inv] ops by simp
  have keep: "zmd_keep (\<lambda>p. 0) (\<lambda>p. 0) (fs_zmd s) (fs_zmd s)" by (rule zmd_keep_frame) simp
  show ?thesis
    by (rule ftl_inv_quiet [OF inv ops _ _ f(1) refl keep, of _ "{#FHold b old (fs_media s old)#}"])
      (use f(6) ops o in \<open>auto simp: op_ok_def\<close>)
qed

text \<open>A copy is dropped only when the block is no longer where the scan saw it.\<close>

lemma inv_drop:
  assumes inv: "ftl_inv K s" and ops: "fs_ops s = R + {#FHold b old v#}" and m: "map_get K (fs_map s) b \<noteq> Some old"
    and wf: "zmd_wf zmd'" and rg: "zmd_rget K zmd' = zmd_rget K (fs_zmd s)"
    and k: "zmd_keep (\<lambda>i. - one (get_zone_by_pbid K old) i) (\<lambda>i. 0) (fs_zmd s) zmd'"
  shows "ftl_inv K (s\<lparr>fs_dev := (fs_dev s)\<lparr>d_zone_metadata := zmd'\<rparr>, fs_ops := R\<rparr>)"
proof (rule ftl_inv_quiet [OF inv ops _ _ wf rg k, of _ "{#}"])
  fix a c op assume "op \<in># {#FHold b old v#}" and "live_at K (fs_zmd s) a c" and "covers K (fs_zmd s) a c op"
  then show "\<exists>op\<in>#{#}. covers K (fs_zmd s) a c op" using live_mapped(1) [OF inv, of a c] m by simp
qed (use ftl_inv_facts(6) [OF inv] ops in \<open>auto simp: one_def\<close>)

lemma gc_check_ok:
  assumes inv: "ftl_inv K s" and c: "ftl_gc_check K b old (fs_map s) (fs_zmd s) = Some (r, zmd1)"
  shows "zmd_wf zmd1 \<and> zmd_rget K zmd1 = zmd_rget K (fs_zmd s) \<and> zmd_keep (\<lambda>i. 0) (\<lambda>i. 0) (fs_zmd s) zmd1 \<and>
    (r \<longleftrightarrow> map_get K (fs_map s) b = Some old \<and> old \<noteq> LBZ_INVALID_PBID)"
proof -
  note wf = ftl_inv_facts(1) [OF inv]
  from c obtain q where q: "map_get K (fs_map s) b = Some q" by (auto simp: ftl_gc_check_def lookup_eq bind_eq_Some_conv)
  show ?thesis
  proof (cases "q = LBZ_INVALID_PBID")
    case True
    then have "zmd1 = fs_zmd s" "\<not> r" using c q by (auto simp: ftl_gc_check_def lookup_eq)
    then show ?thesis using wf q True by (auto intro: zmd_keep_frame)
  next
    case False
    let ?p = "get_zone_by_pbid K q"
    from c q False obtain zmd0 where u: "upd_zone ?p lbz_get_zone (fs_zmd s) = Some zmd0"
        "upd_zone ?p lbz_put_zone zmd0 = Some zmd1" "r \<longleftrightarrow> q = old"
      by (auto simp: ftl_gc_check_def lookup_eq bind_eq_Some_conv split: if_splits)
    note g = get_zone_ok [OF wf u(1)]
    note pt = put_zone_facts [OF g(1) u(2)]
    have "zmd_keep (\<lambda>i. 0) (\<lambda>i. 0) (fs_zmd s) zmd1" using zmd_keep_trans [OF g(3) pt(3)] by simp
    then show ?thesis using g(2) [of K] pt(1) pt(2) [of K] u(3) q False by auto
  qed
qed

text \<open>The check itself leaves the invariant alone.\<close>

lemma inv_gc_check:
  assumes inv: "ftl_inv K s" and c: "ftl_gc_check K b old (fs_map s) (fs_zmd s) = Some (r, zmd1)"
  shows "ftl_inv K (s\<lparr>fs_dev := (fs_dev s)\<lparr>d_zone_metadata := zmd1\<rparr>\<rparr>)"
proof -
  have g: "zmd_wf zmd1" "zmd_rget K zmd1 = zmd_rget K (fs_zmd s)" "zmd_keep (\<lambda>i. 0) (\<lambda>i. 0) (fs_zmd s) zmd1"
    using gc_check_ok [OF assms] by simp_all
  show ?thesis
    by (rule ftl_inv_quiet [OF inv _ _ _ g, of "fs_ops s" "{#}" _ "{#}"]) (use ftl_inv_facts(6) [OF inv] in auto)
qed

lemma inv_move_skip:
  assumes inv: "ftl_inv K s" and ops: "fs_ops s = R + {#FHold b old v#}"
    and c: "ftl_gc_check K b old (fs_map s) (fs_zmd s) = Some (False, zmd1)"
    and u: "upd_zone (get_zone_by_pbid K old) lbz_put_zone zmd1 = Some zmd2"
  shows "ftl_inv K (s\<lparr>fs_dev := (fs_dev s)\<lparr>d_zone_metadata := zmd2\<rparr>, fs_ops := R\<rparr>)"
proof -
  have g: "zmd_wf zmd1" "zmd_rget K zmd1 = zmd_rget K (fs_zmd s)" "zmd_keep (\<lambda>i. 0) (\<lambda>i. 0) (fs_zmd s) zmd1"
    and m: "map_get K (fs_map s) b \<noteq> Some old \<or> old = LBZ_INVALID_PBID"
    using gc_check_ok [OF inv c] by auto
  note pt = put_zone_facts [OF g(1) u]
  have k: "zmd_keep (\<lambda>i. - one (get_zone_by_pbid K old) i) (\<lambda>i. 0) (fs_zmd s) zmd2"
    using zmd_keep_trans [OF g(3) pt(3)] by simp
  have r: "zmd_rget K zmd2 = zmd_rget K (fs_zmd s)" using g(2) pt(2) [of K] by simp
  show ?thesis
  proof (rule ftl_inv_quiet [OF inv ops _ _ pt(1) r k, of _ "{#}"])
    fix a d op assume "op \<in># {#FHold b old v#}" and "live_at K (fs_zmd s) a d" and "covers K (fs_zmd s) a d op"
    then show "\<exists>op\<in>#{#}. covers K (fs_zmd s) a d op" using live_mapped(1,2) [OF inv, of a d] m by auto
  qed (use ftl_inv_facts(6) [OF inv] ops in \<open>auto simp: one_def\<close>)
qed

section \<open>Allocation\<close>

lemma alloc_delta:
  assumes wf: "zmd_wf zmd" and sid: "sid < LBZ_ZONE_MAX_STREAM"
    and al: "lbz_zone_alloc_res ss fy md sid zmd gc = Some (Inr p, zmd', gc')"
    and r: "\<And>q. refs K new q = refs K gone q + of_bool (p = q)"
    and w: "\<And>q. pend new q = of_bool (p = q)" "\<And>q. pend gone q = 0"
  shows "zmd_delta K gone new zmd zmd'"
proof -
  from alloc_res_step [OF wf sid al] obtain z z' where
    z: "alloc_refs z z'" "zmd_const zmd zmd'" "zmd_zones zmd p = Some z" "zmd_zones zmd' p = Some z'"
      "z_pending_write_io z' = z_pending_write_io z + 1" "z_zrms z' = z_zrms z" "z_start_sector z' = z_start_sector z"
      "zone_phase z' = (if z_wp_block z' = zmd_zone_nr_blocks zmd then PToFull else PActive)"
      "\<And>q. q \<noteq> p \<Longrightarrow> zmd_zones zmd' q = zmd_zones zmd q" by blast
  have ph: "zone_phase z' = PActive \<or> zone_phase z' = PToFull" using z(8) by simp
  have nf: "zone_phase z \<noteq> PToFull"
  proof
    assume "zone_phase z = PToFull"
    then have "z_wp_block z = zmd_zone_nr_blocks zmd" using zmd_wf_zone_ok [OF wf z(3)] by (simp add: zone_ok_def)
    then show False using alloc_res_step [OF wf sid al] z(3) by auto
  qed
  have one: "zone_delta 1 1 z z'" using z(1,5-7) ph nf by (auto simp: zone_delta_def alloc_refs_def)
  have zero: "zone_delta 0 0 y y" for y by (simp add: zone_delta_def)
  show ?thesis
    unfolding zmd_delta_def
  proof (intro conjI allI impI)
    fix q y assume y: "zmd_zones zmd q = Some y"
    show "\<exists>z'. zmd_zones zmd' q = Some z' \<and> (pend new q \<noteq> 0 \<longrightarrow> zone_phase z' = PActive \<or> zone_phase z' = PToFull) \<and>
       zone_delta (of_nat (refs K new q) - of_nat (refs K gone q)) (of_nat (pend new q) - of_nat (pend gone q)) y z'"
      by (cases "q = p") (use y z(3,4,9) one zero ph in \<open>simp_all add: r w\<close>)
  qed (rule z(2))
qed

lemma alloc_rget:
  assumes "zmd_wf zmd" "sid < LBZ_ZONE_MAX_STREAM" "lbz_zone_alloc_res ss fy md sid zmd gc = Some (Inr p, zmd', gc')"
  shows "zmd_rget K zmd' = zmd_rget K zmd"
proof
  fix q
  from alloc_res_step [OF assms] obtain z z' where "zmd_zones zmd p = Some z" "zmd_zones zmd' p = Some z'"
    "z_zrms z' = z_zrms z" "z_start_sector z' = z_start_sector z" "\<forall>q. q \<noteq> p \<longrightarrow> zmd_zones zmd' q = zmd_zones zmd q" by blast
  then show "zmd_rget K zmd' q = zmd_rget K zmd q"
    by (intro zmd_rget_cong [of zmd p z z']) (auto simp: fun_eq_iff)
qed

lemma alloc_phase:
  assumes wf: "zmd_wf zmd" "sid < LBZ_ZONE_MAX_STREAM" "lbz_zone_alloc_res ss fy md sid zmd gc = Some (Inr p, zmd', gc')"
    and ph: "phase_at zmd' q PGc"
  shows "phase_at zmd q PGc"
proof -
  from alloc_res_step [OF wf] obtain z' where "zmd_zones zmd' p = Some z'"
    "zone_phase z' = (if z_wp_block z' = zmd_zone_nr_blocks zmd then PToFull else PActive)"
    "\<forall>q. q \<noteq> p \<longrightarrow> zmd_zones zmd' q = zmd_zones zmd q" by blast
  then show ?thesis using ph by (cases "q = p") (auto simp: phase_at_def split: if_splits)
qed

lemma inv_alloc:
  assumes inv: "ftl_inv K s" and ops: "fs_ops s = R + gone" and sid: "sid < LBZ_ZONE_MAX_STREAM"
    and al: "lbz_zone_alloc_res ss fy md sid (fs_zmd s) gc = Some (Inr p, zmd', gc')"
    and s': "s' = s\<lparr>fs_dev := (fs_dev s)\<lparr>d_zone_metadata := zmd', d_gc_ctx := gc'\<rparr>, fs_ops := R + {#op#}\<rparr>"
    and size: "size R < max_ops" and wfz: "zmd_wf zmd'"
    and r: "\<And>q. op_refs K q op = refs K gone q + of_bool (p = q)"
    and w: "\<And>q. op_pend q op = of_bool (p = q)" "\<And>q. pend gone q = 0"
    and op: "op_lock op = Some b" "\<not> locked (fs_ops s) b" "op_data K s op"
    and zones: "\<And>q. refs K gone q \<noteq> 0 \<Longrightarrow> zmd_zones (fs_zmd s) q \<noteq> None"
    and cov: "\<And>a b op'. op' \<in># gone \<Longrightarrow> covers K (fs_zmd s) a b op' \<Longrightarrow> covers K (fs_zmd s) a b op"
  shows "ftl_inv K s'"
proof -
  note f = ftl_inv_facts [OF inv]
  note rg = alloc_rget [OF f(1) sid al, of K]
  have d: "zmd_delta K gone {#op#} (fs_zmd s) zmd'" by (rule alloc_delta [OF f(1) sid al]) (simp_all add: r w)
  have z': "fs_zmd s' = zmd'" "fs_map s' = fs_map s" "fs_media s' = fs_media s" "fs_ops s' = R + {#op#}"
    by (simp_all add: s')
  have zn: "zmd_zones zmd' q = None \<longleftrightarrow> zmd_zones (fs_zmd s) q = None" for q
    using zmd_delta_zones [OF f(1) wfz] d by (simp add: zmd_delta_def)
  have pz: "zmd_zones (fs_zmd s) p \<noteq> None" using alloc_res_step [OF f(1) sid al] by auto
  show ?thesis
  proof (rule ftl_inv_step [OF inv ops z'(4)])
    show "maps_ok K (fs_map s') (fs_zmd s')" using f wfz rg by (simp add: z' maps_ok_def)
    show "zmd_delta K gone {#op#} (fs_zmd s) (fs_zmd s')" using d by (simp add: z')
    have "op_data K s' op" using op(1,3) by (cases op) (simp_all add: z')
    moreover have "zmd_zones zmd' q \<noteq> None" if "op_refs K q op \<noteq> 0" for q
      using that zn zones [of q] pz by (cases "p = q") (auto simp: r)
    ultimately show "op_ok K s' x" if "x \<in># {#op#}" for x using that by (simp add: op_ok_def z')
    show "locks_ok (R + {#op#})" by (rule locks_ok_lock [OF _ _ op(1)]) (use f(5) op(2) ops in auto)
    show "mapped_data K s'" using f(7) by (simp add: mapped_data_def z')
    fix a c assume l: "live_at K (fs_zmd s') a c" "phase_at (fs_zmd s') (get_zone_by_pbid K a) PGc"
    have "live_at K (fs_zmd s) a c" "phase_at (fs_zmd s) (get_zone_by_pbid K a) PGc"
      using l alloc_phase [OF f(1) sid al] rg by (simp_all add: z' live_at_def)
    moreover have "covers K zmd' a c op" if "op' \<in># gone" "covers K (fs_zmd s) a c op'" for op'
      using covers_step [OF d cov [OF that]] .
    ultimately show "live_at K (fs_zmd s) a c \<and> phase_at (fs_zmd s) (get_zone_by_pbid K a) PGc \<and>
          (\<forall>op'\<in>#gone. covers K (fs_zmd s) a c op' \<longrightarrow> (\<exists>op\<in>#{#op#}. covers K (fs_zmd s') a c op)) \<or>
        (\<exists>op\<in>#{#op#}. covers K (fs_zmd s') a c op)" by (auto simp: z')
  qed (use size in \<open>simp_all add: z'\<close>)
qed

lemma alloc_wf:
  assumes "zmd_wf zmd" "sid < LBZ_ZONE_MAX_STREAM" "lbz_zone_alloc_res ss fy md sid zmd gc = Some (Inr p, zmd', gc')"
  shows "zmd_wf zmd'"
  using alloc_res_success [OF assms(1,2) alloc_res_not_blocked [OF assms(3)], of ss gc] assms(3) take_block_wf by fastforce

lemma inv_write_start:
  assumes inv: "ftl_inv K s" and size: "size (fs_ops s) < max_ops" and b: "map_get K (fs_map s) b \<noteq> None"
    and l: "\<not> locked (fs_ops s) b" and sid: "sid < LBZ_ZONE_MAX_STREAM"
    and al: "lbz_zone_alloc_res ss fy md sid (fs_zmd s) gc = Some (Inr p, zmd', gc')"
  shows "ftl_inv K (s\<lparr>fs_dev := (fs_dev s)\<lparr>d_zone_metadata := zmd', d_gc_ctx := gc'\<rparr>, fs_ops := fs_ops s + {#FWrite p b v#}\<rparr>)"
  by (rule inv_alloc [OF inv _ sid al refl size alloc_wf [OF ftl_inv_facts(1) [OF inv] sid al], of "{#}" _ b])
    (use b l in auto)

lemma inv_move_start:
  assumes inv: "ftl_inv K s" and ops: "fs_ops s = R + {#FHold b old v#}" and l: "\<not> locked (fs_ops s) b"
    and sid: "sid < LBZ_ZONE_MAX_STREAM" and c: "ftl_gc_check K b old (fs_map s) (fs_zmd s) = Some (True, zmd1)"
    and al: "lbz_zone_alloc_res ss fy md sid zmd1 gc = Some (Inr p, zmd2, gc')"
  shows "ftl_inv K (s\<lparr>fs_dev := (fs_dev s)\<lparr>d_zone_metadata := zmd2, d_gc_ctx := gc'\<rparr>, fs_ops := R + {#FMove p b old v#}\<rparr>)"
proof -
  let ?s = "s\<lparr>fs_dev := (fs_dev s)\<lparr>d_zone_metadata := zmd1\<rparr>\<rparr>"
  have inv1: "ftl_inv K ?s" by (rule inv_gc_check [OF inv c])
  have m: "map_get K (fs_map s) b = Some old" "old \<noteq> LBZ_INVALID_PBID" using gc_check_ok [OF inv c] by auto
  have o: "op_ok K ?s (FHold b old v)" using ftl_inv_op [OF inv1, of "FHold b old v"] ops by simp
  have al': "lbz_zone_alloc_res ss fy md sid (fs_zmd ?s) gc = Some (Inr p, zmd2, gc')" using al by simp
  have size: "size R < max_ops" using ftl_inv_facts(6) [OF inv] ops by simp
  show ?thesis
    by (rule inv_alloc [OF inv1 _ sid al' _ size alloc_wf [OF ftl_inv_facts(1) [OF inv1] sid al'], of "{#FHold b old v#}" _ "FMove p b old v" b])
      (use ops l m o in \<open>auto simp: op_ok_def split: if_splits\<close>)
qed

section \<open>A write or a copy reaches its address\<close>

lemma fresh_append_ok:
  assumes inv: "ftl_inv K s" and a: "fresh_append K s p a" and op: "op \<in># fs_ops s" "op_pend p op \<noteq> 0"
  shows "append_ok K (fs_zmd s) p a" "\<not> phase_at (fs_zmd s) p PGc"
proof -
  note f = ftl_inv_facts [OF inv]
  from a obtain z where z: "zmd_zones (fs_zmd s) p = Some z" and i: "unat (pbid_dis z a) < unat (z_wp_block z)"
    and p: "get_zone_by_pbid K a = p" "a \<noteq> LBZ_INVALID_PBID" "fs_media s a = None" by (auto simp: fresh_append_def)
  note c = ftl_inv_counts [OF inv z]
  have "pend (fs_ops s) p \<noteq> 0" using op by (auto simp: pend_def sum_mset_0_iff)
  then have w: "z_pending_write_io z \<noteq> 0" using c pend_0 [OF f(6)] by (simp add: zone_counts_def)
  then show "\<not> phase_at (fs_zmd s) p PGc" using c z by (auto simp: zone_counts_def phase_at_def)
  have "unat (pbid_dis z a) < unat (zmd_zone_nr_blocks (fs_zmd s))" using i wp_le [OF inv z] by simp
  from scan_index(3) [OF inv z this] obtain v where v: "zrms_get (z_zrms z) (unat (pbid_dis z a)) = Some v" by blast
  have "v = LBZ_INVALID_PBID"
  proof (rule ccontr)
    assume "v \<noteq> LBZ_INVALID_PBID"
    then have "live_at K (fs_zmd s) a v" using v z p(1) by (simp add: live_at_def zmd_rget_def)
    from live_mapped(3) [OF inv this] p(3) show False by simp
  qed
  then show "append_ok K (fs_zmd s) p a" using z i p w v by (simp add: append_ok_def)
qed

lemma inv_commit:
  assumes inv: "ftl_inv K s" and ops: "fs_ops s = R + {#op#}" and a: "fresh_append K s p a"
    and op: "op_lock op = Some b" "op_pend p op \<noteq> 0" "\<And>x y. covers K (fs_zmd s) x y op \<Longrightarrow> x = old"
    and s': "s' = s\<lparr>fs_dev := (fs_dev s)\<lparr>d_mapping := m', d_zone_metadata := zmd'\<rparr>, fs_media := (fs_media s)(a := v), fs_ops := R\<rparr>"
    and v: "v \<noteq> None" and maps: "maps_ok K m' zmd'" and m': "map_get K m' = (map_get K (fs_map s))(b \<mapsto> a)"
    and rg: "zmd_rget K zmd' = (drop_entry old (zmd_rget K (fs_zmd s)))(a \<mapsto> b)"
    and k: "zmd_keep dr dp (fs_zmd s) zmd'" and dr: "\<And>q. dr q = - of_nat (op_refs K q op)" "\<And>q. dp q = - of_nat (op_pend q op)"
  shows "ftl_inv K s'"
proof -
  note f = ftl_inv_facts [OF inv]
  have wfz: "zmd_wf zmd'" using maps by (simp add: maps_ok_def)
  note ap = fresh_append_ok [OF inv a, of op]
  have fresh: "fs_media s a = None" "get_zone_by_pbid K a = p" using a by (auto simp: fresh_append_def)
  have d: "zmd_delta K {#op#} {#} (fs_zmd s) zmd'" by (rule zmd_delta_keep [OF k]) (simp_all add: dr)
  have z': "fs_zmd s' = zmd'" "fs_map s' = m'" "fs_media s' = (fs_media s)(a := v)" "fs_ops s' = R + {#}" by (simp_all add: s')
  show ?thesis
  proof (rule ftl_inv_step [OF inv ops z'(4)])
    show "maps_ok K (fs_map s') (fs_zmd s')" using maps by (simp add: z')
    show "zmd_delta K {#op#} {#} (fs_zmd s) (fs_zmd s')" using d by (simp add: z')
    show "size (R + {#}) \<le> max_ops" using f(6) ops by simp
    show "fs_media s' x = fs_media s x" if "fs_media s x \<noteq> None" for x using that fresh(1) by (auto simp: z')
    show "map_get K (fs_map s') c \<noteq> None" if "map_get K (fs_map s) c \<noteq> None" for c using that by (simp add: z' m')
    show "map_get K (fs_map s') c = map_get K (fs_map s) c" if "FMove q c o' w \<in># R" for q c o' w
      using locks_ok_other [OF f(5) [unfolded ops] op(1) that] by (simp add: z' m')
    show "locks_ok (R + {#})" by (rule locks_ok_unlock [OF f(5) [unfolded ops]]) simp
    show "mapped_data K s'"
      unfolding mapped_data_def z' m'
    proof (intro allI impI)
      fix c x assume x: "((map_get K (fs_map s))(b \<mapsto> a)) c = Some x" "x \<noteq> LBZ_INVALID_PBID"
      show "((fs_media s)(a := v)) x \<noteq> None"
      proof (cases "c = b")
        case False
        then have "fs_media s x \<noteq> None" using f(7) x unfolding mapped_data_def by auto
        then show ?thesis using fresh(1) by auto
      qed (use x v in auto)
    qed
    fix x y assume l: "live_at K (fs_zmd s') x y" "phase_at (fs_zmd s') (get_zone_by_pbid K x) PGc"
    have ph: "phase_at (fs_zmd s) (get_zone_by_pbid K x) PGc" using l(2) zmd_keep_phase [OF k f(1) wfz] by (simp add: z')
    then have xa: "x \<noteq> a" using ap(2) op(2) ops fresh(2) by auto
    then have "live_at K (fs_zmd s) x y" "x \<noteq> old \<or> old = LBZ_INVALID_PBID"
      using l(1) by (auto simp: z' live_at_def rg drop_entry_def split: if_splits)
    then show "live_at K (fs_zmd s) x y \<and> phase_at (fs_zmd s) (get_zone_by_pbid K x) PGc \<and>
          (\<forall>op\<in>#{#op#}. covers K (fs_zmd s) x y op \<longrightarrow> (\<exists>op\<in>#{#}. covers K (fs_zmd s') x y op)) \<or>
        (\<exists>op\<in>#{#}. covers K (fs_zmd s') x y op)"
      using ph op(3) [of x y] live_mapped(2) [OF inv, of x y] by auto
  qed simp_all
qed

text \<open>Both completions go through, and their result keeps the invariant.\<close>

lemma inv_write_done:
  assumes inv: "ftl_inv K s" and ops: "fs_ops s = R + {#FWrite p b v#}" and a: "fresh_append K s p a"
  shows "\<exists>m' zmd'. ftl_write_done K p b a (fs_map s, fs_zmd s) = Some (m', zmd') \<and>
     map_get K m' = (map_get K (fs_map s))(b \<mapsto> a) \<and>
     ftl_inv K (s\<lparr>fs_dev := (fs_dev s)\<lparr>d_mapping := m', d_zone_metadata := zmd'\<rparr>, fs_media := (fs_media s)(a \<mapsto> v), fs_ops := R\<rparr>)"
proof -
  have op: "FWrite p b v \<in># fs_ops s" using ops by simp
  from ftl_inv_op [OF inv op] obtain old where old: "map_get K (fs_map s) b = Some old" by (auto simp: op_ok_def)
  have ap: "append_ok K (fs_zmd s) p a" by (rule fresh_append_ok [OF inv a op]) simp
  from ftl_write_done_ok [OF ftl_inv_facts(4) [OF inv] ap old] obtain m' zmd' where
    w: "ftl_write_done K p b a (fs_map s, fs_zmd s) = Some (m', zmd')" "maps_ok K m' zmd'"
     "map_get K m' = (map_get K (fs_map s))(b \<mapsto> a)"
     "zmd_rget K zmd' = (drop_entry old (zmd_rget K (fs_zmd s)))(a \<mapsto> b)"
     "zmd_keep (\<lambda>i. - one p i) (\<lambda>i. - one p i) (fs_zmd s) zmd'" by blast
  have "ftl_inv K (s\<lparr>fs_dev := (fs_dev s)\<lparr>d_mapping := m', d_zone_metadata := zmd'\<rparr>, fs_media := (fs_media s)(a \<mapsto> v), fs_ops := R\<rparr>)"
    by (rule inv_commit [OF inv ops a _ _ _ refl _ w(2-5)]) (auto simp: one_def)
  then show ?thesis using w(1,3) by blast
qed

lemma inv_move_done:
  assumes inv: "ftl_inv K s" and ops: "fs_ops s = R + {#FMove p b old v#}" and a: "fresh_append K s p a"
  shows "\<exists>m' zmd'. ftl_gc_done K p b old a (fs_map s, fs_zmd s) = Some (m', zmd') \<and>
     map_get K m' = (map_get K (fs_map s))(b \<mapsto> a) \<and>
     ftl_inv K (s\<lparr>fs_dev := (fs_dev s)\<lparr>d_mapping := m', d_zone_metadata := zmd'\<rparr>, fs_media := (fs_media s)(a := v), fs_ops := R\<rparr>)"
proof -
  have op: "FMove p b old v \<in># fs_ops s" using ops by simp
  from ftl_inv_op [OF inv op] have old: "map_get K (fs_map s) b = Some old" "old \<noteq> LBZ_INVALID_PBID" "v \<noteq> None"
    by (auto simp: op_ok_def)
  have ap: "append_ok K (fs_zmd s) p a" by (rule fresh_append_ok [OF inv a op]) simp
  from ftl_gc_done_ok [OF ftl_inv_facts(4) [OF inv] ap old(1,2)] obtain m' zmd' where
    w: "ftl_gc_done K p b old a (fs_map s, fs_zmd s) = Some (m', zmd')" "maps_ok K m' zmd'"
     "map_get K m' = (map_get K (fs_map s))(b \<mapsto> a)"
     "zmd_rget K zmd' = (drop_entry old (zmd_rget K (fs_zmd s)))(a \<mapsto> b)"
     "zmd_keep (\<lambda>i. - one p i - one (get_zone_by_pbid K old) i) (\<lambda>i. - one p i) (fs_zmd s) zmd'" by blast
  have "ftl_inv K (s\<lparr>fs_dev := (fs_dev s)\<lparr>d_mapping := m', d_zone_metadata := zmd'\<rparr>, fs_media := (fs_media s)(a := v), fs_ops := R\<rparr>)"
    by (rule inv_commit [OF inv ops a _ _ _ refl old(3) w(2-5)]) (auto simp: one_def)
  then show ?thesis using w(1,3) by blast
qed

section \<open>Freeing a block\<close>

lemma free_blkid_keep:
  assumes ok: "maps_ok K m zmd" and b: "map_get K m b = Some old"
  shows "\<exists>m' zmd' n'. free_blkid K b (m, zmd, n) = Some (m', zmd', n') \<and> maps_ok K m' zmd' \<and>
     map_get K m' = (map_get K m)(b \<mapsto> LBZ_INVALID_PBID) \<and> zmd_rget K zmd' = drop_entry old (zmd_rget K zmd) \<and>
     zmd_keep (\<lambda>i. 0) (\<lambda>i. 0) zmd zmd'"
proof -
  have c: "map_consistent (map_get K m) (zmd_rget K zmd)" and wf: "zmd_wf zmd" and mw: "mapping_wf K m"
    using ok by (auto simp: maps_ok_def)
  from free_blkid_ok [OF c wf mw b, of n] obtain m' zmd' where
    fr: "free_blkid K b (m, zmd, n) = Some (m', zmd', n + (if old = LBZ_INVALID_PBID then 0 else 1))"
      "map_consistent (map_get K m') (zmd_rget K zmd')" "zmd_wf zmd'" "mapping_wf K m'"
      "\<forall>d. map_get K m' d = (if d = b then Some LBZ_INVALID_PBID else map_get K m d)" by blast
  from invalidate_old [OF c wf b] obtain zmd1 where
    i: "invalidate_block K old zmd = Some zmd1" "zmd_frame zmd zmd1"
      "if old = LBZ_INVALID_PBID then zmd1 = zmd
       else \<exists>z1. zmd_update K zmd old LBZ_INVALID_PBID = Some z1 \<and> zmd_rget K zmd1 = zmd_rget K z1" by blast
  from fm.remove_some [OF b] obtain m1 where "lbz_mapping_remove K m b = Some (old, m1)" by blast
  then have "zmd' = zmd1" using fr(1) i(1,3) by (auto simp: free_blkid_def split: if_splits)
  moreover have "zmd_rget K zmd1 = drop_entry old (zmd_rget K zmd)"
    using i(3) rm.rget_update [of K zmd old LBZ_INVALID_PBID] by (auto simp: drop_entry_def fun_eq_iff split: if_splits)
  moreover have "map_get K m' = (map_get K m)(b \<mapsto> LBZ_INVALID_PBID)" using fr(5) by auto
  ultimately show ?thesis using fr(1-4) zmd_keep_frame [OF i(2)] by (auto simp: maps_ok_def)
qed

lemma inv_discard:
  assumes inv: "ftl_inv K s" and b: "map_get K (fs_map s) b \<noteq> None" and nm: "\<forall>p old v. FMove p b old v \<notin># fs_ops s"
  shows "\<exists>m' zmd' n'. free_blkid K b (fs_map s, fs_zmd s, n) = Some (m', zmd', n') \<and>
     map_get K m' = (map_get K (fs_map s))(b \<mapsto> LBZ_INVALID_PBID) \<and>
     ftl_inv K (s\<lparr>fs_dev := (fs_dev s)\<lparr>d_mapping := m', d_zone_metadata := zmd'\<rparr>\<rparr>)"
proof -
  note f = ftl_inv_facts [OF inv]
  from b obtain old where old: "map_get K (fs_map s) b = Some old" by blast
  from free_blkid_keep [OF f(4) old, of n] obtain m' zmd' n' where
    r: "free_blkid K b (fs_map s, fs_zmd s, n) = Some (m', zmd', n')" "maps_ok K m' zmd'"
      "map_get K m' = (map_get K (fs_map s))(b \<mapsto> LBZ_INVALID_PBID)"
      "zmd_rget K zmd' = drop_entry old (zmd_rget K (fs_zmd s))" "zmd_keep (\<lambda>i. 0) (\<lambda>i. 0) (fs_zmd s) zmd'" by blast
  let ?s' = "s\<lparr>fs_dev := (fs_dev s)\<lparr>d_mapping := m', d_zone_metadata := zmd'\<rparr>\<rparr>"
  have wfz: "zmd_wf zmd'" using r(2) by (simp add: maps_ok_def)
  have d: "zmd_delta K {#} {#} (fs_zmd s) zmd'" by (rule zmd_delta_keep [OF r(5)]) simp_all
  have "ftl_inv K ?s'"
  proof (rule ftl_inv_step [OF inv, of "fs_ops s" "{#}" _ "{#}"])
    show "map_get K (fs_map ?s') c = map_get K (fs_map s) c" if "FMove q c o' w \<in># fs_ops s" for q c o' w
      using that nm r(3) by auto
    show "mapped_data K ?s'" using f(7) r(3) by (auto simp: mapped_data_def)
    fix x y assume l: "live_at K (fs_zmd ?s') x y" "phase_at (fs_zmd ?s') (get_zone_by_pbid K x) PGc"
    have "live_at K (fs_zmd s) x y" using l(1) r(4) by (auto simp: live_at_def drop_entry_def split: if_splits)
    then show "live_at K (fs_zmd s) x y \<and> phase_at (fs_zmd s) (get_zone_by_pbid K x) PGc \<and>
          (\<forall>op\<in>#{#}. covers K (fs_zmd s) x y op \<longrightarrow> (\<exists>op\<in>#{#}. covers K (fs_zmd ?s') x y op)) \<or>
        (\<exists>op\<in>#{#}. covers K (fs_zmd ?s') x y op)" using l(2) zmd_keep_phase [OF r(5) f(1) wfz] by simp
  qed (use f r(2,3) d in simp_all)
  then show ?thesis using r(1,3) by blast
qed

section \<open>A victim is chosen\<close>

lemma inv_victim:
  assumes inv: "ftl_inv K s" and size: "size (fs_ops s) < max_ops"
    and v: "lbz_find_victim_zone md (fs_zmd s) = Some (Some p, zmd')"
    and z': "zmd_zones zmd' p = Some z'" and pos: "zrms_get (z_zrms z') 0 = Some pos"
  shows "ftl_inv K (s\<lparr>fs_dev := (fs_dev s)\<lparr>d_zone_metadata := zmd', d_gc_ctx := gc'\<rparr>, fs_ops := fs_ops s + {#FScan p 0 pos#}\<rparr>)" (is "ftl_inv K ?s'")
proof -
  note f = ftl_inv_facts [OF inv]
  have nrb: "unat (zmd_zone_nr_blocks (fs_zmd s)) < 2 ^ 31 - 1" using inv by (simp add: ftl_inv_def geometry_def)
  from find_victim_ok [OF f(1) nrb, of md] v obtain z where
    wfz: "zmd_wf zmd'" and p: "p \<in> set (zmd_full_zone_list (fs_zmd s))" and z: "zmd_zones (fs_zmd s) p = Some z"
    and zs: "zmd_zones zmd' = (zmd_zones (fs_zmd s))(p \<mapsto> lbz_set_zone_state LBZ_ZONE_GC (lbz_get_zone z))" by auto
  have con: "zmd_const (fs_zmd s) zmd'"
    using v by (auto simp: lbz_find_victim_zone_def bind_eq_Some_conv upd_zone_Some zmd_const_def split: if_splits)
  have zf: "z' = lbz_set_zone_state LBZ_ZONE_GC (lbz_get_zone z)" using z' zs by simp
  have ph: "zone_phase z = PFull" "zone_phase z' = PGc"
    using p f(1) z zone_phase_flags(3) by (auto simp: zf zmd_wf_def wf_lists_def phase_at_def)
  note c = ftl_inv_counts [OF inv z]
  have zd: "zone_delta 1 0 z z'"
    using ph c by (auto simp: zone_delta_def active_ref_def zone_counts_def zf zone_simps bit_flags)
  have d: "zmd_delta K {#} {#FScan p 0 pos#} (fs_zmd s) zmd'"
    unfolding zmd_delta_def
  proof (intro conjI allI impI)
    fix q y assume y: "zmd_zones (fs_zmd s) q = Some y"
    have zero: "zone_delta 0 0 y y" by (simp add: zone_delta_def)
    show "\<exists>z'. zmd_zones zmd' q = Some z' \<and> (pend {#FScan p 0 pos#} q \<noteq> 0 \<longrightarrow> zone_phase z' = PActive \<or> zone_phase z' = PToFull) \<and>
       zone_delta (of_nat (refs K {#FScan p 0 pos#} q) - of_nat (refs K {#} q)) (of_nat (pend {#FScan p 0 pos#} q) - of_nat (pend {#} q)) y z'"
      by (cases "q = p") (use y z zs zf zd zero in auto)
  qed (rule con)
  have zr: "z_zrms z' = z_zrms z" "z_start_sector z' = z_start_sector z" by (simp_all add: zf zone_simps)
  have rg: "zmd_rget K zmd' q = zmd_rget K (fs_zmd s) q" for q by (rule zmd_rget_cong [OF z zr]) (simp add: zs zf)
  then have rg': "zmd_rget K zmd' = zmd_rget K (fs_zmd s)" by (rule ext)
  have n0: "0 < unat (zmd_zone_nr_blocks (fs_zmd s))" using f(1) by (simp add: zmd_wf_def wf_zones_def unat_gt_0)
  have nr: "zmd_zone_nr_blocks zmd' = zmd_zone_nr_blocks (fs_zmd s)" using con by (simp add: zmd_const_def)
  have "op_ok K ?s' (FScan p 0 pos)"
    using scan_index(4) [OF inv z n0, of pos] pos zr z' by (simp add: op_ok_def nr zone_pbid_def)
  show ?thesis
  proof (rule ftl_inv_step [OF inv, of "fs_ops s" "{#}" _ "{#FScan p 0 pos#}"])
    show "maps_ok K (fs_map ?s') (fs_zmd ?s')" using f wfz rg' by (simp add: maps_ok_def)
    show "locks_ok (fs_ops s + {#FScan p 0 pos#})" by (rule locks_ok_unlock [of _ "{#}"]) (use f(5) in auto)
    show "mapped_data K ?s'" using f(7) by (simp add: mapped_data_def)
    fix x y assume l: "live_at K (fs_zmd ?s') x y" "phase_at (fs_zmd ?s') (get_zone_by_pbid K x) PGc"
    show "live_at K (fs_zmd s) x y \<and> phase_at (fs_zmd s) (get_zone_by_pbid K x) PGc \<and>
          (\<forall>op\<in>#{#}. covers K (fs_zmd s) x y op \<longrightarrow> (\<exists>op\<in>#{#FScan p 0 pos#}. covers K (fs_zmd ?s') x y op)) \<or>
        (\<exists>op\<in>#{#FScan p 0 pos#}. covers K (fs_zmd ?s') x y op)"
    proof (cases "get_zone_by_pbid K x = p")
      case True
      have "zrms_get (z_zrms z') (unat (pbid_dis z' x)) = Some y"
        using live_below(2) [OF wfz, of K x y z'] l(1) True z' by simp
      then show ?thesis using True z' pos by (cases "unat (pbid_dis z' x)") auto
    qed (use l rg zs in \<open>auto simp: live_at_def phase_at_def\<close>)
  qed (use size d \<open>op_ok K ?s' (FScan p 0 pos)\<close> in simp_all)
qed

section \<open>The zone state worker\<close>

lemma worker_delta:
  assumes inv: "ftl_inv K s" and calm: "worker_spares (fs_zmd s) (d_zone_metadata d')" and st: "step_rel K (fs_dev s) d'"
  shows "zmd_delta K {#} {#} (fs_zmd s) (d_zone_metadata d')"
  unfolding zmd_delta_def
proof (intro conjI allI impI)
  show "zmd_const (fs_zmd s) (d_zone_metadata d')" using st by (simp add: step_rel_def zmd_worker_def)
  have w: "zmd_worker (fs_zmd s) (d_zone_metadata d')" and ok: "table_ok (d_zone_metadata d')"
    using st by (simp_all add: step_rel_def)
  fix p z assume z: "zmd_zones (fs_zmd s) p = Some z"
  from zmd_workerD [OF w z] obtain z' where z': "zmd_zones (d_zone_metadata d') p = Some z'" "worker_zone z z'" by blast
  have len: "length (z_zrms z') = length (z_zrms z)"
    using table_ok_zone(2) [OF ok z'(1)] inv z st
    by (simp add: ftl_inv_def counts_ok_def step_rel_def zmd_worker_def zmd_const_def)
  have "active_ref z' = active_ref z" using z'(2) by (auto simp: worker_zone_def active_ref_def)
  moreover have "z_pending_write_io z = 0" if "zone_phase z = PToFull" "zone_phase z' = PFull"
    using calm z z'(1) that by (auto simp: worker_spares_def phase_at_def)
  ultimately have "zone_delta 0 0 z z'"
    using z'(2) len table_ok_zone(3) [OF ok z'(1)] by (auto simp: zone_delta_def worker_zone_def)
  then show "\<exists>z'. zmd_zones (d_zone_metadata d') p = Some z' \<and>
       (pend {#} p \<noteq> 0 \<longrightarrow> zone_phase z' = PActive \<or> zone_phase z' = PToFull) \<and>
       zone_delta (of_nat (refs K {#} p) - of_nat (refs K {#} p)) (of_nat (pend {#} p) - of_nat (pend {#} p)) z z'"
    using z'(1) by simp
qed

text \<open>Only a zone that nobody references is erased, and it holds no live block.\<close>

lemma erased_zone:
  assumes w: "zmd_worker (fs_zmd s) (d_zone_metadata d')"
    and e: "phase_at (fs_zmd s) p PGc" "phase_at (d_zone_metadata d') p PEmpty"
  shows "\<exists>z. zmd_zones (fs_zmd s) p = Some z \<and> z_refcount z = 0 \<and> zone_phase z = PGc"
  using e zmd_workerD [OF w, of p] by (auto simp: phase_at_def worker_zone_def)

lemma inv_worker:
  assumes inv: "ftl_inv K s"
  shows "\<exists>d'. zone_state_wk_fn reset_err (fs_dev s) = Some d' \<and> d_mapping d' = fs_map s \<and>
     (\<forall>b a. map_get K (fs_map s) b = Some a \<longrightarrow> a \<noteq> LBZ_INVALID_PBID \<longrightarrow>
        erase_reset K (fs_zmd s) (d_zone_metadata d') (fs_media s) a = fs_media s a) \<and>
     (worker_spares (fs_zmd s) (d_zone_metadata d') \<longrightarrow> ftl_inv K (s\<lparr>fs_dev := d', fs_media := erase_reset K (fs_zmd s) (d_zone_metadata d') (fs_media s)\<rparr>))"
proof -
  note f = ftl_inv_facts [OF inv]
  have "table_ok (fs_zmd s)" using f(1) ftl_inv_settled [OF inv] by (simp add: table_ok_def)
  from zone_state_wk_ok [OF this, of reset_err K] obtain d' where
    d': "zone_state_wk_fn reset_err (fs_dev s) = Some d'" and st: "step_rel K (fs_dev s) d'" by blast
  let ?zmd' = "d_zone_metadata d'" and ?media = "erase_reset K (fs_zmd s) (d_zone_metadata d') (fs_media s)"
  let ?s' = "s\<lparr>fs_dev := d', fs_media := ?media\<rparr>"
  have w: "zmd_worker (fs_zmd s) ?zmd'" and wfz: "zmd_wf ?zmd'" and rg: "zmd_rget K ?zmd' = zmd_rget K (fs_zmd s)"
    and m: "d_mapping d' = fs_map s"
    using st by (auto simp: step_rel_def table_ok_def)
  have keep: "?media a = fs_media s a" if op: "op \<in># fs_ops s" "op_refs K (get_zone_by_pbid K a) op \<noteq> 0" for op a
  proof (cases "phase_at (fs_zmd s) (get_zone_by_pbid K a) PGc \<and> phase_at ?zmd' (get_zone_by_pbid K a) PEmpty")
    case True
    from erased_zone [OF w True [THEN conjunct1] True [THEN conjunct2]] obtain z where
      "zmd_zones (fs_zmd s) (get_zone_by_pbid K a) = Some z" "z_refcount z = 0" "zone_phase z = PGc" by blast
    from unreferenced_zone [OF inv this(1,2) _ op(1)] this(3) op(2) show ?thesis by simp
  qed (auto simp: erase_reset_def)
  have live: "?media a = fs_media s a" if "live_at K (fs_zmd s) a b" for a b
  proof (rule ccontr)
    assume "?media a \<noteq> fs_media s a"
    then have "phase_at ?zmd' (get_zone_by_pbid K a) PEmpty" by (auto simp: erase_reset_def split: if_splits)
    then obtain z' where z': "zmd_zones ?zmd' (get_zone_by_pbid K a) = Some z'" "zone_phase z' = PEmpty"
      by (auto simp: phase_at_def)
    have "live_at K ?zmd' a b" using that rg by (simp add: live_at_def)
    from live_below(1) [OF wfz this z'(1)] zmd_wf_zone_ok [OF wfz z'(1)] z'(2) show False by (simp add: zone_ok_def)
  qed
  have mapped: "?media a = fs_media s a" if "map_get K (fs_map s) b = Some a" "a \<noteq> LBZ_INVALID_PBID" for a b
    using live [of a b] map_consistent_fr [OF f(3) that] map_consistent_valid [OF f(3) that(1)] by (simp add: live_at_def)
  have "ftl_inv K ?s'" if calm: "worker_spares (fs_zmd s) ?zmd'"
  proof (rule ftl_inv_step [OF inv, of "fs_ops s" "{#}" _ "{#}"])
    show "zmd_delta K {#} {#} (fs_zmd s) (fs_zmd ?s')" using worker_delta [OF inv calm st] by simp
    show "mapped_data K ?s'" using f(7) mapped m unfolding mapped_data_def by fastforce
    show "fs_media ?s' a = fs_media s a" if "op \<in># fs_ops s" "op_refs K (get_zone_by_pbid K a) op \<noteq> 0" for a op
      using keep [OF that] by simp
    fix x y assume l: "live_at K (fs_zmd ?s') x y" "phase_at (fs_zmd ?s') (get_zone_by_pbid K x) PGc"
    from l(2) obtain z' where z': "zmd_zones ?zmd' (get_zone_by_pbid K x) = Some z'" "zone_phase z' = PGc"
      by (auto simp: phase_at_def)
    have "zmd_zones (fs_zmd s) (get_zone_by_pbid K x) \<noteq> None"
      using zmd_delta_zones [OF f(1) wfz, of "get_zone_by_pbid K x"] w z'(1) by (simp add: zmd_worker_def)
    then have "phase_at (fs_zmd s) (get_zone_by_pbid K x) PGc"
      using zmd_workerD [OF w, of "get_zone_by_pbid K x"] z' by (auto simp: phase_at_def worker_zone_def)
    then show "live_at K (fs_zmd s) x y \<and> phase_at (fs_zmd s) (get_zone_by_pbid K x) PGc \<and>
          (\<forall>op\<in>#{#}. covers K (fs_zmd s) x y op \<longrightarrow> (\<exists>op\<in>#{#}. covers K (fs_zmd ?s') x y op)) \<or>
        (\<exists>op\<in>#{#}. covers K (fs_zmd ?s') x y op)" using l(1) rg by (simp add: live_at_def)
  qed (use f wfz rg m in \<open>simp_all add: maps_ok_def\<close>)
  then show ?thesis using d' m mapped by blast
qed

section \<open>Every step keeps the invariant\<close>

lemma ftl_step_inv:
  assumes "ftl_step ss K s e s'" and "ftl_inv K s"
  shows "ftl_inv K s'"
  using assms
proof (cases rule: ftl_step.cases)
  case (write_start b sid md p zmd' gc' v)
  then show ?thesis using inv_write_start [OF assms(2)] by blast
next
  case (write_done R p b v a m' zmd')
  then show ?thesis using inv_write_done [OF assms(2) write_done(3,4)] by auto
next
  case (read_start b p a zmd')
  then show ?thesis using inv_read_start [OF assms(2)] by blast
next
  case (read_done R p a v zmd')
  then show ?thesis using inv_read_done [OF assms(2)] by blast
next
  case (victim md p zmd' z pos)
  then show ?thesis using inv_victim [OF assms(2)] by blast
next
  case (scan_entry R p k pos z zmd' pos')
  then show ?thesis using inv_scan_entry [OF assms(2)] by blast
next
  case (scan_skip R p k z pos')
  then show ?thesis using inv_scan_skip [OF assms(2)] by blast
next
  case (scan_end R p k pos z zmd')
  then show ?thesis using inv_scan_end [OF assms(2)] by blast
next
  case (copy_read R b old)
  then show ?thesis using inv_copy_read [OF assms(2)] by blast
next
  case (move_skip R b old v zmd1 zmd2)
  then show ?thesis using inv_move_skip [OF assms(2)] by blast
next
  case (move_agency R b old v zmd')
  then show ?thesis
    using inv_drop [OF assms(2) move_agency(3,4) put_zone_facts [OF ftl_inv_facts(1) [OF assms(2)] move_agency(5)]] by simp
next
  case (move_start R b old v sid zmd1 p zmd2 gc')
  then show ?thesis using inv_move_start [OF assms(2)] by blast
next
  case (move_done R p b old v a m' zmd')
  then show ?thesis using inv_move_done [OF assms(2) move_done(3,4)] by auto
next
  case (discard b n m' zmd' n')
  then show ?thesis using inv_discard [OF assms(2) discard(3,4), of n] by auto
next
  case (worker reset_err d')
  then show ?thesis using inv_worker [OF assms(2), of reset_err] by auto
qed

end
