(* ===== verification/Io_Task.thy ===== *)
theory Io_Task
  imports Zone_State
begin

text \<open>
  The objects of \<^verbatim>\<open>include/lbz-io-scheduler.h\<close> and of the request path (tasks, bios, hooks, contexts
  of split bios), the state of the whole driver, and the tree of write tasks
  (\<open>insert_task_to_tree\<close>, \<open>del_task_from_tree\<close>, \<open>search_task\<close> of \<^verbatim>\<open>lbz-io-scheduler.c\<close>).

  Unions. \<open>list\<close> and \<open>read_zone\<close> of a task share memory (\<open>t_link\<close>), as do \<open>pending_gc_node\<close> and
  \<open>iosched\<close> (\<open>t_gc\<close>): reading the member that was not written last stops the model. The
  integrity buffer of a task is null, an error pointer or a buffer. Pages are addresses of the
  page store \<open>sy_pages\<close>, whose values stand for the content of one block.
\<close>

section \<open>Tasks\<close>

datatype lbz_task_type = LBZ_TASK_USER_WRITE | LBZ_TASK_WRITE_TX_FATHER | LBZ_TASK_WRITE_TX_CHILD | LBZ_TASK_GC

datatype lbz_task_status =
    LBZ_TASK_INIT | LBZ_TASK_ALLOC_RES | LBZ_TASK_GC_READING | LBZ_TASK_GC_WRITING
  | LBZ_TASK_IO_WRITING | LBZ_TASK_DISPATCH | LBZ_TASK_RETRY

datatype lbz_log_type =
    LBZ_LOG_TRANSACTION_CHILD | LBZ_LOG_TRANSACTION_FATHER | LBZ_LOG_SUPERBLOCK
  | LBZ_LOG_USER_WRITE | LBZ_LOG_GC_WRITE | LBZ_LOG_DISCARD_IO

record lbz_disk_log =
  dl_timestamp :: u64
  dl_txid :: u64
  dl_blkid :: u32
  dl_free_blkid :: u32
  dl_log_type :: lbz_log_type
  dl_crc :: u32

datatype task_link = LinkList | LinkZone zptr

datatype task_gc = GcNull | GcNode tptr | GcIosched

datatype integrity_buf = BufNull | BufErr errno | Buf lbz_disk_log

type_synonym page = nat

record lbz_io_task =
  t_link :: task_link
  t_bio :: "bptr option"
  t_blkid :: u32
  t_pbid :: u32
  t_page :: "page option"
  t_integrity_buf :: integrity_buf
  t_zone :: "zptr option"
  t_refcount :: u32
  t_error :: "errno option"
  t_status :: lbz_task_status
  t_type :: lbz_task_type
  t_gc :: task_gc

section \<open>Bios\<close>

text \<open>
  A completion handler with its private data. A hook (\<open>struct lbz_io_hook\<close>) belongs to one bio and
  holds the handler it replaced. \<open>UserEndio\<close> is the handler of the layer above the driver.
\<close>

datatype endio =
    UserEndio nat
  | FlushBioEndio endio
  | LongBioEndio nat
  | WriteIoEndio tptr u32 endio
  | ReadIoEndio zptr u32 endio
  | GcReadEndio tptr
  | GcWriteEndio tptr

record bio =
  bi_write :: bool
  bi_flush :: bool
  bi_has_data :: bool
  bi_sector :: u64
  bi_sectors :: nat
  bi_status :: "errno option"
  bi_end_io :: endio
  bi_append :: bool
  bi_phys :: bool
  bi_pages :: "page list"

record lbz_long_context =
  lc_user_bio_long :: bptr
  lc_user_endio_long :: endio
  lc_remaining :: u32

section \<open>The driver's state\<close>

text \<open>
  \<open>sy_inflight\<close> are the bios submitted to the backing device and not completed yet, in the order
  of their submission; \<open>sy_done\<close> is the sequence of completions reported to the layer above.
  \<open>sy_flush_wait\<close> are the bios whose submitter waits for them (\<open>__lbz_submit_flush_bio_wait\<close>), with the
  block the submitter computed, and \<open>sy_flush_done\<close> those of them that have completed; \<open>sy_next\<close> is an address that was never used. A bio that was handed back to
  the layer above, and an object that was freed, are no longer in their store.
\<close>

record lbz_sys =
  sy_dev :: lbz_device
  sy_tasks :: "tptr \<rightharpoonup> lbz_io_task"
  sy_bios :: "bptr \<rightharpoonup> bio"
  sy_ctxs :: "nat \<rightharpoonup> lbz_long_context"
  sy_pages :: "page \<rightharpoonup> nat"
  sy_inflight :: "bptr list"
  sy_done :: "(bptr \<times> nat \<times> errno option) list"
  sy_flush_wait :: "bptr \<rightharpoonup> u32"
  sy_flush_done :: "bptr list"
  sy_next :: nat

text \<open>
  The configuration and the outcomes of kernel services: the kernel's functions, the two compile
  options, whether attaching the integrity payload of a task's bio fails, and how, the number of
  clock ticks per second, and the kernel's \<open>bio_split\<close>, which returns the front part of a bio as a
  new one and the remaining bio. \<open>env_ok\<close> states what the driver relies on.
\<close>

record lbz_env =
  ev_kern :: kern
  ev_stream_support :: bool
  ev_free_support :: bool
  ev_integrity :: "tptr \<Rightarrow> errno option"
  ev_HZ :: u64
  ev_bio_split :: "nat \<Rightarrow> bio \<Rightarrow> bio \<times> bio"

definition env_ok :: "lbz_env \<Rightarrow> bool" where
  "env_ok E \<longleftrightarrow> kern_ok (ev_kern E) \<and>
     (\<forall>n x front rest. 0 < n \<and> n < bi_sectors x \<and> ev_bio_split E n x = (front, rest) \<longrightarrow>
        bi_sector front = bi_sector x \<and> bi_sectors front = n \<and> bi_write front = bi_write x \<and>
        bi_has_data front = bi_has_data x \<and> bi_status front = None \<and>
        bi_pages front = take (n div 8) (bi_pages x) \<and>
        rest = x\<lparr>bi_sector := bi_sector x + of_nat n, bi_sectors := bi_sectors x - n,
                 bi_pages := drop (n div 8) (bi_pages x)\<rparr>)"

definition upd_dev :: "(lbz_device \<Rightarrow> lbz_device) \<Rightarrow> lbz_sys \<Rightarrow> lbz_sys" where
  "upd_dev f s = s\<lparr>sy_dev := f (sy_dev s)\<rparr>"

definition upd_iosched :: "(lbz_io_scheduler \<Rightarrow> lbz_io_scheduler) \<Rightarrow> lbz_sys \<Rightarrow> lbz_sys" where
  "upd_iosched f = upd_dev (\<lambda>d. d\<lparr>d_iosched := f (d_iosched d)\<rparr>)"

definition upd_zmd :: "(lbz_zone_metadata \<Rightarrow> lbz_zone_metadata option) \<Rightarrow> lbz_sys \<Rightarrow> lbz_sys option" where
  "upd_zmd f s = do {
     zmd \<leftarrow> f (d_zone_metadata (sy_dev s));
     Some (upd_dev (\<lambda>d. d\<lparr>d_zone_metadata := zmd\<rparr>) s)
   }"

definition upd_task :: "tptr \<Rightarrow> (lbz_io_task \<Rightarrow> lbz_io_task) \<Rightarrow> lbz_sys \<Rightarrow> lbz_sys option" where
  "upd_task t f s =
     (case sy_tasks s t of
        None \<Rightarrow> None
      | Some tk \<Rightarrow> Some (s\<lparr>sy_tasks := (sy_tasks s)(t \<mapsto> f tk)\<rparr>))"

definition upd_bio :: "bptr \<Rightarrow> (bio \<Rightarrow> bio) \<Rightarrow> lbz_sys \<Rightarrow> lbz_sys option" where
  "upd_bio b f s =
     (case sy_bios s b of
        None \<Rightarrow> None
      | Some x \<Rightarrow> Some (s\<lparr>sy_bios := (sy_bios s)(b \<mapsto> f x)\<rparr>))"

section \<open>Reference counts and allocation of tasks\<close>

definition task_get :: "tptr \<Rightarrow> lbz_sys \<Rightarrow> lbz_sys option" where
  "task_get t = upd_task t (\<lambda>tk. tk\<lparr>t_refcount := t_refcount tk + 1\<rparr>)"

text \<open>Freeing an integrity buffer that is an error pointer writes to an invalid address.\<close>

definition task_destroy :: "tptr \<Rightarrow> lbz_sys \<Rightarrow> lbz_sys option" where
  "task_destroy t s = do {
     tk \<leftarrow> sy_tasks s t;
     case t_integrity_buf tk of
       BufErr e \<Rightarrow> None
     | _ \<Rightarrow> Some (s\<lparr>sy_tasks := (sy_tasks s)(t := None)\<rparr>)
   }"

definition task_init :: "lbz_task_type \<Rightarrow> lbz_io_task" where
  "task_init type = \<lparr>t_link = LinkList, t_bio = None, t_blkid = 0, t_pbid = 0, t_page = None,
     t_integrity_buf = BufNull, t_zone = None, t_refcount = 1, t_error = None,
     t_status = LBZ_TASK_INIT, t_type = type, t_gc = GcNull\<rparr>"

definition task_alloc :: "lbz_task_type \<Rightarrow> lbz_sys \<Rightarrow> tptr \<times> lbz_sys" where
  "task_alloc type s =
     (sy_next s, s\<lparr>sy_tasks := (sy_tasks s)(sy_next s \<mapsto> task_init type), sy_next := sy_next s + 1\<rparr>)"

section \<open>The tree of tasks\<close>

text \<open>
  The descent of \<open>insert_task_to_tree\<close>: \<open>Inl\<close> the task found with the same block, \<open>Inr\<close> the tree
  with the new node linked at the leaf that was reached.
\<close>

fun tree_link :: "(tptr \<rightharpoonup> lbz_io_task) \<Rightarrow> u32 \<Rightarrow> tptr \<Rightarrow> tptr tree \<Rightarrow> (tptr + tptr tree) option" where
  "tree_link tasks blkid t Leaf = Some (Inr (Node Leaf t Leaf))"
| "tree_link tasks blkid t (Node l p r) =
     (case tasks p of
        None \<Rightarrow> None
      | Some tkp \<Rightarrow>
          (if t_blkid tkp < blkid then
             (case tree_link tasks blkid t r of
                None \<Rightarrow> None | Some (Inl q) \<Rightarrow> Some (Inl q) | Some (Inr r') \<Rightarrow> Some (Inr (Node l p r')))
           else if blkid < t_blkid tkp then
             (case tree_link tasks blkid t l of
                None \<Rightarrow> None | Some (Inl q) \<Rightarrow> Some (Inl q) | Some (Inr l') \<Rightarrow> Some (Inr (Node l' p r)))
           else Some (Inl p)))"

definition insert_task_to_tree :: "kern \<Rightarrow> tptr \<Rightarrow> lbz_sys \<Rightarrow> (tptr option \<times> lbz_sys) option" where
  "insert_task_to_tree K t s = do {
     tk \<leftarrow> sy_tasks s t;
     r \<leftarrow> tree_link (sy_tasks s) (t_blkid tk) t (s_task_tree (d_iosched (sy_dev s)));
     case r of
       Inl q \<Rightarrow> do { s \<leftarrow> task_get q s; Some (Some q, s) }
     | Inr tree \<Rightarrow> do {
         let s = upd_iosched (\<lambda>io. io\<lparr>s_task_tree := rb_insert_color K t tree\<rparr>) s;
         s \<leftarrow> task_get t s;
         Some (None, upd_iosched (\<lambda>io. io\<lparr>s_task_count := s_task_count io + 1\<rparr>) s)
       }
   }"

text \<open>Erasing a node that is not linked in the tree corrupts it; the model stops.\<close>

definition del_task_from_tree :: "kern \<Rightarrow> tptr \<Rightarrow> lbz_sys \<Rightarrow> lbz_sys option" where
  "del_task_from_tree K t s =
     (let tree = s_task_tree (d_iosched (sy_dev s))
      in if t \<in> set (inorder tree)
         then Some (upd_iosched (\<lambda>io. io\<lparr>s_task_tree := rb_erase K t tree,
                                         s_task_count := s_task_count io - 1\<rparr>) s)
         else None)"

text \<open>The descent of \<open>search_task\<close>, which the source does not call, as it is written there.\<close>

fun tree_search :: "(tptr \<rightharpoonup> lbz_io_task) \<Rightarrow> u32 \<Rightarrow> tptr tree \<Rightarrow> tptr option option" where
  "tree_search tasks blkid Leaf = Some None"
| "tree_search tasks blkid (Node l p r) =
     (case tasks p of
        None \<Rightarrow> None
      | Some tk \<Rightarrow> (if blkid < t_blkid tk then tree_search tasks blkid r
                   else if t_blkid tk < blkid then tree_search tasks blkid l
                   else Some (Some p)))"

definition search_task :: "u32 \<Rightarrow> lbz_sys \<Rightarrow> (tptr option \<times> lbz_sys) option" where
  "search_task blkid s = do {
     r \<leftarrow> tree_search (sy_tasks s) blkid (s_task_tree (d_iosched (sy_dev s)));
     case r of
       None \<Rightarrow> Some (None, s)
     | Some t \<Rightarrow> do { s \<leftarrow> task_get t s; Some (Some t, s) }
   }"

definition is_task_tree_empty :: "lbz_sys \<Rightarrow> bool" where
  "is_task_tree_empty s = (s_task_tree (d_iosched (sy_dev s)) = Leaf)"

end
