(* ===== verification/Task_Tree.thy ===== *)
theory Task_Tree
  imports Io_Task
begin

text \<open>
  The tree of tasks serialises the writes to a block: it holds at most one task per block, in
  the order of the blocks. The rebalancing functions of the kernel are parameters whose
  documented effect on the in-order sequence is \<open>kern_ok\<close>.
\<close>

definition task_key :: "(tptr \<rightharpoonup> lbz_io_task) \<Rightarrow> tptr \<Rightarrow> u32" where
  "task_key tasks t = t_blkid (the (tasks t))"

definition tree_ok :: "(tptr \<rightharpoonup> lbz_io_task) \<Rightarrow> tptr tree \<Rightarrow> bool" where
  "tree_ok tasks tree \<longleftrightarrow> (\<forall>t\<in>set (inorder tree). tasks t \<noteq> None) \<and>
     sorted_wrt (<) (map (task_key tasks) (inorder tree))"

definition task_tree :: "lbz_sys \<Rightarrow> tptr tree" where
  "task_tree s = s_task_tree (d_iosched (sy_dev s))"

lemma tree_ok_distinct: "tree_ok tasks tree \<Longrightarrow> distinct (inorder tree)"
  unfolding tree_ok_def using strict_sorted_iff distinct_map by blast

lemma tree_ok_inj:
  assumes "tree_ok tasks tree" "p \<in> set (inorder tree)" "q \<in> set (inorder tree)" "task_key tasks p = task_key tasks q"
  shows "p = q"
proof -
  have "distinct (map (task_key tasks) (inorder tree))"
    using assms(1) unfolding tree_ok_def using strict_sorted_iff by blast
  then show ?thesis using assms(2-4) by (auto simp: distinct_map inj_on_def)
qed

lemma tree_link_spec:
  assumes "tree_ok tasks tree"
  shows "(\<exists>q tk. tree_link tasks b t tree = Some (Inl q) \<and> q \<in> set (inorder tree) \<and> tasks q = Some tk \<and> t_blkid tk = b) \<or>
    (\<exists>tr xs ys. tree_link tasks b t tree = Some (Inr tr) \<and> inorder tree = xs @ ys \<and> inorder tr = xs @ t # ys \<and>
       (\<forall>x\<in>set xs. task_key tasks x < b) \<and> (\<forall>y\<in>set ys. b < task_key tasks y))"
  using assms
proof (induction tree)
  case (Node l p r)
  from Node.prems obtain tkp where p: "tasks p = Some tkp" by (auto simp: tree_ok_def)
  have l: "tree_ok tasks l" and r: "tree_ok tasks r" and lp: "\<forall>x\<in>set (inorder l). task_key tasks x < t_blkid tkp"
    and rp: "\<forall>x\<in>set (inorder r). t_blkid tkp < task_key tasks x"
    using Node.prems p by (auto simp: tree_ok_def sorted_wrt_append task_key_def)
  consider "t_blkid tkp < b" | "b < t_blkid tkp" | "t_blkid tkp = b" by (meson less_linear)
  then show ?case
  proof cases
    case 1
    from Node.IH(2) [OF r] show ?thesis
    proof (elim disjE exE conjE)
      fix tr xs ys
      assume a: "tree_link tasks b t r = Some (Inr tr)" "inorder r = xs @ ys" "inorder tr = xs @ t # ys"
        "\<forall>x\<in>set xs. task_key tasks x < b" "\<forall>y\<in>set ys. b < task_key tasks y"
      have "\<forall>x\<in>set (inorder l @ p # xs). task_key tasks x < b"
        using a(4) lp 1 p by (auto simp: task_key_def intro: less_trans)
      then show ?thesis using a 1 p by (intro disjI2 exI [of _ "Node l p tr"] exI [of _ "inorder l @ p # xs"] exI [of _ ys]) simp
    qed (use 1 p in auto)
  next
    case 2
    from Node.IH(1) [OF l] show ?thesis
    proof (elim disjE exE conjE)
      fix tr xs ys
      assume a: "tree_link tasks b t l = Some (Inr tr)" "inorder l = xs @ ys" "inorder tr = xs @ t # ys"
        "\<forall>x\<in>set xs. task_key tasks x < b" "\<forall>y\<in>set ys. b < task_key tasks y"
      have "\<forall>y\<in>set (ys @ p # inorder r). b < task_key tasks y"
        using a(5) rp 2 p by (auto simp: task_key_def intro: less_trans)
      moreover have "\<not> t_blkid tkp < b" using 2 by simp
      ultimately show ?thesis using a 2 p by (intro disjI2 exI [of _ "Node tr p r"] exI [of _ xs] exI [of _ "ys @ p # inorder r"]) simp
    qed (use 2 p in auto)
  qed (use p in auto)
qed simp

lemma tree_ok_insert:
  assumes ok: "tree_ok tasks tree" and i: "inorder tree = xs @ ys" "inorder tr = xs @ t # ys"
    and k: "\<forall>x\<in>set xs. task_key tasks x < b" "\<forall>y\<in>set ys. b < task_key tasks y"
    and t: "tasks t = Some tk" "t_blkid tk = b"
  shows "tree_ok tasks tr"
  using ok k t unfolding tree_ok_def i
  by (auto simp: sorted_wrt_append task_key_def intro: less_trans)

lemma tree_ok_cong:
  assumes "\<And>t. t \<in> set (inorder tree) \<Longrightarrow> \<exists>x y. tasks t = Some x \<and> tasks' t = Some y \<and> t_blkid y = t_blkid x"
  shows "tree_ok tasks' tree = tree_ok tasks tree"
proof -
  have "task_key tasks' t = task_key tasks t" if "t \<in> set (inorder tree)" for t
    using assms [OF that] by (auto simp: task_key_def)
  then have "map (task_key tasks') (inorder tree) = map (task_key tasks) (inorder tree)" by simp
  moreover have "(\<forall>t\<in>set (inorder tree). tasks' t \<noteq> None) = (\<forall>t\<in>set (inorder tree). tasks t \<noteq> None)"
    by (rule ball_cong) (use assms in force)+
  ultimately show ?thesis unfolding tree_ok_def by (simp only:)
qed

lemma tree_ok_upd:
  assumes "tasks t = Some tk" "t_blkid tk' = t_blkid tk"
  shows "tree_ok (tasks(t \<mapsto> tk')) tree = tree_ok tasks tree"
proof -
  have "task_key (tasks(t \<mapsto> tk')) = task_key tasks" using assms by (auto simp: task_key_def fun_eq_iff)
  then show ?thesis using assms unfolding tree_ok_def by auto
qed

lemma tree_ok_inorder: "inorder tr = inorder tree \<Longrightarrow> tree_ok tasks tr = tree_ok tasks tree"
  by (simp add: tree_ok_def)

lemma tree_ok_remove:
  assumes "tree_ok tasks tree" "inorder tr = remove1 t (inorder tree)"
  shows "tree_ok tasks tr"
proof -
  have "distinct (inorder tree)" by (rule tree_ok_distinct [OF assms(1)])
  then have eq: "inorder tr = filter (\<lambda>x. x \<noteq> t) (inorder tree)"
    using assms(2) by (simp add: distinct_remove1_removeAll removeAll_filter_not_eq) (metis (mono_tags, lifting))
  then show ?thesis
    using assms(1) unfolding tree_ok_def eq by (auto simp: sorted_wrt_map sorted_wrt_filter)
qed

text \<open>
  C25. Inserting a task into the tree: if a task for the same block is there, that task is
  returned with one more reference and the tree is unchanged; otherwise the task is linked, the
  tree stays ordered with one task per block and exactly one more task, and the new task has
  one more reference. The descent never follows a dangling pointer.
\<close>

theorem insert_task_spec:
  assumes K: "kern_ok K" and ok: "tree_ok (sy_tasks s) (task_tree s)" and t: "sy_tasks s t = Some tk"
  shows "\<exists>r s'. insert_task_to_tree K t s = Some (r, s') \<and> tree_ok (sy_tasks s') (task_tree s') \<and>
     (case r of
        Some q \<Rightarrow> q \<in> set (inorder (task_tree s)) \<and> task_tree s' = task_tree s \<and>
          (\<exists>tq. sy_tasks s q = Some tq \<and> t_blkid tq = t_blkid tk \<and>
             sy_tasks s' = (sy_tasks s)(q \<mapsto> tq\<lparr>t_refcount := t_refcount tq + 1\<rparr>))
      | None \<Rightarrow> (\<forall>q\<in>set (inorder (task_tree s)). task_key (sy_tasks s) q \<noteq> t_blkid tk) \<and>
          set (inorder (task_tree s')) = insert t (set (inorder (task_tree s))) \<and>
          sy_tasks s' = (sy_tasks s)(t \<mapsto> tk\<lparr>t_refcount := t_refcount tk + 1\<rparr>))"
proof -
  let ?tree = "s_task_tree (d_iosched (sy_dev s))"
  have ok': "tree_ok (sy_tasks s) ?tree" using ok by (simp add: task_tree_def)
  from tree_link_spec [OF ok', of "t_blkid tk" t] show ?thesis
  proof (elim disjE exE conjE)
    fix q tq
    assume q: "tree_link (sy_tasks s) (t_blkid tk) t ?tree = Some (Inl q)" "q \<in> set (inorder ?tree)"
      "sy_tasks s q = Some tq" "t_blkid tq = t_blkid tk"
    let ?s = "s\<lparr>sy_tasks := (sy_tasks s)(q \<mapsto> tq\<lparr>t_refcount := t_refcount tq + 1\<rparr>)\<rparr>"
    have "insert_task_to_tree K t s = Some (Some q, ?s)"
      using t q by (simp add: insert_task_to_tree_def task_get_def upd_task_def)
    moreover have "tree_ok (sy_tasks ?s) (task_tree ?s)"
      using ok' q(3) by (simp add: task_tree_def tree_ok_upd)
    ultimately show ?thesis using q by (auto simp: task_tree_def)
  next
    fix tr xs ys
    assume a: "tree_link (sy_tasks s) (t_blkid tk) t ?tree = Some (Inr tr)" "inorder ?tree = xs @ ys"
      "inorder tr = xs @ t # ys" "\<forall>x\<in>set xs. task_key (sy_tasks s) x < t_blkid tk"
      "\<forall>y\<in>set ys. t_blkid tk < task_key (sy_tasks s) y"
    let ?tasks = "(sy_tasks s)(t \<mapsto> tk\<lparr>t_refcount := t_refcount tk + 1\<rparr>)"
    have in': "inorder (rb_insert_color K t tr) = inorder tr" using K by (simp add: kern_ok_def)
    have "tree_ok (sy_tasks s) tr" by (rule tree_ok_insert [OF ok' a(2-5) t refl])
    then have ok1: "tree_ok ?tasks (rb_insert_color K t tr)"
      using t tree_ok_inorder [OF in'] by (simp add: tree_ok_upd)
    have keys: "\<forall>q\<in>set (inorder ?tree). task_key (sy_tasks s) q \<noteq> t_blkid tk"
      using a(2,4,5) by force
    have "\<exists>s'. insert_task_to_tree K t s = Some (None, s') \<and> task_tree s' = rb_insert_color K t tr \<and>
        sy_tasks s' = ?tasks"
      using t a(1) by (simp add: insert_task_to_tree_def task_get_def upd_task_def upd_iosched_def
          upd_dev_def task_tree_def)
    then show ?thesis using ok1 keys in' a(2,3) by (auto simp: task_tree_def)
  qed
qed

text \<open>The state after the insertion of a task whose block is free.\<close>

lemma insert_new:
  assumes K: "kern_ok K" and ok: "tree_ok (sy_tasks s) (task_tree s)" and t: "sy_tasks s t = Some tk"
    and free: "\<forall>q\<in>set (inorder (task_tree s)). task_key (sy_tasks s) q \<noteq> t_blkid tk"
  shows "\<exists>tr. insert_task_to_tree K t s = Some (None, s\<lparr>sy_dev := (sy_dev s)\<lparr>d_iosched := (d_iosched (sy_dev s))\<lparr>
         s_task_tree := tr, s_task_count := s_task_count (d_iosched (sy_dev s)) + 1\<rparr>\<rparr>,
       sy_tasks := (sy_tasks s)(t \<mapsto> tk\<lparr>t_refcount := t_refcount tk + 1\<rparr>)\<rparr>) \<and>
     set (inorder tr) = insert t (set (inorder (task_tree s))) \<and>
     tree_ok ((sy_tasks s)(t \<mapsto> tk\<lparr>t_refcount := t_refcount tk + 1\<rparr>)) tr"
proof -
  let ?tree = "s_task_tree (d_iosched (sy_dev s))"
  have ok': "tree_ok (sy_tasks s) ?tree" using ok by (simp add: task_tree_def)
  from tree_link_spec [OF ok', of "t_blkid tk" t] free obtain tr xs ys where
    a: "tree_link (sy_tasks s) (t_blkid tk) t ?tree = Some (Inr tr)" "inorder ?tree = xs @ ys"
      "inorder tr = xs @ t # ys" "\<forall>x\<in>set xs. task_key (sy_tasks s) x < t_blkid tk"
      "\<forall>y\<in>set ys. t_blkid tk < task_key (sy_tasks s) y"
    by (auto simp: task_key_def task_tree_def)
  have in': "inorder (rb_insert_color K t tr) = inorder tr" using K by (simp add: kern_ok_def)
  have "tree_ok (sy_tasks s) tr" by (rule tree_ok_insert [OF ok' a(2-5) t refl])
  then have "tree_ok ((sy_tasks s)(t \<mapsto> tk\<lparr>t_refcount := t_refcount tk + 1\<rparr>)) (rb_insert_color K t tr)"
    using t tree_ok_inorder [OF in'] by (simp add: tree_ok_upd)
  then show ?thesis
    using t a(1-3) in' by (intro exI [of _ "rb_insert_color K t tr"])
      (simp add: insert_task_to_tree_def task_get_def upd_task_def upd_iosched_def upd_dev_def task_tree_def)
qed

text \<open>
  Deleting a task from an ordered tree removes exactly that task and keeps the order, so
  that the block can be written again.
\<close>

theorem del_task_spec:
  assumes K: "kern_ok K" and ok: "tree_ok (sy_tasks s) (task_tree s)" and t: "t \<in> set (inorder (task_tree s))"
  shows "\<exists>s'. del_task_from_tree K t s = Some s' \<and> tree_ok (sy_tasks s') (task_tree s') \<and>
     set (inorder (task_tree s')) = set (inorder (task_tree s)) - {t} \<and>
     (\<forall>q\<in>set (inorder (task_tree s')). task_key (sy_tasks s') q \<noteq> task_key (sy_tasks s) t)"
proof -
  let ?tr = "rb_erase K t (task_tree s)"
  have d: "distinct (inorder (task_tree s))" by (rule tree_ok_distinct [OF ok])
  then have i: "inorder ?tr = remove1 t (inorder (task_tree s))" using K by (simp add: kern_ok_def)
  have ok': "tree_ok (sy_tasks s) ?tr" by (rule tree_ok_remove [OF ok i])
  have set': "set (inorder ?tr) = set (inorder (task_tree s)) - {t}" using i d by simp
  have "\<exists>s'. del_task_from_tree K t s = Some s' \<and> task_tree s' = ?tr \<and> sy_tasks s' = sy_tasks s"
    using t by (simp add: del_task_from_tree_def Let_def upd_iosched_def upd_dev_def task_tree_def)
  moreover have "task_key (sy_tasks s) q \<noteq> task_key (sy_tasks s) t" if "q \<in> set (inorder ?tr)" for q
    using tree_ok_inj [OF ok _ t, of q] that set' by auto
  ultimately show ?thesis using ok' set' by metis
qed

section \<open>The search function\<close>

lemma tree_search_none:
  assumes "\<forall>q\<in>set (inorder tree). tasks q \<noteq> None \<and> task_key tasks q \<noteq> b"
  shows "tree_search tasks b tree = Some None"
  using assms by (induction tree) (auto simp: task_key_def)

text \<open>
  \<open>search_task\<close>, which descends to the right for smaller blocks, finds a block of an ordered
  tree only when it is the block of the root.
\<close>

theorem search_task_root_only:
  assumes ok: "tree_ok tasks (Node l p r)"
  shows "tree_search tasks b (Node l p r) = Some (if task_key tasks p = b then Some p else None)"
proof -
  obtain tk where p: "tasks p = Some tk" using ok by (auto simp: tree_ok_def)
  have l: "\<forall>q\<in>set (inorder l). tasks q \<noteq> None \<and> task_key tasks q < t_blkid tk"
    and r: "\<forall>q\<in>set (inorder r). tasks q \<noteq> None \<and> t_blkid tk < task_key tasks q"
    using ok p by (auto simp: tree_ok_def sorted_wrt_append task_key_def)
  have "tree_search tasks b r = Some None" if "b < t_blkid tk"
    by (rule tree_search_none) (use r that in fastforce)
  moreover have "tree_search tasks b l = Some None" if "t_blkid tk < b"
    by (rule tree_search_none) (use l that in fastforce)
  ultimately show ?thesis using p by (auto simp: task_key_def)
qed

end
