(* ===== verification/Completion.thy ===== *)
theory Completion
  imports Task_Tree
begin

text \<open>
  The completion side of \<^verbatim>\<open>lbz-io-scheduler.c\<close> and \<^verbatim>\<open>lbz-request.c\<close>: how a bio is given back to the
  layer above, the end of a split bio, the release of a task with the callback of the collector,
  and the handlers of user reads, user writes and the collector's reads and writes.

  Nesting of handlers. A bio of the layer above carries \<open>UserEndio\<close>; the driver wraps it at most
  once as a flush or as a part of a split bio, and then at most once with a read or write hook.
  The functions below follow this nesting, outermost last; a handler at a place where the driver
  never puts it stops the model.
\<close>

section \<open>Giving a bio back\<close>

definition bio_put :: "bptr \<Rightarrow> lbz_sys \<Rightarrow> lbz_sys option" where
  "bio_put b s = (case sy_bios s b of None \<Rightarrow> None | Some x \<Rightarrow> Some (s\<lparr>sy_bios := (sy_bios s)(b := None)\<rparr>))"

definition submit_bio :: "bptr \<Rightarrow> lbz_sys \<Rightarrow> lbz_sys option" where
  "submit_bio b s = (case sy_bios s b of None \<Rightarrow> None | Some x \<Rightarrow> Some (s\<lparr>sy_inflight := sy_inflight s @ [b]\<rparr>))"

definition bio_endio_user :: "bptr \<Rightarrow> lbz_sys \<Rightarrow> lbz_sys option" where
  "bio_endio_user b s = do {
     x \<leftarrow> sy_bios s b;
     case bi_end_io x of
       UserEndio n \<Rightarrow> Some (s\<lparr>sy_done := sy_done s @ [(b, n, bi_status x)], sy_bios := (sy_bios s)(b := None)\<rparr>)
     | FlushBioEndio e \<Rightarrow> Some (s\<lparr>sy_flush_done := sy_flush_done s @ [b]\<rparr>)
     | _ \<Rightarrow> None
   }"

definition lbz_long_bio_endio :: "bptr \<Rightarrow> nat \<Rightarrow> lbz_sys \<Rightarrow> lbz_sys option" where
  "lbz_long_bio_endio b c s = do {
     x \<leftarrow> sy_bios s b;
     ctx \<leftarrow> sy_ctxs s c;
     let user_bio = lc_user_bio_long ctx;
     ub \<leftarrow> sy_bios s user_bio;
     s \<leftarrow> (if bi_status x \<noteq> None \<and> bi_status ub = None
          then upd_bio user_bio (\<lambda>u. u\<lparr>bi_status := bi_status x\<rparr>) s else Some s);
     let ctx = ctx\<lparr>lc_remaining := lc_remaining ctx - 1\<rparr>;
     let s = s\<lparr>sy_ctxs := (sy_ctxs s)(c \<mapsto> ctx)\<rparr>;
     s \<leftarrow> (if lc_remaining ctx = 0
          then do {
            s \<leftarrow> upd_bio user_bio (\<lambda>u. u\<lparr>bi_end_io := lc_user_endio_long ctx\<rparr>) s;
            s \<leftarrow> bio_endio_user user_bio s;
            Some (s\<lparr>sy_ctxs := (sy_ctxs s)(c := None)\<rparr>)
          }
          else Some s);
     if b \<noteq> user_bio then bio_put b s else Some s
   }"

definition bio_endio_unhooked :: "bptr \<Rightarrow> lbz_sys \<Rightarrow> lbz_sys option" where
  "bio_endio_unhooked b s = do {
     x \<leftarrow> sy_bios s b;
     case bi_end_io x of
       LongBioEndio c \<Rightarrow> lbz_long_bio_endio b c s
     | _ \<Rightarrow> bio_endio_user b s
   }"

definition unhook_io :: "bptr \<Rightarrow> lbz_sys \<Rightarrow> lbz_sys option" where
  "unhook_io b s = do {
     x \<leftarrow> sy_bios s b;
     e \<leftarrow> (case bi_end_io x of
            WriteIoEndio t blkid e \<Rightarrow> Some e
          | ReadIoEndio z blkid e \<Rightarrow> Some e
          | _ \<Rightarrow> None);
     s \<leftarrow> upd_bio b (\<lambda>x. x\<lparr>bi_end_io := e\<rparr>) s;
     bio_endio_unhooked b s
   }"

section \<open>Releasing a task\<close>

definition put_zone :: "zptr \<Rightarrow> lbz_sys \<Rightarrow> lbz_sys option" where
  "put_zone p = upd_zmd (upd_zone p lbz_put_zone)"

definition read_zone :: "lbz_io_task \<Rightarrow> zptr option" where
  "read_zone tk = (case t_link tk of LinkZone p \<Rightarrow> Some p | LinkList \<Rightarrow> None)"

text \<open>Reading \<open>pending_gc_node\<close> of a task whose union holds the scheduler is reading a wrong pointer.\<close>

definition pending_gc_node :: "lbz_io_task \<Rightarrow> tptr option option" where
  "pending_gc_node tk = (case t_gc tk of GcNull \<Rightarrow> Some None | GcNode g \<Rightarrow> Some (Some g) | GcIosched \<Rightarrow> None)"

definition task_iosched :: "lbz_io_task \<Rightarrow> unit option" where
  "task_iosched tk = (case t_gc tk of GcIosched \<Rightarrow> Some () | _ \<Rightarrow> None)"

definition task_dec :: "tptr \<Rightarrow> lbz_sys \<Rightarrow> (lbz_io_task \<times> lbz_sys) option" where
  "task_dec t s = do {
     tk \<leftarrow> sy_tasks s t;
     let tk = tk\<lparr>t_refcount := t_refcount tk - 1\<rparr>;
     Some (tk, s\<lparr>sy_tasks := (sy_tasks s)(t \<mapsto> tk)\<rparr>)
   }"

text \<open>
  \<open>task_put\<close> as the collector's callback calls it, on a task whose union holds the scheduler. A
  task that is not a collector's task would have that pointer read as a task.
\<close>

definition gc_task_put :: "tptr \<Rightarrow> lbz_sys \<Rightarrow> lbz_sys option" where
  "gc_task_put t s = do {
     (tk, s) \<leftarrow> task_dec t s;
     if t_refcount tk = 0
     then if t_type tk \<noteq> LBZ_TASK_GC then None else task_destroy t s
     else Some s
   }"

text \<open>The update of the maps in \<open>__gc_task_callback\<close>.\<close>

definition gc_remap :: "kern \<Rightarrow> lbz_io_task \<Rightarrow> u32 \<Rightarrow> lbz_sys \<Rightarrow> lbz_sys option" where
  "gc_remap K tk pbid s = do {
     zone \<leftarrow> t_zone tk;
     s \<leftarrow> upd_zmd (lbz_zone_update_reverse_map zone pbid (t_blkid tk)) s;
     (old_pbid, m) \<leftarrow> lbz_mapping_add K (d_mapping (sy_dev s)) (t_blkid tk) pbid;
     let s = upd_dev (\<lambda>d. d\<lparr>d_mapping := m\<rparr>) s;
     if old_pbid \<noteq> t_pbid tk \<and> old_pbid \<noteq> LBZ_INVALID_PBID then None
     else if old_pbid \<noteq> LBZ_INVALID_PBID
     then do {
       rz \<leftarrow> read_zone tk;
       s \<leftarrow> upd_zmd (lbz_zone_update_reverse_map rz (t_pbid tk) LBZ_INVALID_PBID) s;
       upd_zmd (lbz_zone_release_global_res rz) s
     }
     else Some s
   }"

text \<open>The stages of the \<open>switch\<close> of \<open>__gc_task_callback\<close>, each falling through to the next.\<close>

definition gc_unwind_init :: "tptr \<Rightarrow> lbz_sys \<Rightarrow> lbz_sys option" where
  "gc_unwind_init t s = do {
     tk \<leftarrow> sy_tasks s t;
     rz \<leftarrow> read_zone tk;
     s \<leftarrow> put_zone rz s;
     gc_task_put t s
   }"

definition gc_unwind_reading :: "tptr \<Rightarrow> lbz_sys \<Rightarrow> lbz_sys option" where
  "gc_unwind_reading t s = do {
     tk \<leftarrow> sy_tasks s t;
     pg \<leftarrow> t_page tk;
     _ \<leftarrow> sy_pages s pg;
     gc_unwind_init t (s\<lparr>sy_pages := (sy_pages s)(pg := None)\<rparr>)
   }"

definition gc_unwind_alloc :: "kern \<Rightarrow> tptr \<Rightarrow> lbz_sys \<Rightarrow> lbz_sys option" where
  "gc_unwind_alloc K t s = do {
     s \<leftarrow> del_task_from_tree K t s;
     s \<leftarrow> gc_task_put t s;
     gc_unwind_reading t s
   }"

definition gc_unwind_writing :: "kern \<Rightarrow> tptr \<Rightarrow> lbz_sys \<Rightarrow> lbz_sys option" where
  "gc_unwind_writing K t s = do {
     tk \<leftarrow> sy_tasks s t;
     zone \<leftarrow> t_zone tk;
     s \<leftarrow> put_zone zone s;
     gc_unwind_alloc K t s
   }"

definition gc_task_callback :: "kern \<Rightarrow> tptr \<Rightarrow> u32 \<Rightarrow> lbz_sys \<Rightarrow> lbz_sys option" where
  "gc_task_callback K t pbid s = do {
     tk \<leftarrow> sy_tasks s t;
     _ \<leftarrow> task_iosched tk;
     s \<leftarrow> (if \<not> is_dev_faulty (sy_dev s) \<and> t_error tk = None then gc_remap K tk pbid s else Some s);
     case t_status tk of
       LBZ_TASK_DISPATCH \<Rightarrow> gc_unwind_writing K t s
     | LBZ_TASK_GC_WRITING \<Rightarrow> gc_unwind_writing K t s
     | LBZ_TASK_ALLOC_RES \<Rightarrow> gc_unwind_alloc K t s
     | LBZ_TASK_GC_READING \<Rightarrow> gc_unwind_reading t s
     | LBZ_TASK_INIT \<Rightarrow> gc_unwind_init t s
     | _ \<Rightarrow> None
   }"

definition task_put :: "kern \<Rightarrow> tptr \<Rightarrow> lbz_sys \<Rightarrow> lbz_sys option" where
  "task_put K t s = do {
     (tk, s) \<leftarrow> task_dec t s;
     if t_refcount tk = 0
     then do {
       s \<leftarrow> (if t_type tk \<noteq> LBZ_TASK_GC
            then do {
              p \<leftarrow> pending_gc_node tk;
              case p of
                None \<Rightarrow> Some s
              | Some g \<Rightarrow> do {
                  gk \<leftarrow> sy_tasks s g;
                  _ \<leftarrow> task_iosched gk;
                  s \<leftarrow> (if t_error tk \<noteq> None then upd_task g (\<lambda>gk. gk\<lparr>t_error := t_error tk\<rparr>) s else Some s);
                  s \<leftarrow> gc_task_callback K g LBZ_INVALID_PBID s;
                  Some (upd_dev lbz_dec_gc_inflight s)
                }
            }
            else Some s);
       task_destroy t s
     }
     else Some s
   }"

section \<open>Completion handlers\<close>

definition lbz_read_io_endio :: "bptr \<Rightarrow> lbz_sys \<Rightarrow> lbz_sys option" where
  "lbz_read_io_endio b s = do {
     x \<leftarrow> sy_bios s b;
     zone \<leftarrow> (case bi_end_io x of ReadIoEndio z blkid e \<Rightarrow> Some z | _ \<Rightarrow> None);
     let s = (if bi_status x \<noteq> None
              then upd_dev (\<lambda>d. lbz_dev_set_faulty (d\<lparr>d_user_read_err_cnt := d_user_read_err_cnt d + 1\<rparr>)) s
              else s);
     s \<leftarrow> unhook_io b s;
     s \<leftarrow> put_zone zone s;
     Some (upd_dev (\<lambda>d. d\<lparr>d_user_read_inflight_io_cnt := d_user_read_inflight_io_cnt d - 1\<rparr>) s)
   }"

text \<open>The update of the maps when a user write has succeeded.\<close>

definition write_remap :: "kern \<Rightarrow> lbz_io_task \<Rightarrow> zptr \<Rightarrow> u32 \<Rightarrow> lbz_sys \<Rightarrow> lbz_sys option" where
  "write_remap K task zone pbid s = do {
     (old_pbid, m) \<leftarrow> lbz_mapping_add K (d_mapping (sy_dev s)) (t_blkid task) pbid;
     let s = upd_dev (\<lambda>d. d\<lparr>d_mapping := m\<rparr>) s;
     s \<leftarrow> upd_zmd (invalidate_block K old_pbid) s;
     upd_zmd (lbz_zone_update_reverse_map zone pbid (t_blkid task)) s
   }"

definition lbz_write_io_endio :: "kern \<Rightarrow> bptr \<Rightarrow> lbz_sys \<Rightarrow> lbz_sys option" where
  "lbz_write_io_endio K b s = do {
     x \<leftarrow> sy_bios s b;
     t \<leftarrow> (case bi_end_io x of WriteIoEndio t blkid e \<Rightarrow> Some t | _ \<Rightarrow> None);
     task \<leftarrow> sy_tasks s t;
     zone \<leftarrow> t_zone task;
     let pbid = sector_to_blkid (bi_sector x);
     s \<leftarrow> (if bi_status x = None then write_remap K task zone pbid s
          else Some (upd_dev (\<lambda>d. lbz_dev_set_faulty (d\<lparr>d_user_write_err_cnt := d_user_write_err_cnt d + 1\<rparr>)) s));
     s \<leftarrow> unhook_io b s;
     task \<leftarrow> sy_tasks s t;
     let s = (if t_type task \<noteq> LBZ_TASK_USER_WRITE
              then upd_dev (\<lambda>d. d\<lparr>d_nat_sit_mgmt := lbz_nat_sit_complete_write (d_nat_sit_mgmt d)\<rparr>) s else s);
     s \<leftarrow> (if t_status task \<noteq> LBZ_TASK_INIT
          then do { s \<leftarrow> del_task_from_tree K t s; task_put K t s }
          else Some s);
     s \<leftarrow> task_put K t s;
     s \<leftarrow> upd_zmd (upd_zone zone lbz_zone_complete_write) s;
     s \<leftarrow> put_zone zone s;
     Some (upd_dev (\<lambda>d. d\<lparr>d_user_write_inflight_io_cnt := d_user_write_inflight_io_cnt d - 1\<rparr>) s)
   }"

text \<open>\<open>bio_endio\<close> on a bio that may carry a hook of the scheduler.\<close>

definition bio_endio :: "kern \<Rightarrow> bptr \<Rightarrow> lbz_sys \<Rightarrow> lbz_sys option" where
  "bio_endio K b s = do {
     x \<leftarrow> sy_bios s b;
     case bi_end_io x of
       WriteIoEndio t blkid e \<Rightarrow> lbz_write_io_endio K b s
     | ReadIoEndio z blkid e \<Rightarrow> lbz_read_io_endio b s
     | _ \<Rightarrow> bio_endio_unhooked b s
   }"

end
