(* ===== verification/Io_Scheduler.thy ===== *)
theory Io_Scheduler
  imports Completion
begin

text \<open>
  The submission side of \<^verbatim>\<open>lbz-io-scheduler.c\<close>: user reads and writes, their retry, and the
  collector's reads and writes with their completions. \<open>switch\<close> statements that fall through
  are split into one definition per stage. A return code is \<open>None\<close> for 0.
\<close>

section \<open>Reads\<close>

definition hook_io_read :: "bptr \<Rightarrow> u32 \<Rightarrow> zptr \<Rightarrow> lbz_sys \<Rightarrow> lbz_sys option" where
  "hook_io_read b blkid zone s = do {
     s \<leftarrow> upd_bio b (\<lambda>x. x\<lparr>bi_end_io := ReadIoEndio zone blkid (bi_end_io x), bi_phys := True\<rparr>) s;
     Some (upd_dev (\<lambda>d. d\<lparr>d_user_read_inflight_io_cnt := d_user_read_inflight_io_cnt d + 1\<rparr>) s)
   }"

definition hook_io_write :: "bptr \<Rightarrow> u32 \<Rightarrow> tptr \<Rightarrow> lbz_sys \<Rightarrow> lbz_sys option" where
  "hook_io_write b blkid t =
     upd_bio b (\<lambda>x. x\<lparr>bi_end_io := WriteIoEndio t blkid (bi_end_io x), bi_phys := True\<rparr>)"

definition submit_read_io :: "kern \<Rightarrow> bptr \<Rightarrow> lbz_sys \<Rightarrow> lbz_sys option" where
  "submit_read_io K b s = do {
     x \<leftarrow> sy_bios s b;
     let blkid = sector_to_blkid (bi_sector x);
     (r, zmd) \<leftarrow> lbz_mapping_lookup K (d_mapping (sy_dev s)) blkid (d_zone_metadata (sy_dev s));
     let s = upd_dev (\<lambda>d. d\<lparr>d_zone_metadata := zmd\<rparr>) s;
     case r of
       Inl e \<Rightarrow> do {
         s \<leftarrow> bio_endio K b s;
         Some (upd_dev (\<lambda>d. d\<lparr>d_user_read_zero_cnt := d_user_read_zero_cnt d + 1\<rparr>) s)
       }
     | Inr (zone, pbid) \<Rightarrow> do {
         s \<leftarrow> hook_io_read b blkid zone s;
         s \<leftarrow> upd_bio b (\<lambda>x. x\<lparr>bi_sector := blkid_to_sector pbid\<rparr>) s;
         submit_bio b s
       }
   }"

section \<open>Writes\<close>

text \<open>
  The record written with a block. The buffer is zeroed when it is allocated, so a field that is
  not assigned is 0.
\<close>

definition add_integrity ::
  "lbz_env \<Rightarrow> tptr \<Rightarrow> lbz_log_type \<Rightarrow> lbz_sys \<Rightarrow> (integrity_buf \<times> lbz_sys) option" where
  "add_integrity E t type s = do {
     tk \<leftarrow> sy_tasks s t;
     b \<leftarrow> t_bio tk;
     _ \<leftarrow> sy_bios s b;
     case ev_integrity E t of
       Some e \<Rightarrow> Some (BufErr e, s)
     | None \<Rightarrow> do {
         let (ts, d) = lbz_dev_get_timestamp (sy_dev s);
         let s = s\<lparr>sy_dev := d\<rparr>;
         let log = \<lparr>dl_timestamp = ts, dl_txid = 0, dl_blkid = t_blkid tk, dl_free_blkid = 0,
                    dl_log_type = type, dl_crc = 0\<rparr>;
         case t_type tk of
           LBZ_TASK_WRITE_TX_FATHER \<Rightarrow>
             (let (txid, d) = lbz_dev_get_tx_id (sy_dev s)
              in Some (Buf (log\<lparr>dl_txid := txid, dl_log_type := LBZ_LOG_TRANSACTION_FATHER\<rparr>), s\<lparr>sy_dev := d\<rparr>))
         | LBZ_TASK_WRITE_TX_CHILD \<Rightarrow> do {
             let txid = lbz_dev_read_tx_id (sy_dev s);
             let free_blkid = lbz_nat_sit_to_free (d_nat_sit_mgmt (sy_dev s)) (t_blkid tk);
             s \<leftarrow> (if ev_free_support E
                  then do {
                    mgmt \<leftarrow> lbz_nat_sit_add_blkid free_blkid (d_nat_sit_mgmt (sy_dev s));
                    Some (upd_dev (\<lambda>d. d\<lparr>d_nat_sit_mgmt := mgmt\<rparr>) s)
                  }
                  else Some s);
             Some (Buf (log\<lparr>dl_txid := txid, dl_log_type := LBZ_LOG_TRANSACTION_CHILD,
                          dl_free_blkid := free_blkid\<rparr>), s)
           }
         | _ \<Rightarrow> Some (Buf log, s)
       }
   }"

definition alloc_res_stream ::
  "lbz_env \<Rightarrow> lbz_alloc_flag \<Rightarrow> nat \<Rightarrow> lbz_sys \<Rightarrow> ((errno + zptr) \<times> lbz_sys) option" where
  "alloc_res_stream E md sid s = do {
     (r, zmd, gc) \<leftarrow> lbz_zone_alloc_res (ev_stream_support E) (is_dev_faulty (sy_dev s)) md sid
                       (d_zone_metadata (sy_dev s)) (d_gc_ctx (sy_dev s));
     Some (r, upd_dev (\<lambda>d. d\<lparr>d_zone_metadata := zmd, d_gc_ctx := gc\<rparr>) s)
   }"

text \<open>The loop over the other streams after the block's own stream had no space; \<open>count\<close> records its success.\<close>

fun alloc_other_streams ::
  "lbz_env \<Rightarrow> lbz_alloc_flag \<Rightarrow> nat \<Rightarrow> (lbz_device \<Rightarrow> lbz_device) \<Rightarrow> nat list \<Rightarrow> errno + zptr \<Rightarrow> lbz_sys \<Rightarrow>
     ((errno + zptr) \<times> lbz_sys) option" where
  "alloc_other_streams E md sid count [] r s = Some (r, s)"
| "alloc_other_streams E md sid count (i # is) r s =
     (if i \<noteq> sid
      then do {
        (r, s) \<leftarrow> alloc_res_stream E md i s;
        case r of
          Inr p \<Rightarrow> Some (Inr p, upd_dev count s)
        | Inl e \<Rightarrow> alloc_other_streams E md sid count is (Inl e) s
      }
      else alloc_other_streams E md sid count is r s)"

definition alloc_res_any ::
  "lbz_env \<Rightarrow> lbz_alloc_flag \<Rightarrow> u32 \<Rightarrow> (lbz_device \<Rightarrow> lbz_device) \<Rightarrow> lbz_sys \<Rightarrow>
     ((errno + zptr) \<times> lbz_sys) option" where
  "alloc_res_any E md blkid count s = do {
     let sid = lbz_nat_sit_get_stream_id (ev_stream_support E) (d_nat_sit_mgmt (sy_dev s)) blkid;
     (r, s) \<leftarrow> alloc_res_stream E md sid s;
     case r of
       Inr p \<Rightarrow> Some (Inr p, s)
     | Inl e \<Rightarrow> (if ev_stream_support E
                then alloc_other_streams E md sid count [0..<LBZ_ZONE_MAX_STREAM] (Inl e) s
                else Some (Inl e, s))
   }"

definition write_stage_writing :: "lbz_env \<Rightarrow> tptr \<Rightarrow> bptr \<Rightarrow> lbz_sys \<Rightarrow> (errno option \<times> lbz_sys) option" where
  "write_stage_writing E t b s = do {
     (buf, s) \<leftarrow> add_integrity E t LBZ_LOG_USER_WRITE s;
     s \<leftarrow> upd_task t (\<lambda>tk. tk\<lparr>t_integrity_buf := buf\<rparr>) s;
     case buf of
       BufErr e \<Rightarrow> (if e = EAGAIN then None else Some (Some e, upd_dev lbz_dev_set_faulty s))
     | _ \<Rightarrow> do {
         s \<leftarrow> upd_task t (\<lambda>tk. tk\<lparr>t_status := LBZ_TASK_DISPATCH\<rparr>) s;
         s \<leftarrow> submit_bio b s;
         Some (None, s)
       }
   }"

definition write_stage_alloc :: "lbz_env \<Rightarrow> tptr \<Rightarrow> bptr \<Rightarrow> u32 \<Rightarrow> lbz_sys \<Rightarrow> (errno option \<times> lbz_sys) option" where
  "write_stage_alloc E t b blkid s = do {
     tk \<leftarrow> sy_tasks s t;
     p \<leftarrow> pending_gc_node tk;
     let md = (if p = None then LBZ_ALLOC_FLAG_USER else LBZ_ALLOC_FLAG_GC);
     (r, s) \<leftarrow> alloc_res_any E md blkid
                 (\<lambda>d. d\<lparr>d_write_alloc_encounter_eagain := d_write_alloc_encounter_eagain d + 1\<rparr>) s;
     case r of
       Inl e \<Rightarrow> do {
         s \<leftarrow> (if e \<noteq> EAGAIN
              then do { s \<leftarrow> del_task_from_tree (ev_kern E) t s; task_put (ev_kern E) t s }
              else Some s);
         Some (Some e, upd_dev (\<lambda>d. d\<lparr>d_gc_ctx := lbz_trigger_gc_reclaim_emergency (d_gc_ctx d)\<rparr>) s)
       }
     | Inr zone \<Rightarrow> do {
         let s = (if lbz_check_need_reclaim_high (d_zone_metadata (sy_dev s))
                  then upd_dev (\<lambda>d. d\<lparr>d_gc_ctx := lbz_trigger_gc_reclaim (d_gc_ctx d)\<rparr>) s else s);
         s \<leftarrow> upd_task t (\<lambda>tk. tk\<lparr>t_zone := Some zone\<rparr>) s;
         s \<leftarrow> hook_io_write b blkid t s;
         z \<leftarrow> zmd_zones (d_zone_metadata (sy_dev s)) zone;
         s \<leftarrow> upd_bio b (\<lambda>x. x\<lparr>bi_sector := ucast (z_start_sector z), bi_append := True\<rparr>) s;
         s \<leftarrow> upd_task t (\<lambda>tk. tk\<lparr>t_status := LBZ_TASK_IO_WRITING\<rparr>) s;
         write_stage_writing E t b s
       }
   }"

definition submit_write_task :: "lbz_env \<Rightarrow> tptr \<Rightarrow> lbz_sys \<Rightarrow> (errno option \<times> lbz_sys) option" where
  "submit_write_task E t s = do {
     tk \<leftarrow> sy_tasks s t;
     b \<leftarrow> t_bio tk;
     x \<leftarrow> sy_bios s b;
     let blkid = sector_to_blkid (bi_sector x);
     s \<leftarrow> upd_task t (\<lambda>tk. tk\<lparr>t_blkid := blkid\<rparr>) s;
     case t_status tk of
       LBZ_TASK_INIT \<Rightarrow> do {
         (r, s) \<leftarrow> insert_task_to_tree (ev_kern E) t s;
         case r of
           Some q \<Rightarrow> do { s \<leftarrow> task_put (ev_kern E) q s; Some (Some EAGAIN, s) }
         | None \<Rightarrow> do {
             s \<leftarrow> upd_task t (\<lambda>tk. tk\<lparr>t_status := LBZ_TASK_ALLOC_RES\<rparr>) s;
             write_stage_alloc E t b blkid s
           }
       }
     | LBZ_TASK_ALLOC_RES \<Rightarrow> write_stage_alloc E t b blkid s
     | LBZ_TASK_IO_WRITING \<Rightarrow> write_stage_writing E t b s
     | _ \<Rightarrow> None
   }"

section \<open>Retry lists\<close>

text \<open>The retry work is queued; the work queue is taken to be there (\<open>s_retry_wq\<close>).\<close>

definition trigger_retry_work :: "lbz_sys \<Rightarrow> lbz_sys" where
  "trigger_retry_work = upd_iosched (\<lambda>io. io\<lparr>s_retry_queued := True\<rparr>)"

text \<open>Linking a task writes its list member, which shares memory with \<open>read_zone\<close>.\<close>

definition add_task_to_retry :: "tptr \<Rightarrow> lbz_sys \<Rightarrow> lbz_sys option" where
  "add_task_to_retry t s = do {
     s \<leftarrow> upd_task t (\<lambda>tk. tk\<lparr>t_link := LinkList\<rparr>) s;
     Some (upd_iosched (\<lambda>io. io\<lparr>s_pending_count := s_pending_count io + 1,
                              s_user_pending := s_user_pending io @ [t]\<rparr>) s)
   }"

definition add_task_to_gc_writes :: "tptr \<Rightarrow> lbz_sys \<Rightarrow> lbz_sys option" where
  "add_task_to_gc_writes t s = do {
     s \<leftarrow> upd_task t (\<lambda>tk. tk\<lparr>t_link := LinkList\<rparr>) s;
     Some (upd_iosched (\<lambda>io. io\<lparr>s_gc_write_count := s_gc_write_count io + 1,
                              s_gc_writes := s_gc_writes io @ [t]\<rparr>) s)
   }"

text \<open>
  The error branch that the first submission and the retry share, up to the read of the status:
  the first submission reads \<open>task->status\<close> after the bio was ended (\<open>saved\<close> is \<open>None\<close>), the retry
  uses the value it saved before.
\<close>

definition fail_write_task :: "lbz_env \<Rightarrow> tptr \<Rightarrow> bptr \<Rightarrow> lbz_task_status option \<Rightarrow> lbz_sys \<Rightarrow> lbz_sys option" where
  "fail_write_task E t b saved s = do {
     s \<leftarrow> upd_bio b (\<lambda>x. x\<lparr>bi_status := Some EIO\<rparr>) s;
     s \<leftarrow> bio_endio (ev_kern E) b s;
     status \<leftarrow> (case saved of Some st \<Rightarrow> Some st | None \<Rightarrow> map_option t_status (sy_tasks s t));
     s \<leftarrow> (if status = LBZ_TASK_ALLOC_RES
          then do {
            tk \<leftarrow> sy_tasks s t;
            let s = (if t_type tk \<noteq> LBZ_TASK_USER_WRITE
                     then upd_dev (\<lambda>d. d\<lparr>d_nat_sit_mgmt := lbz_nat_sit_complete_write (d_nat_sit_mgmt d)\<rparr>) s
                     else s);
            s \<leftarrow> task_put (ev_kern E) t s;
            Some (upd_dev (\<lambda>d. d\<lparr>d_user_write_inflight_io_cnt := d_user_write_inflight_io_cnt d - 1\<rparr>) s)
          }
          else Some s);
     Some (upd_dev (\<lambda>d. d\<lparr>d_user_write_err_cnt := d_user_write_err_cnt d + 1\<rparr>) s)
   }"

fun retry_io_tasks :: "lbz_env \<Rightarrow> tptr list \<Rightarrow> lbz_sys \<Rightarrow> lbz_sys option" where
  "retry_io_tasks E [] s = Some s"
| "retry_io_tasks E (t # ts) s = do {
     s \<leftarrow> upd_task t (\<lambda>tk. tk\<lparr>t_link := LinkList\<rparr>) s;
     (r, s) \<leftarrow> submit_write_task E t s;
     s \<leftarrow> (case r of
            None \<Rightarrow> Some s
          | Some e \<Rightarrow>
              (if e = EAGAIN
               then do { s \<leftarrow> add_task_to_retry t s; Some (trigger_retry_work s) }
               else do {
                 tk \<leftarrow> sy_tasks s t;
                 b \<leftarrow> t_bio tk;
                 fail_write_task E t b (Some (t_status tk)) s
               }));
     retry_io_tasks E ts s
   }"

definition retry_submit_io_task :: "lbz_env \<Rightarrow> lbz_sys \<Rightarrow> lbz_sys option" where
  "retry_submit_io_task E s =
     retry_io_tasks E (s_user_pending (d_iosched (sy_dev s)))
       (upd_iosched (\<lambda>io. io\<lparr>s_user_pending := [], s_pending_count := 0\<rparr>) s)"

section \<open>Entry of the scheduler\<close>

text \<open>The type of a write task and the statistics of its class of block.\<close>

definition classify_write :: "u32 \<Rightarrow> bool \<Rightarrow> lbz_nat_sit_mgmt \<Rightarrow> lbz_task_type \<times> lbz_nat_sit_mgmt" where
  "classify_write blkid flush mgmt =
     (if lbz_nat_sit_is_cp_block mgmt blkid
      then if flush
           then (LBZ_TASK_WRITE_TX_FATHER, lbz_nat_sit_cp_write (lbz_nat_sit_add_write mgmt))
           else (LBZ_TASK_USER_WRITE, lbz_nat_sit_cp_write mgmt)
      else if lbz_nat_sit_is_dup_block mgmt blkid
      then (LBZ_TASK_WRITE_TX_CHILD, lbz_nat_sit_user_write (lbz_nat_sit_add_write mgmt))
      else (LBZ_TASK_USER_WRITE, lbz_nat_sit_ssa_write mgmt))"

definition lbz_submit_io_to_iosched :: "lbz_env \<Rightarrow> bptr \<Rightarrow> lbz_sys \<Rightarrow> lbz_sys option" where
  "lbz_submit_io_to_iosched E b s = do {
     x \<leftarrow> sy_bios s b;
     let blkid = sector_to_blkid (bi_sector x);
     if bi_write x
     then do {
       let s = upd_dev (\<lambda>d. d\<lparr>d_user_write_blocks := d_user_write_blocks d + 1,
                 d_user_write_inflight_io_cnt := d_user_write_inflight_io_cnt d + 1\<rparr>) s;
       let (type, mgmt) = classify_write blkid (bi_flush x) (d_nat_sit_mgmt (sy_dev s));
       let s = upd_dev (\<lambda>d. d\<lparr>d_nat_sit_mgmt := mgmt\<rparr>) s;
       let (t, s) = task_alloc type s;
       s \<leftarrow> upd_task t (\<lambda>tk. tk\<lparr>t_bio := Some b\<rparr>) s;
       (r, s) \<leftarrow> submit_write_task E t s;
       case r of
         None \<Rightarrow> Some s
       | Some e \<Rightarrow>
           (if e = EAGAIN
            then do {
              let s = upd_dev (\<lambda>d. d\<lparr>d_user_encounter_emergency := d_user_encounter_emergency d + 1\<rparr>) s;
              s \<leftarrow> add_task_to_retry t s;
              Some (trigger_retry_work s)
            }
            else fail_write_task E t b None s)
     }
     else do {
       let s = upd_dev (\<lambda>d. d\<lparr>d_user_read_blocks := d_user_read_blocks d + 1\<rparr>) s;
       submit_read_io (ev_kern E) b s
     }
   }"

end
