(* ===== verification/Gc.thy ===== *)
theory Gc
  imports Io_Scheduler
begin

text \<open>
  The collector: its reads and writes (\<open>__submit_gc_task\<close> and the handlers of \<^verbatim>\<open>lbz-io-scheduler.c\<close>),
  the retry work that submits its writes, the scan of a victim zone and one pass of the thread
  (\<^verbatim>\<open>lbz-gc.c\<close>).
\<close>

section \<open>Bios of the collector\<close>

text \<open>A page and a bio are allocated at fresh addresses; a new page has an arbitrary content, here 0.\<close>

definition init_gc_read_block :: "tptr \<Rightarrow> lbz_sys \<Rightarrow> (bptr \<times> lbz_sys) option" where
  "init_gc_read_block t s = do {
     tk \<leftarrow> sy_tasks s t;
     let b = sy_next s;
     let pg = sy_next s + 1;
     let x = \<lparr>bi_write = False, bi_flush = False, bi_has_data = True, bi_sector = blkid_to_sector (t_pbid tk),
              bi_sectors = 8, bi_status = None, bi_end_io = GcReadEndio t, bi_append = False,
              bi_phys = True, bi_pages = [pg]\<rparr>;
     let s = s\<lparr>sy_bios := (sy_bios s)(b \<mapsto> x), sy_pages := (sy_pages s)(pg \<mapsto> 0), sy_next := sy_next s + 2\<rparr>;
     s \<leftarrow> upd_task t (\<lambda>tk. tk\<lparr>t_page := Some pg\<rparr>) s;
     Some (b, s)
   }"

definition init_gc_write_block :: "tptr \<Rightarrow> lbz_sys \<Rightarrow> (bptr \<times> lbz_sys) option" where
  "init_gc_write_block t s = do {
     tk \<leftarrow> sy_tasks s t;
     zp \<leftarrow> t_zone tk;
     z \<leftarrow> zmd_zones (d_zone_metadata (sy_dev s)) zp;
     pg \<leftarrow> t_page tk;
     let b = sy_next s;
     let x = \<lparr>bi_write = True, bi_flush = False, bi_has_data = True, bi_sector = ucast (z_start_sector z),
              bi_sectors = 8, bi_status = None, bi_end_io = GcWriteEndio t, bi_append = False,
              bi_phys = True, bi_pages = [pg]\<rparr>;
     Some (b, s\<lparr>sy_bios := (sy_bios s)(b \<mapsto> x), sy_next := sy_next s + 1\<rparr>)
   }"

section \<open>Submission\<close>

definition gc_stage_writing :: "lbz_env \<Rightarrow> tptr \<Rightarrow> bptr option \<Rightarrow> lbz_sys \<Rightarrow> (errno option \<times> lbz_sys) option" where
  "gc_stage_writing E t write_bio s = do {
     (buf, s) \<leftarrow> add_integrity E t LBZ_LOG_GC_WRITE s;
     s \<leftarrow> upd_task t (\<lambda>tk. tk\<lparr>t_integrity_buf := buf\<rparr>) s;
     b \<leftarrow> write_bio;
     case buf of
       BufErr e \<Rightarrow> do {
         let s = upd_dev lbz_dev_set_faulty s;
         s \<leftarrow> bio_put b s;
         s \<leftarrow> upd_task t (\<lambda>tk. tk\<lparr>t_error := Some e\<rparr>) s;
         if e = EAGAIN then None
         else do {
           tk \<leftarrow> sy_tasks s t;
           zone \<leftarrow> t_zone tk;
           s \<leftarrow> upd_zmd (upd_zone zone lbz_zone_complete_write) s;
           s \<leftarrow> bio_put b s;
           Some (Some e, s)
         }
       }
     | _ \<Rightarrow> do {
         s \<leftarrow> upd_task t (\<lambda>tk. tk\<lparr>t_status := LBZ_TASK_DISPATCH\<rparr>) s;
         let s = upd_dev (\<lambda>d. d\<lparr>d_gc_write_blocks := d_gc_write_blocks d + 1\<rparr>) s;
         s \<leftarrow> submit_bio b s;
         Some (None, s)
       }
   }"

definition gc_stage_alloc :: "lbz_env \<Rightarrow> tptr \<Rightarrow> lbz_sys \<Rightarrow> (errno option \<times> lbz_sys) option" where
  "gc_stage_alloc E t s = do {
     tk \<leftarrow> sy_tasks s t;
     (r, s) \<leftarrow> alloc_res_any E LBZ_ALLOC_FLAG_GC (t_blkid tk)
                 (\<lambda>d. d\<lparr>d_gc_alloc_encounter_eagain := d_gc_alloc_encounter_eagain d + 1\<rparr>) s;
     case r of
       Inl e \<Rightarrow>
         (if e = EAGAIN then None
          else do {
            s \<leftarrow> upd_task t (\<lambda>tk. tk\<lparr>t_error := Some e\<rparr>) s;
            Some (Some e, s)
          })
     | Inr zone \<Rightarrow> do {
         s \<leftarrow> upd_task t (\<lambda>tk. tk\<lparr>t_zone := Some zone\<rparr>) s;
         (b, s) \<leftarrow> init_gc_write_block t s;
         s \<leftarrow> upd_bio b (\<lambda>x. x\<lparr>bi_append := True\<rparr>) s;
         s \<leftarrow> upd_task t (\<lambda>tk. tk\<lparr>t_bio := Some b, t_status := LBZ_TASK_GC_WRITING\<rparr>) s;
         gc_stage_writing E t (Some b) s
       }
   }"

text \<open>The block does not need to move: its task leaves the tree with \<open>-EEXIST\<close>.\<close>

definition gc_skip :: "kern \<Rightarrow> tptr \<Rightarrow> lbz_sys \<Rightarrow> (errno option \<times> lbz_sys) option" where
  "gc_skip K t s = do {
     s \<leftarrow> upd_task t (\<lambda>tk. tk\<lparr>t_error := Some EEXIST\<rparr>) s;
     s \<leftarrow> del_task_from_tree K t s;
     s \<leftarrow> task_put K t s;
     Some (Some EEXIST, s)
   }"

definition gc_stage_reading :: "lbz_env \<Rightarrow> tptr \<Rightarrow> lbz_sys \<Rightarrow> (errno option \<times> lbz_sys) option" where
  "gc_stage_reading E t s = do {
     tk \<leftarrow> sy_tasks s t;
     zone \<leftarrow> t_zone tk;
     s \<leftarrow> upd_task t (\<lambda>tk. tk\<lparr>t_link := LinkZone zone, t_zone := None, t_bio := None\<rparr>) s;
     (r, s) \<leftarrow> insert_task_to_tree (ev_kern E) t s;
     case r of
       Some q \<Rightarrow> do {
         let s = upd_dev (\<lambda>d. d\<lparr>d_gc_write_agency_blocks := d_gc_write_agency_blocks d + 1\<rparr>) s;
         s \<leftarrow> upd_task t (\<lambda>tk. tk\<lparr>t_error := Some ENOENT\<rparr>) s;
         s \<leftarrow> upd_task q (\<lambda>tq. tq\<lparr>t_gc := GcNode t\<rparr>) s;
         s \<leftarrow> task_put (ev_kern E) q s;
         Some (Some ENOENT, s)
       }
     | None \<Rightarrow> do {
         (l, zmd) \<leftarrow> lbz_mapping_lookup (ev_kern E) (d_mapping (sy_dev s)) (t_blkid tk) (d_zone_metadata (sy_dev s));
         let s = upd_dev (\<lambda>d. d\<lparr>d_zone_metadata := zmd\<rparr>) s;
         case l of
           Inl e \<Rightarrow>
             gc_skip (ev_kern E) t
               (upd_dev (\<lambda>d. d\<lparr>d_gc_write_discarded_blocks := d_gc_write_discarded_blocks d + 1\<rparr>) s)
         | Inr (z, origin_pbid) \<Rightarrow> do {
             s \<leftarrow> put_zone z s;
             if origin_pbid \<noteq> t_pbid tk
             then gc_skip (ev_kern E) t
                    (upd_dev (\<lambda>d. d\<lparr>d_gc_write_complete_blocks := d_gc_write_complete_blocks d + 1\<rparr>) s)
             else do {
               s \<leftarrow> upd_task t (\<lambda>tk. tk\<lparr>t_status := LBZ_TASK_ALLOC_RES\<rparr>) s;
               gc_stage_alloc E t s
             }
           }
       }
   }"

definition submit_gc_task :: "lbz_env \<Rightarrow> tptr \<Rightarrow> lbz_sys \<Rightarrow> (errno option \<times> lbz_sys) option" where
  "submit_gc_task E t s = do {
     tk \<leftarrow> sy_tasks s t;
     case t_status tk of
       LBZ_TASK_INIT \<Rightarrow> do {
         (b, s) \<leftarrow> init_gc_read_block t s;
         s \<leftarrow> upd_task t (\<lambda>tk. tk\<lparr>t_status := LBZ_TASK_GC_READING, t_gc := GcIosched, t_bio := Some b\<rparr>) s;
         let s = upd_dev (\<lambda>d. d\<lparr>d_gc_read_blocks := d_gc_read_blocks d + 1\<rparr>) s;
         s \<leftarrow> submit_bio b s;
         Some (None, s)
       }
     | LBZ_TASK_GC_READING \<Rightarrow> gc_stage_reading E t s
     | LBZ_TASK_ALLOC_RES \<Rightarrow> gc_stage_alloc E t s
     | LBZ_TASK_GC_WRITING \<Rightarrow> gc_stage_writing E t None s
     | _ \<Rightarrow> None
   }"

definition lbz_submit_gc_to_iosched :: "lbz_env \<Rightarrow> zptr \<Rightarrow> u32 \<Rightarrow> u32 \<Rightarrow> lbz_sys \<Rightarrow> lbz_sys option" where
  "lbz_submit_gc_to_iosched E zone pbid blkid s = do {
     let (t, s) = task_alloc LBZ_TASK_GC s;
     s \<leftarrow> upd_task t (\<lambda>tk. tk\<lparr>t_pbid := pbid, t_link := LinkZone zone, t_zone := Some zone, t_blkid := blkid\<rparr>) s;
     (r, s) \<leftarrow> submit_gc_task E t s;
     if r \<noteq> None then None else Some s
   }"

section \<open>Completions\<close>

definition lbz_gc_read_endio :: "kern \<Rightarrow> bptr \<Rightarrow> lbz_sys \<Rightarrow> lbz_sys option" where
  "lbz_gc_read_endio K b s = do {
     x \<leftarrow> sy_bios s b;
     t \<leftarrow> (case bi_end_io x of GcReadEndio t \<Rightarrow> Some t | _ \<Rightarrow> None);
     tk \<leftarrow> sy_tasks s t;
     _ \<leftarrow> task_iosched tk;
     s \<leftarrow> (case bi_status x of
            None \<Rightarrow> do {
              s \<leftarrow> upd_task t (\<lambda>tk. tk\<lparr>t_link := LinkList\<rparr>) s;
              s \<leftarrow> add_task_to_gc_writes t s;
              Some (trigger_retry_work s)
            }
          | Some e \<Rightarrow> do {
              s \<leftarrow> upd_task t (\<lambda>tk. tk\<lparr>t_error := Some e\<rparr>) s;
              s \<leftarrow> gc_task_callback K t LBZ_INVALID_PBID s;
              Some (upd_dev (\<lambda>d. lbz_dev_set_faulty (lbz_dec_gc_inflight (lbz_inc_gc_read_err d))) s)
            });
     bio_put b s
   }"

definition lbz_gc_write_endio :: "kern \<Rightarrow> bptr \<Rightarrow> lbz_sys \<Rightarrow> lbz_sys option" where
  "lbz_gc_write_endio K b s = do {
     x \<leftarrow> sy_bios s b;
     t \<leftarrow> (case bi_end_io x of GcWriteEndio t \<Rightarrow> Some t | _ \<Rightarrow> None);
     tk \<leftarrow> sy_tasks s t;
     _ \<leftarrow> task_iosched tk;
     let pbid = sector_to_blkid (bi_sector x);
     s \<leftarrow> upd_task t (\<lambda>tk. tk\<lparr>t_error := bi_status x\<rparr>) s;
     zone \<leftarrow> t_zone tk;
     s \<leftarrow> upd_zmd (upd_zone zone lbz_zone_complete_write) s;
     s \<leftarrow> gc_task_callback K t pbid s;
     s \<leftarrow> bio_put b s;
     let s = (if bi_status x \<noteq> None then upd_dev (\<lambda>d. lbz_dev_set_faulty (lbz_inc_gc_write_err d)) s else s);
     Some (upd_dev lbz_dec_gc_inflight s)
   }"

section \<open>Retry work\<close>

fun retry_gc_tasks :: "lbz_env \<Rightarrow> tptr list \<Rightarrow> lbz_sys \<Rightarrow> lbz_sys option" where
  "retry_gc_tasks E [] s = Some s"
| "retry_gc_tasks E (t # ts) s = do {
     s \<leftarrow> upd_task t (\<lambda>tk. tk\<lparr>t_link := LinkList\<rparr>) s;
     (r, s) \<leftarrow> submit_gc_task E t s;
     s \<leftarrow> (case r of
            None \<Rightarrow> Some s
          | Some EAGAIN \<Rightarrow> add_task_to_gc_writes t s
          | Some ENOENT \<Rightarrow> Some s
          | Some EEXIST \<Rightarrow> do {
              s \<leftarrow> gc_task_callback (ev_kern E) t LBZ_INVALID_PBID s;
              Some (upd_dev lbz_dec_gc_inflight s)
            }
          | Some _ \<Rightarrow> None);
     retry_gc_tasks E ts s
   }"

definition retry_submit_gc_task :: "lbz_env \<Rightarrow> lbz_sys \<Rightarrow> lbz_sys option" where
  "retry_submit_gc_task E s =
     retry_gc_tasks E (s_gc_writes (d_iosched (sy_dev s)))
       (upd_iosched (\<lambda>io. io\<lparr>s_gc_writes := [], s_gc_write_count := 0\<rparr>) s)"

definition retry_wk_fn :: "lbz_env \<Rightarrow> lbz_sys \<Rightarrow> lbz_sys option" where
  "retry_wk_fn E s =
     (let s = upd_iosched (\<lambda>io. io\<lparr>s_retry_queued := False\<rparr>) s
      in if is_dev_faulty (sy_dev s) \<or> \<not> is_dev_ready (sy_dev s) then Some s
         else do {
           s \<leftarrow> retry_submit_io_task E s;
           retry_submit_gc_task E s
         })"

text \<open>The timer of the scheduler queues the retry work once per second.\<close>

definition retry_timer_fn :: "lbz_sys \<Rightarrow> lbz_sys" where
  "retry_timer_fn = upd_iosched (\<lambda>io. io\<lparr>s_retry_queued := True\<rparr>)"

section \<open>The collector's thread\<close>

text \<open>
  The scan follows the macro \<open>LBZ_REVERSE_MAP_FOR_EACH_ENTRY\<close>: the next entry is read before the
  loop condition is tested again, so the scan of a zone ends with a read at the write pointer.
\<close>

function gc_scan :: "lbz_env \<Rightarrow> zptr \<Rightarrow> nat \<Rightarrow> u32 \<Rightarrow> u32 \<Rightarrow> lbz_sys \<Rightarrow> lbz_sys option" where
  "gc_scan E zone iter pos pbid s =
     (case zmd_zones (d_zone_metadata (sy_dev s)) zone of
        None \<Rightarrow> None
      | Some z \<Rightarrow>
          (if iter < unat (z_wp_block z)
           then do {
             s \<leftarrow> (if pos = LBZ_INVALID_PBID then Some s
                  else do {
                    s \<leftarrow> upd_zmd (upd_zone zone lbz_get_zone) s;
                    lbz_submit_gc_to_iosched E zone pbid pos (upd_dev lbz_inc_gc_inflight s)
                  });
             z \<leftarrow> zmd_zones (d_zone_metadata (sy_dev s)) zone;
             pos \<leftarrow> zrms_get (z_zrms z) (iter + 1);
             gc_scan E zone (iter + 1) pos (pbid + 1) s
           }
           else Some s))"
  by pat_completeness auto
termination
proof (relation "measure (\<lambda>(E, zone, iter, pos, pbid, s). 2 ^ 32 - iter)")
  fix iter z
  assume "iter < unat (z_wp_block z)"
  then have "iter < 2 ^ 32" using unat_u32_less [of "z_wp_block z"] by simp
  then show "\<And>E zone x2 xa xb xc pos pbid s. ((E, zone, iter + 1, xc, pbid + 1, xa), E, zone, iter, pos, pbid, s)
      \<in> measure (\<lambda>(E, zone, iter, pos, pbid, s). 2 ^ 32 - iter)" by simp
qed simp

declare gc_scan.simps [simp del]

definition gc_one_zone :: "lbz_env \<Rightarrow> zptr \<Rightarrow> lbz_sys \<Rightarrow> lbz_sys option" where
  "gc_one_zone E zone s = do {
     z \<leftarrow> zmd_zones (d_zone_metadata (sy_dev s)) zone;
     let pbid = sector_to_blkid (ucast (z_start_sector z));
     pos \<leftarrow> zrms_get (z_zrms z) 0;
     s \<leftarrow> gc_scan E zone 0 pos pbid s;
     z \<leftarrow> zmd_zones (d_zone_metadata (sy_dev s)) zone;
     let s = upd_dev (\<lambda>d. d\<lparr>d_gc_reset_blocks := d_gc_reset_blocks d + ucast (z_wp_block z)\<rparr>) s;
     s \<leftarrow> upd_zmd (upd_zone zone (lbz_set_zone_state LBZ_ZONE_GC_COMPLETED)) s;
     put_zone zone s
   }"

definition gc_victim_mod :: "lbz_env \<Rightarrow> u64 \<Rightarrow> lbz_device \<Rightarrow> lbz_victim_mod" where
  "gc_victim_mod E jiffies dev =
     (let md = LBZ_VICTIM_DEFAULT;
          md = (if 60 * ev_HZ E < jiffies - gc_last_jiffies (d_gc_ctx dev) \<or>
                   gc_test LBZ_GC_STAT_RECLAIMING (d_gc_ctx dev) then LBZ_VICTIM_REGULAR else md)
      in if lbz_check_need_reclaim_low (d_zone_metadata dev) \<or>
            gc_test LBZ_GC_STAT_EMERGENCY (d_gc_ctx dev) then LBZ_VICTIM_EMERGENCY else md)"

text \<open>
  One pass from the label \<open>try_reclaim\<close>: the first component of the result tells whether the
  thread goes back to that label (after a zone was collected) or sleeps.
\<close>

definition gc_pass :: "lbz_env \<Rightarrow> u64 \<Rightarrow> lbz_sys \<Rightarrow> (bool \<times> lbz_sys) option" where
  "gc_pass E jiffies s =
     (if is_dev_faulty (sy_dev s) \<or> \<not> is_dev_ready (sy_dev s) then Some (False, s)
      else
        (let md = gc_victim_mod E jiffies (sy_dev s)
         in if md = LBZ_VICTIM_DEFAULT then Some (False, s)
            else if gc_test LBZ_GC_STAT_EXIT (d_gc_ctx (sy_dev s)) then Some (False, s)
            else do {
              busy \<leftarrow> (case gc_zone (d_gc_ctx (sy_dev s)) of
                        None \<Rightarrow> Some False
                      | Some p \<Rightarrow> map_option (is_lbz_zone_state LBZ_ZONE_GC) (zmd_zones (d_zone_metadata (sy_dev s)) p));
              if busy then Some (False, s)
              else do {
                (v, zmd) \<leftarrow> lbz_find_victim_zone md (d_zone_metadata (sy_dev s));
                let s = upd_dev (\<lambda>d. d\<lparr>d_zone_metadata := zmd\<rparr>) s;
                case v of
                  None \<Rightarrow> Some (False, s)
                | Some zone \<Rightarrow> do {
                    let s = upd_dev (\<lambda>d. d\<lparr>d_gc_ctx := (d_gc_ctx d)\<lparr>gc_zone := Some zone\<rparr>\<rparr>) s;
                    s \<leftarrow> gc_one_zone E zone s;
                    Some (True, upd_dev (\<lambda>d. d\<lparr>d_gc_ctx := gc_clear LBZ_GC_STAT_EMERGENCY
                      ((d_gc_ctx d)\<lparr>gc_times := gc_times (d_gc_ctx d) + 1, gc_last_jiffies := jiffies\<rparr>)\<rparr>) s)
                  }
              }
            }))"

text \<open>The thread leaves its loop when it was asked to stop.\<close>

definition gc_thread_exit :: "lbz_gc_context \<Rightarrow> lbz_gc_context" where
  "gc_thread_exit ctx = gc_set LBZ_GC_STAT_EXITED (gc_clear LBZ_GC_STAT_EXIT ctx)"

definition gc_timer_fn :: "lbz_gc_context \<Rightarrow> lbz_gc_context" where
  "gc_timer_fn ctx = ctx\<lparr>gc_awake := True\<rparr>"

text \<open>\<open>kthread_stop\<close> returns after the thread has left its loop.\<close>

definition lbz_destroy_gc_thread :: "lbz_gc_context \<Rightarrow> lbz_gc_context" where
  "lbz_destroy_gc_thread ctx = (gc_thread_exit (gc_set LBZ_GC_STAT_EXIT ctx))\<lparr>gc_awake := True\<rparr>"

text \<open>\<open>run_err\<close> is the outcome of \<open>kthread_run\<close>.\<close>

definition lbz_create_gc_thread ::
  "lbz_env \<Rightarrow> errno option \<Rightarrow> lbz_gc_context \<Rightarrow> errno option \<times> lbz_gc_context" where
  "lbz_create_gc_thread E run_err ctx =
     (let ctx = ctx\<lparr>gc_times := 0\<rparr>
      in case run_err of
           Some e \<Rightarrow> (Some e, ctx)
         | None \<Rightarrow> (None, ctx\<lparr>gc_expire := ucast (50 * ev_HZ E),
                              gc_state := push_bit (gc_state_bit LBZ_GC_STAT_READY) 1\<rparr>))"

end
