(* ===== verification/Dev_Life.thy ===== *)
theory Dev_Life
  imports Gc Decimal
begin

text \<open>
  \<^verbatim>\<open>lbz-dev.c\<close> and the set up of the scheduler in \<^verbatim>\<open>lbz-io-scheduler.c\<close>: the life of a device from
  its creation to its removal, and the life of the module around it.

  The module's state is what the file keeps in globals (the list of devices, the counter of
  allocated bytes, the major number) together with what it registered with the kernel: the
  device indices it holds, the number of disks and of bio sets it allocated, the disks it added, its entries
  under \<^verbatim>\<open>/proc\<close> and the backing devices it claimed. What the kernel answers during a creation
  (whether an allocation succeeds, which index is handed out, the zone report, the outcome of
  starting a thread) is the argument of type \<open>create_env\<close>; the sizes of the C structures are
  the argument of type \<open>sizes\<close>. Printed messages, timers and locks are not modelled.

  The counter \<open>lm_mem\<close> is \<open>lbz_mem_bytes\<close>, which every \<open>LBZ_ALLOC_MEM\<close> of the driver adds to. The
  functions here add what they allocate themselves (the structures of a device and its zone table);
  what requests have allocated and not yet freed (tasks, hooks, integrity buffers, contexts of long
  bios) is in the counter as well, as the amount \<open>r\<close> of \<open>module_ok\<close>, about which nothing is assumed.
\<close>

section \<open>State\<close>

definition LBZ_MINORS :: nat where "LBZ_MINORS = 128"

definition LBZ_DEVICE_IDX_MAX :: nat where "LBZ_DEVICE_IDX_MAX = 2 ^ 20 div LBZ_MINORS"

definition PAGE_SIZE :: u32 where "PAGE_SIZE = 4096"

record queue_limits =
  q_max_hw_sectors :: u32
  q_max_sectors :: u32
  q_max_segment_size :: u32
  q_max_segments :: u32
  q_max_discard_sectors :: u32
  q_discard_granularity :: u32
  q_io_min :: u32
  q_logical_block_size :: u32
  q_physical_block_size :: u32
  q_nonrot :: bool
  q_add_random :: bool
  q_discard :: bool
  q_nomerges :: bool
  q_write_cache :: bool
  q_fua :: bool

record gendisk =
  gd_disk_name :: string
  gd_major :: int
  gd_first_minor :: nat
  gd_minors :: nat
  gd_capacity :: u64
  gd_up :: bool
  gd_queue :: queue_limits

text \<open>A device with its disk, its name and the backing device it runs on.\<close>

record lbz_node =
  nd_dev :: lbz_device
  nd_disk :: "gendisk option"
  nd_devname :: string
  nd_phy_bdev :: nat

record lbz_module =
  lm_devices :: "lbz_node list"
  lm_mem :: u64
  lm_major :: int
  lm_ida :: "nat list"
  lm_disks :: nat
  lm_biosets :: nat
  lm_added :: "string list"
  lm_procs :: "string list"
  lm_bdevs :: "nat list"
  lm_proc_dir :: bool
  lm_proc_file :: bool

record sizes =
  sz_device :: u64
  sz_zone_metadata :: u64
  sz_zone :: u64
  sz_mapping :: u64
  sz_io_scheduler :: u64
  sz_gc_context :: u64
  sz_nat_sit_mgmt :: u64

record create_env =
  co_alloc_device :: bool
  co_idx :: "errno + nat"
  co_alloc_disk :: "queue_limits option"
  co_alloc_zone_metadata :: bool
  co_nr_zones :: u32
  co_zone_sectors :: u32
  co_report :: "(blk_zone \<times> bool) list"
  co_report_err :: "errno option"
  co_zone_wq :: wq_ptr
  co_alloc_mapping :: bool
  co_alloc_iosched :: bool
  co_retry_wq :: wq_ptr
  co_alloc_gc_ctx :: bool
  co_gc_thread_err :: "errno option"
  co_proc_entry :: bool
  co_bioset_err :: "errno option"
  co_alloc_nat_sit :: bool

section \<open>The block device operations\<close>

definition open_dev :: "lbz_device \<Rightarrow> errno option \<times> lbz_device" where
  "open_dev d =
     (if \<not> is_dev_faulty d \<and> \<not> is_dev_remove d \<and> is_dev_ready d
      then (None, d\<lparr>d_refcnt := d_refcnt d + 1\<rparr>)
      else (Some EINVAL, d))"

text \<open>
  The last reference waits until the device has no request in flight, or is faulty; one round
  of the wait, which answers whether the wait is over.
\<close>

definition release_dev :: "lbz_device \<Rightarrow> bool \<times> lbz_device" where
  "release_dev d =
     (if \<not> (d_user_write_inflight_io_cnt d = 0 \<and> d_user_read_inflight_io_cnt d = 0) \<and> \<not> is_dev_faulty d
      then (False, d)
      else (True, d\<lparr>d_refcnt := d_refcnt d - 1\<rparr>))"

definition ioctl_dev :: "lbz_device \<Rightarrow> errno option" where
  "ioctl_dev d = (if is_dev_faulty d \<and> is_dev_ready d then None else Some EIO)"

definition first_minor_to_idx :: "nat \<Rightarrow> nat" where
  "first_minor_to_idx first_minor = first_minor div LBZ_MINORS"

definition idx_to_first_minor :: "nat \<Rightarrow> nat" where
  "idx_to_first_minor idx = idx * LBZ_MINORS"

section \<open>The scheduler\<close>

definition lbz_iosched_init :: "wq_ptr \<Rightarrow> lbz_io_scheduler \<Rightarrow> errno option \<times> lbz_io_scheduler" where
  "lbz_iosched_init wq iosched =
     (let iosched = iosched\<lparr>s_task_tree := Leaf, s_task_count := 0, s_pending_count := 0,
            s_user_pending := [], s_gc_write_count := 0, s_gc_writes := [], s_retry_wq := wq\<rparr>
      in (wq_error wq, iosched))"

definition lbz_iosched_destory :: "lbz_io_scheduler \<Rightarrow> unit option" where
  "lbz_iosched_destory iosched = (if s_retry_wq iosched = WqOk then Some () else None)"

text \<open>The structures as the zeroing allocator returns them.\<close>

definition iosched_zero :: lbz_io_scheduler where
  "iosched_zero = \<lparr>s_task_tree = Leaf, s_task_count = 0, s_pending_count = 0, s_user_pending = [],
     s_gc_write_count = 0, s_gc_writes = [], s_retry_queued = False,
     s_retry_wq = WqNull\<rparr>"

definition mapping_zero :: lbz_mapping where
  "mapping_zero = \<lparr>m_root = [], m_max_blkid = 0, m_superblock_pbid = 0\<rparr>"

definition dev_zero :: lbz_device where
  "dev_zero = \<lparr>d_minor = 0, d_meta_bytes = 0, d_dev_size = 0, d_refcnt = 0, d_transaction_id = 0,
     d_timestamp = 0, d_nr_zones = 0, d_flags = 0, d_zone_metadata = zmd_zero, d_mapping = mapping_zero,
     d_iosched = iosched_zero, d_gc_ctx = gc_ctx_zero, d_nat_sit_mgmt = ns_zero,
     d_user_write_inflight_io_cnt = 0, d_user_read_inflight_io_cnt = 0, d_user_read_err_cnt = 0,
     d_user_read_zero_cnt = 0, d_user_write_err_cnt = 0, d_user_encounter_emergency = 0,
     d_write_alloc_encounter_eagain = 0, d_gc_alloc_encounter_eagain = 0, d_user_write_blocks = 0,
     d_user_read_blocks = 0, d_gc_inflight_io_cnt = 0, d_gc_write_err_cnt = 0, d_gc_read_err_cnt = 0,
     d_gc_read_blocks = 0, d_gc_write_blocks = 0, d_gc_write_agency_blocks = 0,
     d_gc_write_complete_blocks = 0, d_gc_write_discarded_blocks = 0, d_gc_reset_blocks = 0\<rparr>"

section \<open>Memory and indices\<close>

definition mem_add :: "u64 \<Rightarrow> lbz_module \<Rightarrow> lbz_module" where
  "mem_add n m = m\<lparr>lm_mem := lm_mem m + n\<rparr>"

definition mem_sub :: "u64 \<Rightarrow> lbz_module \<Rightarrow> lbz_module" where
  "mem_sub n m = m\<lparr>lm_mem := lm_mem m - n\<rparr>"

text \<open>The index allocator warns about an index that is not allocated and ignores it.\<close>

definition ida_simple_remove :: "nat \<Rightarrow> lbz_module \<Rightarrow> lbz_module" where
  "ida_simple_remove i m = m\<lparr>lm_ida := remove1 i (lm_ida m)\<rparr>"

text \<open>
  What the zone table allocates through the counted allocator: the array of pointers, and for
  every zone its descriptor and the arrays of pointers to its bitmap and reverse-map pages.
\<close>

definition zone_bytes :: "sizes \<Rightarrow> lbz_zone_metadata \<Rightarrow> u64" where
  "zone_bytes S zmd = sz_zone S + ucast (zmd_zone_nr_bitmap_blocks zmd) * 8
     + ucast (zmd_zone_nr_reverse_map_blocks zmd) * 8"

definition zone_array_bytes :: "lbz_zone_metadata \<Rightarrow> u64" where
  "zone_array_bytes zmd = ucast (zmd_nr_zones zmd) * 8"

text \<open>\<open>lbz_drop_zones\<close> frees a descriptor for every index of the array, and the array.\<close>

definition drop_zones_bytes :: "sizes \<Rightarrow> lbz_zone_metadata \<Rightarrow> u64" where
  "drop_zones_bytes S zmd = ucast (zmd_nr_zones zmd) * zone_bytes S zmd + zone_array_bytes zmd"

definition init_zones_bytes :: "sizes \<Rightarrow> (blk_zone \<times> bool) list \<Rightarrow> (errno + unit) \<Rightarrow> lbz_zone_metadata \<Rightarrow> u64" where
  "init_zones_bytes S report r zmd =
     (if zmd_nr_zones zmd = 0 then 0
      else
        (let allocated = zone_array_bytes zmd + of_nat (length (takeWhile snd report)) * zone_bytes S zmd
         in case r of Inr _ \<Rightarrow> allocated | Inl _ \<Rightarrow> allocated - drop_zones_bytes S zmd))"

section \<open>A new device\<close>

text \<open>The fields of the device that \<open>lbz_device_init\<close> sets.\<close>

definition device_fields :: "u64 \<Rightarrow> u32 \<Rightarrow> lbz_device \<Rightarrow> lbz_device" where
  "device_fields sectors nr_zones d = d\<lparr>
     d_dev_size := sectors, d_refcnt := 0, d_transaction_id := 0, d_timestamp := 0,
     d_nr_zones := nr_zones, d_meta_bytes := 64,
     d_user_write_inflight_io_cnt := 0, d_user_read_inflight_io_cnt := 0, d_user_read_err_cnt := 0,
     d_user_read_zero_cnt := 0, d_user_write_err_cnt := 0, d_user_encounter_emergency := 0,
     d_write_alloc_encounter_eagain := 0, d_gc_alloc_encounter_eagain := 0, d_user_write_blocks := 0,
     d_user_read_blocks := 0, d_gc_inflight_io_cnt := 0, d_gc_write_err_cnt := 0, d_gc_read_err_cnt := 0,
     d_gc_read_blocks := 0, d_gc_write_blocks := 0, d_gc_write_agency_blocks := 0,
     d_gc_write_complete_blocks := 0, d_gc_write_discarded_blocks := 0, d_gc_reset_blocks := 0\<rparr>"

text \<open>The limits of the queue; \<open>BIO_MAX_VECS\<close> is 256.\<close>

definition set_limits :: "u32 \<Rightarrow> queue_limits \<Rightarrow> queue_limits" where
  "set_limits block_size q = q\<lparr>
     q_max_hw_sectors := - 1, q_max_sectors := - 1, q_max_segment_size := - 1, q_max_segments := 256,
     q_max_discard_sectors := - 1, q_discard_granularity := 512, q_io_min := block_size,
     q_logical_block_size := block_size, q_physical_block_size := block_size,
     q_nonrot := True, q_add_random := False, q_discard := True, q_nomerges := True,
     q_write_cache := True, q_fua := True\<rparr>"

definition dev_name :: "nat \<Rightarrow> string" where
  "dev_name idx = ''lbz'' @ show_nat idx"

text \<open>
  A block size above the page size stops the model: the message that reports it follows
  \<open>d->disk\<close>, which is still null.
\<close>

definition lbz_device_init ::
  "create_env \<Rightarrow> u32 \<Rightarrow> u64 \<Rightarrow> lbz_node \<Rightarrow> lbz_module \<Rightarrow> (errno option \<times> lbz_node \<times> lbz_module) option" where
  "lbz_device_init C block_size sectors n m =
     (case co_idx C of
        Inl _ \<Rightarrow> Some (Some ENOMEM, n, m)
      | Inr idx \<Rightarrow>
          (let m = m\<lparr>lm_ida := idx # lm_ida m\<rparr>;
               n = n\<lparr>nd_dev := (nd_dev n)\<lparr>d_minor := idx\<rparr>\<rparr>
           in if PAGE_SIZE < block_size then None
              else case co_alloc_disk C of
                None \<Rightarrow> Some (Some ENOMEM, n, ida_simple_remove idx m)
              | Some q \<Rightarrow>
                  (let disk = \<lparr>gd_disk_name = dev_name idx, gd_major = lm_major m,
                         gd_first_minor = idx_to_first_minor idx, gd_minors = LBZ_MINORS,
                         gd_capacity = sectors, gd_up = False, gd_queue = set_limits block_size q\<rparr>;
                       n = n\<lparr>nd_dev := device_fields sectors (co_nr_zones C) (nd_dev n),
                             nd_disk := Some disk, nd_devname := dev_name idx\<rparr>
                   in Some (None, n, m\<lparr>lm_disks := lm_disks m + 1\<rparr>))))"

text \<open>The index that is given back is the first minor number of the disk.\<close>

definition lbz_device_free :: "lbz_node \<Rightarrow> lbz_module \<Rightarrow> lbz_module" where
  "lbz_device_free n m =
     (case nd_disk n of
        None \<Rightarrow> m
      | Some disk \<Rightarrow>
          (let first_minor = gd_first_minor disk;
               m = (if gd_up disk then m\<lparr>lm_added := remove1 (gd_disk_name disk) (lm_added m)\<rparr> else m);
               m = m\<lparr>lm_disks := lm_disks m - 1\<rparr>
           in ida_simple_remove first_minor m))"

definition lbz_dev_create_proc :: "create_env \<Rightarrow> lbz_node \<Rightarrow> lbz_module \<Rightarrow> errno option \<times> lbz_module" where
  "lbz_dev_create_proc C n m =
     (if co_proc_entry C then (None, m\<lparr>lm_procs := nd_devname n # lm_procs m\<rparr>) else (Some ENOENT, m))"

definition lbz_dev_remove_proc :: "lbz_node \<Rightarrow> lbz_module \<Rightarrow> lbz_module" where
  "lbz_dev_remove_proc n m = m\<lparr>lm_procs := remove1 (nd_devname n) (lm_procs m)\<rparr>"

section \<open>The error labels of the creation, from the last to the first\<close>

definition create_out :: "sizes \<Rightarrow> lbz_module \<Rightarrow> lbz_module" where
  "create_out S m = mem_sub (sz_device S) m"

definition create_zone_err :: "sizes \<Rightarrow> lbz_node \<Rightarrow> lbz_module \<Rightarrow> lbz_module" where
  "create_zone_err S n m = create_out S (lbz_device_free n (mem_sub (sz_zone_metadata S) m))"

definition create_iosched_err :: "kern \<Rightarrow> sizes \<Rightarrow> lbz_node \<Rightarrow> lbz_module \<Rightarrow> lbz_module option" where
  "create_iosched_err K S n m = do {
     let m = mem_sub (sz_io_scheduler S) m;
     mapping \<leftarrow> lbz_mapping_destroy K (d_mapping (nd_dev n));
     let m = mem_sub (sz_mapping S) m;
     zmd \<leftarrow> lbz_destroy_zone_metadata (d_zone_metadata (nd_dev n));
     let m = mem_sub (drop_zones_bytes S (d_zone_metadata (nd_dev n))) m;
     Some (create_zone_err S n m)
   }"

definition create_gc_err :: "kern \<Rightarrow> sizes \<Rightarrow> lbz_node \<Rightarrow> lbz_module \<Rightarrow> lbz_module option" where
  "create_gc_err K S n m = do {
     let m = mem_sub (sz_gc_context S) m;
     lbz_iosched_destory (d_iosched (nd_dev n));
     create_iosched_err K S n m
   }"

definition create_proc_err :: "kern \<Rightarrow> sizes \<Rightarrow> lbz_node \<Rightarrow> lbz_module \<Rightarrow> lbz_module option" where
  "create_proc_err K S n m =
     create_gc_err K S (n\<lparr>nd_dev := (nd_dev n)\<lparr>d_gc_ctx := lbz_destroy_gc_thread (d_gc_ctx (nd_dev n))\<rparr>\<rparr>) m"

definition create_bs_err :: "kern \<Rightarrow> sizes \<Rightarrow> lbz_node \<Rightarrow> lbz_module \<Rightarrow> lbz_module option" where
  "create_bs_err K S n m = create_proc_err K S n (lbz_dev_remove_proc n m)"

section \<open>Creation\<close>

text \<open>
  The five structures are used without looking at the result of their allocation, so a failed
  allocation stops the model at the first use.
\<close>

definition nat_sit_args_zero :: nat_sit_args where
  "nat_sit_args_zero = \<lparr>a_cp_blkaddr = 0, a_sit_blkaddr = 0, a_nat_blkaddr = 0, a_nat_blocks = 0\<rparr>"

definition create_last :: "create_env \<Rightarrow> sizes \<Rightarrow> lbz_node \<Rightarrow> lbz_module \<Rightarrow> (errno option \<times> lbz_module) option" where
  "create_last C S n m = do {
     (if co_alloc_nat_sit C then Some () else None);
     let m = mem_add (sz_nat_sit_mgmt S) m;
     mgmt \<leftarrow> lbz_nat_sit_add_rule nat_sit_args_zero ns_zero;
     disk \<leftarrow> nd_disk n;
     let n = n\<lparr>nd_dev := lbz_dev_set_ready ((nd_dev n)\<lparr>d_nat_sit_mgmt := mgmt\<rparr>),
               nd_disk := Some (disk\<lparr>gd_up := True\<rparr>)\<rparr>;
     Some (None, m\<lparr>lm_devices := n # lm_devices m, lm_added := gd_disk_name disk # lm_added m\<rparr>)
   }"

definition create_proc :: "create_env \<Rightarrow> kern \<Rightarrow> sizes \<Rightarrow> lbz_node \<Rightarrow> lbz_module \<Rightarrow> (errno option \<times> lbz_module) option" where
  "create_proc C K S n m = do {
     let (ret, m) = lbz_dev_create_proc C n m;
     case ret of
       Some e \<Rightarrow> do { m \<leftarrow> create_proc_err K S n m; Some (Some e, m) }
     | None \<Rightarrow> (case co_bioset_err C of
         Some e \<Rightarrow> do { m \<leftarrow> create_bs_err K S n m; Some (Some e, m) }
       | None \<Rightarrow> create_last C S n (m\<lparr>lm_biosets := lm_biosets m + 1\<rparr>))
   }"

definition create_gc :: "create_env \<Rightarrow> lbz_env \<Rightarrow> sizes \<Rightarrow> lbz_node \<Rightarrow> lbz_module \<Rightarrow> (errno option \<times> lbz_module) option" where
  "create_gc C E S n m = do {
     (if co_alloc_gc_ctx C then Some () else None);
     let m = mem_add (sz_gc_context S) m;
     let (ret, ctx) = lbz_create_gc_thread E (co_gc_thread_err C) gc_ctx_zero;
     let n = n\<lparr>nd_dev := (nd_dev n)\<lparr>d_gc_ctx := ctx\<rparr>\<rparr>;
     case ret of
       Some e \<Rightarrow> do { m \<leftarrow> create_gc_err (ev_kern E) S n m; Some (Some e, m) }
     | None \<Rightarrow> create_proc C (ev_kern E) S n m
   }"

definition create_maps :: "create_env \<Rightarrow> lbz_env \<Rightarrow> sizes \<Rightarrow> lbz_node \<Rightarrow> lbz_module \<Rightarrow> (errno option \<times> lbz_module) option" where
  "create_maps C E S n m = do {
     (if co_alloc_mapping C then Some () else None);
     let m = mem_add (sz_mapping S) m;
     mapping \<leftarrow> lbz_mapping_init (ev_kern E) (d_dev_size (nd_dev n));
     let n = n\<lparr>nd_dev := (nd_dev n)\<lparr>d_mapping := mapping\<rparr>\<rparr>;
     (if co_alloc_iosched C then Some () else None);
     let m = mem_add (sz_io_scheduler S) m;
     let (ret, iosched) = lbz_iosched_init (co_retry_wq C) iosched_zero;
     let n = n\<lparr>nd_dev := (nd_dev n)\<lparr>d_iosched := iosched\<rparr>\<rparr>;
     case ret of
       Some e \<Rightarrow> do { m \<leftarrow> create_iosched_err (ev_kern E) S n m; Some (Some e, m) }
     | None \<Rightarrow> create_gc C E S n m
   }"

definition create_zones :: "create_env \<Rightarrow> lbz_env \<Rightarrow> sizes \<Rightarrow> lbz_node \<Rightarrow> lbz_module \<Rightarrow> (errno option \<times> lbz_module) option" where
  "create_zones C E S n m = do {
     (if co_alloc_zone_metadata C then Some () else None);
     let m = mem_add (sz_zone_metadata S) m;
     (r, zmd) \<leftarrow> lbz_init_zone_metadata (co_nr_zones C) (co_zone_sectors C) (co_report C)
                   (co_report_err C) (co_zone_wq C) zmd_zero;
     let m = mem_add (init_zones_bytes S (co_report C) r zmd) m;
     let n = n\<lparr>nd_dev := (nd_dev n)\<lparr>d_zone_metadata := zmd\<rparr>\<rparr>;
     case r of
       Inl e \<Rightarrow> Some (Some e, create_zone_err S n m)
     | Inr _ \<Rightarrow> create_maps C E S n m
   }"

definition lbz_create_device ::
  "create_env \<Rightarrow> lbz_env \<Rightarrow> sizes \<Rightarrow> u32 \<Rightarrow> u64 \<Rightarrow> nat \<Rightarrow> lbz_module \<Rightarrow> (errno option \<times> lbz_module) option" where
  "lbz_create_device C E S block_size sectors phy_bdev m =
     (if \<not> co_alloc_device C then Some (Some ENOMEM, m)
      else do {
        let m = mem_add (sz_device S) m;
        let n = \<lparr>nd_dev = dev_zero, nd_disk = None, nd_devname = [], nd_phy_bdev = phy_bdev\<rparr>;
        (ret, n, m) \<leftarrow> lbz_device_init C block_size sectors n m;
        case ret of
          Some e \<Rightarrow> Some (Some e, create_out S m)
        | None \<Rightarrow> create_zones C E S n m
      })"

section \<open>Removal\<close>

definition lbz_dev_find_by_minor :: "int \<Rightarrow> lbz_module \<Rightarrow> lbz_node option" where
  "lbz_dev_find_by_minor minor m = find (\<lambda>n. int (d_minor (nd_dev n)) = minor) (lm_devices m)"

text \<open>The condition under which the wait of a removal ends.\<close>

definition io_drained :: "lbz_device \<Rightarrow> bool" where
  "io_drained d \<longleftrightarrow> d_gc_inflight_io_cnt d = 0 \<and> d_user_write_inflight_io_cnt d = 0 \<and>
     d_user_read_inflight_io_cnt d = 0 \<and> d_refcnt d = 0"

text \<open>
  What follows the wait: everything is taken down in the order of the code. The bio set that the
  creation initialised is not: nothing in the driver calls \<open>bioset_exit\<close>.
\<close>

definition remove_finish :: "kern \<Rightarrow> sizes \<Rightarrow> lbz_node \<Rightarrow> lbz_module \<Rightarrow> lbz_module option" where
  "remove_finish K S n m = do {
     let n = n\<lparr>nd_dev := lbz_dev_set_unready (nd_dev n)\<rparr>;
     let m = lbz_dev_remove_proc n m;
     let n = n\<lparr>nd_dev := (nd_dev n)\<lparr>d_nat_sit_mgmt := lbz_nat_sit_destroy (d_nat_sit_mgmt (nd_dev n))\<rparr>\<rparr>;
     let m = mem_sub (sz_nat_sit_mgmt S) m;
     let n = n\<lparr>nd_dev := (nd_dev n)\<lparr>d_gc_ctx := lbz_destroy_gc_thread (d_gc_ctx (nd_dev n))\<rparr>\<rparr>;
     let m = mem_sub (sz_gc_context S) m;
     lbz_iosched_destory (d_iosched (nd_dev n));
     let m = mem_sub (sz_io_scheduler S) m;
     mapping \<leftarrow> lbz_mapping_destroy K (d_mapping (nd_dev n));
     let m = mem_sub (sz_mapping S) m;
     zmd \<leftarrow> lbz_destroy_zone_metadata (d_zone_metadata (nd_dev n));
     let m = mem_sub (drop_zones_bytes S (d_zone_metadata (nd_dev n))) m;
     let m = mem_sub (sz_zone_metadata S) m;
     let m = lbz_device_free n m;
     let m = m\<lparr>lm_bdevs := remove1 (nd_phy_bdev n) (lm_bdevs m)\<rparr>;
     Some (mem_sub (sz_device S) m)
   }"

text \<open>
  \<open>lbz_remove_device\<close> on the device at the head of the list, as the exit of the module calls it:
  the device refuses new openers from the start, and when a round of the wait finds requests
  in flight or openers left it goes on waiting (the answer is \<open>False\<close>).
\<close>

definition lbz_remove_device :: "kern \<Rightarrow> sizes \<Rightarrow> lbz_node \<Rightarrow> lbz_node list \<Rightarrow> lbz_module \<Rightarrow> (bool \<times> lbz_module) option" where
  "lbz_remove_device K S n rest m =
     (let n = n\<lparr>nd_dev := lbz_dev_set_remove (nd_dev n)\<rparr>
      in if \<not> io_drained (nd_dev n) then Some (False, m\<lparr>lm_devices := n # rest\<rparr>)
         else do {
           m \<leftarrow> remove_finish K S n m;
           Some (True, m\<lparr>lm_devices := rest\<rparr>)
         })"

fun remove_all :: "kern \<Rightarrow> sizes \<Rightarrow> lbz_node list \<Rightarrow> lbz_module \<Rightarrow> (bool \<times> lbz_module) option" where
  "remove_all K S [] m = Some (True, m)"
| "remove_all K S (n # rest) m = do {
     (over, m) \<leftarrow> lbz_remove_device K S n rest m;
     if over then remove_all K S rest m else Some (False, m)
   }"

section \<open>The module\<close>

text \<open>\<open>major\<close> is what \<open>register_blkdev\<close> returns: a number, or a negative error code.\<close>

definition lbz_dev_init :: "int \<Rightarrow> bool \<Rightarrow> lbz_module \<Rightarrow> errno option \<times> lbz_module" where
  "lbz_dev_init major proc_dir m =
     (let m = m\<lparr>lm_major := major\<rparr>
      in if major < 0 then (Some (EOTHER (nat (- major))), m)
         else if \<not> proc_dir then (Some EPERM, m)
         else (None, m\<lparr>lm_proc_dir := True\<rparr>))"

text \<open>The exit ends with a check that every counted byte was given back.\<close>

definition lbz_dev_exit :: "kern \<Rightarrow> sizes \<Rightarrow> lbz_module \<Rightarrow> (bool \<times> lbz_module) option" where
  "lbz_dev_exit K S m = do {
     (over, m) \<leftarrow> remove_all K S (lm_devices m) m;
     if \<not> over then Some (False, m)
     else do {
       let m = m\<lparr>lm_proc_dir := False\<rparr>;
       if lm_mem m \<noteq> 0 then None else Some (True, m)
     }
   }"

section \<open>Unwinding gives everything back\<close>

lemmas module_mem_defs = mem_add_def mem_sub_def create_out_def create_zone_err_def lbz_device_free_def
  ida_simple_remove_def

text \<open>A device whose tables can be taken down, and one whose scheduler can be as well.\<close>

definition tables_ok :: "kern \<Rightarrow> lbz_device \<Rightarrow> bool" where
  "tables_ok K d \<longleftrightarrow> mapping_wf K (d_mapping d) \<and> zmd_zone_state_wq (d_zone_metadata d) = WqOk \<and>
     (\<forall>p < unat (zmd_nr_zones (d_zone_metadata d)). zmd_zones (d_zone_metadata d) p \<noteq> None)"

definition teardown_ok :: "kern \<Rightarrow> lbz_device \<Rightarrow> bool" where
  "teardown_ok K d \<longleftrightarrow> tables_ok K d \<and> s_retry_wq (d_iosched d) = WqOk"

lemma teardown_tables:
  assumes "tables_ok K d"
  obtains m z where "lbz_mapping_destroy K (d_mapping d) = Some m"
    and "lbz_destroy_zone_metadata (d_zone_metadata d) = Some z"
  using assms mapping_destroy_live [of K "d_mapping d"] destroy_zone_metadata_ok [of "d_zone_metadata d"]
  unfolding tables_ok_def by blast

lemma iosched_err_eq:
  assumes "tables_ok K (nd_dev n)"
  shows "create_iosched_err K S n m = Some (create_zone_err S n
     (mem_sub (sz_io_scheduler S + sz_mapping S + drop_zones_bytes S (d_zone_metadata (nd_dev n))) m))"
  using teardown_tables [OF assms]
  by (auto simp: create_iosched_err_def mem_sub_def algebra_simps)

lemma gc_err_eq:
  assumes "teardown_ok K (nd_dev n)"
  shows "create_gc_err K S n m = Some (create_zone_err S n (mem_sub (sz_gc_context S + sz_io_scheduler S
     + sz_mapping S + drop_zones_bytes S (d_zone_metadata (nd_dev n))) m))"
  using assms iosched_err_eq [of K n]
  by (simp add: teardown_ok_def create_gc_err_def lbz_iosched_destory_def mem_sub_def algebra_simps)

lemma teardown_gc_ctx [simp]:
  "teardown_ok K (nd_dev (n\<lparr>nd_dev := (nd_dev n)\<lparr>d_gc_ctx := c\<rparr>\<rparr>)) = teardown_ok K (nd_dev n)"
  "teardown_ok K (d\<lparr>d_gc_ctx := c\<rparr>) = teardown_ok K d"
  by (simp_all add: teardown_ok_def tables_ok_def)

lemma proc_err_eq:
  assumes "teardown_ok K (nd_dev n)"
  shows "create_proc_err K S n m = create_gc_err K S n m"
  by (simp add: create_proc_err_def gc_err_eq assms create_zone_err_def lbz_device_free_def)

section \<open>The outcome of a creation\<close>

text \<open>The first kernel service whose failure the code notices decides the error code.\<close>

definition err_proc :: "create_env \<Rightarrow> errno option" where
  "err_proc C = (if \<not> co_proc_entry C then Some ENOENT else co_bioset_err C)"

definition err_gc :: "create_env \<Rightarrow> errno option" where
  "err_gc C = (case co_gc_thread_err C of Some e \<Rightarrow> Some e | None \<Rightarrow> err_proc C)"

definition err_maps :: "create_env \<Rightarrow> errno option" where
  "err_maps C = (case wq_error (co_retry_wq C) of Some e \<Rightarrow> Some e | None \<Rightarrow> err_gc C)"

definition err_zones :: "create_env \<Rightarrow> errno option" where
  "err_zones C = (case co_report_err C of Some e \<Rightarrow> Some e
     | None \<Rightarrow> (case wq_error (co_zone_wq C) of Some e \<Rightarrow> Some e | None \<Rightarrow> err_maps C))"

definition create_errno :: "create_env \<Rightarrow> errno option" where
  "create_errno C =
     (if \<not> co_alloc_device C then Some ENOMEM
      else case co_idx C of Inl _ \<Rightarrow> Some ENOMEM
      | Inr _ \<Rightarrow> (case co_alloc_disk C of None \<Rightarrow> Some ENOMEM | Some _ \<Rightarrow> err_zones C))"

text \<open>The five allocations whose result the code uses without a test, and the two work queues whose null pointer it takes for a queue.\<close>

definition unchecked_allocs :: "create_env \<Rightarrow> bool" where
  "unchecked_allocs C \<longleftrightarrow> co_alloc_zone_metadata C \<and> co_alloc_mapping C \<and> co_alloc_iosched C \<and>
     co_alloc_gc_ctx C \<and> co_alloc_nat_sit C"

definition wqs_there :: "create_env \<Rightarrow> bool" where
  "wqs_there C \<longleftrightarrow> co_zone_wq C \<noteq> WqNull \<and> co_retry_wq C \<noteq> WqNull"

lemma wq_error_None: "wq_error q = None \<longleftrightarrow> q = WqNull \<or> q = WqOk"
  by (cases q) simp_all

lemma zone_err_dev: "create_zone_err S (n\<lparr>nd_dev := d\<rparr>) m = create_zone_err S n m"
  by (simp add: create_zone_err_def lbz_device_free_def)

lemma mem_sub_add: "mem_sub b (mem_add a m) = mem_add (a - b) m"
  by (simp add: mem_sub_def mem_add_def)

lemma mem_add_0: "mem_add 0 m = m"
  by (simp add: mem_add_def)

lemma mem_add_add: "mem_add b (mem_add a m) = mem_add (a + b) m"
  by (simp add: mem_add_def algebra_simps)

lemma mem_sub_sub: "mem_sub b (mem_sub a m) = mem_sub (a + b) m"
  by (simp add: mem_sub_def algebra_simps)

lemma mem_add_sel: "lm_procs (mem_add a m) = lm_procs m" "lm_biosets (mem_add a m) = lm_biosets m"
  by (simp_all add: mem_add_def)

text \<open>The module when the last part of the creation starts.\<close>

definition entered :: "lbz_node \<Rightarrow> lbz_module \<Rightarrow> lbz_module" where
  "entered n m = m\<lparr>lm_procs := nd_devname n # lm_procs m, lm_biosets := lm_biosets m + 1\<rparr>"

lemma entered_dev [simp]: "entered (n\<lparr>nd_dev := d\<rparr>) m = entered n m"
  by (simp add: entered_def)

lemma create_proc_eq:
  assumes "err_proc C = None \<or> teardown_ok K (nd_dev n)"
  shows "create_proc C K S n m = (case err_proc C of
      Some e \<Rightarrow> Some (Some e, create_zone_err S n (mem_sub (sz_gc_context S + sz_io_scheduler S
         + sz_mapping S + drop_zones_bytes S (d_zone_metadata (nd_dev n))) m))
    | None \<Rightarrow> create_last C S n (entered n m))"
  using assms
  by (cases "co_bioset_err C"; cases "co_proc_entry C")
    (simp_all add: create_proc_def lbz_dev_create_proc_def create_bs_err_def lbz_dev_remove_proc_def
      proc_err_eq gc_err_eq err_proc_def entered_def)

lemma create_gc_eq:
  assumes t: "err_gc C = None \<or> teardown_ok (ev_kern E) (nd_dev n)" and "co_alloc_gc_ctx C"
  shows "create_gc C E S n m = (case err_gc C of
      Some e \<Rightarrow> Some (Some e, create_zone_err S n (mem_sub (sz_io_scheduler S
         + sz_mapping S + drop_zones_bytes S (d_zone_metadata (nd_dev n))) m))
    | None \<Rightarrow> create_last C S
        (n\<lparr>nd_dev := (nd_dev n)\<lparr>d_gc_ctx := snd (lbz_create_gc_thread E None gc_ctx_zero)\<rparr>\<rparr>)
        (entered n (mem_add (sz_gc_context S) m)))"
proof -
  have c: "mem_sub (sz_gc_context S + a + b + d) (mem_add (sz_gc_context S) m) = mem_sub (a + b + d) m" for a b d
    by (simp add: mem_sub_def mem_add_def algebra_simps)
  show ?thesis
  proof (cases "co_gc_thread_err C")
    case (Some e)
    then show ?thesis using t
      by (simp add: create_gc_def lbz_create_gc_thread_def Let_def assms(2) gc_err_eq zone_err_dev c err_gc_def)
  next
    case None
    then have "err_proc C = None \<or> teardown_ok (ev_kern E) (nd_dev n)" using t by (simp add: err_gc_def)
    then show ?thesis using None
      by (cases "err_proc C")
        (simp_all add: create_gc_def lbz_create_gc_thread_def Let_def assms(2) create_proc_eq zone_err_dev c err_gc_def)
  qed
qed

lemma create_maps_eq:
  assumes "co_alloc_mapping C" "co_alloc_iosched C" "co_alloc_gc_ctx C"
    and m: "lbz_mapping_init (ev_kern E) (d_dev_size (nd_dev n)) = Some mp" "mapping_wf (ev_kern E) mp"
    and z: "\<forall>p < unat (zmd_nr_zones (d_zone_metadata (nd_dev n))). zmd_zones (d_zone_metadata (nd_dev n)) p \<noteq> None"
    and q: "err_maps C = None \<or> zmd_zone_state_wq (d_zone_metadata (nd_dev n)) = WqOk \<and> co_retry_wq C \<noteq> WqNull"
  shows "create_maps C E S n m = (case err_maps C of
      Some e \<Rightarrow> Some (Some e, create_zone_err S n
         (mem_sub (drop_zones_bytes S (d_zone_metadata (nd_dev n))) m))
    | None \<Rightarrow> create_last C S
        (n\<lparr>nd_dev := (nd_dev n)\<lparr>d_mapping := mp, d_iosched := iosched_zero\<lparr>s_retry_wq := co_retry_wq C\<rparr>,
             d_gc_ctx := snd (lbz_create_gc_thread E None gc_ctx_zero)\<rparr>\<rparr>)
        (entered n (mem_add (sz_mapping S + sz_io_scheduler S + sz_gc_context S) m)))"
proof -
  let ?n = "n\<lparr>nd_dev := (nd_dev n)\<lparr>d_mapping := mp, d_iosched := iosched_zero\<lparr>s_retry_wq := co_retry_wq C\<rparr>\<rparr>\<rparr>"
  have i: "lbz_iosched_init r iosched_zero = (wq_error r, iosched_zero\<lparr>s_retry_wq := r\<rparr>)" for r
    by (simp add: lbz_iosched_init_def iosched_zero_def)
  have c: "mem_sub (sz_io_scheduler S + sz_mapping S + d) (mem_add (sz_mapping S + sz_io_scheduler S) m) =
      mem_sub d m" for d
    by (simp add: mem_sub_def mem_add_def algebra_simps)
  show ?thesis
  proof (cases "wq_error (co_retry_wq C)")
    case (Some e)
    then have "tables_ok (ev_kern E) (nd_dev ?n)" using q m(2) z by (simp add: tables_ok_def err_maps_def)
    from iosched_err_eq [OF this] Some show ?thesis
      by (simp add: create_maps_def Let_def assms(1-3) m(1) i zone_err_dev c mem_add_add err_maps_def)
  next
    case None
    then have "err_gc C = None \<or> teardown_ok (ev_kern E) (nd_dev ?n)"
      using q m(2) z by (auto simp: tables_ok_def teardown_ok_def err_maps_def wq_error_None)
    from create_gc_eq [OF this assms(3)] None show ?thesis
      by (cases "err_gc C")
        (simp_all add: create_maps_def Let_def assms(1-3) m(1) i zone_err_dev c mem_add_add err_maps_def
          add.assoc [symmetric])
  qed
qed

lemma init_zones_bytes_ok:
  assumes "report_ok (zmd_nr_zones zmd) report"
  shows "init_zones_bytes S report (Inr ()) zmd = drop_zones_bytes S zmd"
    and "init_zones_bytes S report (Inl e) zmd = 0"
proof -
  have t: "takeWhile snd report = report"
    using assms by (auto simp: report_ok_def fresh_report_def takeWhile_eq_all_conv)
  have l: "(of_nat (length report) :: u64) = ucast (zmd_nr_zones zmd)" "zmd_nr_zones zmd \<noteq> 0"
    using assms by (auto simp: report_ok_def)
  show "init_zones_bytes S report (Inr ()) zmd = drop_zones_bytes S zmd"
    "init_zones_bytes S report (Inl e) zmd = 0"
    by (simp_all add: init_zones_bytes_def Let_def t l drop_zones_bytes_def)
qed

lemma create_zones_eq:
  assumes rep: "report_ok (co_nr_zones C) (co_report C)" and a: "unchecked_allocs C"
    and m: "lbz_mapping_init (ev_kern E) (d_dev_size (nd_dev n)) = Some mp" "mapping_wf (ev_kern E) mp"
    and q: "err_zones C = None \<or> wqs_there C"
  shows "\<exists>zmd. fresh_table (co_nr_zones C) zmd \<and> zmd_zone_state_wq zmd = co_zone_wq C \<and>
    create_zones C E S n m = (case err_zones C of
      Some e \<Rightarrow> Some (Some e, create_out S (lbz_device_free n m))
    | None \<Rightarrow> create_last C S
        (n\<lparr>nd_dev := (nd_dev n)\<lparr>d_zone_metadata := zmd, d_mapping := mp,
             d_iosched := iosched_zero\<lparr>s_retry_wq := co_retry_wq C\<rparr>,
             d_gc_ctx := snd (lbz_create_gc_thread E None gc_ctx_zero)\<rparr>\<rparr>)
        (entered n (mem_add (sz_zone_metadata S + drop_zones_bytes S zmd + (sz_mapping S + sz_io_scheduler S + sz_gc_context S)) m)))"
    (is "\<exists>zmd. _ \<and> _ \<and> ?goal zmd")
proof -
  from init_zone_metadata_fresh [OF rep, of "co_zone_sectors C"] obtain zmd0 where f0: "fresh_table (co_nr_zones C) zmd0"
    and "\<forall>dev_err wq. \<exists>zmd'. zmd_nr_zones zmd' = co_nr_zones C \<and>
       lbz_init_zone_metadata (co_nr_zones C) (co_zone_sectors C) (co_report C) dev_err wq zmd_zero =
       Some (case (dev_err, wq_error wq) of
           (Some e, _) \<Rightarrow> (Inl e, zmd') | (None, Some e) \<Rightarrow> (Inl e, zmd')
         | (None, None) \<Rightarrow> (Inr (), zmd0\<lparr>zmd_zone_state_wq := wq\<rparr>))" by blast
  then obtain zmd' where z': "zmd_nr_zones zmd' = co_nr_zones C" and
    i: "lbz_init_zone_metadata (co_nr_zones C) (co_zone_sectors C) (co_report C) (co_report_err C) (co_zone_wq C) zmd_zero =
       Some (case (co_report_err C, wq_error (co_zone_wq C)) of
           (Some e, _) \<Rightarrow> (Inl e, zmd') | (None, Some e) \<Rightarrow> (Inl e, zmd')
         | (None, None) \<Rightarrow> (Inr (), zmd0\<lparr>zmd_zone_state_wq := co_zone_wq C\<rparr>))" by blast
  define zmd where "zmd = zmd0\<lparr>zmd_zone_state_wq := co_zone_wq C\<rparr>"
  have f: "fresh_table (co_nr_zones C) zmd" using f0 by (simp add: zmd_def fresh_table_def init_inv_def)
  have w: "zmd_zone_state_wq zmd = co_zone_wq C" by (simp add: zmd_def)
  have z: "zmd_nr_zones zmd = co_nr_zones C" "\<forall>p < unat (zmd_nr_zones zmd). zmd_zones zmd p \<noteq> None"
    using f by (auto simp: fresh_table_def init_inv_def)
  note b = init_zones_bytes_ok [of zmd "co_report C" S] init_zones_bytes_ok [of zmd' "co_report C" S]
  have ze: "create_zone_err S n (mem_add (sz_zone_metadata S) m) = create_out S (lbz_device_free n m)"
    by (simp add: create_zone_err_def mem_sub_add mem_add_0)
  have al: "co_alloc_zone_metadata C" "co_alloc_mapping C" "co_alloc_iosched C" "co_alloc_gc_ctx C"
    using a by (auto simp: unchecked_allocs_def)
  have "?goal zmd"
  proof (cases "co_report_err C")
    case (Some e)
    note i' = i [unfolded Some, simplified]
    show ?thesis using rep z' by (simp add: create_zones_def Let_def al Some i' b zone_err_dev mem_add_0 ze err_zones_def)
  next
    case n1: None
    show ?thesis
    proof (cases "wq_error (co_zone_wq C)")
      case (Some e)
      note i' = i [unfolded Some n1, simplified]
      show ?thesis using rep z' by (simp add: create_zones_def Let_def al Some n1 i' b zone_err_dev mem_add_0 ze err_zones_def)
    next
      case None
      note i' = i [unfolded None n1, simplified, folded zmd_def]
      have c: "mem_sub d (mem_add (sz_zone_metadata S + d) m) = mem_add (sz_zone_metadata S) m" for d
        by (simp add: mem_sub_add)
      let ?n = "n\<lparr>nd_dev := (nd_dev n)\<lparr>d_zone_metadata := zmd\<rparr>\<rparr>"
      have mp: "lbz_mapping_init (ev_kern E) (d_dev_size (nd_dev ?n)) = Some mp"
        and zp: "\<forall>p < unat (zmd_nr_zones (d_zone_metadata (nd_dev ?n))). zmd_zones (d_zone_metadata (nd_dev ?n)) p \<noteq> None"
        using m(1) z(2) by auto
      have "err_maps C = None \<or> zmd_zone_state_wq (d_zone_metadata (nd_dev ?n)) = WqOk \<and> co_retry_wq C \<noteq> WqNull"
        using q None n1 w by (auto simp: err_zones_def wqs_there_def wq_error_None)
      note me = create_maps_eq [OF al(2-4) mp m(2) zp this]
      show ?thesis
        using rep z(1)
        by (cases "err_maps C")
          (simp_all add: create_zones_def Let_def al n1 None i' b me zone_err_dev ze c
            mem_add_add err_zones_def add.assoc [symmetric])
    qed
  qed
  with f w show ?thesis by blast
qed

text \<open>If nothing the code notices fails but one of the five allocations does, the kernel stops.\<close>

lemma create_zones_stops:
  assumes rep: "report_ok (co_nr_zones C) (co_report C)" and a: "\<not> unchecked_allocs C" and e: "err_zones C = None"
    and m: "lbz_mapping_init (ev_kern E) (d_dev_size (nd_dev n)) = Some mp"
  shows "create_zones C E S n m = None"
proof -
  have e': "co_report_err C = None" "wq_error (co_zone_wq C) = None" "wq_error (co_retry_wq C) = None"
      "co_gc_thread_err C = None" "co_proc_entry C" "co_bioset_err C = None"
    using e by (auto simp: err_zones_def err_maps_def err_gc_def err_proc_def split: option.splits if_splits)
  from init_zone_metadata_fresh [OF rep, of "co_zone_sectors C"] obtain zmd where
    "lbz_init_zone_metadata (co_nr_zones C) (co_zone_sectors C) (co_report C) (co_report_err C) (co_zone_wq C) zmd_zero =
       Some (Inr (), zmd)" using e'(1,2) by (metis (no_types, lifting) case_prod_conv option.case(1))
  then show ?thesis
    using a m e' by (auto simp: unchecked_allocs_def create_zones_def create_maps_def create_gc_def create_proc_def
        create_last_def lbz_iosched_init_def lbz_create_gc_thread_def lbz_dev_create_proc_def Let_def bind_eq_None_conv)
qed

text \<open>
  A device as a creation leaves it: the zone table well formed, every block unmapped in both
  directions, no task and no log entry, ready and idle.
\<close>

definition device_fresh :: "kern \<Rightarrow> lbz_device \<Rightarrow> bool" where
  "device_fresh K d \<longleftrightarrow>
     zmd_wf (d_zone_metadata d) \<and> mapping_wf K (d_mapping d) \<and>
     (\<forall>p z. zmd_zones (d_zone_metadata d) p = Some z \<longrightarrow> fresh_zone z \<and>
        length (z_zrms z) = unat (zmd_zone_nr_reverse_map_blocks (d_zone_metadata d))) \<and>
     (\<forall>b. map_get K (d_mapping d) b =
        (if unat b < unat (d_dev_size d) div 8 then Some LBZ_INVALID_PBID else None)) \<and>
     map_consistent (map_get K (d_mapping d)) (zmd_rget K (d_zone_metadata d)) \<and>
     zmd_empty_zone_list (d_zone_metadata d) = [0..<unat (zmd_nr_zones (d_zone_metadata d))] \<and>
     d_iosched d = iosched_zero\<lparr>s_retry_wq := s_retry_wq (d_iosched d)\<rparr> \<and> log_ok (d_nat_sit_mgmt d) \<and> log_blkids (d_nat_sit_mgmt d) = [] \<and>
     is_dev_ready d \<and> \<not> is_dev_faulty d \<and> \<not> is_dev_remove d \<and> io_drained d"

text \<open>What a device holds of the counted memory.\<close>

definition device_bytes :: "sizes \<Rightarrow> lbz_device \<Rightarrow> u64" where
  "device_bytes S d = sz_device S + sz_zone_metadata S + drop_zones_bytes S (d_zone_metadata d) +
     sz_mapping S + sz_io_scheduler S + sz_gc_context S + sz_nat_sit_mgmt S"

definition rule_zero :: lbz_nat_sit_mgmt where
  "rule_zero = the (lbz_nat_sit_add_rule nat_sit_args_zero ns_zero)"

lemma rule_zero_eq: "lbz_nat_sit_add_rule nat_sit_args_zero ns_zero = Some rule_zero"
  by (simp add: rule_zero_def lbz_nat_sit_add_rule_def nat_sit_args_zero_def)

lemma rule_zero_log: "log_ok rule_zero" "log_blkids rule_zero = []"
  using add_rule_Some [OF rule_zero_eq] by (simp_all add: log_ok_def log_blkids_def)

lemma fresh_consistent:
  assumes f: "fresh_table nr zmd" and g: "\<forall>b. map_get K mp b = (if unat b < n then Some LBZ_INVALID_PBID else None)"
    and n: "n < 2 ^ 32 - 1"
  shows "map_consistent (map_get K mp) (zmd_rget K zmd)"
proof (rule map_consistentI)
  have "unat (- 1 :: u32) = 4294967295" by (simp add: unsigned_minus_1_eq_mask mask_eq_exp_minus_1)
  then show "map_get K mp LBZ_INVALID_PBID = None" using g n by (simp add: LBZ_INVALID_PBID_def)
  show "zmd_rget K zmd p = Some b" if "map_get K mp b = Some p" "p \<noteq> LBZ_INVALID_PBID" for b p
    using that g by (simp split: if_splits)
  have "b = LBZ_INVALID_PBID" if r: "zmd_rget K zmd p = Some b" for p b
  proof -
    from r obtain z where z: "zmd_zones zmd (get_zone_by_pbid K p) = Some z"
      "zrms_get (z_zrms z) (unat (pbid_dis z p)) = Some b" by (auto simp: zmd_rget_def)
    with fresh_table_unmapped [OF f z(1)] have "\<not> zone_valid z (unat (pbid_dis z p))" by simp
    with z(2) show ?thesis by (simp add: zone_valid_def)
  qed
  then show "map_get K mp b = Some p" "p \<noteq> LBZ_INVALID_PBID"
    if "zmd_rget K zmd p = Some b" "b \<noteq> LBZ_INVALID_PBID" for p b
    using that by blast+
qed

text \<open>The device of a successful creation.\<close>

definition new_device :: "lbz_env \<Rightarrow> wq_ptr \<Rightarrow> u32 \<Rightarrow> nat \<Rightarrow> u64 \<Rightarrow> lbz_zone_metadata \<Rightarrow> lbz_mapping \<Rightarrow> lbz_device" where
  "new_device E rq nr_zones idx sectors zmd mp = lbz_dev_set_ready ((device_fields sectors nr_zones (dev_zero\<lparr>d_minor := idx\<rparr>))\<lparr>
     d_zone_metadata := zmd, d_mapping := mp, d_iosched := iosched_zero\<lparr>s_retry_wq := rq\<rparr>,
     d_gc_ctx := snd (lbz_create_gc_thread E None gc_ctx_zero), d_nat_sit_mgmt := rule_zero\<rparr>)"

lemma new_device_sel [simp]:
  "d_zone_metadata (new_device E rq nr idx sectors zmd mp) = zmd"
  "d_mapping (new_device E rq nr idx sectors zmd mp) = mp"
  "d_minor (new_device E rq nr idx sectors zmd mp) = idx"
  "d_dev_size (new_device E rq nr idx sectors zmd mp) = sectors"
  "d_iosched (new_device E rq nr idx sectors zmd mp) = iosched_zero\<lparr>s_retry_wq := rq\<rparr>"
  "d_nat_sit_mgmt (new_device E rq nr idx sectors zmd mp) = rule_zero"
  "d_gc_ctx (new_device E rq nr idx sectors zmd mp) = snd (lbz_create_gc_thread E None gc_ctx_zero)"
  by (simp_all add: new_device_def lbz_dev_set_ready_def device_fields_def dev_zero_def)

lemma new_device_idle:
  "is_dev_ready (new_device E rq nr idx sectors zmd mp)" "\<not> is_dev_faulty (new_device E rq nr idx sectors zmd mp)"
  "\<not> is_dev_remove (new_device E rq nr idx sectors zmd mp)" "io_drained (new_device E rq nr idx sectors zmd mp)"
  by (simp_all add: new_device_def bit_flags io_drained_def lbz_dev_set_ready_def device_fields_def dev_zero_def
      is_dev_faulty_def is_dev_remove_def is_dev_ready_def set_bit_bit_iff)

lemma new_device_fresh:
  assumes f: "fresh_table nr zmd" and mp: "mapping_wf K mp"
    and g: "\<forall>b. map_get K mp b = (if unat b < unat sectors div 8 then Some LBZ_INVALID_PBID else None)"
    and n: "unat sectors div 8 < 2 ^ 32 - 1"
  shows "device_fresh K (new_device E rq nr' idx sectors zmd mp)"
  using fresh_table_wf [OF f] mp g fresh_consistent [OF f g n] f rule_zero_log
  by (simp add: device_fresh_def new_device_idle fresh_table_def init_inv_def)

definition new_node :: "create_env \<Rightarrow> lbz_env \<Rightarrow> u32 \<Rightarrow> u64 \<Rightarrow> nat \<Rightarrow> int \<Rightarrow> nat \<Rightarrow> queue_limits \<Rightarrow> lbz_device \<Rightarrow> lbz_node" where
  "new_node C E block_size sectors bdev major idx q d = \<lparr>nd_dev = d,
     nd_disk = Some \<lparr>gd_disk_name = dev_name idx, gd_major = major,
       gd_first_minor = idx * LBZ_MINORS, gd_minors = LBZ_MINORS,
       gd_capacity = sectors, gd_up = True, gd_queue = set_limits block_size q\<rparr>,
     nd_devname = dev_name idx, nd_phy_bdev = bdev\<rparr>"

text \<open>The module after a successful and after a failed creation.\<close>

definition module_created :: "sizes \<Rightarrow> nat \<Rightarrow> lbz_node \<Rightarrow> lbz_module \<Rightarrow> lbz_module" where
  "module_created S idx n m = m\<lparr>lm_devices := n # lm_devices m, lm_mem := lm_mem m + device_bytes S (nd_dev n),
     lm_ida := idx # lm_ida m, lm_disks := lm_disks m + 1, lm_biosets := lm_biosets m + 1,
     lm_added := dev_name idx # lm_added m,
     lm_procs := dev_name idx # lm_procs m\<rparr>"

definition module_failed :: "create_env \<Rightarrow> lbz_module \<Rightarrow> lbz_module" where
  "module_failed C m =
     (if \<not> co_alloc_device C \<or> co_alloc_disk C = None then m
      else case co_idx C of Inl _ \<Rightarrow> m
        | Inr idx \<Rightarrow> m\<lparr>lm_ida := remove1 (idx * LBZ_MINORS) (idx # lm_ida m)\<rparr>)"

text \<open>The part of a creation that comes after the disk, as a function of what the kernel answers.\<close>

lemma create_device_zones:
  assumes bs: "block_size \<le> PAGE_SIZE"
  shows "lbz_create_device C E S block_size sectors bdev m =
    (if \<not> co_alloc_device C then Some (Some ENOMEM, m)
     else case (co_idx C, co_alloc_disk C) of
       (Inr idx, Some q) \<Rightarrow> create_zones C E S
         \<lparr>nd_dev = device_fields sectors (co_nr_zones C) (dev_zero\<lparr>d_minor := idx\<rparr>),
            nd_disk = Some \<lparr>gd_disk_name = dev_name idx, gd_major = lm_major m,
              gd_first_minor = idx * LBZ_MINORS, gd_minors = LBZ_MINORS,
              gd_capacity = sectors, gd_up = False, gd_queue = set_limits block_size q\<rparr>,
            nd_devname = dev_name idx, nd_phy_bdev = bdev\<rparr>
         (m\<lparr>lm_mem := lm_mem m + sz_device S, lm_ida := idx # lm_ida m, lm_disks := lm_disks m + 1\<rparr>)
     | (Inr idx, None) \<Rightarrow> Some (Some ENOMEM, m\<lparr>lm_ida := lm_ida m\<rparr>)
     | (Inl e, _) \<Rightarrow> Some (Some ENOMEM, m))"
  using leD [OF bs]
  by (cases "co_alloc_device C"; cases "co_idx C"; cases "co_alloc_disk C")
    (simp_all add: lbz_create_device_def lbz_device_init_def Let_def mem_add_def idx_to_first_minor_def
      create_out_def mem_sub_def ida_simple_remove_def)

lemma mapping_init_small:
  assumes K: "kern_ok K" and sz: "unat sectors \<le> 64 * 2 ^ 21"
  shows "\<exists>mp. lbz_mapping_init K sectors = Some mp \<and> mapping_wf K mp \<and>
    (\<forall>b. map_get K mp b = (if unat b < unat sectors div 8 then Some LBZ_INVALID_PBID else None))"
proof -
  have n: "unat sectors div 8 < 2 ^ 31" "unat sectors div 8 \<le> 64 * 2 ^ 18" using sz by auto
  then have "unat sectors div 8 \<le> MAX_INTERNAL_NODES K * LBZ_INT_NODE_INDEXED_BLKS K"
    using max_internal_nodes_cover [OF K] by linarith
  from mapping_init_fits [OF K n(1) this] show ?thesis by blast
qed

lemma create_device_eq:
  assumes K: "kern_ok (ev_kern E)" and bs: "block_size \<le> PAGE_SIZE"
    and rep: "report_ok (co_nr_zones C) (co_report C)" and al: "unchecked_allocs C"
    and sz: "unat sectors \<le> 64 * 2 ^ 21" and wq: "create_errno C = None \<or> wqs_there C"
  shows "\<exists>zmd mp. fresh_table (co_nr_zones C) zmd \<and> zmd_zone_state_wq zmd = co_zone_wq C \<and>
     device_fresh (ev_kern E) (new_device E (co_retry_wq C) (co_nr_zones C) i sectors zmd mp) \<and>
     lbz_create_device C E S block_size sectors bdev m = (case create_errno C of
       Some e \<Rightarrow> Some (Some e, module_failed C m)
     | None \<Rightarrow> (case (co_idx C, co_alloc_disk C) of (Inr idx, Some q) \<Rightarrow>
         Some (None, module_created S idx (new_node C E block_size sectors bdev (lm_major m) idx q
           (new_device E (co_retry_wq C) (co_nr_zones C) idx sectors zmd mp)) m)))"
proof -
  have n: "unat sectors div 8 < 2 ^ 32 - 1" using sz by auto
  from mapping_init_small [OF K sz] obtain mp where mp: "lbz_mapping_init (ev_kern E) sectors = Some mp"
      "mapping_wf (ev_kern E) mp"
      "\<forall>b. map_get (ev_kern E) mp b = (if unat b < unat sectors div 8 then Some LBZ_INVALID_PBID else None)" by blast
  show ?thesis
  proof (cases "co_alloc_device C \<and> (\<exists>idx q. co_idx C = Inr idx \<and> co_alloc_disk C = Some q)")
    case False
    from init_zone_metadata_fresh [OF rep] obtain zmd0 where f0: "fresh_table (co_nr_zones C) zmd0" by blast
    let ?zmd = "zmd0\<lparr>zmd_zone_state_wq := co_zone_wq C\<rparr>"
    have f: "fresh_table (co_nr_zones C) ?zmd" using f0 by (simp add: fresh_table_def init_inv_def)
    have "lbz_create_device C E S block_size sectors bdev m = (case create_errno C of
       Some e \<Rightarrow> Some (Some e, module_failed C m) | None \<Rightarrow> X)" for X
      using False
      by (cases "co_alloc_device C"; cases "co_idx C"; cases "co_alloc_disk C")
        (simp_all add: create_device_zones [OF bs] create_errno_def module_failed_def)
    with f new_device_fresh [OF f mp(2,3) n] show ?thesis
      by (intro exI [of _ ?zmd] exI [of _ mp]) simp
  next
    case True
    then obtain idx q where iq: "co_alloc_device C" "co_idx C = Inr idx" "co_alloc_disk C = Some q" by blast
    let ?d = "device_fields sectors (co_nr_zones C) (dev_zero\<lparr>d_minor := idx\<rparr>)"
    let ?disk = "\<lparr>gd_disk_name = dev_name idx, gd_major = lm_major m,
         gd_first_minor = idx * LBZ_MINORS, gd_minors = LBZ_MINORS,
         gd_capacity = sectors, gd_up = False, gd_queue = set_limits block_size q\<rparr>"
    let ?n = "\<lparr>nd_dev = ?d, nd_disk = Some ?disk, nd_devname = dev_name idx, nd_phy_bdev = bdev\<rparr>"
    let ?m = "m\<lparr>lm_mem := lm_mem m + sz_device S, lm_ida := idx # lm_ida m, lm_disks := lm_disks m + 1\<rparr>"
    have c: "lbz_create_device C E S block_size sectors bdev m = create_zones C E S ?n ?m"
      by (simp add: create_device_zones [OF bs] iq)
    have ce: "create_errno C = err_zones C" by (simp add: create_errno_def iq)
    have mp': "lbz_mapping_init (ev_kern E) (d_dev_size (nd_dev ?n)) = Some mp"
      using mp(1) by (simp add: device_fields_def)
    from create_zones_eq [OF rep al mp' mp(2) wq [unfolded ce], of S ?m] obtain zmd where
      f: "fresh_table (co_nr_zones C) zmd" "zmd_zone_state_wq zmd = co_zone_wq C" and
      e: "create_zones C E S ?n ?m = (case err_zones C of
      Some e \<Rightarrow> Some (Some e, create_out S (lbz_device_free ?n ?m))
    | None \<Rightarrow> create_last C S
        (?n\<lparr>nd_dev := (nd_dev ?n)\<lparr>d_zone_metadata := zmd, d_mapping := mp,
             d_iosched := iosched_zero\<lparr>s_retry_wq := co_retry_wq C\<rparr>,
             d_gc_ctx := snd (lbz_create_gc_thread E None gc_ctx_zero)\<rparr>\<rparr>)
        (entered ?n (mem_add (sz_zone_metadata S + drop_zones_bytes S zmd + (sz_mapping S + sz_io_scheduler S + sz_gc_context S)) ?m)))"
      by blast
    have err: "create_out S (lbz_device_free ?n ?m) = module_failed C m"
      by (simp add: create_out_def lbz_device_free_def mem_sub_def ida_simple_remove_def module_failed_def iq)
    have ns: "co_alloc_nat_sit C" using al by (simp add: unchecked_allocs_def)
    have last: "create_last C S
        (?n\<lparr>nd_dev := (nd_dev ?n)\<lparr>d_zone_metadata := zmd, d_mapping := mp,
             d_iosched := iosched_zero\<lparr>s_retry_wq := co_retry_wq C\<rparr>,
             d_gc_ctx := snd (lbz_create_gc_thread E None gc_ctx_zero)\<rparr>\<rparr>)
        (entered ?n (mem_add (sz_zone_metadata S + drop_zones_bytes S zmd + (sz_mapping S + sz_io_scheduler S + sz_gc_context S)) ?m)) =
        Some (None, module_created S idx (new_node C E block_size sectors bdev (lm_major m) idx q
           (new_device E (co_retry_wq C) (co_nr_zones C) idx sectors zmd mp)) m)"
      by (simp add: create_last_def ns rule_zero_eq mem_add_def module_created_def new_node_def entered_def
          new_device_def [symmetric] device_bytes_def algebra_simps)
    have "lbz_create_device C E S block_size sectors bdev m = (case create_errno C of
       Some e \<Rightarrow> Some (Some e, module_failed C m)
     | None \<Rightarrow> (case (co_idx C, co_alloc_disk C) of (Inr idx, Some q) \<Rightarrow>
         Some (None, module_created S idx (new_node C E block_size sectors bdev (lm_major m) idx q
           (new_device E (co_retry_wq C) (co_nr_zones C) idx sectors zmd mp)) m)))"
      unfolding c e err last iq ce by (cases "err_zones C") simp_all
    with f new_device_fresh [OF f(1) mp(2,3) n] show ?thesis by blast
  qed
qed

lemma create_device_core:
  assumes "kern_ok (ev_kern E)" and "block_size \<le> PAGE_SIZE"
    and "report_ok (co_nr_zones C) (co_report C)" and "unchecked_allocs C"
    and "unat sectors \<le> 64 * 2 ^ 21" and "create_errno C = None \<or> wqs_there C"
  shows "\<exists>m'. lbz_create_device C E S block_size sectors bdev m = Some (create_errno C, m') \<and>
     (create_errno C \<noteq> None \<longrightarrow> m'\<lparr>lm_ida := lm_ida m\<rparr> = m \<and> (co_idx C = Inr 0 \<longrightarrow> m' = m)) \<and>
     (create_errno C = None \<longrightarrow> (\<exists>n idx. co_idx C = Inr idx \<and> lm_devices m' = n # lm_devices m \<and>
        device_fresh (ev_kern E) (nd_dev n) \<and> d_minor (nd_dev n) = idx \<and> d_dev_size (nd_dev n) = sectors \<and>
        zmd_zone_state_wq (d_zone_metadata (nd_dev n)) = co_zone_wq C \<and> s_retry_wq (d_iosched (nd_dev n)) = co_retry_wq C \<and>
        nd_devname n = dev_name idx \<and> nd_phy_bdev n = bdev \<and> lm_ida m' = idx # lm_ida m \<and>
        lm_mem m' = lm_mem m + device_bytes S (nd_dev n) \<and> lm_disks m' = lm_disks m + 1 \<and> lm_biosets m' = lm_biosets m + 1 \<and>
        lm_added m' = dev_name idx # lm_added m \<and> lm_procs m' = dev_name idx # lm_procs m \<and> lm_bdevs m' = lm_bdevs m))"
proof (cases "create_errno C")
  case None
  then obtain idx q where "co_idx C = Inr idx" "co_alloc_disk C = Some q"
    by (auto simp: create_errno_def split: sum.splits option.splits if_splits)
  with None create_device_eq [OF assms, of idx S bdev m] show ?thesis
    by (auto simp: module_created_def new_node_def)
next
  case (Some e)
  have "m'\<lparr>lm_ida := lm_ida m\<rparr> = m \<and> (co_idx C = Inr 0 \<longrightarrow> m' = m)" if "m' = module_failed C m" for m'
    using that by (auto simp: module_failed_def split: sum.splits)
  with Some create_device_eq [OF assms, of 0 S bdev m] show ?thesis by auto
qed

lemma create_device_stops:
  assumes "kern_ok (ev_kern E)" and "block_size \<le> PAGE_SIZE"
    and "report_ok (co_nr_zones C) (co_report C)" and "\<not> unchecked_allocs C"
    and "unat sectors \<le> 64 * 2 ^ 21" and "create_errno C = None"
  shows "lbz_create_device C E S block_size sectors bdev m = None"
proof -
  from assms(6) obtain idx q where iq: "co_alloc_device C" "co_idx C = Inr idx" "co_alloc_disk C = Some q"
    by (auto simp: create_errno_def split: sum.splits option.splits if_splits)
  then have "err_zones C = None" using assms(6) by (simp add: create_errno_def)
  moreover from mapping_init_small [OF assms(1,5)] obtain mp where "lbz_mapping_init (ev_kern E) sectors = Some mp" by blast
  ultimately show ?thesis using create_zones_stops [OF assms(3,4)] iq
    by (simp add: create_device_zones [OF assms(2)] device_fields_def)
qed

section \<open>Removal gives back what creation took\<close>

lemma remove_finish_eq:
  assumes "teardown_ok K (nd_dev n)" and "nd_disk n = Some disk" and "gd_up disk"
  shows "remove_finish K S n m = Some (m\<lparr>lm_mem := lm_mem m - device_bytes S (nd_dev n),
     lm_ida := remove1 (gd_first_minor disk) (lm_ida m), lm_disks := lm_disks m - 1,
     lm_added := remove1 (gd_disk_name disk) (lm_added m), lm_procs := remove1 (nd_devname n) (lm_procs m),
     lm_bdevs := remove1 (nd_phy_bdev n) (lm_bdevs m)\<rparr>)"
proof -
  have t: "tables_ok K (nd_dev n)" "s_retry_wq (d_iosched (nd_dev n)) = WqOk" using assms(1) by (simp_all add: teardown_ok_def)
  show ?thesis
    using teardown_tables [OF t(1)] t(2) assms(2,3)
    by (auto simp: remove_finish_def Let_def lbz_dev_set_unready_def lbz_dev_remove_proc_def mem_sub_def
        lbz_iosched_destory_def lbz_device_free_def ida_simple_remove_def device_bytes_def algebra_simps)
qed

lemma set_remove_frame:
  "teardown_ok K (lbz_dev_set_remove d) = teardown_ok K d" "io_drained (lbz_dev_set_remove d) = io_drained d"
  "device_bytes S (lbz_dev_set_remove d) = device_bytes S d"
  by (simp_all add: lbz_dev_set_remove_def teardown_ok_def tables_ok_def io_drained_def device_bytes_def)

text \<open>A null queue that the creation took for a queue stops the removal.\<close>

lemma remove_null_queue:
  assumes "io_drained (nd_dev n)"
    and "zmd_zone_state_wq (d_zone_metadata (nd_dev n)) \<noteq> WqOk \<or> s_retry_wq (d_iosched (nd_dev n)) \<noteq> WqOk"
  shows "lbz_remove_device K S n rest m = None"
  using assms
  by (auto simp: lbz_remove_device_def remove_finish_def Let_def lbz_dev_set_remove_def lbz_dev_set_unready_def
      io_drained_def lbz_iosched_destory_def lbz_destroy_zone_metadata_def bind_eq_None_conv)

text \<open>
  C36. The creation of a device of at most 64 GiB with a block size of at most a page, on a backing
  device that reports all its zones, all reset. Unless one of the allocations and work queues fails whose failure
  the code does not notice, it returns with the code of the first kernel service that fails. A
  failure leaves the module as it was: no device, disk, bio set, \<^verbatim>\<open>/proc\<close> entry or counted byte
  remains; only the set of held indices may differ, and not for index 0. A success adds one
  device at the head of the list, ready and idle, with the requested size, every block
  unmapped, both maps inverse and the zone table well formed, and counts exactly its bytes. Where the
  code does not look: if everything it checks succeeds and one of the five unchecked allocations
  fails, the kernel stops at the null pointer; if a work queue is null, the device is created all the
  same and its removal stops the kernel.
\<close>

theorem create_device_outcome:
  assumes "kern_ok (ev_kern E)" and "block_size \<le> PAGE_SIZE"
    and "report_ok (co_nr_zones C) (co_report C)" and "unat sectors \<le> 64 * 2 ^ 21"
  shows "(unchecked_allocs C \<and> (create_errno C = None \<or> wqs_there C) \<longrightarrow>
     (\<exists>m'. lbz_create_device C E S block_size sectors bdev m = Some (create_errno C, m') \<and>
       (create_errno C \<noteq> None \<longrightarrow> m'\<lparr>lm_ida := lm_ida m\<rparr> = m \<and> (co_idx C = Inr 0 \<longrightarrow> m' = m)) \<and>
       (create_errno C = None \<longrightarrow> (\<exists>n idx. co_idx C = Inr idx \<and> lm_devices m' = n # lm_devices m \<and>
          device_fresh (ev_kern E) (nd_dev n) \<and> d_minor (nd_dev n) = idx \<and> d_dev_size (nd_dev n) = sectors \<and>
          nd_devname n = dev_name idx \<and> nd_phy_bdev n = bdev \<and> lm_ida m' = idx # lm_ida m \<and>
          lm_mem m' = lm_mem m + device_bytes S (nd_dev n) \<and> lm_disks m' = lm_disks m + 1 \<and>
          lm_biosets m' = lm_biosets m + 1 \<and>
          lm_added m' = dev_name idx # lm_added m \<and> lm_procs m' = dev_name idx # lm_procs m \<and> lm_bdevs m' = lm_bdevs m \<and>
          (\<not> wqs_there C \<longrightarrow> lbz_remove_device (ev_kern E) S n (lm_devices m) m' = None))))) \<and>
   (\<not> unchecked_allocs C \<and> create_errno C = None \<longrightarrow> lbz_create_device C E S block_size sectors bdev m = None)"
proof (intro conjI impI; elim conjE)
  assume a: "unchecked_allocs C" "create_errno C = None \<or> wqs_there C"
  from create_device_core [OF assms(1-3) a(1) assms(4) a(2), of S bdev m] obtain m' where
    m': "lbz_create_device C E S block_size sectors bdev m = Some (create_errno C, m')"
      "create_errno C \<noteq> None \<longrightarrow> m'\<lparr>lm_ida := lm_ida m\<rparr> = m \<and> (co_idx C = Inr 0 \<longrightarrow> m' = m)" and
    n: "create_errno C = None \<longrightarrow> (\<exists>n idx. co_idx C = Inr idx \<and> lm_devices m' = n # lm_devices m \<and>
        device_fresh (ev_kern E) (nd_dev n) \<and> d_minor (nd_dev n) = idx \<and> d_dev_size (nd_dev n) = sectors \<and>
        zmd_zone_state_wq (d_zone_metadata (nd_dev n)) = co_zone_wq C \<and> s_retry_wq (d_iosched (nd_dev n)) = co_retry_wq C \<and>
        nd_devname n = dev_name idx \<and> nd_phy_bdev n = bdev \<and> lm_ida m' = idx # lm_ida m \<and>
        lm_mem m' = lm_mem m + device_bytes S (nd_dev n) \<and> lm_disks m' = lm_disks m + 1 \<and> lm_biosets m' = lm_biosets m + 1 \<and>
        lm_added m' = dev_name idx # lm_added m \<and> lm_procs m' = dev_name idx # lm_procs m \<and> lm_bdevs m' = lm_bdevs m)"
    by (elim exE conjE) (rule that; assumption)
  have rem: "lbz_remove_device (ev_kern E) S n (lm_devices m) m' = None"
    if "device_fresh (ev_kern E) (nd_dev n)" "zmd_zone_state_wq (d_zone_metadata (nd_dev n)) = co_zone_wq C"
      "s_retry_wq (d_iosched (nd_dev n)) = co_retry_wq C" "\<not> wqs_there C" for n
    by (rule remove_null_queue) (use that in \<open>auto simp: device_fresh_def wqs_there_def\<close>)
  from m' n rem show "\<exists>m'. lbz_create_device C E S block_size sectors bdev m = Some (create_errno C, m') \<and>
       (create_errno C \<noteq> None \<longrightarrow> m'\<lparr>lm_ida := lm_ida m\<rparr> = m \<and> (co_idx C = Inr 0 \<longrightarrow> m' = m)) \<and>
       (create_errno C = None \<longrightarrow> (\<exists>n idx. co_idx C = Inr idx \<and> lm_devices m' = n # lm_devices m \<and>
          device_fresh (ev_kern E) (nd_dev n) \<and> d_minor (nd_dev n) = idx \<and> d_dev_size (nd_dev n) = sectors \<and>
          nd_devname n = dev_name idx \<and> nd_phy_bdev n = bdev \<and> lm_ida m' = idx # lm_ida m \<and>
          lm_mem m' = lm_mem m + device_bytes S (nd_dev n) \<and> lm_disks m' = lm_disks m + 1 \<and>
          lm_biosets m' = lm_biosets m + 1 \<and>
          lm_added m' = dev_name idx # lm_added m \<and> lm_procs m' = dev_name idx # lm_procs m \<and> lm_bdevs m' = lm_bdevs m \<and>
          (\<not> wqs_there C \<longrightarrow> lbz_remove_device (ev_kern E) S n (lm_devices m) m' = None)))"
    by (intro exI [of _ m'] conjI) blast+
qed (rule create_device_stops [OF assms(1-3) _ assms(4)])

lemma remove_device_eq:
  assumes "teardown_ok K (nd_dev n)" and "nd_disk n = Some disk" and "gd_up disk" and "io_drained (nd_dev n)"
  shows "lbz_remove_device K S n rest m = Some (True, m\<lparr>lm_devices := rest,
     lm_mem := lm_mem m - device_bytes S (nd_dev n),
     lm_ida := remove1 (gd_first_minor disk) (lm_ida m), lm_disks := lm_disks m - 1,
     lm_added := remove1 (gd_disk_name disk) (lm_added m), lm_procs := remove1 (nd_devname n) (lm_procs m),
     lm_bdevs := remove1 (nd_phy_bdev n) (lm_bdevs m)\<rparr>)"
proof -
  let ?n = "n\<lparr>nd_dev := lbz_dev_set_remove (nd_dev n)\<rparr>"
  have "teardown_ok K (nd_dev ?n)" "nd_disk ?n = Some disk" using assms(1,2) by (simp_all add: set_remove_frame)
  from remove_finish_eq [OF this assms(3)] show ?thesis
    using assms(4) by (simp add: lbz_remove_device_def Let_def set_remove_frame)
qed

text \<open>
  C37. Whatever a device did since its creation, when it is idle, its tables and work queues are intact
  and its tables have the size they had, its removal returns, and the device, its disk, its \<^verbatim>\<open>/proc\<close> entry, one
  claim on the backing device and every counted byte of the creation are given back. Two things
  are not. The bio set that the creation initialised is never given back. And the code releases the first
  minor number instead of the index, so every index other than 0 stays held for ever.
\<close>

theorem remove_device_restores:
  assumes "kern_ok (ev_kern E)" and "block_size \<le> PAGE_SIZE"
    and "report_ok (co_nr_zones C) (co_report C)" and "unchecked_allocs C"
    and "unat sectors \<le> 64 * 2 ^ 21"
    and create: "lbz_create_device C E S block_size sectors bdev m = Some (None, m1)" "lm_devices m1 = n # lm_devices m"
    and wqs: "wqs_there C"
    and later: "teardown_ok (ev_kern E) d" "io_drained d" "device_bytes S d = device_bytes S (nd_dev n)"
  shows "\<exists>idx m2. co_idx C = Inr idx \<and>
     lbz_remove_device (ev_kern E) S (n\<lparr>nd_dev := d\<rparr>) (lm_devices m) m1 = Some (True, m2) \<and>
     m2\<lparr>lm_ida := lm_ida m, lm_bdevs := lm_bdevs m, lm_biosets := lm_biosets m\<rparr> = m \<and>
     lm_bdevs m2 = remove1 bdev (lm_bdevs m) \<and> lm_biosets m2 = lm_biosets m + 1 \<and>
     (idx = 0 \<longrightarrow> lm_ida m2 = lm_ida m) \<and> (idx \<noteq> 0 \<longrightarrow> idx \<in> set (lm_ida m2))"
proof -
  have wq: "create_errno C = None \<or> wqs_there C" using wqs by simp
  have no_err: "create_errno C = None" using create_device_eq [OF assms(1-5) wq, of 0 S bdev m] create(1)
    by (auto split: option.splits)
  from no_err obtain idx q where iq: "co_idx C = Inr idx" "co_alloc_disk C = Some q"
    by (auto simp: create_errno_def split: sum.splits option.splits if_splits)
  from create_device_eq [OF assms(1-5) wq, of idx S bdev m] no_err iq create(1) obtain zmd mp where
    m1: "m1 = module_created S idx (new_node C E block_size sectors bdev (lm_major m) idx q
           (new_device E (co_retry_wq C) (co_nr_zones C) idx sectors zmd mp)) m" by auto
  with create(2) have n: "n = new_node C E block_size sectors bdev (lm_major m) idx q
           (new_device E (co_retry_wq C) (co_nr_zones C) idx sectors zmd mp)" by (simp add: module_created_def)
  let ?n = "n\<lparr>nd_dev := d\<rparr>"
  obtain disk where disk: "nd_disk ?n = Some disk" "gd_up disk" "gd_first_minor disk = idx * LBZ_MINORS"
      "gd_disk_name disk = dev_name idx" "nd_devname ?n = dev_name idx" "nd_phy_bdev ?n = bdev"
    by (simp add: n new_node_def)
  from remove_device_eq [of "ev_kern E" ?n disk S "lm_devices m" m1] later disk
  have r: "lbz_remove_device (ev_kern E) S ?n (lm_devices m) m1 = Some (True,
     m\<lparr>lm_ida := remove1 (idx * LBZ_MINORS) (idx # lm_ida m), lm_bdevs := remove1 bdev (lm_bdevs m),
        lm_biosets := lm_biosets m + 1\<rparr>)"
    using m1 n by (simp add: module_created_def)
  have "idx \<in> set (remove1 (idx * LBZ_MINORS) (idx # lm_ida m))" if "idx \<noteq> 0"
    using that by (simp add: LBZ_MINORS_def)
  with r iq(1) show ?thesis by auto
qed

section \<open>The exit of the module\<close>

text \<open>
  The counter holds the bytes of the listed devices and the \<open>r\<close> bytes that requests have allocated and
  not yet freed; each device can be taken down.
\<close>

definition module_ok :: "kern \<Rightarrow> sizes \<Rightarrow> u64 \<Rightarrow> lbz_module \<Rightarrow> bool" where
  "module_ok K S r m \<longleftrightarrow>
     lm_mem m = sum_list (map (\<lambda>n. device_bytes S (nd_dev n)) (lm_devices m)) + r \<and>
     (\<forall>n\<in>set (lm_devices m). teardown_ok K (nd_dev n) \<and> (\<exists>disk. nd_disk n = Some disk \<and> gd_up disk))"

lemma device_fresh_teardown:
  "device_fresh K d \<Longrightarrow> zmd_zone_state_wq (d_zone_metadata d) = WqOk \<Longrightarrow> s_retry_wq (d_iosched d) = WqOk \<Longrightarrow> teardown_ok K d"
  by (simp add: device_fresh_def teardown_ok_def tables_ok_def zmd_wf_def wf_zones_def)

lemma created_queues: "create_errno C = None \<Longrightarrow> wqs_there C \<Longrightarrow> co_zone_wq C = WqOk \<and> co_retry_wq C = WqOk"
  by (auto simp: create_errno_def err_zones_def err_maps_def wqs_there_def wq_error_None
      split: sum.splits option.splits if_splits)

lemma module_ok_created:
  assumes "kern_ok (ev_kern E)" and "block_size \<le> PAGE_SIZE"
    and "report_ok (co_nr_zones C) (co_report C)" and "unchecked_allocs C"
    and "unat sectors \<le> 64 * 2 ^ 21" and wq: "wqs_there C" and "module_ok (ev_kern E) S r m"
  shows "\<exists>m'. lbz_create_device C E S block_size sectors bdev m = Some (create_errno C, m') \<and> module_ok (ev_kern E) S r m'"
proof -
  have wq': "create_errno C = None \<or> wqs_there C" using wq by simp
  show ?thesis
  proof (cases "create_errno C")
    case None
    then obtain idx q where iq: "co_idx C = Inr idx" "co_alloc_disk C = Some q"
      by (auto simp: create_errno_def split: sum.splits option.splits if_splits)
    from create_device_eq [OF assms(1-5) wq', of idx S bdev m] None iq obtain zmd mp where
      f: "device_fresh (ev_kern E) (new_device E (co_retry_wq C) (co_nr_zones C) idx sectors zmd mp)"
        "zmd_zone_state_wq zmd = co_zone_wq C" and
      c: "lbz_create_device C E S block_size sectors bdev m = Some (None, module_created S idx
        (new_node C E block_size sectors bdev (lm_major m) idx q
          (new_device E (co_retry_wq C) (co_nr_zones C) idx sectors zmd mp)) m)"
      by auto
    have "teardown_ok (ev_kern E) (new_device E (co_retry_wq C) (co_nr_zones C) idx sectors zmd mp)"
      by (rule device_fresh_teardown [OF f(1)]) (use f(2) created_queues [OF None wq] in simp_all)
    with None c assms(7) show ?thesis
      by (auto simp: module_ok_def module_created_def new_node_def algebra_simps)
  next
    case (Some e)
    with create_device_eq [OF assms(1-5) wq', of 0 S bdev m] assms(7) show ?thesis
      by (auto simp: module_ok_def module_failed_def split: sum.splits)
  qed
qed

lemma remove_all_ok:
  assumes "lm_devices m = ns"
    and "\<forall>n\<in>set ns. teardown_ok K (nd_dev n) \<and> (\<exists>disk. nd_disk n = Some disk \<and> gd_up disk)"
  shows "\<exists>over m'. remove_all K S ns m = Some (over, m') \<and> over = (\<forall>n\<in>set ns. io_drained (nd_dev n)) \<and>
     (over \<longrightarrow> lm_devices m' = [] \<and> lm_mem m' = lm_mem m - sum_list (map (\<lambda>n. device_bytes S (nd_dev n)) ns)) \<and>
     (\<not> over \<longrightarrow> (\<exists>n rest. lm_devices m' = n # rest \<and> is_dev_remove (nd_dev n) \<and> \<not> io_drained (nd_dev n)))"
  using assms
proof (induction ns arbitrary: m)
  case (Cons n ns)
  show ?case
  proof (cases "io_drained (nd_dev n)")
    case True
    from Cons.prems(2) obtain disk where d: "teardown_ok K (nd_dev n)" "nd_disk n = Some disk" "gd_up disk" by auto
    note r = remove_device_eq [OF d True, of S ns m]
    let ?m = "snd (the (lbz_remove_device K S n ns m))"
    have "lm_devices ?m = ns" by (simp add: r)
    from Cons.IH [OF this] Cons.prems(2) obtain over m' where
      m': "remove_all K S ns ?m = Some (over, m')" "over = (\<forall>n\<in>set ns. io_drained (nd_dev n))"
        "over \<longrightarrow> lm_devices m' = [] \<and> lm_mem m' = lm_mem ?m - sum_list (map (\<lambda>n. device_bytes S (nd_dev n)) ns)"
        "\<not> over \<longrightarrow> (\<exists>n rest. lm_devices m' = n # rest \<and> is_dev_remove (nd_dev n) \<and> \<not> io_drained (nd_dev n))"
      by auto
    have "remove_all K S (n # ns) m = Some (over, m')" using m'(1) by (simp add: r)
    moreover have "lm_mem ?m - x = lm_mem m - (device_bytes S (nd_dev n) + x)" for x by (simp add: r)
    moreover have "(\<forall>k\<in>set (n # ns). io_drained (nd_dev k)) = (\<forall>k\<in>set ns. io_drained (nd_dev k))" using True by simp
    ultimately show ?thesis
      using m'(2-4) by (intro exI [of _ over] exI [of _ m']) simp
  next
    case False
    then show ?thesis by (auto simp: lbz_remove_device_def Let_def set_remove_frame bit_flags)
  qed
qed (simp, blast)

text \<open>
  C38. The counter of allocated bytes balances. A creation on the conditions of the creation theorem, successful
  or not, keeps the counter equal to the bytes of the listed devices plus those that requests
  hold. The exit of the module ends exactly when every device is idle; then no device is left, and the final check
  stops the kernel exactly when requests still hold bytes. Otherwise the exit waits on a device that is
  already closed to new openers.
\<close>

theorem module_memory_balanced:
  assumes "module_ok (ev_kern E) S r m"
  shows "(kern_ok (ev_kern E) \<and> block_size \<le> PAGE_SIZE \<and> report_ok (co_nr_zones C) (co_report C) \<and>
      unchecked_allocs C \<and> wqs_there C \<and> unat sectors \<le> 64 * 2 ^ 21 \<longrightarrow>
      (\<exists>m'. lbz_create_device C E S block_size sectors bdev m = Some (create_errno C, m') \<and> module_ok (ev_kern E) S r m')) \<and>
    (if \<forall>n\<in>set (lm_devices m). io_drained (nd_dev n)
     then (if r \<noteq> 0 then lbz_dev_exit (ev_kern E) S m = None
           else \<exists>m'. lbz_dev_exit (ev_kern E) S m = Some (True, m') \<and> lm_devices m' = [] \<and> lm_mem m' = 0)
     else \<exists>m' n rest. lbz_dev_exit (ev_kern E) S m = Some (False, m') \<and> lm_devices m' = n # rest \<and>
       fst (open_dev (nd_dev n)) = Some EINVAL)"
proof -
  from assms have d: "lm_mem m = sum_list (map (\<lambda>n. device_bytes S (nd_dev n)) (lm_devices m)) + r"
    "\<forall>n\<in>set (lm_devices m). teardown_ok (ev_kern E) (nd_dev n) \<and> (\<exists>disk. nd_disk n = Some disk \<and> gd_up disk)"
    by (simp_all add: module_ok_def)
  from remove_all_ok [OF refl d(2), of S] obtain over m' where
    x: "remove_all (ev_kern E) S (lm_devices m) m = Some (over, m')" "over = (\<forall>n\<in>set (lm_devices m). io_drained (nd_dev n))"
      "over \<longrightarrow> lm_devices m' = [] \<and> lm_mem m' = r"
      "\<not> over \<longrightarrow> (\<exists>n rest. lm_devices m' = n # rest \<and> is_dev_remove (nd_dev n))"
    using d(1) by auto
  have "if over then (if r \<noteq> 0 then lbz_dev_exit (ev_kern E) S m = None
           else \<exists>m'. lbz_dev_exit (ev_kern E) S m = Some (True, m') \<and> lm_devices m' = [] \<and> lm_mem m' = 0)
     else \<exists>m' n rest. lbz_dev_exit (ev_kern E) S m = Some (False, m') \<and> lm_devices m' = n # rest \<and>
       fst (open_dev (nd_dev n)) = Some EINVAL"
    using x(1,3,4) by (cases over) (auto simp: lbz_dev_exit_def open_dev_def)
  with x(2) module_ok_created [OF _ _ _ _ _ _ assms] show ?thesis by simp
qed

text \<open>
  The operations of the block device on the flags of the device. A device can be opened
  exactly when it is ready, not being removed and not faulty; an opener that leaves waits while
  requests are in flight unless the device is faulty, and open followed by release of an idle
  device is neutral. The control call succeeds exactly on a faulty device that is ready.
\<close>

theorem dev_operations:
  "(fst (open_dev d) = None \<longleftrightarrow> is_dev_ready d \<and> \<not> is_dev_remove d \<and> \<not> is_dev_faulty d) \<and>
   (fst (open_dev d) \<noteq> None \<longrightarrow> snd (open_dev d) = d) \<and>
   (fst (open_dev d) = None \<and> d_user_write_inflight_io_cnt d = 0 \<and> d_user_read_inflight_io_cnt d = 0 \<longrightarrow>
      release_dev (snd (open_dev d)) = (True, d)) \<and>
   (fst (release_dev d) \<longleftrightarrow> is_dev_faulty d \<or>
      d_user_write_inflight_io_cnt d = 0 \<and> d_user_read_inflight_io_cnt d = 0) \<and>
   (ioctl_dev d = None \<longleftrightarrow> is_dev_faulty d \<and> is_dev_ready d)"
  by (auto simp: open_dev_def release_dev_def ioctl_dev_def is_dev_faulty_def)

end
