(* ===== verification/Ftl_Refine.thy ===== *)
theory Ftl_Refine
  imports Ftl_Safety Dev_Life
begin

text \<open>
  The contract of the translation layer with the layer above: an asynchronous store of logical
  blocks. The machine of the driver refines it, for every interleaving.
\<close>

section \<open>The store\<close>

text \<open>
  The committed content of each block, the writes that were accepted and not yet committed, and
  the contents that reads in flight will deliver.
\<close>

record astate =
  as_store :: "u32 \<Rightarrow> nat option"
  as_writes :: "(u32 \<times> nat) multiset"
  as_reads :: "nat option multiset"

text \<open>
  A write is accepted when no write of the same block is in flight, and takes effect at some
  later time. A read delivers the content that its block had when the read was accepted.
\<close>

inductive store_step :: "astate \<Rightarrow> fevent \<Rightarrow> astate \<Rightarrow> bool" where
  st_internal: "store_step a Internal a"
| st_submit: "b \<notin> fst ` set_mset (as_writes a) \<Longrightarrow>
    store_step a (Submit b v) (a\<lparr>as_writes := as_writes a + {#(b, v)#}\<rparr>)"
| st_commit: "as_writes a = W + {#(b, v)#} \<Longrightarrow>
    store_step a (Commit b v) (a\<lparr>as_store := (as_store a)(b \<mapsto> v), as_writes := W\<rparr>)"
| st_discard: "store_step a (Discard b) (a\<lparr>as_store := (as_store a)(b := None)\<rparr>)"
| st_lookup: "as_store a b = v \<Longrightarrow> v \<noteq> None \<Longrightarrow>
    store_step a (Lookup b v) (a\<lparr>as_reads := as_reads a + {#v#}\<rparr>)"
| st_deliver: "as_reads a = R + {#v#} \<Longrightarrow> store_step a (Deliver v v) (a\<lparr>as_reads := R\<rparr>)"

section \<open>Runs, and simulations between them\<close>

inductive run :: "('s \<Rightarrow> 'e \<Rightarrow> 's \<Rightarrow> bool) \<Rightarrow> 's \<Rightarrow> 'e list \<Rightarrow> 's \<Rightarrow> bool" for step where
  run_nil: "run step s [] s"
| run_snoc: "run step s es t \<Longrightarrow> step t e u \<Longrightarrow> run step s (es @ [e]) u"

text \<open>A machine that implements another under an invariant of its states.\<close>

locale simulation =
  fixes cstep :: "'c \<Rightarrow> 'e \<Rightarrow> 'c \<Rightarrow> bool"
    and astep :: "'a \<Rightarrow> 'e \<Rightarrow> 'a \<Rightarrow> bool"
    and inv :: "'c \<Rightarrow> bool"
    and abs :: "'c \<Rightarrow> 'a"
  assumes inv_step: "cstep s e t \<Longrightarrow> inv s \<Longrightarrow> inv t"
    and sim_step: "cstep s e t \<Longrightarrow> inv s \<Longrightarrow> astep (abs s) e (abs t)"
begin

lemma inv_run: "run cstep s es t \<Longrightarrow> inv s \<Longrightarrow> inv t"
  by (induction rule: run.induct) (auto intro: inv_step)

lemma sim_run: "run cstep s es t \<Longrightarrow> inv s \<Longrightarrow> run astep (abs s) es (abs t)"
  by (induction rule: run.induct) (auto intro: run.intros sim_step inv_run)

end

section \<open>The driver implements the store\<close>

definition astore :: "kern \<Rightarrow> fstate \<Rightarrow> u32 \<Rightarrow> nat option" where
  "astore K s b = (case map_get K (fs_map s) b of
     None \<Rightarrow> None | Some a \<Rightarrow> if a = LBZ_INVALID_PBID then None else fs_media s a)"

fun op_writes :: "fop \<Rightarrow> (u32 \<times> nat) multiset" where
  "op_writes (FWrite q b v) = {#(b, v)#}"
| "op_writes _ = {#}"

fun op_reads :: "fop \<Rightarrow> nat option multiset" where
  "op_reads (FRead q a v) = {#v#}"
| "op_reads _ = {#}"

definition abs_state :: "kern \<Rightarrow> fstate \<Rightarrow> astate" where
  "abs_state K s = \<lparr>as_store = astore K s, as_writes = (\<Sum>op\<in>#fs_ops s. op_writes op),
     as_reads = (\<Sum>op\<in>#fs_ops s. op_reads op)\<rparr>"

lemma astore_cong:
  assumes "map_get K (fs_map s') = map_get K (fs_map s)"
    and "\<And>b a. map_get K (fs_map s) b = Some a \<Longrightarrow> a \<noteq> LBZ_INVALID_PBID \<Longrightarrow> fs_media s' a = fs_media s a"
  shows "astore K s' = astore K s"
  using assms by (auto simp: astore_def fun_eq_iff split: option.splits)

lemma astore_quiet [simp]:
  "astore K (s\<lparr>fs_ops := o'\<rparr>) = astore K s"
  "d_mapping d = fs_map s \<Longrightarrow> astore K (s\<lparr>fs_dev := d\<rparr>) = astore K s"
  by (rule astore_cong; simp)+

lemma astore_put:
  assumes inv: "ftl_inv K s" and a: "fs_media s a = None" "a \<noteq> LBZ_INVALID_PBID"
    and m: "map_get K (fs_map s') = (map_get K (fs_map s))(b \<mapsto> a)" "fs_media s' = (fs_media s)(a := v)"
  shows "astore K s' = (astore K s)(b := v)"
proof
  fix c
  have "x \<noteq> a" if "map_get K (fs_map s) c = Some x" "x \<noteq> LBZ_INVALID_PBID" for x
    using ftl_inv_facts(7) [OF inv] that a(1) unfolding mapped_data_def by metis
  then show "astore K s' c = ((astore K s)(b := v)) c"
    using a(2) by (auto simp: astore_def m split: option.splits)
qed

lemma op_writes_lock: "(b, v) \<in># op_writes op \<Longrightarrow> op_lock op = Some b"
  by (cases op) auto

lemma store_step_eq: "store_step a e a' \<Longrightarrow> a' = c \<Longrightarrow> store_step a e c"
  by simp

lemma ftl_step_sim:
  assumes st: "ftl_step ss K s e s'" and inv: "ftl_inv K s"
  shows "store_step (abs_state K s) e (abs_state K s')"
  using st
proof (cases rule: ftl_step.cases)
  case (write_start b sid md p zmd' gc' v)
  have "b \<notin> fst ` set_mset (as_writes (abs_state K s))"
    using write_start(5) op_writes_lock by (force simp: abs_state_def locked_def)
  from st_submit [OF this] show ?thesis unfolding write_start(1)
    by (rule store_step_eq) (simp add: abs_state_def write_start(2))
next
  case (write_done R p b v a m' zmd')
  have a: "fs_media s a = None" "a \<noteq> LBZ_INVALID_PBID" using write_done(4) by (auto simp: fresh_append_def)
  have m: "map_get K m' = (map_get K (fs_map s))(b \<mapsto> a)" using inv_write_done [OF inv write_done(3,4)] write_done(5) by auto
  have "as_writes (abs_state K s) = (\<Sum>op\<in>#R. op_writes op) + {#(b, v)#}" by (simp add: abs_state_def write_done(3))
  from st_commit [OF this] show ?thesis unfolding write_done(1)
    by (rule store_step_eq) (use m in \<open>simp add: abs_state_def write_done(2,3) astore_put [OF inv a]\<close>)
next
  case (read_start b p a zmd')
  note l = lookup_found [OF read_start(4)]
  have "fs_media s a \<noteq> None" using ftl_inv_facts(7) [OF inv] l(1,2) unfolding mapped_data_def by blast
  moreover have "as_store (abs_state K s) b = fs_media s a" using l(1,2) by (simp add: abs_state_def astore_def)
  ultimately show ?thesis using st_lookup [of "abs_state K s" b "fs_media s a"] unfolding read_start(1)
    by (auto simp: abs_state_def read_start(2))
next
  case (read_done R p a v zmd')
  have v: "fs_media s a = v" using ftl_inv_op [OF inv, of "FRead p a v"] read_done(3) by (simp add: op_ok_def)
  have "as_reads (abs_state K s) = (\<Sum>op\<in>#R. op_reads op) + {#v#}" by (simp add: abs_state_def read_done(3))
  from st_deliver [OF this] show ?thesis unfolding read_done(1) v
    by (rule store_step_eq) (simp add: abs_state_def read_done(2,3))
next
  case (move_done R p b old v a m' zmd')
  have a: "fs_media s a = None" "a \<noteq> LBZ_INVALID_PBID" using move_done(4) by (auto simp: fresh_append_def)
  have m: "map_get K m' = (map_get K (fs_map s))(b \<mapsto> a)" using inv_move_done [OF inv move_done(3,4)] move_done(5) by auto
  have "op_ok K s (FMove p b old v)" using ftl_inv_op [OF inv] move_done(3) by simp
  then have "astore K s b = v" by (simp add: op_ok_def astore_def)
  then have "(astore K s)(b := v) = astore K s" by (simp add: fun_upd_idem)
  then show ?thesis using st_internal [of "abs_state K s"] m unfolding move_done(1)
    by (simp add: abs_state_def move_done(2,3) astore_put [OF inv a])
next
  case (discard b n m' zmd' n')
  have m: "map_get K m' = (map_get K (fs_map s))(b \<mapsto> LBZ_INVALID_PBID)"
    using inv_discard [OF inv discard(3,4), of n] discard(5) by auto
  show ?thesis unfolding discard(1)
    by (rule store_step_eq [OF st_discard]) (use m in \<open>auto simp: abs_state_def discard(2) astore_def fun_eq_iff split: option.splits\<close>)
next
  case (worker reset_err d')
  from inv_worker [OF inv, of reset_err] worker(3) have
    "d_mapping d' = fs_map s" "\<And>b a. map_get K (fs_map s) b = Some a \<Longrightarrow> a \<noteq> LBZ_INVALID_PBID \<Longrightarrow>
        erase_reset K (fs_zmd s) (d_zone_metadata d') (fs_media s) a = fs_media s a" by auto
  then have "astore K s' = astore K s" unfolding worker(2) by (intro astore_cong) auto
  then show ?thesis using st_internal [of "abs_state K s"] unfolding worker(1) by (simp add: abs_state_def worker(2))
qed (use st_internal [of "abs_state K s"] in \<open>simp_all add: abs_state_def\<close>)

interpretation ftl_store: simulation "ftl_step ss K" store_step "ftl_inv K" "abs_state K" for ss K
  by unfold_locales (auto intro: ftl_step_inv ftl_step_sim)

text \<open>The state of the layer on a device as it was just created, whose backing device is empty.\<close>

definition ftl_init :: "lbz_device \<Rightarrow> fstate" where
  "ftl_init d = \<lparr>fs_dev = d, fs_media = (\<lambda>a. None), fs_ops = {#}\<rparr>"

lemma ftl_init_inv:
  assumes m: "maps_ok K (d_mapping d) (d_zone_metadata d)" and g: "geometry K (d_zone_metadata d)"
    and z: "\<And>p z. zmd_zones (d_zone_metadata d) p = Some z \<Longrightarrow> fresh_zone z \<and>
      length (z_zrms z) = unat (zmd_zone_nr_reverse_map_blocks (d_zone_metadata d))"
    and u: "\<And>b a. map_get K (d_mapping d) b = Some a \<Longrightarrow> a = LBZ_INVALID_PBID"
  shows "ftl_inv K (ftl_init d)"
proof -
  have "zone_counts K {#} p y" if "zmd_zones (d_zone_metadata d) p = Some y" for p y
    using z [OF that] by (auto simp: zone_counts_def fresh_zone_def active_ref_def zone_phase_def split: if_splits)
  moreover have "\<not> phase_at (d_zone_metadata d) p PGc" for p
    using z [of p] by (auto simp: phase_at_def fresh_zone_def)
  ultimately show ?thesis
    using m g z u by (auto simp: ftl_inv_def ftl_init_def counts_ok_def locks_ok_def covered_def mapped_data_def)
qed

text \<open>A device as \<open>lbz_create_device\<close> leaves it is such a device.\<close>

lemma device_fresh_inv:
  assumes "device_fresh K d" and "geometry K (d_zone_metadata d)"
  shows "ftl_inv K (ftl_init d)"
  by (rule ftl_init_inv) (use assms in \<open>auto simp: device_fresh_def maps_ok_def split: if_splits\<close>)

definition store_empty :: astate where
  "store_empty = \<lparr>as_store = (\<lambda>b. None), as_writes = {#}, as_reads = {#}\<rparr>"

lemma device_fresh_store: "device_fresh K d \<Longrightarrow> abs_state K (ftl_init d) = store_empty"
  by (auto simp: abs_state_def store_empty_def ftl_init_def astore_def device_fresh_def fun_eq_iff)

text \<open>
  C2. From the creation of a device on, and as long as no input or output fails, the translation layer
  refines a store of logical blocks, for the interleavings of the steps of user writes and
  reads, of the collector's scan, copies and drops, of freed blocks and of the zone state
  worker in which the two known races do not happen: no block is freed while the collector
  writes a copy of it (C34 shows what happens then), and no run of the worker closes a zone that has a write in
  flight (which the flag of C33 makes possible). Each such run of the machine is a run of the store with
  the same events. A committed write
  is what a later lookup finds until the block is written again or freed, whatever the
  collector moved in between; a read delivers what its block held when it was accepted, because
  no zone is reset under a reader; and no two writes of one block are in flight together.
\<close>

theorem ftl_refines_store:
  assumes "device_fresh K d" and "geometry K (d_zone_metadata d)" and "run (ftl_step ss K) (ftl_init d) es t"
  shows "run store_step store_empty es (abs_state K t) \<and> ftl_inv K t"
  using ftl_store.sim_run [OF assms(3) device_fresh_inv [OF assms(1,2)]]
    ftl_store.inv_run [OF assms(3) device_fresh_inv [OF assms(1,2)]] device_fresh_store [OF assms(1)] by simp

text \<open>
  C3. The layer does not stop. In every state that a run of the machine of C2 reaches after the
  creation of the device (no input or output has failed, and neither of the two races has happened), the
  completion of a write or of a copy finds the maps as it expects them, at
  whatever fresh address the backing device chose; a read and a scan can drop their references;
  every block of the device can be freed, also while it is copied; and the zone state worker does not panic,
  whichever zones it closes and whether its resets fail: every zone that it resets is
  without live blocks, and no mapped address is erased. The last two hold of every free and of every run of the
  worker, also of those after which the machine does not go on.
\<close>

theorem ftl_never_stops:
  assumes "device_fresh K d" and "geometry K (d_zone_metadata d)" and "run (ftl_step ss K) (ftl_init d) es t"
  shows "(\<forall>p b v a. FWrite p b v \<in># fs_ops t \<and> fresh_append K t p a \<longrightarrow>
        ftl_write_done K p b a (fs_map t, fs_zmd t) \<noteq> None) \<and>
     (\<forall>p b old v a. FMove p b old v \<in># fs_ops t \<and> fresh_append K t p a \<longrightarrow>
        ftl_gc_done K p b old a (fs_map t, fs_zmd t) \<noteq> None) \<and>
     (\<forall>p a v. FRead p a v \<in># fs_ops t \<longrightarrow> upd_zone p lbz_put_zone (fs_zmd t) \<noteq> None) \<and>
     (\<forall>p k pos. FScan p k pos \<in># fs_ops t \<longrightarrow> ftl_scan_end p (fs_zmd t) \<noteq> None) \<and>
     (\<forall>b n. map_get K (fs_map t) b \<noteq> None \<longrightarrow> free_blkid K b (fs_map t, fs_zmd t, n) \<noteq> None) \<and>
     (\<exists>d'. zone_state_wk_fn reset_err (fs_dev t) = Some d' \<and>
        (\<forall>b a. map_get K (fs_map t) b = Some a \<and> a \<noteq> LBZ_INVALID_PBID \<longrightarrow>
           erase_reset K (fs_zmd t) (d_zone_metadata d') (fs_media t) a = fs_media t a))"
proof (intro conjI allI impI; (elim conjE)?)
  have inv: "ftl_inv K t" by (rule ftl_store.inv_run [OF assms(3) device_fresh_inv [OF assms(1,2)]])
  show "ftl_write_done K p b a (fs_map t, fs_zmd t) \<noteq> None"
    if "FWrite p b v \<in># fs_ops t" "fresh_append K t p a" for p b v a
    using inv_write_done [OF inv _ that(2), of "fs_ops t - {#FWrite p b v#}" b v] that(1) by auto
  show "ftl_gc_done K p b old a (fs_map t, fs_zmd t) \<noteq> None"
    if "FMove p b old v \<in># fs_ops t" "fresh_append K t p a" for p b old v a
    using inv_move_done [OF inv _ that(2), of "fs_ops t - {#FMove p b old v#}" b old v] that(1) by auto
  show "upd_zone p lbz_put_zone (fs_zmd t) \<noteq> None" if "FRead p a v \<in># fs_ops t" for p a v
    using ftl_inv_zone [OF inv that, of p] by (auto simp: upd_zone_def)
  show "ftl_scan_end p (fs_zmd t) \<noteq> None" if "FScan p k pos \<in># fs_ops t" for p k pos
    using ftl_inv_zone [OF inv that, of p] by (auto simp: ftl_scan_end_def upd_zone_def)
  show "free_blkid K b (fs_map t, fs_zmd t, n) \<noteq> None"
    if "map_get K (fs_map t) b \<noteq> None" for b n
    using free_blkid_keep [OF ftl_inv_facts(4) [OF inv], of b _ n] that by auto
  show "\<exists>d'. zone_state_wk_fn reset_err (fs_dev t) = Some d' \<and>
        (\<forall>b a. map_get K (fs_map t) b = Some a \<and> a \<noteq> LBZ_INVALID_PBID \<longrightarrow>
           erase_reset K (fs_zmd t) (d_zone_metadata d') (fs_media t) a = fs_media t a)"
    using inv_worker [OF inv, of reset_err] by blast
qed

end
