(* ===== verification/Ftl_Collect.thy ===== *)
theory Ftl_Collect
  imports Ftl_Refine
begin

text \<open>
  One zone at a time. The collector takes a new victim only when the zone it collected last is
  reset. The theory shows what this guard buys: at any time all copies in flight come from one zone,
  and no two of them are copies of the same block. The driver depends on it, because a copy that
  finds its block locked leaves a pointer in the task that holds the lock, in a union that has room for
  it only if that task is a user's.
\<close>

section \<open>The collector's operations\<close>

text \<open>The zone that an operation of the collector reads from, and the block it copies.\<close>

fun gc_src :: "kern \<Rightarrow> fop \<Rightarrow> zptr option" where
  "gc_src K (FScan p k pos) = Some p"
| "gc_src K (FCopy b old) = Some (get_zone_by_pbid K old)"
| "gc_src K (FHold b old v) = Some (get_zone_by_pbid K old)"
| "gc_src K (FMove p b old v) = Some (get_zone_by_pbid K old)"
| "gc_src K _ = None"

fun gc_blk :: "fop \<Rightarrow> u32 option" where
  "gc_blk (FCopy b old) = Some b"
| "gc_blk (FHold b old v) = Some b"
| "gc_blk (FMove p b old v) = Some b"
| "gc_blk _ = None"

fun is_scan :: "fop \<Rightarrow> bool" where
  "is_scan (FScan p k pos) = True"
| "is_scan _ = False"

definition copies :: "fop multiset \<Rightarrow> u32 \<Rightarrow> nat" where
  "copies ops b = size {#op \<in># ops. gc_blk op = Some b#}"

definition scans :: "fop multiset \<Rightarrow> nat" where
  "scans ops = size {#op \<in># ops. is_scan op#}"

lemma copies_simps [simp]:
  "copies {#} b = 0" "copies (A + B) b = copies A b + copies B b"
  "copies (add_mset x A) b = of_bool (gc_blk x = Some b) + copies A b"
  by (simp_all add: copies_def)

lemma scans_simps [simp]:
  "scans {#} = 0" "scans (A + B) = scans A + scans B" "scans (add_mset x A) = of_bool (is_scan x) + scans A"
  by (simp_all add: scans_def)

lemma copies_0: "copies ops b = 0 \<longleftrightarrow> (\<forall>op\<in>#ops. gc_blk op \<noteq> Some b)"
  by (induction ops) auto

lemma scans_0: "scans ops = 0 \<longleftrightarrow> (\<forall>op\<in>#ops. \<not> is_scan op)"
  by (induction ops) auto

lemma gc_src_refs: "gc_src K op = Some q \<Longrightarrow> op_refs K q op \<noteq> 0"
  by (cases op) auto

section \<open>The invariant\<close>

text \<open>
  What the scan of \<open>p\<close>, which is at index \<open>k\<close> and has read \<open>pos\<close> there, will still find: blocks that
  no copy in flight belongs to, each once.
\<close>

definition unscanned :: "kern \<Rightarrow> fop multiset \<Rightarrow> lbz_zone_metadata \<Rightarrow> zptr \<Rightarrow> nat \<Rightarrow> u32 \<Rightarrow> bool" where
  "unscanned K ops zmd p k pos \<longleftrightarrow>
     (\<forall>z a b. zmd_zones zmd p = Some z \<longrightarrow> get_zone_by_pbid K a = p \<longrightarrow> live_at K zmd a b \<longrightarrow>
        k < unat (pbid_dis z a) \<longrightarrow> copies ops b = 0 \<and> b \<noteq> pos) \<and>
     (pos \<noteq> LBZ_INVALID_PBID \<longrightarrow> k < unat (zmd_zone_nr_blocks zmd) \<longrightarrow> copies ops pos = 0)"

definition one_zone :: "kern \<Rightarrow> fstate \<Rightarrow> bool" where
  "one_zone K s \<longleftrightarrow>
     (\<forall>p. phase_at (fs_zmd s) p PGc \<longrightarrow> gc_zone (d_gc_ctx (fs_dev s)) = Some p) \<and>
     (\<forall>op q. op \<in># fs_ops s \<longrightarrow> gc_src K op = Some q \<longrightarrow> phase_at (fs_zmd s) q PGc) \<and>
     (\<forall>b. copies (fs_ops s) b \<le> 1) \<and> scans (fs_ops s) \<le> 1 \<and>
     (\<forall>p k pos. FScan p k pos \<in># fs_ops s \<longrightarrow> unscanned K (fs_ops s) (fs_zmd s) p k pos)"

text \<open>
  What the steps keep of the zones under collection: no zone joins them, only an unreferenced
  one leaves, and their live blocks only get fewer.
\<close>

definition gc_frame :: "kern \<Rightarrow> lbz_zone_metadata \<Rightarrow> lbz_zone_metadata \<Rightarrow> bool" where
  "gc_frame K zmd zmd' \<longleftrightarrow> zmd_zone_nr_blocks zmd' = zmd_zone_nr_blocks zmd \<and>
     (\<forall>p z'. zmd_zones zmd' p = Some z' \<longrightarrow> (\<exists>z. zmd_zones zmd p = Some z \<and> z_start_sector z' = z_start_sector z \<and>
        (zone_phase z' = PGc \<longrightarrow> zone_phase z = PGc))) \<and>
     (\<forall>p z. zmd_zones zmd p = Some z \<longrightarrow> zone_phase z = PGc \<longrightarrow> z_refcount z \<noteq> 0 \<longrightarrow> phase_at zmd' p PGc) \<and>
     (\<forall>a b. phase_at zmd' (get_zone_by_pbid K a) PGc \<longrightarrow> live_at K zmd' a b \<longrightarrow> live_at K zmd a b)"

lemma gc_frame_phase: "gc_frame K zmd zmd' \<Longrightarrow> phase_at zmd' p PGc \<Longrightarrow> phase_at zmd p PGc"
  unfolding gc_frame_def phase_at_def by blast

lemma gc_frame_src:
  assumes "gc_frame K (fs_zmd s) zmd'" and "ftl_inv K s" and "one_zone K s" and op: "op \<in># fs_ops s" "gc_src K op = Some q"
  shows "phase_at zmd' q PGc"
proof -
  from assms(3) op obtain z where z: "zmd_zones (fs_zmd s) q = Some z" "zone_phase z = PGc"
    unfolding one_zone_def phase_at_def by blast
  have "z_refcount z \<noteq> 0" using unreferenced_zone [OF assms(2) z(1) _ _ op(1)] gc_src_refs [OF op(2)] z(2) by auto
  then show ?thesis using assms(1) z unfolding gc_frame_def by blast
qed

lemma unscanned_frame:
  assumes u: "unscanned K ops zmd p k pos" and f: "gc_frame K zmd zmd'" and g: "phase_at zmd' p PGc"
    and c: "\<And>b. copies ops b = 0 \<Longrightarrow> copies ops' b = 0"
  shows "unscanned K ops' zmd' p k pos"
  unfolding unscanned_def
proof (intro conjI allI impI)
  fix z' a b assume z': "zmd_zones zmd' p = Some z'" and a: "get_zone_by_pbid K a = p" and l: "live_at K zmd' a b"
    and k: "k < unat (pbid_dis z' a)"
  from f z' obtain z where z: "zmd_zones zmd p = Some z" "z_start_sector z' = z_start_sector z"
    unfolding gc_frame_def by blast
  have "live_at K zmd a b" using f g l a unfolding gc_frame_def by blast
  then have "copies ops b = 0 \<and> b \<noteq> pos" using u z a k unfolding unscanned_def by (metis pbid_dis_def)
  then show "copies ops' b = 0" "b \<noteq> pos" using c by auto
next
  assume "pos \<noteq> LBZ_INVALID_PBID" "k < unat (zmd_zone_nr_blocks zmd')"
  then show "copies ops' pos = 0" using u f c unfolding unscanned_def gc_frame_def by metis
qed

text \<open>A step that starts no copy and no scan.\<close>

lemma one_zone_step:
  assumes one: "one_zone K s" and inv: "ftl_inv K s" and ops: "fs_ops s = R + gone" "fs_ops s' = R + new"
    and f: "gc_frame K (fs_zmd s) (fs_zmd s')" and z: "gc_zone (d_gc_ctx (fs_dev s')) = gc_zone (d_gc_ctx (fs_dev s))"
    and c: "\<And>b. copies new b \<le> copies gone b" and src: "\<And>op q. op \<in># new \<Longrightarrow> gc_src K op = Some q \<Longrightarrow> \<exists>op0\<in>#gone. gc_src K op0 = Some q"
    and sc: "\<And>op. op \<in># new \<Longrightarrow> \<not> is_scan op"
  shows "one_zone K s'"
proof -
  have le: "copies (fs_ops s') b \<le> copies (fs_ops s) b" for b using c [of b] by (simp add: ops)
  have g: "phase_at (fs_zmd s') q PGc" if op: "op \<in># fs_ops s'" "gc_src K op = Some q" for op q
  proof -
    obtain op0 where "op0 \<in># fs_ops s" "gc_src K op0 = Some q" using op src by (auto simp: ops)
    then show ?thesis by (rule gc_frame_src [OF f inv one])
  qed
  have u: "unscanned K (fs_ops s') (fs_zmd s') p k pos" if "FScan p k pos \<in># fs_ops s'" for p k pos
  proof -
    have "FScan p k pos \<in># fs_ops s" using that sc [of "FScan p k pos"] by (auto simp: ops)
    then have "unscanned K (fs_ops s) (fs_zmd s) p k pos" using one unfolding one_zone_def by blast
    moreover have "phase_at (fs_zmd s') p PGc" using g [OF that] by simp
    moreover have "copies (fs_ops s') b = 0" if "copies (fs_ops s) b = 0" for b using le [of b] that by simp
    ultimately show ?thesis by (rule unscanned_frame [OF _ f])
  qed
  have "scans new = 0" using sc by (simp add: scans_0)
  then have s1: "scans (fs_ops s') \<le> 1" using one by (simp add: one_zone_def ops)
  have z1: "gc_zone (d_gc_ctx (fs_dev s')) = Some p" if "phase_at (fs_zmd s') p PGc" for p
    using one gc_frame_phase [OF f that] z unfolding one_zone_def by simp
  have c1: "copies (fs_ops s') b \<le> 1" for b using le [of b] one unfolding one_zone_def by (meson le_trans)
  show ?thesis unfolding one_zone_def using g u s1 z1 c1 by blast
qed

section \<open>The frames of the steps\<close>

lemma gc_frame_refl: "gc_frame K zmd zmd"
  by (auto simp: gc_frame_def phase_at_def)

text \<open>Only counters and dead entries change.\<close>

lemma gc_frame_keep:
  assumes k: "zmd_keep dr dp zmd zmd'" and wf: "zmd_wf zmd" "zmd_wf zmd'"
    and l: "\<And>a b. phase_at zmd (get_zone_by_pbid K a) PGc \<Longrightarrow> live_at K zmd' a b \<Longrightarrow> live_at K zmd a b"
  shows "gc_frame K zmd zmd'"
  unfolding gc_frame_def
proof (intro conjI allI impI)
  show "zmd_zone_nr_blocks zmd' = zmd_zone_nr_blocks zmd" using k by (simp add: zmd_keep_def zmd_const_def)
  fix p z' assume z': "zmd_zones zmd' p = Some z'"
  then obtain z where z: "zmd_zones zmd p = Some z"
    using zmd_delta_zones [OF wf, of p] k by (auto simp: zmd_keep_def)
  with zmd_keepD [OF k z] z' show "\<exists>z. zmd_zones zmd p = Some z \<and> z_start_sector z' = z_start_sector z \<and>
      (zone_phase z' = PGc \<longrightarrow> zone_phase z = PGc)" by (auto simp: zone_keep_def)
qed (use zmd_keep_phase [OF k wf] l in \<open>auto simp: phase_at_def\<close>)

lemma gc_frame_quiet:
  assumes "zmd_wf zmd" "zmd_wf zmd'" "zmd_rget K zmd' = zmd_rget K zmd" "zmd_keep dr dp zmd zmd'"
  shows "gc_frame K zmd zmd'"
  by (rule gc_frame_keep [OF assms(4,1,2)]) (use assms(3) in \<open>simp add: live_at_def\<close>)

lemma gc_frame_trans:
  assumes "gc_frame K a b" "gc_frame K b c" "\<And>p. phase_at b p PGc \<longleftrightarrow> phase_at a p PGc"
    "\<And>p y z. zmd_zones a p = Some z \<Longrightarrow> zmd_zones b p = Some y \<Longrightarrow> z_refcount y = z_refcount z"
  shows "gc_frame K a c"
  unfolding gc_frame_def
proof (intro conjI allI impI)
  show "zmd_zone_nr_blocks c = zmd_zone_nr_blocks a" using assms(1,2) by (simp add: gc_frame_def)
next
  fix p z' assume "zmd_zones c p = Some z'"
  then obtain y where y: "zmd_zones b p = Some y" "z_start_sector z' = z_start_sector y" "zone_phase z' = PGc \<longrightarrow> zone_phase y = PGc"
    using assms(2) unfolding gc_frame_def by blast
  then obtain z where "zmd_zones a p = Some z" "z_start_sector y = z_start_sector z" "zone_phase y = PGc \<longrightarrow> zone_phase z = PGc"
    using assms(1) unfolding gc_frame_def by blast
  then show "\<exists>z. zmd_zones a p = Some z \<and> z_start_sector z' = z_start_sector z \<and> (zone_phase z' = PGc \<longrightarrow> zone_phase z = PGc)"
    using y by auto
next
  fix p z assume z: "zmd_zones a p = Some z" "zone_phase z = PGc" "z_refcount z \<noteq> 0"
  then obtain y where "zmd_zones b p = Some y" "zone_phase y = PGc" using assms(3) [of p] by (auto simp: phase_at_def)
  then show "phase_at c p PGc" using assms(2) assms(4) [OF z(1)] z(3) unfolding gc_frame_def by metis
next
  fix x y assume "phase_at c (get_zone_by_pbid K x) PGc" "live_at K c x y"
  then show "live_at K a x y" using assms(1,2) gc_frame_phase [OF assms(2)] unfolding gc_frame_def by blast
qed

lemma gc_frame_alloc:
  assumes wf: "zmd_wf zmd" and sid: "sid < LBZ_ZONE_MAX_STREAM"
    and al: "lbz_zone_alloc_res ss fy md sid zmd gc = Some (Inr p, zmd', gc')"
  shows "gc_frame K zmd zmd'"
proof -
  from alloc_res_step [OF wf sid al] obtain z z' where
    z: "zmd_const zmd zmd'" "zmd_zones zmd p = Some z" "zmd_zones zmd' p = Some z'" "z_start_sector z' = z_start_sector z"
      "z_wp_block z < zmd_zone_nr_blocks zmd"
      "zone_phase z' = (if z_wp_block z' = zmd_zone_nr_blocks zmd then PToFull else PActive)"
      "\<And>q. q \<noteq> p \<Longrightarrow> zmd_zones zmd' q = zmd_zones zmd q" by blast
  have "zone_phase z \<noteq> PGc" using zmd_wf_zone_ok [OF wf z(2)] z(5) by (auto simp: zone_ok_def)
  moreover have "zone_phase z' \<noteq> PGc" using z(6) by simp
  moreover have "live_at K zmd' a b \<longleftrightarrow> live_at K zmd a b" for a b
    using alloc_rget [OF wf sid al, of K] by (simp add: live_at_def)
  moreover have "zmd_zone_nr_blocks zmd' = zmd_zone_nr_blocks zmd" using z(1) by (simp add: zmd_const_def)
  ultimately show ?thesis unfolding gc_frame_def
    using z(2-4,7) by (auto simp: phase_at_def split: if_splits) (metis option.inject)+
qed

text \<open>A new entry of the reverse map is in a zone with a write in flight, which is not under collection.\<close>

lemma gc_frame_commit:
  assumes inv: "ftl_inv K s" and a: "fresh_append K s p a" and op: "op \<in># fs_ops s" "op_pend p op \<noteq> 0"
    and wf: "zmd_wf zmd'" and rg: "zmd_rget K zmd' = (drop_entry old (zmd_rget K (fs_zmd s)))(a \<mapsto> b)"
    and k: "zmd_keep dr dp (fs_zmd s) zmd'"
  shows "gc_frame K (fs_zmd s) zmd'"
proof (rule gc_frame_keep [OF k ftl_inv_facts(1) [OF inv] wf])
  fix x y assume ph: "phase_at (fs_zmd s) (get_zone_by_pbid K x) PGc" and l: "live_at K zmd' x y"
  have "x \<noteq> a" using ph fresh_append_ok(2) [OF inv a op] a by (auto simp: fresh_append_def)
  then show "live_at K (fs_zmd s) x y" using l by (auto simp: live_at_def rg drop_entry_def split: if_splits)
qed

lemma gc_frame_worker:
  assumes inv: "ftl_inv K s" and st: "step_rel K (fs_dev s) d'"
  shows "gc_frame K (fs_zmd s) (d_zone_metadata d')"
proof -
  have w: "zmd_worker (fs_zmd s) (d_zone_metadata d')" and wf: "zmd_wf (d_zone_metadata d')"
    and rg: "zmd_rget K (d_zone_metadata d') = zmd_rget K (fs_zmd s)"
    using st by (auto simp: step_rel_def table_ok_def)
  show ?thesis
    unfolding gc_frame_def
  proof (intro conjI allI impI)
    show "zmd_zone_nr_blocks (d_zone_metadata d') = zmd_zone_nr_blocks (fs_zmd s)"
      using w by (simp add: zmd_worker_def zmd_const_def)
  next
    fix p z' assume z': "zmd_zones (d_zone_metadata d') p = Some z'"
    then obtain z where z: "zmd_zones (fs_zmd s) p = Some z"
      using zmd_delta_zones [OF ftl_inv_facts(1) [OF inv] wf, of p] w by (auto simp: zmd_worker_def)
    then show "\<exists>z. zmd_zones (fs_zmd s) p = Some z \<and> z_start_sector z' = z_start_sector z \<and>
        (zone_phase z' = PGc \<longrightarrow> zone_phase z = PGc)"
      using zmd_workerD [OF w z] z' by (auto simp: worker_zone_def)
  next
    fix p z assume z: "zmd_zones (fs_zmd s) p = Some z" "zone_phase z = PGc" "z_refcount z \<noteq> 0"
    then show "phase_at (d_zone_metadata d') p PGc" using zmd_workerD [OF w z(1)] by (auto simp: phase_at_def worker_zone_def)
  qed (simp add: live_at_def rg)
qed

section \<open>The scan\<close>

lemma live_index_unique:
  assumes inv: "ftl_inv K s" and "live_at K (fs_zmd s) a b" "live_at K (fs_zmd s) c b"
  shows "a = c"
  using live_mapped(1) [OF inv assms(2)] live_mapped(1) [OF inv assms(3)] by simp

text \<open>The entry at an index that the scan reaches.\<close>

lemma scan_live:
  assumes inv: "ftl_inv K s" and z: "zmd_zones (fs_zmd s) p = Some z" and k: "k < unat (zmd_zone_nr_blocks (fs_zmd s))"
    and e: "zrms_get (z_zrms z) k = Some v" "v \<noteq> LBZ_INVALID_PBID"
  shows "live_at K (fs_zmd s) (zone_pbid z k) v"
  using scan_index(1,2) [OF inv z k] z e by (simp add: live_at_def zmd_rget_def)

lemma unscanned_next:
  assumes inv: "ftl_inv K s" and u: "unscanned K ops (fs_zmd s) p k pos" and z: "zmd_zones (fs_zmd s) p = Some z"
    and nx: "\<forall>v. zrms_get (z_zrms z) (k + 1) = Some v \<longrightarrow> pos' = v"
    and c: "\<And>b. copies ops b = 0 \<Longrightarrow> b \<noteq> pos \<Longrightarrow> copies ops' b = 0"
  shows "unscanned K ops' (fs_zmd s) p (k + 1) pos'"
proof -
  have new: "get_zone_by_pbid K (zone_pbid z (k + 1)) = p" "unat (pbid_dis z (zone_pbid z (k + 1))) = k + 1"
    "pos' \<noteq> LBZ_INVALID_PBID \<Longrightarrow> live_at K (fs_zmd s) (zone_pbid z (k + 1)) pos'"
    if k1: "k + 1 < unat (zmd_zone_nr_blocks (fs_zmd s))"
  proof -
    note si = scan_index [OF inv z k1]
    show "get_zone_by_pbid K (zone_pbid z (k + 1)) = p" "unat (pbid_dis z (zone_pbid z (k + 1))) = k + 1" by (rule si(1,2))+
    from si(3) nx have "zrms_get (z_zrms z) (k + 1) = Some pos'" by auto
    then show "live_at K (fs_zmd s) (zone_pbid z (k + 1)) pos'" if "pos' \<noteq> LBZ_INVALID_PBID" using scan_live [OF inv z k1 _ that] by simp
  qed
  have old: "copies ops b = 0 \<and> b \<noteq> pos" if "get_zone_by_pbid K a = p" "live_at K (fs_zmd s) a b" "k < unat (pbid_dis z a)" for a b
    using u z that unfolding unscanned_def by blast
  show ?thesis
    unfolding unscanned_def
  proof (intro conjI allI impI)
    fix y a b assume y: "zmd_zones (fs_zmd s) p = Some y" and a: "get_zone_by_pbid K a = p" and l: "live_at K (fs_zmd s) a b"
      and k: "k + 1 < unat (pbid_dis y a)"
    have yz: "y = z" using y z by simp
    show "copies ops' b = 0" using old [OF a l] c [of b] k yz by simp
    have "unat (pbid_dis z a) < unat (zmd_zone_nr_blocks (fs_zmd s))"
      using live_below(1) [OF ftl_inv_facts(1) [OF inv] l, of z] wp_le [OF inv z] z a by simp
    then have k1: "k + 1 < unat (zmd_zone_nr_blocks (fs_zmd s))" using k yz by simp
    show "b \<noteq> pos'"
    proof
      assume b: "b = pos'"
      then have "pos' \<noteq> LBZ_INVALID_PBID" using l by (auto simp: live_at_def)
      from new(3) [OF k1 this] l b have "a = zone_pbid z (k + 1)" using live_index_unique [OF inv] by blast
      then show False using new(2) [OF k1] k yz by simp
    qed
  next
    assume pos: "pos' \<noteq> LBZ_INVALID_PBID" and k1: "k + 1 < unat (zmd_zone_nr_blocks (fs_zmd s))"
    show "copies ops' pos' = 0" using old [OF new(1) [OF k1] new(3) [OF k1 pos]] new(2) [OF k1] c [of pos'] by simp
  qed
qed

lemma one_zone_scan:
  assumes one: "one_zone K s" and inv: "ftl_inv K s" and ops: "fs_ops s = R + {#FScan p k pos#}"
    and z: "zmd_zones (fs_zmd s) p = Some z" and k: "k < unat (z_wp_block z)"
    and nx: "\<forall>v. zrms_get (z_zrms z) (k + 1) = Some v \<longrightarrow> pos' = v"
    and ops': "fs_ops s' = R + N + {#FScan p (k + 1) pos'#}"
    and N: "N = {#} \<or> pos \<noteq> LBZ_INVALID_PBID \<and> N = {#FCopy pos (zone_pbid z k)#}"
    and f: "gc_frame K (fs_zmd s) (fs_zmd s')" and g: "gc_zone (d_gc_ctx (fs_dev s')) = gc_zone (d_gc_ctx (fs_dev s))"
  shows "one_zone K s'"
proof -
  have kn: "k < unat (zmd_zone_nr_blocks (fs_zmd s))" using k wp_le [OF inv z] by simp
  have u: "unscanned K (fs_ops s) (fs_zmd s) p k pos" using one ops unfolding one_zone_def by simp
  have ph: "phase_at (fs_zmd s') q PGc" if "op \<in># fs_ops s" "gc_src K op = Some q" for op q
    by (rule gc_frame_src [OF f inv one that])
  have php: "phase_at (fs_zmd s') p PGc" using ph [of "FScan p k pos" p] by (simp add: ops)
  have cpos: "copies (fs_ops s) pos = 0" if "pos \<noteq> LBZ_INVALID_PBID" using u that kn unfolding unscanned_def by blast
  have c: "copies (fs_ops s') b = copies (fs_ops s) b + copies N b" for b by (simp add: ops ops')
  have c1: "copies (fs_ops s') b \<le> 1" for b
    using N one cpos unfolding c one_zone_def by (cases "b = pos") auto
  have "copies (fs_ops s') b = 0" if "copies (fs_ops s) b = 0" "b \<noteq> pos" for b using that N by (auto simp: c)
  from unscanned_next [OF inv u z nx this] have "unscanned K (fs_ops s') (fs_zmd s) p (k + 1) pos'" by blast
  then have u': "unscanned K (fs_ops s') (fs_zmd s') p (k + 1) pos'" by (rule unscanned_frame [OF _ f php])
  have sR: "scans R = 0" "scans N = 0" using one N by (auto simp: one_zone_def ops)
  have src: "phase_at (fs_zmd s') q PGc" if "op \<in># fs_ops s'" "gc_src K op = Some q" for op q
    using that ph [of op q] php N scan_index(1) [OF inv z kn] by (auto simp: ops ops')
  have only: "q = p \<and> i = k + 1 \<and> v = pos'" if "FScan q i v \<in># fs_ops s'" for q i v
    using that sR by (auto simp: ops' scans_0)
  have z1: "gc_zone (d_gc_ctx (fs_dev s')) = Some q" if "phase_at (fs_zmd s') q PGc" for q
    using one gc_frame_phase [OF f that] g unfolding one_zone_def by simp
  show ?thesis
    unfolding one_zone_def
  proof (intro conjI allI impI)
    show "scans (fs_ops s') \<le> 1" using sR by (simp add: ops')
    show "unscanned K (fs_ops s') (fs_zmd s') q i v" if "FScan q i v \<in># fs_ops s'" for q i v using only [OF that] u' by simp
  qed (use z1 src c1 in blast)+
qed

section \<open>A new victim\<close>

lemma one_zone_victim:
  assumes one: "one_zone K s" and inv: "ftl_inv K s" and inv': "ftl_inv K s'"
    and idle: "gc_idle (d_gc_ctx (fs_dev s)) (fs_zmd s)"
    and v: "lbz_find_victim_zone md (fs_zmd s) = Some (Some p, fs_zmd s')"
    and z': "zmd_zones (fs_zmd s') p = Some z'" and pos: "zrms_get (z_zrms z') 0 = Some pos"
    and ops': "fs_ops s' = fs_ops s + {#FScan p 0 pos#}" and g: "gc_zone (d_gc_ctx (fs_dev s')) = Some p"
  shows "one_zone K s'"
proof -
  have none: "\<not> phase_at (fs_zmd s) q PGc" for q
  proof
    assume q: "phase_at (fs_zmd s) q PGc"
    then have "gc_zone (d_gc_ctx (fs_dev s)) = Some q" using one unfolding one_zone_def by blast
    then show False using idle q unfolding gc_idle_def phase_at_def by (auto simp: zone_phase_def split: if_splits)
  qed
  have src: "gc_src K op = None" if "op \<in># fs_ops s" for op
    using one none that unfolding one_zone_def by (cases "gc_src K op") auto
  have "gc_blk op = None \<and> \<not> is_scan op" if "gc_src K op = None" for op using that by (cases op) auto
  then have quiet: "copies (fs_ops s) b = 0" "scans (fs_ops s) = 0" for b using src by (auto simp: copies_0 scans_0)
  have nrb: "unat (zmd_zone_nr_blocks (fs_zmd s)) < 2 ^ 31 - 1" using inv by (simp add: ftl_inv_def geometry_def)
  from find_victim_ok [OF ftl_inv_facts(1) [OF inv] nrb, of md] v obtain z where
    zs: "zmd_zones (fs_zmd s') = (zmd_zones (fs_zmd s))(p \<mapsto> lbz_set_zone_state LBZ_ZONE_GC (lbz_get_zone z))" by auto
  have php: "phase_at (fs_zmd s') p PGc" using zs by (simp add: phase_at_def zone_phase_def bit_flags)
  have only: "q = p" if "phase_at (fs_zmd s') q PGc" for q using that none [of q] zs by (auto simp: phase_at_def split: if_splits)
  have u: "unscanned K (fs_ops s') (fs_zmd s') p 0 pos"
    unfolding unscanned_def
  proof (intro conjI allI impI)
    fix y a b assume y: "zmd_zones (fs_zmd s') p = Some y" and a: "get_zone_by_pbid K a = p" and l: "live_at K (fs_zmd s') a b"
      and k: "0 < unat (pbid_dis y a)"
    have nr: "0 < unat (zmd_zone_nr_blocks (fs_zmd s'))"
      using ftl_inv_facts(1) [OF inv'] by (simp add: zmd_wf_def wf_zones_def unat_gt_0)
    show "b \<noteq> pos"
    proof
      assume b: "b = pos"
      then have "pos \<noteq> LBZ_INVALID_PBID" using l by (auto simp: live_at_def)
      from scan_live [OF inv' z' nr pos this] l b have "a = zone_pbid z' 0" using live_index_unique [OF inv'] by blast
      then show False using scan_index(2) [OF inv' z' nr] k y z' by simp
    qed
  qed (simp_all add: ops' quiet)
  show ?thesis
    unfolding one_zone_def
  proof (intro conjI allI impI)
    show "gc_zone (d_gc_ctx (fs_dev s')) = Some q" if "phase_at (fs_zmd s') q PGc" for q using only [OF that] g by simp
    show "phase_at (fs_zmd s') q PGc" if "op \<in># fs_ops s'" "gc_src K op = Some q" for op q
      using that src [of op] php by (auto simp: ops')
    show "unscanned K (fs_ops s') (fs_zmd s') q i v" if "FScan q i v \<in># fs_ops s'" for q i v
    proof -
      have "FScan q i v \<notin># fs_ops s" using quiet(2) by (auto simp: scans_0)
      then show ?thesis using that u by (simp add: ops')
    qed
  qed (simp_all add: ops' quiet)
qed

section \<open>Every step\<close>

lemma one_zone_ftl_step:
  assumes st: "ftl_step ss K s e s'" and inv: "ftl_inv K s" and one: "one_zone K s"
  shows "one_zone K s'"
  using st
proof (cases rule: ftl_step.cases)
  case (write_start b sid md p zmd' gc' v)
  show ?thesis
    by (rule one_zone_step [OF one inv, of "fs_ops s" "{#}" _ "{#FWrite p b v#}"])
      (use write_start gc_frame_alloc [OF ftl_inv_facts(1) [OF inv] write_start(6,7)] alloc_gc_zone [OF write_start(7)] in simp_all)
next
  case (write_done R p b v a m' zmd')
  from ftl_inv_op [OF inv, of "FWrite p b v"] write_done(3) obtain old where old: "map_get K (fs_map s) b = Some old"
    by (auto simp: op_ok_def)
  have ap: "append_ok K (fs_zmd s) p a" by (rule fresh_append_ok [OF inv write_done(4), of "FWrite p b v"]) (simp_all add: write_done(3))
  from ftl_write_done_ok [OF ftl_inv_facts(4) [OF inv] ap old] write_done(5) have
    w: "zmd_wf zmd'" "zmd_rget K zmd' = (drop_entry old (zmd_rget K (fs_zmd s)))(a \<mapsto> b)"
      "zmd_keep (\<lambda>i. - one p i) (\<lambda>i. - one p i) (fs_zmd s) zmd'" by (auto simp: maps_ok_def)
  have "gc_frame K (fs_zmd s) zmd'"
    by (rule gc_frame_commit [OF inv write_done(4) _ _ w, of "FWrite p b v"]) (simp_all add: write_done(3))
  then show ?thesis
    by (intro one_zone_step [OF one inv write_done(3), of _ "{#}"]) (use write_done(2) in simp_all)
next
  case (read_start b p a zmd')
  note g = get_zone_ok [OF ftl_inv_facts(1) [OF inv] lookup_found(4) [OF read_start(4)]]
  show ?thesis
    by (rule one_zone_step [OF one inv, of "fs_ops s" "{#}" _ "{#FRead p a (fs_media s a)#}"])
      (use read_start(2) gc_frame_quiet [OF ftl_inv_facts(1) [OF inv] g] in simp_all)
next
  case (read_done R p a v zmd')
  note g = put_zone_facts [OF ftl_inv_facts(1) [OF inv] read_done(4)]
  show ?thesis
    by (rule one_zone_step [OF one inv read_done(3), of _ "{#}"])
      (use read_done(2) gc_frame_quiet [OF ftl_inv_facts(1) [OF inv] g] in simp_all)
next
  case (victim md p zmd' z pos)
  show ?thesis
    by (rule one_zone_victim [OF one inv ftl_step_inv [OF st inv] victim(4), of md p z pos]) (use victim in simp_all)
next
  case (scan_entry R p k pos z zmd' pos')
  note g = get_zone_ok [OF ftl_inv_facts(1) [OF inv] scan_entry(8)]
  show ?thesis
    by (rule one_zone_scan [OF one inv scan_entry(4,5,6,9), of _ "{#FCopy pos (zone_pbid z k)#}"])
      (use scan_entry(2,7) gc_frame_quiet [OF ftl_inv_facts(1) [OF inv] g] in simp_all)
next
  case (scan_skip R p k z pos')
  show ?thesis
    by (rule one_zone_scan [OF one inv scan_skip(3-6), of _ "{#}"]) (use scan_skip(2) gc_frame_refl in simp_all)
next
  case (scan_end R p k pos z zmd')
  note g = scan_end_ok [OF ftl_inv_facts(1) [OF inv] scan_end(6)]
  show ?thesis
    by (rule one_zone_step [OF one inv scan_end(3), of _ "{#}"])
      (use scan_end(2) gc_frame_quiet [OF ftl_inv_facts(1) [OF inv] g] in simp_all)
next
  case (copy_read R b old)
  show ?thesis
    by (rule one_zone_step [OF one inv copy_read(3), of _ "{#FHold b old (fs_media s old)#}"])
      (use copy_read(2) gc_frame_refl in simp_all)
next
  case (move_skip R b old v zmd1 zmd2)
  have g: "zmd_wf zmd1" "zmd_rget K zmd1 = zmd_rget K (fs_zmd s)" "zmd_keep (\<lambda>i. 0) (\<lambda>i. 0) (fs_zmd s) zmd1"
    using gc_check_ok [OF inv move_skip(5)] by simp_all
  note pt = put_zone_facts [OF g(1) move_skip(6)]
  have "gc_frame K (fs_zmd s) zmd2"
    by (rule gc_frame_quiet [OF ftl_inv_facts(1) [OF inv] pt(1) _ zmd_keep_trans [OF g(3) pt(3)]]) (simp add: g(2) pt(2))
  then show ?thesis by (intro one_zone_step [OF one inv move_skip(3), of _ "{#}"]) (use move_skip(2) in simp_all)
next
  case (move_agency R b old v zmd')
  note g = put_zone_facts [OF ftl_inv_facts(1) [OF inv] move_agency(5)]
  show ?thesis
    by (rule one_zone_step [OF one inv move_agency(3), of _ "{#}"])
      (use move_agency(2) gc_frame_quiet [OF ftl_inv_facts(1) [OF inv] g] in simp_all)
next
  case (move_start R b old v sid zmd1 p zmd2 gc')
  have g: "zmd_wf zmd1" "zmd_rget K zmd1 = zmd_rget K (fs_zmd s)" "zmd_keep (\<lambda>i. 0) (\<lambda>i. 0) (fs_zmd s) zmd1"
    using gc_check_ok [OF inv move_start(6)] by simp_all
  have "gc_frame K (fs_zmd s) zmd2"
  proof (rule gc_frame_trans [OF gc_frame_quiet [OF ftl_inv_facts(1) [OF inv] g] gc_frame_alloc [OF g(1) move_start(5,7)]])
    show "phase_at zmd1 q PGc \<longleftrightarrow> phase_at (fs_zmd s) q PGc" for q by (rule zmd_keep_phase [OF g(3) ftl_inv_facts(1) [OF inv] g(1)])
    show "z_refcount y = z_refcount z" if "zmd_zones (fs_zmd s) q = Some z" "zmd_zones zmd1 q = Some y" for q y z
      using zmd_keepD [OF g(3) that(1)] that(2) by (auto simp: zone_keep_def)
  qed
  then show ?thesis
    by (intro one_zone_step [OF one inv move_start(3), of _ "{#FMove p b old v#}"])
      (use move_start(2) alloc_gc_zone [OF move_start(7)] in simp_all)
next
  case (move_done R p b old v a m' zmd')
  from ftl_inv_op [OF inv, of "FMove p b old v"] move_done(3) have old: "map_get K (fs_map s) b = Some old" "old \<noteq> LBZ_INVALID_PBID"
    by (auto simp: op_ok_def)
  have ap: "append_ok K (fs_zmd s) p a" by (rule fresh_append_ok [OF inv move_done(4), of "FMove p b old v"]) (simp_all add: move_done(3))
  from ftl_gc_done_ok [OF ftl_inv_facts(4) [OF inv] ap old] move_done(5) have
    w: "zmd_wf zmd'" "zmd_rget K zmd' = (drop_entry old (zmd_rget K (fs_zmd s)))(a \<mapsto> b)"
      "zmd_keep (\<lambda>i. - one p i - one (get_zone_by_pbid K old) i) (\<lambda>i. - one p i) (fs_zmd s) zmd'" by (auto simp: maps_ok_def)
  have "gc_frame K (fs_zmd s) zmd'"
    by (rule gc_frame_commit [OF inv move_done(4) _ _ w, of "FMove p b old v"]) (simp_all add: move_done(3))
  then show ?thesis
    by (intro one_zone_step [OF one inv move_done(3), of _ "{#}"]) (use move_done(2) in simp_all)
next
  case (discard b n m' zmd' n')
  from discard(3) obtain old where old: "map_get K (fs_map s) b = Some old" by blast
  from free_blkid_keep [OF ftl_inv_facts(4) [OF inv] old, of n] discard(5) have
    r: "zmd_wf zmd'" "zmd_rget K zmd' = drop_entry old (zmd_rget K (fs_zmd s))" "zmd_keep (\<lambda>i. 0) (\<lambda>i. 0) (fs_zmd s) zmd'"
    by (auto simp: maps_ok_def)
  have "gc_frame K (fs_zmd s) zmd'"
    by (rule gc_frame_keep [OF r(3) ftl_inv_facts(1) [OF inv] r(1)])
      (auto simp: live_at_def r(2) drop_entry_def split: if_splits)
  then show ?thesis by (intro one_zone_step [OF one inv, of "fs_ops s" "{#}" _ "{#}"]) (use discard(2) in simp_all)
next
  case (worker reset_err d')
  have "table_ok (fs_zmd s)" using ftl_inv_facts(1) [OF inv] ftl_inv_settled [OF inv] by (simp add: table_ok_def)
  from zone_state_wk_ok [OF this, of reset_err K] worker(3) have st: "step_rel K (fs_dev s) d'" by auto
  then have "gc_zone (d_gc_ctx d') = gc_zone (d_gc_ctx (fs_dev s))" by (simp add: step_rel_def)
  then show ?thesis
    using gc_frame_worker [OF inv st] by (intro one_zone_step [OF one inv, of "fs_ops s" "{#}" _ "{#}"]) (use worker(2) in simp_all)
qed

interpretation ftl_collect: simulation "ftl_step ss K" store_step "\<lambda>s. ftl_inv K s \<and> one_zone K s" "abs_state K" for ss K
  by unfold_locales (auto intro: ftl_step_inv ftl_step_sim one_zone_ftl_step)

lemma device_fresh_one_zone:
  assumes "device_fresh K d"
  shows "one_zone K (ftl_init d)"
proof -
  have "\<not> phase_at (d_zone_metadata d) p PGc" for p
    using assms by (auto simp: device_fresh_def phase_at_def fresh_zone_def)
  then show ?thesis by (simp add: one_zone_def ftl_init_def)
qed

text \<open>
  C14. One zone at a time: in every state that a run reaches after the creation of the device, at
  most one zone is under collection and it is the collector's \<open>gc_zone\<close>, at most one scan is
  running, every copy in flight reads from that zone, and no block is copied twice at a time. So
  the lock that a copy waits for is never held by another copy, but by a user's write.
\<close>

theorem collector_one_zone:
  assumes "device_fresh K d" and "geometry K (d_zone_metadata d)" and "run (ftl_step ss K) (ftl_init d) es t"
  shows "(\<forall>p. phase_at (fs_zmd t) p PGc \<longrightarrow> gc_zone (d_gc_ctx (fs_dev t)) = Some p) \<and>
    scans (fs_ops t) \<le> 1 \<and> (\<forall>b. copies (fs_ops t) b \<le> 1) \<and>
    (\<forall>op\<in>#fs_ops t. \<forall>q. gc_src K op = Some q \<longrightarrow> gc_zone (d_gc_ctx (fs_dev t)) = Some q) \<and>
    (\<forall>R b old v op. fs_ops t = R + {#FHold b old v#} \<longrightarrow> op \<in># R \<longrightarrow> op_lock op = Some b \<longrightarrow> (\<exists>p w. op = FWrite p b w))"
proof -
  have one: "one_zone K t"
    using ftl_collect.inv_run [OF assms(3)] device_fresh_inv [OF assms(1,2)] device_fresh_one_zone [OF assms(1)] by blast
  have "\<exists>p w. op = FWrite p b w" if ops: "fs_ops t = R + {#FHold b old v#}" "op \<in># R" and l: "op_lock op = Some b" for R b old v op
  proof -
    have "copies (fs_ops t) b \<le> 1" using one unfolding one_zone_def by blast
    then have "copies R b = 0" using ops(1) by simp
    then have "gc_blk op \<noteq> Some b" using ops(2) by (simp add: copies_0)
    then show ?thesis using l by (cases op) auto
  qed
  then show ?thesis using one unfolding one_zone_def by blast
qed

end
