(* ===== verification/Gc_Thread.thy ===== *)
theory Gc_Thread
  imports Gc
begin

text \<open>
  The thread of the collector (\<open>lbz_gc_thread\<close> of \<^verbatim>\<open>lbz-gc.c\<close>) between two sleeps: passes follow each
  other until one of them finds nothing to do. The theory shows that the thread gets to sleep, that
  it takes at most one zone before it sleeps, and which reads it has then started.
\<close>

section \<open>What a pass starts\<close>

text \<open>The copy of one block, from its submission by the scan to its read on the device.\<close>

definition copy_task :: "zptr \<Rightarrow> u32 \<Rightarrow> u32 \<Rightarrow> nat \<Rightarrow> lbz_io_task" where
  "copy_task p pbid b t = (task_init LBZ_TASK_GC)\<lparr>t_pbid := pbid, t_link := LinkZone p, t_zone := Some p,
     t_blkid := b, t_page := Some (t + 2), t_status := LBZ_TASK_GC_READING, t_gc := GcIosched, t_bio := Some (t + 1)\<rparr>"

definition copy_bio :: "u32 \<Rightarrow> nat \<Rightarrow> bio" where
  "copy_bio pbid t = \<lparr>bi_write = False, bi_flush = False, bi_has_data = True, bi_sector = blkid_to_sector pbid,
     bi_sectors = 8, bi_status = None, bi_end_io = GcReadEndio t, bi_append = False, bi_phys = True, bi_pages = [t + 2]\<rparr>"

definition copy_read :: "zptr \<Rightarrow> u32 \<Rightarrow> u32 \<Rightarrow> lbz_sys \<Rightarrow> lbz_sys" where
  "copy_read p pbid b s = (let t = sy_next s in
     s\<lparr>sy_dev := (sy_dev s)\<lparr>d_gc_read_blocks := d_gc_read_blocks (sy_dev s) + 1\<rparr>,
       sy_tasks := (sy_tasks s)(t \<mapsto> copy_task p pbid b t), sy_bios := (sy_bios s)(t + 1 \<mapsto> copy_bio pbid t),
       sy_pages := (sy_pages s)(t + 2 \<mapsto> 0), sy_inflight := sy_inflight s @ [t + 1], sy_next := t + 3\<rparr>)"

lemma submit_gc_reads: "lbz_submit_gc_to_iosched E p pbid b s = Some (copy_read p pbid b s)"
  by (simp add: lbz_submit_gc_to_iosched_def submit_gc_task_def task_alloc_def upd_task_def init_gc_read_block_def
      submit_bio_def upd_dev_def copy_read_def copy_task_def copy_bio_def task_init_def Let_def)

text \<open>The scan takes a reference on the zone for each copy and counts it.\<close>

definition start_copy :: "zptr \<Rightarrow> u32 \<Rightarrow> u32 \<Rightarrow> lbz_sys \<Rightarrow> lbz_sys" where
  "start_copy p pbid b s = copy_read p pbid b (upd_dev (\<lambda>d. lbz_inc_gc_inflight (d\<lparr>d_zone_metadata :=
     (d_zone_metadata d)\<lparr>zmd_zones := (zmd_zones (d_zone_metadata d))
       (p := map_option lbz_get_zone (zmd_zones (d_zone_metadata d) p))\<rparr>\<rparr>)) s)"

lemma start_copy_fields [simp]:
  "sy_next (start_copy p a b s) = sy_next s + 3"
  "sy_inflight (start_copy p a b s) = sy_inflight s @ [sy_next s + 1]"
  "sy_tasks (start_copy p a b s) = (sy_tasks s)(sy_next s \<mapsto> copy_task p a b (sy_next s))"
  "sy_bios (start_copy p a b s) = (sy_bios s)(sy_next s + 1 \<mapsto> copy_bio a (sy_next s))"
  "sy_dev (start_copy p a b s) = (sy_dev s)\<lparr>d_gc_read_blocks := d_gc_read_blocks (sy_dev s) + 1,
     d_gc_inflight_io_cnt := d_gc_inflight_io_cnt (sy_dev s) + 1, d_zone_metadata := (d_zone_metadata (sy_dev s))
       \<lparr>zmd_zones := (zmd_zones (d_zone_metadata (sy_dev s)))
          (p := map_option lbz_get_zone (zmd_zones (d_zone_metadata (sy_dev s)) p))\<rparr>\<rparr>"
  by (simp_all add: start_copy_def copy_read_def Let_def upd_dev_def lbz_inc_gc_inflight_def)

text \<open>The entries of a reverse map that are in use, from \<open>n\<close> to the write pointer \<open>m\<close>.\<close>

definition live_entries :: "u32 list list \<Rightarrow> nat \<Rightarrow> nat \<Rightarrow> (nat \<times> u32) list" where
  "live_entries zr n m = map (\<lambda>i. (i, the (zrms_get zr i))) (filter (\<lambda>i. zrms_get zr i \<noteq> Some LBZ_INVALID_PBID) [n..<m])"

definition start_copies :: "zptr \<Rightarrow> u32 \<Rightarrow> (nat \<times> u32) list \<Rightarrow> lbz_sys \<Rightarrow> lbz_sys" where
  "start_copies p base es = fold (\<lambda>(i, b). start_copy p (base + of_nat i) b) es"

lemma live_entries_step:
  "n < m \<Longrightarrow> zrms_get zr n = Some b \<Longrightarrow>
     live_entries zr n m = (if b = LBZ_INVALID_PBID then [] else [(n, b)]) @ live_entries zr (Suc n) m"
  by (simp add: live_entries_def upt_conv_Cons)

lemma live_entries_end: "m \<le> n \<Longrightarrow> live_entries zr n m = []"
  by (simp add: live_entries_def)

lemma gc_scan_starts:
  assumes z: "zmd_zones (d_zone_metadata (sy_dev s)) p = Some z"
    and zr: "\<forall>k \<le> unat (z_wp_block z). zrms_get (z_zrms z) k \<noteq> None"
    and n: "n \<le> unat (z_wp_block z)" "zrms_get (z_zrms z) n = Some pos" "pbid = base + of_nat n"
  shows "gc_scan E p n pos pbid s = Some (start_copies p base (live_entries (z_zrms z) n (unat (z_wp_block z))) s)"
  using assms
proof (induction "unat (z_wp_block z) - n" arbitrary: n pos pbid s z)
  case 0
  then show ?case by (subst gc_scan.simps) (simp add: live_entries_end start_copies_def)
next
  case (Suc d)
  then have lt: "n < unat (z_wp_block z)" by simp
  let ?s = "if pos = LBZ_INVALID_PBID then s else start_copy p pbid pos s"
  have step: "(if pos = LBZ_INVALID_PBID then Some s
      else do {
        s \<leftarrow> upd_zmd (upd_zone p lbz_get_zone) s;
        lbz_submit_gc_to_iosched E p pbid pos (upd_dev lbz_inc_gc_inflight s)
      }) = Some ?s"
    using Suc.prems(1) by (simp add: upd_zmd_def upd_zone_def submit_gc_reads start_copy_def upd_dev_def)
  obtain pos' where pos': "zrms_get (z_zrms z) (n + 1) = Some pos'" using Suc.prems(2) lt by fastforce
  obtain z' where z': "zmd_zones (d_zone_metadata (sy_dev ?s)) p = Some z'" "z_wp_block z' = z_wp_block z" "z_zrms z' = z_zrms z"
    using Suc.prems(1) by (cases "pos = LBZ_INVALID_PBID") (auto simp: lbz_get_zone_def)
  have "gc_scan E p (n + 1) pos' (pbid + 1) ?s =
      Some (start_copies p base (live_entries (z_zrms z') (n + 1) (unat (z_wp_block z'))) ?s)"
    using Suc.hyps(2) Suc.prems z' pos' lt by (intro Suc.hyps(1)) auto
  then have "gc_scan E p n pos pbid s =
      Some (start_copies p base (live_entries (z_zrms z) (n + 1) (unat (z_wp_block z))) ?s)"
    using Suc.prems(1) lt z' pos' by (subst gc_scan.simps) (simp add: step)
  then show ?case
    using live_entries_step [OF lt Suc.prems(4)] Suc.prems(5) by (simp add: start_copies_def)
qed

text \<open>The reads of a scan: task, bio and page of the \<open>j\<close>-th copy have the next unused addresses.\<close>

definition copy_at :: "zptr \<Rightarrow> u32 \<Rightarrow> nat \<Rightarrow> (nat \<times> u32) list \<Rightarrow> lbz_sys \<Rightarrow> nat \<Rightarrow> bool" where
  "copy_at p base t0 es s j \<longleftrightarrow> (let t = t0 + 3 * j; pbid = base + of_nat (fst (es ! j)) in
     sy_tasks s t = Some (copy_task p pbid (snd (es ! j)) t) \<and> sy_bios s (t + 1) = Some (copy_bio pbid t))"

definition copies_started :: "zptr \<Rightarrow> u32 \<Rightarrow> (nat \<times> u32) list \<Rightarrow> lbz_sys \<Rightarrow> lbz_sys \<Rightarrow> bool" where
  "copies_started p base es s s' \<longleftrightarrow>
     sy_next s' = sy_next s + 3 * length es \<and>
     sy_inflight s' = sy_inflight s @ map (\<lambda>j. sy_next s + 3 * j + 1) [0..<length es] \<and>
     (\<forall>j < length es. copy_at p base (sy_next s) es s' j) \<and>
     (\<forall>q < sy_next s. sy_tasks s' q = sy_tasks s q \<and> sy_bios s' q = sy_bios s q) \<and>
     d_gc_inflight_io_cnt (sy_dev s') = d_gc_inflight_io_cnt (sy_dev s) + of_nat (length es)"

lemma copies_started_all: "copies_started p base es s (start_copies p base es s)"
proof (induction es rule: rev_induct)
  case (snoc e es)
  obtain i b where e: "e = (i, b)" by (cases e)
  let ?r = "start_copies p base es s"
  have r: "start_copies p base (es @ [(i, b)]) s = start_copy p (base + of_nat i) b ?r" by (simp add: start_copies_def)
  have "copy_at p base (sy_next s) (es @ [e]) (start_copies p base (es @ [e]) s) j" if "j < Suc (length es)" for j
  proof (cases "j = length es")
    case True
    then show ?thesis using snoc by (simp add: r e copy_at_def copies_started_def Let_def)
  next
    case False
    then have "copy_at p base (sy_next s) es ?r j" using snoc that by (simp add: copies_started_def)
    then show ?thesis
      using snoc that False by (simp add: r e copy_at_def copies_started_def Let_def nth_append)
  qed
  then show ?case
    using snoc unfolding copies_started_def e by (simp add: r)
qed (simp add: copies_started_def start_copies_def)

lemma start_copies_dev:
  assumes "zmd_zones (d_zone_metadata (sy_dev s)) p = Some z"
  shows "sy_dev (start_copies p base es s) = (sy_dev s)\<lparr>d_gc_read_blocks := d_gc_read_blocks (sy_dev s) + of_nat (length es),
     d_gc_inflight_io_cnt := d_gc_inflight_io_cnt (sy_dev s) + of_nat (length es),
     d_zone_metadata := (d_zone_metadata (sy_dev s))\<lparr>zmd_zones := (zmd_zones (d_zone_metadata (sy_dev s)))
       (p \<mapsto> z\<lparr>z_refcount := z_refcount z + of_nat (length es)\<rparr>)\<rparr>\<rparr>"
proof (induction es rule: rev_induct)
  case Nil
  have "(zmd_zones (d_zone_metadata (sy_dev s)))(p \<mapsto> z) = zmd_zones (d_zone_metadata (sy_dev s))"
    using assms by (simp add: fun_upd_idem)
  then show ?case by (simp add: start_copies_def)
next
  case (snoc e es)
  obtain i b where e: "e = (i, b)" by (cases e)
  have "start_copies p base (es @ [e]) s = start_copy p (base + of_nat i) b (start_copies p base es s)"
    by (simp add: start_copies_def e)
  with snoc show ?case by (simp add: lbz_get_zone_def fun_upd_def add_ac cong: if_cong)
qed

section \<open>The scan of a whole zone\<close>

text \<open>The zone after its scan: one reference per copy instead of the one of the victim choice.\<close>

definition scanned_zone :: "nat \<Rightarrow> lbz_zone \<Rightarrow> lbz_zone" where
  "scanned_zone n z = lbz_put_zone (lbz_set_zone_state LBZ_ZONE_GC_COMPLETED (z\<lparr>z_refcount := z_refcount z + of_nat n\<rparr>))"

definition gc_collected :: "zptr \<Rightarrow> lbz_zone \<Rightarrow> lbz_sys \<Rightarrow> lbz_sys \<Rightarrow> bool" where
  "gc_collected p z s s' \<longleftrightarrow>
     (let es = live_entries (z_zrms z) 0 (unat (z_wp_block z)) in
      copies_started p (sector_to_blkid (ucast (z_start_sector z))) es s s' \<and>
      d_zone_metadata (sy_dev s') = (d_zone_metadata (sy_dev s))
        \<lparr>zmd_zones := (zmd_zones (d_zone_metadata (sy_dev s)))(p \<mapsto> scanned_zone (length es) z)\<rparr> \<and>
      d_mapping (sy_dev s') = d_mapping (sy_dev s) \<and> d_flags (sy_dev s') = d_flags (sy_dev s) \<and>
      d_gc_ctx (sy_dev s') = d_gc_ctx (sy_dev s))"

lemma gc_one_zone_collects:
  assumes z: "zmd_zones (d_zone_metadata (sy_dev s)) p = Some z"
    and zr: "\<forall>k \<le> unat (z_wp_block z). zrms_get (z_zrms z) k \<noteq> None"
  shows "\<exists>s'. gc_one_zone E p s = Some s' \<and> gc_collected p z s s'"
proof -
  let ?es = "live_entries (z_zrms z) 0 (unat (z_wp_block z))" and ?base = "sector_to_blkid (ucast (z_start_sector z))"
  obtain pos where pos: "zrms_get (z_zrms z) 0 = Some pos" using zr by auto
  let ?s = "start_copies p ?base ?es s"
  have scan: "gc_scan E p 0 pos ?base s = Some ?s"
    by (rule gc_scan_starts [OF z zr _ pos]) auto
  obtain s' where s': "gc_one_zone E p s = Some s'" "s' = ?s\<lparr>sy_dev := sy_dev s'\<rparr>"
    "d_zone_metadata (sy_dev s') = (d_zone_metadata (sy_dev s))
       \<lparr>zmd_zones := (zmd_zones (d_zone_metadata (sy_dev s)))(p \<mapsto> scanned_zone (length ?es) z)\<rparr>"
    "d_mapping (sy_dev s') = d_mapping (sy_dev s)" "d_flags (sy_dev s') = d_flags (sy_dev s)"
    "d_gc_ctx (sy_dev s') = d_gc_ctx (sy_dev s)"
    "d_gc_inflight_io_cnt (sy_dev s') = d_gc_inflight_io_cnt (sy_dev ?s)"
    using z pos scan start_copies_dev [OF z, of ?base ?es]
    by (simp add: gc_one_zone_def upd_zmd_def put_zone_def upd_zone_def upd_dev_def scanned_zone_def)
  have "copies_started p ?base ?es s s'"
    using copies_started_all [of p ?base ?es s] s'(7) by (subst s'(2)) (simp add: copies_started_def copy_at_def Let_def)
  then show ?thesis using s' by (auto simp: gc_collected_def Let_def)
qed

section \<open>Passes until the thread sleeps\<close>

lemma victim_scan_member:
  "victim_scan zones ps m n = Some (r, v) \<Longrightarrow> r = m \<or> (\<exists>p \<in> set ps. r = Some p)"
  by (induction ps arbitrary: m n) (auto split: option.splits if_splits)

lemma find_victim_effect:
  assumes "lbz_find_victim_zone md zmd = Some (Some p, zmd')"
  shows "p \<in> set (zmd_full_zone_list zmd) \<and> zmd_full_zone_list zmd' = remove1 p (zmd_full_zone_list zmd) \<and>
    (\<exists>z. zmd_zones zmd p = Some z \<and>
       zmd_zones zmd' = (zmd_zones zmd)(p \<mapsto> lbz_set_zone_state LBZ_ZONE_GC (lbz_get_zone z)))"
  using assms
  by (auto simp: lbz_find_victim_zone_def bind_eq_Some_conv upd_zone_def split: if_split_asm option.split_asm
      dest!: victim_scan_member)

text \<open>The list of full zones, whose length bounds the passes.\<close>

abbreviation full_zones :: "lbz_sys \<Rightarrow> zptr list" where
  "full_zones s \<equiv> zmd_full_zone_list (d_zone_metadata (sy_dev s))"

lemma scan_keeps_full: "gc_scan E p n pos pbid s = Some s' \<Longrightarrow> full_zones s' = full_zones s"
proof (induction E p n pos pbid s arbitrary: s' rule: gc_scan.induct)
  case (1 E p n pos pbid s)
  obtain z where z: "zmd_zones (d_zone_metadata (sy_dev s)) p = Some z" using "1.prems" by (subst (asm) gc_scan.simps) (auto split: option.split_asm)
  show ?case
  proof (cases "n < unat (z_wp_block z)")
    case False
    with "1.prems" z show ?thesis by (subst (asm) gc_scan.simps) simp
  next
    case True
    let ?step = "if pos = LBZ_INVALID_PBID then Some s
        else do {
          s \<leftarrow> upd_zmd (upd_zone p lbz_get_zone) s;
          lbz_submit_gc_to_iosched E p pbid pos (upd_dev lbz_inc_gc_inflight s)
        }"
    obtain s1 y pos' where r: "?step = Some s1" "zmd_zones (d_zone_metadata (sy_dev s1)) p = Some y"
      "zrms_get (z_zrms y) (n + 1) = Some pos'" "gc_scan E p (n + 1) pos' (pbid + 1) s1 = Some s'"
      using "1.prems" z True by (subst (asm) gc_scan.simps) (auto simp: bind_eq_Some_conv)
    have "full_zones s1 = full_zones s"
      using r(1) z by (auto simp: submit_gc_reads upd_zmd_def upd_zone_def upd_dev_def lbz_inc_gc_inflight_def copy_read_def Let_def
          split: if_split_asm)
    then show ?thesis using "1.IH" [OF z True r] by simp
  qed
qed

lemma one_zone_keeps_full: "gc_one_zone E p s = Some s' \<Longrightarrow> full_zones s' = full_zones s"
  by (auto simp: gc_one_zone_def bind_eq_Some_conv Let_def upd_zmd_def put_zone_def upd_zone_def upd_dev_def
      split: option.split_asm dest!: scan_keeps_full)

lemma pass_shorter:
  assumes "gc_pass E j s = Some (True, s')"
  shows "length (full_zones s') < length (full_zones s)"
proof -
  obtain md p zmd where v: "lbz_find_victim_zone md (d_zone_metadata (sy_dev s)) = Some (Some p, zmd)"
    "full_zones s' = zmd_full_zone_list zmd"
    using assms
    by (auto simp: gc_pass_def bind_eq_Some_conv Let_def upd_dev_def split: if_split_asm option.split_asm dest!: one_zone_keeps_full)
  then show ?thesis
    using find_victim_effect [OF v(1)] by (auto simp: length_remove1 intro!: diff_less dest: length_pos_if_in_set)
qed

text \<open>\<open>clock k\<close> is the value of \<open>jiffies\<close> in the \<open>k\<close>-th pass.\<close>

function gc_reclaim :: "lbz_env \<Rightarrow> (nat \<Rightarrow> u64) \<Rightarrow> nat \<Rightarrow> lbz_sys \<Rightarrow> lbz_sys option" where
  "gc_reclaim E clock k s =
     (case gc_pass E (clock k) s of
        None \<Rightarrow> None
      | Some (again, s') \<Rightarrow> if again then gc_reclaim E clock (k + 1) s' else Some s')"
  by pat_completeness auto
termination
  by (relation "measure (\<lambda>(E, clock, k, s). length (full_zones s))") (auto dest: pass_shorter)

declare gc_reclaim.simps [simp del]

text \<open>
  One turn of the thread's loop; \<open>stop\<close> and \<open>stop_asleep\<close> are the two answers of \<open>kthread_should_stop\<close>.
  The first component of the result tells whether the thread goes on after its sleep.
\<close>

definition lbz_gc_thread :: "lbz_env \<Rightarrow> (nat \<Rightarrow> u64) \<Rightarrow> bool \<Rightarrow> bool \<Rightarrow> lbz_sys \<Rightarrow> (bool \<times> lbz_sys) option" where
  "lbz_gc_thread E clock stop stop_asleep s =
     (if stop then Some (False, upd_dev (\<lambda>d. d\<lparr>d_gc_ctx := gc_thread_exit (d_gc_ctx d)\<rparr>) s)
      else do {
        s \<leftarrow> gc_reclaim E clock 0 s;
        if stop_asleep
        then Some (False, upd_dev (\<lambda>d. d\<lparr>d_gc_ctx := gc_thread_exit ((d_gc_ctx d)\<lparr>gc_awake := True\<rparr>)\<rparr>) s)
        else Some (True, upd_dev (\<lambda>d. d\<lparr>d_gc_ctx := (d_gc_ctx d)\<lparr>gc_awake := False\<rparr>\<rparr>) s)
      })"

section \<open>The thread gets to sleep\<close>

text \<open>
  What the passes rely on: every full zone is in the table and the scan stays inside its reverse
  map (the read at the write pointer included), and the last zone that was collected exists.
\<close>

definition scan_ready :: "lbz_sys \<Rightarrow> bool" where
  "scan_ready s \<longleftrightarrow>
     unat (zmd_zone_nr_blocks (d_zone_metadata (sy_dev s))) < 2 ^ 31 \<and>
     (\<forall>p \<in> set (full_zones s). \<exists>z. zmd_zones (d_zone_metadata (sy_dev s)) p = Some z \<and>
        (\<forall>k \<le> unat (z_wp_block z). zrms_get (z_zrms z) k \<noteq> None)) \<and>
     (\<forall>p. gc_zone (d_gc_ctx (sy_dev s)) = Some p \<longrightarrow> zmd_zones (d_zone_metadata (sy_dev s)) p \<noteq> None)"

lemma victim_scan_ok:
  assumes "\<forall>p \<in> set ps. zones p \<noteq> None"
  shows "\<exists>r v. victim_scan zones ps m n = Some (r, v) \<and> (r = m \<and> v = n \<or> (\<exists>p \<in> set ps. r = Some p))"
  using victim_scan_min [OF assms, of m n] by blast

lemma find_victim_total:
  assumes "\<forall>p \<in> set (zmd_full_zone_list zmd). zmd_zones zmd p \<noteq> None" and nr: "unat (zmd_zone_nr_blocks zmd) < 2 ^ 31"
  shows "lbz_find_victim_zone md zmd = Some (None, zmd) \<or> (\<exists>p zmd'. lbz_find_victim_zone md zmd = Some (Some p, zmd'))"
proof -
  obtain r v where rv: "victim_scan (zmd_zones zmd) (zmd_full_zone_list zmd) None (2 ^ 31 - 1) = Some (r, v)"
    "r = None \<and> v = 2 ^ 31 - 1 \<or> (\<exists>p \<in> set (zmd_full_zone_list zmd). r = Some p)"
    using victim_scan_ok [OF assms(1)] by metis
  have le: "zmd_zone_nr_blocks zmd \<le> word_of_int (2 ^ 31 - 1)" using nr by (simp add: word_le_nat_alt)
  from rv(2) show ?thesis
  proof
    assume "r = None \<and> v = 2 ^ 31 - 1"
    then show ?thesis using rv(1) le by (simp add: lbz_find_victim_zone_def)
  next
    assume "\<exists>p \<in> set (zmd_full_zone_list zmd). r = Some p"
    then obtain p z where "r = Some p" "zmd_zones zmd p = Some z" using assms(1) by blast
    then show ?thesis using rv(1) by (simp add: lbz_find_victim_zone_def upd_zone_def)
  qed
qed

lemma pass_busy:
  assumes "gc_zone (d_gc_ctx (sy_dev s)) = Some p" "zmd_zones (d_zone_metadata (sy_dev s)) p = Some z" "is_lbz_zone_state LBZ_ZONE_GC z"
  shows "gc_pass E j s = Some (False, s)"
  using assms by (simp add: gc_pass_def Let_def)

lemma scanned_zone_gc: "is_lbz_zone_state LBZ_ZONE_GC z \<Longrightarrow> is_lbz_zone_state LBZ_ZONE_GC (scanned_zone n z)"
  by (simp add: scanned_zone_def lbz_put_zone_def lbz_set_zone_state_def is_lbz_zone_state_def Let_def bit_set_bit_iff)

text \<open>The state when the scan of a victim begins.\<close>

definition victim_taken :: "zptr \<Rightarrow> lbz_zone_metadata \<Rightarrow> lbz_sys \<Rightarrow> lbz_sys" where
  "victim_taken p zmd = upd_dev (\<lambda>d. d\<lparr>d_zone_metadata := zmd, d_gc_ctx := (d_gc_ctx d)\<lparr>gc_zone := Some p\<rparr>\<rparr>)"

definition zone_done :: "u64 \<Rightarrow> lbz_sys \<Rightarrow> lbz_sys" where
  "zone_done j = upd_dev (\<lambda>d. d\<lparr>d_gc_ctx := gc_clear LBZ_GC_STAT_EMERGENCY
     ((d_gc_ctx d)\<lparr>gc_times := gc_times (d_gc_ctx d) + 1, gc_last_jiffies := j\<rparr>)\<rparr>)"

text \<open>The part of a pass behind its guards.\<close>

definition collect_victim :: "lbz_env \<Rightarrow> u64 \<Rightarrow> lbz_sys \<Rightarrow> (bool \<times> lbz_sys) option" where
  "collect_victim E j s = do {
     (v, zmd) \<leftarrow> lbz_find_victim_zone (gc_victim_mod E j (sy_dev s)) (d_zone_metadata (sy_dev s));
     case v of
       None \<Rightarrow> Some (False, upd_dev (\<lambda>d. d\<lparr>d_zone_metadata := zmd\<rparr>) s)
     | Some p \<Rightarrow> do { s \<leftarrow> gc_one_zone E p (victim_taken p zmd s); Some (True, zone_done j s) }
   }"

lemma pass_guards:
  assumes "\<And>p. gc_zone (d_gc_ctx (sy_dev s)) = Some p \<Longrightarrow> zmd_zones (d_zone_metadata (sy_dev s)) p \<noteq> None"
  shows "gc_pass E j s = Some (False, s) \<or> gc_pass E j s = collect_victim E j s"
proof -
  have t: "upd_dev (\<lambda>d. d\<lparr>d_gc_ctx := (d_gc_ctx d)\<lparr>gc_zone := Some p\<rparr>\<rparr>) (upd_dev (\<lambda>d. d\<lparr>d_zone_metadata := zmd\<rparr>) s) =
      victim_taken p zmd s" for p zmd by (simp add: victim_taken_def upd_dev_def)
  obtain busy where b: "(case gc_zone (d_gc_ctx (sy_dev s)) of None \<Rightarrow> Some False
      | Some p \<Rightarrow> map_option (is_lbz_zone_state LBZ_ZONE_GC) (zmd_zones (d_zone_metadata (sy_dev s)) p)) = Some busy"
    using assms by (cases "gc_zone (d_gc_ctx (sy_dev s))") auto
  show ?thesis unfolding gc_pass_def collect_victim_def Let_def b t zone_done_def [symmetric] by simp
qed

lemma pass_cases:
  assumes "scan_ready s"
  shows "gc_pass E j s = Some (False, s) \<or>
    (\<exists>p zmd z s'. lbz_find_victim_zone (gc_victim_mod E j (sy_dev s)) (d_zone_metadata (sy_dev s)) = Some (Some p, zmd) \<and>
       zmd_zones zmd p = Some z \<and> is_lbz_zone_state LBZ_ZONE_GC z \<and>
       gc_collected p z (victim_taken p zmd s) s' \<and> gc_pass E j s = Some (True, zone_done j s'))"
proof -
  let ?md = "gc_victim_mod E j (sy_dev s)" and ?zmd = "d_zone_metadata (sy_dev s)"
  have same: "upd_dev (\<lambda>d. d\<lparr>d_zone_metadata := ?zmd\<rparr>) s = s" by (simp add: upd_dev_def)
  have zs: "\<forall>p \<in> set (full_zones s). zmd_zones ?zmd p \<noteq> None" and nr: "unat (zmd_zone_nr_blocks ?zmd) < 2 ^ 31"
    and gz: "\<And>p. gc_zone (d_gc_ctx (sy_dev s)) = Some p \<Longrightarrow> zmd_zones ?zmd p \<noteq> None"
    using assms by (auto simp: scan_ready_def)
  consider "lbz_find_victim_zone ?md ?zmd = Some (None, ?zmd)" | p zmd where "lbz_find_victim_zone ?md ?zmd = Some (Some p, zmd)"
    using find_victim_total [OF zs nr] by blast
  then show ?thesis
  proof cases
    case 1
    then have "collect_victim E j s = Some (False, s)" using same by (simp add: collect_victim_def)
    then show ?thesis using pass_guards [OF gz, where E = E and j = j] by simp
  next
    case (2 p zmd)
    from find_victim_effect [OF 2] obtain z0 where z0: "p \<in> set (full_zones s)" "zmd_zones ?zmd p = Some z0"
      "zmd_zones zmd p = Some (lbz_set_zone_state LBZ_ZONE_GC (lbz_get_zone z0))" by auto
    let ?z = "lbz_set_zone_state LBZ_ZONE_GC (lbz_get_zone z0)" and ?v = "victim_taken p zmd s"
    have "\<forall>k \<le> unat (z_wp_block ?z). zrms_get (z_zrms ?z) k \<noteq> None"
      using assms z0(1,2) by (auto simp: scan_ready_def lbz_set_zone_state_def lbz_get_zone_def)
    moreover have "zmd_zones (d_zone_metadata (sy_dev ?v)) p = Some ?z" using z0 by (simp add: victim_taken_def upd_dev_def)
    ultimately obtain s' where s': "gc_one_zone E p ?v = Some s'" "gc_collected p ?z ?v s'"
      using gc_one_zone_collects by blast
    have gcz: "is_lbz_zone_state LBZ_ZONE_GC ?z"
      by (simp add: lbz_set_zone_state_def is_lbz_zone_state_def bit_set_bit_iff)
    have "gc_pass E j s = Some (False, s) \<or> gc_pass E j s = Some (True, zone_done j s')"
      using pass_guards [OF gz, where E = E and j = j] 2 s'(1) by (simp add: collect_victim_def)
    then show ?thesis using 2 z0(3) gcz s'(2) by blast
  qed
qed


end
