(* ===== verification/Write_Path.thy ===== *)
theory Write_Path
  imports Io_Scheduler Ftl_Ops
begin

text \<open>
  What the completion of a user write does to the whole driver: the maps, the zone table, the
  tree of tasks, the task and the bio.
\<close>

section \<open>Lemmas on the handlers' parts\<close>

definition sys_maps_ok :: "kern \<Rightarrow> lbz_sys \<Rightarrow> bool" where
  "sys_maps_ok K s \<longleftrightarrow> zmd_wf (d_zone_metadata (sy_dev s)) \<and> mapping_wf K (d_mapping (sy_dev s)) \<and>
     map_consistent (map_get K (d_mapping (sy_dev s))) (zmd_rget K (d_zone_metadata (sy_dev s)))"

lemma write_remap_ok:
  assumes ok: "sys_maps_ok K s" and ap: "append_ok K (d_zone_metadata (sy_dev s)) p pbid"
    and b: "map_get K (d_mapping (sy_dev s)) (t_blkid tk) = Some old"
  shows "\<exists>m zmd1 zmd. write_remap K tk p pbid s = Some (upd_dev (\<lambda>d. d\<lparr>d_mapping := m, d_zone_metadata := zmd\<rparr>) s) \<and>
     lbz_mapping_add K (d_mapping (sy_dev s)) (t_blkid tk) pbid = Some (old, m) \<and>
     invalidate_block K old (d_zone_metadata (sy_dev s)) = Some zmd1 \<and>
     lbz_zone_update_reverse_map p pbid (t_blkid tk) zmd1 = Some zmd \<and>
     zmd_wf (complete_zone p zmd) \<and> zmd_zones zmd p \<noteq> None \<and> mapping_wf K m \<and>
     map_consistent (map_get K m) (zmd_rget K zmd) \<and>
     map_get K m = (map_get K (d_mapping (sy_dev s)))(t_blkid tk \<mapsto> pbid)"
proof -
  from remap_ok [OF _ ap b] ok obtain m zmd1 zmd2 where
    r: "lbz_mapping_add K (d_mapping (sy_dev s)) (t_blkid tk) pbid = Some (old, m)"
      "invalidate_block K old (d_zone_metadata (sy_dev s)) = Some zmd1"
      "lbz_zone_update_reverse_map p pbid (t_blkid tk) zmd1 = Some zmd2"
      "zmd_wf (complete_zone p zmd2)" "zmd_zones zmd2 p \<noteq> None" "mapping_wf K m"
      "map_consistent (map_get K m) (zmd_rget K zmd2)"
      "map_get K m = (map_get K (d_mapping (sy_dev s)))(t_blkid tk \<mapsto> pbid)"
    by (auto simp: sys_maps_ok_def maps_ok_def)
  have "write_remap K tk p pbid s = Some (upd_dev (\<lambda>d. d\<lparr>d_mapping := m, d_zone_metadata := zmd2\<rparr>) s)"
    using r(1-3) by (simp add: write_remap_def upd_zmd_def upd_dev_def)
  with r show ?thesis by blast
qed

section \<open>Giving a bio back does not touch the device\<close>

text \<open>Functions of the driver's state that neither read nor write the device, the tasks or the pages.\<close>

definition dev_blind :: "(lbz_sys \<Rightarrow> lbz_sys option) \<Rightarrow> bool" where
  "dev_blind g \<longleftrightarrow> (\<forall>s d. g (s\<lparr>sy_dev := d\<rparr>) = map_option (\<lambda>s'. s'\<lparr>sy_dev := d\<rparr>) (g s)) \<and>
     (\<forall>s s'. g s = Some s' \<longrightarrow> sy_dev s' = sy_dev s \<and> sy_tasks s' = sy_tasks s \<and> sy_pages s' = sy_pages s \<and>
        sy_inflight s' = sy_inflight s \<and> sy_next s' = sy_next s)"

lemma dev_blindI:
  assumes "\<And>s d. g (s\<lparr>sy_dev := d\<rparr>) = map_option (\<lambda>s'. s'\<lparr>sy_dev := d\<rparr>) (g s)"
    and "\<And>s s'. g s = Some s' \<Longrightarrow> sy_dev s' = sy_dev s \<and> sy_tasks s' = sy_tasks s \<and> sy_pages s' = sy_pages s \<and>
        sy_inflight s' = sy_inflight s \<and> sy_next s' = sy_next s"
  shows "dev_blind g"
  using assms by (auto simp: dev_blind_def)

lemma dev_blind_bio_put: "dev_blind (bio_put b)"
  by (rule dev_blindI) (auto simp: bio_put_def split: option.splits)

lemma dev_blind_upd_bio: "dev_blind (upd_bio b f)"
  by (rule dev_blindI) (auto simp: upd_bio_def split: option.splits)

lemma dev_blind_bind:
  assumes g: "dev_blind g" and h: "dev_blind h"
  shows "dev_blind (\<lambda>s. Option.bind (g s) h)"
proof (rule dev_blindI)
  fix s d
  show "Option.bind (g (s\<lparr>sy_dev := d\<rparr>)) h = map_option (\<lambda>s'. s'\<lparr>sy_dev := d\<rparr>) (Option.bind (g s) h)"
    using g h unfolding dev_blind_def by (cases "g s") auto
next
  fix s s'
  assume "Option.bind (g s) h = Some s'"
  then obtain s1 where "g s = Some s1" "h s1 = Some s'" by auto
  with g h show "sy_dev s' = sy_dev s \<and> sy_tasks s' = sy_tasks s \<and> sy_pages s' = sy_pages s \<and>
        sy_inflight s' = sy_inflight s \<and> sy_next s' = sy_next s"
    unfolding dev_blind_def by metis
qed

text \<open>Reading a bio or a context first does not change this.\<close>

lemma dev_blind_bio:
  assumes "\<And>x. dev_blind (f x)"
  shows "dev_blind (\<lambda>s. Option.bind (sy_bios s b) (\<lambda>x. f x s))"
proof (rule dev_blindI)
  fix s d
  show "Option.bind (sy_bios (s\<lparr>sy_dev := d\<rparr>) b) (\<lambda>x. f x (s\<lparr>sy_dev := d\<rparr>)) =
      map_option (\<lambda>s'. s'\<lparr>sy_dev := d\<rparr>) (Option.bind (sy_bios s b) (\<lambda>x. f x s))"
    using assms unfolding dev_blind_def by (cases "sy_bios s b") auto
next
  fix s s'
  assume "Option.bind (sy_bios s b) (\<lambda>x. f x s) = Some s'"
  then show "sy_dev s' = sy_dev s \<and> sy_tasks s' = sy_tasks s \<and> sy_pages s' = sy_pages s \<and>
        sy_inflight s' = sy_inflight s \<and> sy_next s' = sy_next s"
    using assms unfolding dev_blind_def by (cases "sy_bios s b") auto
qed

lemma dev_blind_ctx:
  assumes "\<And>x. dev_blind (f x)"
  shows "dev_blind (\<lambda>s. Option.bind (sy_ctxs s c) (\<lambda>x. f x s))"
proof (rule dev_blindI)
  fix s d
  show "Option.bind (sy_ctxs (s\<lparr>sy_dev := d\<rparr>) c) (\<lambda>x. f x (s\<lparr>sy_dev := d\<rparr>)) =
      map_option (\<lambda>s'. s'\<lparr>sy_dev := d\<rparr>) (Option.bind (sy_ctxs s c) (\<lambda>x. f x s))"
    using assms unfolding dev_blind_def by (cases "sy_ctxs s c") auto
next
  fix s s'
  assume "Option.bind (sy_ctxs s c) (\<lambda>x. f x s) = Some s'"
  then show "sy_dev s' = sy_dev s \<and> sy_tasks s' = sy_tasks s \<and> sy_pages s' = sy_pages s \<and>
        sy_inflight s' = sy_inflight s \<and> sy_next s' = sy_next s"
    using assms unfolding dev_blind_def by (cases "sy_ctxs s c") auto
qed

lemma dev_blind_Some: "dev_blind Some"
  by (rule dev_blindI) auto

lemma dev_blind_None: "dev_blind (\<lambda>s. None)"
  by (rule dev_blindI) auto

lemma dev_blind_bio_endio_user: "dev_blind (bio_endio_user b)"
  unfolding bio_endio_user_def
proof (rule dev_blind_bio)
  fix x
  show "dev_blind (\<lambda>s. case bi_end_io x of
       UserEndio n \<Rightarrow> Some (s\<lparr>sy_done := sy_done s @ [(b, n, bi_status x)], sy_bios := (sy_bios s)(b := None)\<rparr>)
     | FlushBioEndio e \<Rightarrow> Some (s\<lparr>sy_flush_done := sy_flush_done s @ [b]\<rparr>)
     | _ \<Rightarrow> None)"
    by (cases "bi_end_io x"; rule dev_blindI) auto
qed

lemma dev_blind_if: "dev_blind g \<Longrightarrow> dev_blind h \<Longrightarrow> dev_blind (\<lambda>s. if c then g s else h s)"
  by (cases c) simp_all

lemma dev_blind_ctx_upd: "dev_blind (\<lambda>s. Some (s\<lparr>sy_ctxs := (sy_ctxs s)(c := v)\<rparr>))"
  by (rule dev_blindI) auto

lemma dev_blind_ctx_then:
  assumes "dev_blind h"
  shows "dev_blind (\<lambda>s. h (s\<lparr>sy_ctxs := (sy_ctxs s)(c := v)\<rparr>))"
  using dev_blind_bind [OF dev_blind_ctx_upd assms] by simp

lemmas dev_blind_rules = dev_blind_bio_endio_user dev_blind_bio_put dev_blind_upd_bio dev_blind_Some
  dev_blind_None dev_blind_ctx_upd

lemma dev_blind_long: "dev_blind (lbz_long_bio_endio b c)"
  unfolding lbz_long_bio_endio_def Let_def
  by (intro dev_blind_bio dev_blind_ctx dev_blind_bind dev_blind_if dev_blind_ctx_then dev_blind_rules)

lemma dev_blind_unhooked: "dev_blind (bio_endio_unhooked b)"
  unfolding bio_endio_unhooked_def
proof (rule dev_blind_bio)
  fix x
  show "dev_blind (\<lambda>s. case bi_end_io x of LongBioEndio c \<Rightarrow> lbz_long_bio_endio b c s | _ \<Rightarrow> bio_endio_user b s)"
    by (cases "bi_end_io x") (simp_all add: dev_blind_long dev_blind_bio_endio_user)
qed

lemma dev_blind_unhook: "dev_blind (unhook_io b)"
  unfolding unhook_io_def
proof (rule dev_blind_bio)
  fix x
  have "dev_blind (\<lambda>s. Option.bind (upd_bio b (\<lambda>x. x\<lparr>bi_end_io := e\<rparr>) s) (bio_endio_unhooked b))" for e
    by (intro dev_blind_bind dev_blind_upd_bio dev_blind_unhooked)
  then show "dev_blind (\<lambda>s. Option.bind
      (case bi_end_io x of WriteIoEndio t blkid e \<Rightarrow> Some e | ReadIoEndio z blkid e \<Rightarrow> Some e | _ \<Rightarrow> None)
      (\<lambda>e. Option.bind (upd_bio b (\<lambda>x. x\<lparr>bi_end_io := e\<rparr>) s) (bio_endio_unhooked b)))"
    by (cases "bi_end_io x") (simp_all add: dev_blind_None)
qed

lemma unhook_dev:
  assumes "unhook_io b s = Some su"
  shows "unhook_io b (s\<lparr>sy_dev := d\<rparr>) = Some (su\<lparr>sy_dev := d\<rparr>)"
    and "sy_dev su = sy_dev s" "sy_tasks su = sy_tasks s" "sy_pages su = sy_pages s"
      "sy_inflight su = sy_inflight s" "sy_next su = sy_next s"
  using dev_blind_unhook [of b] assms unfolding dev_blind_def by auto

section \<open>Dropping references of a task\<close>

lemma task_put_dec:
  assumes "sy_tasks s t = Some tk" "t_refcount tk \<noteq> 1"
  shows "task_put K t s = Some (s\<lparr>sy_tasks := (sy_tasks s)(t \<mapsto> tk\<lparr>t_refcount := t_refcount tk - 1\<rparr>)\<rparr>)"
  using assms by (simp add: task_put_def task_dec_def Let_def)

lemma task_put_last:
  assumes "sy_tasks s t = Some tk" "t_refcount tk = 1" "t_gc tk = GcNull \<or> t_type tk = LBZ_TASK_GC"
    "\<And>e. t_integrity_buf tk \<noteq> BufErr e"
  shows "task_put K t s = Some (s\<lparr>sy_tasks := (sy_tasks s)(t := None)\<rparr>)"
  using assms
  by (cases "t_integrity_buf tk")
    (auto simp: task_put_def task_dec_def pending_gc_node_def task_destroy_def Let_def)

section \<open>A user write completes\<close>

text \<open>
  The state in which a write of the block \<open>t_blkid tk\<close> is in flight: its bio carries the write hook of
  its task, the task is in the tree with the two references of its creation and of the tree, it
  holds its zone, and no collection of the same block waits for it.
\<close>

definition write_in_flight :: "lbz_sys \<Rightarrow> bptr \<Rightarrow> bio \<Rightarrow> tptr \<Rightarrow> lbz_io_task \<Rightarrow> zptr \<Rightarrow> bool" where
  "write_in_flight s b x t tk p \<longleftrightarrow>
     sy_bios s b = Some x \<and> (\<exists>k e. bi_end_io x = WriteIoEndio t k e) \<and>
     sy_tasks s t = Some tk \<and> t_zone tk = Some p \<and> t_status tk = LBZ_TASK_DISPATCH \<and> t_refcount tk = 2 \<and>
     t_gc tk = GcNull \<and> (\<forall>e. t_integrity_buf tk \<noteq> BufErr e) \<and>
     t \<in> set (inorder (task_tree s)) \<and> tree_ok (sy_tasks s) (task_tree s)"

lemma tree_ok_forget:
  assumes "tree_ok tasks tree" "t \<notin> set (inorder tree)"
  shows "tree_ok (tasks(t := v)) tree"
proof -
  have "\<exists>x y. tasks q = Some x \<and> (tasks(t := v)) q = Some y \<and> t_blkid y = t_blkid x"
    if "q \<in> set (inorder tree)" for q
    using assms that by (auto simp: tree_ok_def)
  then show ?thesis using tree_ok_cong [of tree tasks "tasks(t := v)"] assms(1) by blast
qed

text \<open>The task leaves the tree and loses the tree's reference.\<close>

lemma write_task_unlinked:
  assumes K: "kern_ok K" and t: "sy_tasks s t = Some tk" "t_refcount tk = 2"
    and tree: "t \<in> set (inorder (task_tree s))" "tree_ok (sy_tasks s) (task_tree s)"
  shows "\<exists>io sd. del_task_from_tree K t s = Some sd \<and> task_put K t sd =
       Some (s\<lparr>sy_dev := (sy_dev s)\<lparr>d_iosched := io\<rparr>, sy_tasks := (sy_tasks s)(t \<mapsto> tk\<lparr>t_refcount := 1\<rparr>)\<rparr>) \<and>
     set (inorder (s_task_tree io)) = set (inorder (task_tree s)) - {t} \<and>
     tree_ok ((sy_tasks s)(t := None)) (s_task_tree io)"
proof -
  let ?tr = "rb_erase K t (task_tree s)"
  let ?io = "(d_iosched (sy_dev s))\<lparr>s_task_tree := ?tr, s_task_count := s_task_count (d_iosched (sy_dev s)) - 1\<rparr>"
  have d: "distinct (inorder (task_tree s))" by (rule tree_ok_distinct [OF tree(2)])
  then have i: "inorder ?tr = remove1 t (inorder (task_tree s))" using K by (simp add: kern_ok_def)
  have set': "set (inorder ?tr) = set (inorder (task_tree s)) - {t}" using i d by simp
  have "tree_ok (sy_tasks s) ?tr" by (rule tree_ok_remove [OF tree(2) i])
  then have ok: "tree_ok ((sy_tasks s)(t := None)) ?tr" by (rule tree_ok_forget) (use set' in auto)
  have del: "del_task_from_tree K t s = Some (s\<lparr>sy_dev := (sy_dev s)\<lparr>d_iosched := ?io\<rparr>\<rparr>)"
    using tree(1) by (simp add: del_task_from_tree_def Let_def upd_iosched_def upd_dev_def task_tree_def)
  have p1: "task_put K t (s\<lparr>sy_dev := (sy_dev s)\<lparr>d_iosched := ?io\<rparr>\<rparr>) =
      Some (s\<lparr>sy_dev := (sy_dev s)\<lparr>d_iosched := ?io\<rparr>, sy_tasks := (sy_tasks s)(t \<mapsto> tk\<lparr>t_refcount := 1\<rparr>)\<rparr>)"
    using task_put_dec [of "s\<lparr>sy_dev := (sy_dev s)\<lparr>d_iosched := ?io\<rparr>\<rparr>" t tk K] t by simp
  show ?thesis using del p1 set' ok by (intro exI [of _ ?io] exI [of _ "s\<lparr>sy_dev := (sy_dev s)\<lparr>d_iosched := ?io\<rparr>\<rparr>"]) simp
qed

text \<open>The end of the handler, from the point where the bio was given back.\<close>

lemma write_endio_tail:
  assumes K: "kern_ok K" and t: "sy_tasks s t = Some tk" "t_refcount tk = 2" "t_gc tk = GcNull"
      "\<And>e. t_integrity_buf tk \<noteq> BufErr e"
    and tree: "t \<in> set (inorder (task_tree s))" "tree_ok (sy_tasks s) (task_tree s)"
  shows "\<exists>io sd. del_task_from_tree K t s = Some sd \<and> task_put K t sd =
       Some (s\<lparr>sy_dev := (sy_dev s)\<lparr>d_iosched := io\<rparr>, sy_tasks := (sy_tasks s)(t \<mapsto> tk\<lparr>t_refcount := 1\<rparr>)\<rparr>) \<and>
     task_put K t (s\<lparr>sy_dev := (sy_dev s)\<lparr>d_iosched := io\<rparr>, sy_tasks := (sy_tasks s)(t \<mapsto> tk\<lparr>t_refcount := 1\<rparr>)\<rparr>) =
       Some (s\<lparr>sy_dev := (sy_dev s)\<lparr>d_iosched := io\<rparr>, sy_tasks := (sy_tasks s)(t := None)\<rparr>) \<and>
     set (inorder (s_task_tree io)) = set (inorder (task_tree s)) - {t} \<and>
     tree_ok ((sy_tasks s)(t := None)) (s_task_tree io)"
proof -
  have "task_put K t (s\<lparr>sy_dev := (sy_dev s)\<lparr>d_iosched := io\<rparr>, sy_tasks := (sy_tasks s)(t \<mapsto> tk\<lparr>t_refcount := 1\<rparr>)\<rparr>) =
      Some (s\<lparr>sy_dev := (sy_dev s)\<lparr>d_iosched := io\<rparr>, sy_tasks := (sy_tasks s)(t := None)\<rparr>)" for io
    using task_put_last [of "s\<lparr>sy_dev := (sy_dev s)\<lparr>d_iosched := io\<rparr>, sy_tasks := (sy_tasks s)(t \<mapsto> tk\<lparr>t_refcount := 1\<rparr>)\<rparr>"
        t "tk\<lparr>t_refcount := 1\<rparr>" K] t by simp
  with write_task_unlinked [OF K t(1,2) tree] show ?thesis by blast
qed

text \<open>
  The completion of a write up to the release of its task, which also drops a copy that waits for
  the write; what follows are the counters of the zone and of the device.
\<close>

definition write_endio_rest :: "kern \<Rightarrow> tptr \<Rightarrow> zptr \<Rightarrow> lbz_sys \<Rightarrow> lbz_sys option" where
  "write_endio_rest K t p s = do {
     s \<leftarrow> task_put K t s;
     s \<leftarrow> upd_zmd (upd_zone p lbz_zone_complete_write) s;
     s \<leftarrow> put_zone p s;
     Some (upd_dev (\<lambda>d. d\<lparr>d_user_write_inflight_io_cnt := d_user_write_inflight_io_cnt d - 1\<rparr>) s)
   }"

lemma write_endio_prefix:
  assumes K: "kern_ok K" and ok: "sys_maps_ok K s"
    and x: "sy_bios s b = Some x" "bi_end_io x = WriteIoEndio t k e" "bi_status x = None"
    and t: "sy_tasks s t = Some tk" "t_zone tk = Some p" "t_status tk = LBZ_TASK_DISPATCH" "t_refcount tk = 2"
    and tree: "t \<in> set (inorder (task_tree s))" "tree_ok (sy_tasks s) (task_tree s)"
    and u: "unhook_io b s = Some su" and ap: "append_ok K (d_zone_metadata (sy_dev s)) p (sector_to_blkid (bi_sector x))"
    and dev: "map_get K (d_mapping (sy_dev s)) (t_blkid tk) \<noteq> None"
  shows "\<exists>m zmd mg io. lbz_write_io_endio K b s = write_endio_rest K t p (su\<lparr>sy_dev := (sy_dev s)\<lparr>d_mapping := m,
       d_zone_metadata := zmd, d_nat_sit_mgmt := mg, d_iosched := io\<rparr>, sy_tasks := (sy_tasks s)(t \<mapsto> tk\<lparr>t_refcount := 1\<rparr>)\<rparr>) \<and>
     ftl_write_done K p (t_blkid tk) (sector_to_blkid (bi_sector x)) (d_mapping (sy_dev s), d_zone_metadata (sy_dev s)) =
       do { zmd \<leftarrow> upd_zone p lbz_zone_complete_write zmd; zmd \<leftarrow> upd_zone p lbz_put_zone zmd; Some (m, zmd) } \<and>
     zmd_wf (complete_zone p zmd) \<and> zmd_zones zmd p \<noteq> None \<and> mapping_wf K m \<and>
     map_consistent (map_get K m) (zmd_rget K zmd) \<and>
     map_get K m = (map_get K (d_mapping (sy_dev s)))(t_blkid tk \<mapsto> sector_to_blkid (bi_sector x)) \<and>
     set (inorder (s_task_tree io)) = set (inorder (task_tree s)) - {t} \<and> tree_ok ((sy_tasks s)(t := None)) (s_task_tree io)"
proof -
  let ?pbid = "sector_to_blkid (bi_sector x)"
  from dev obtain old where b: "map_get K (d_mapping (sy_dev s)) (t_blkid tk) = Some old" by blast
  from write_remap_ok [OF ok ap b] obtain m zmd0 zmd where
    r0: "lbz_mapping_add K (d_mapping (sy_dev s)) (t_blkid tk) ?pbid = Some (old, m)"
      "invalidate_block K old (d_zone_metadata (sy_dev s)) = Some zmd0"
      "lbz_zone_update_reverse_map p ?pbid (t_blkid tk) zmd0 = Some zmd"
    and r: "write_remap K tk p ?pbid s = Some (upd_dev (\<lambda>d. d\<lparr>d_mapping := m, d_zone_metadata := zmd\<rparr>) s)"
      "zmd_wf (complete_zone p zmd)" "zmd_zones zmd p \<noteq> None" "mapping_wf K m"
      "map_consistent (map_get K m) (zmd_rget K zmd)"
      "map_get K m = (map_get K (d_mapping (sy_dev s)))(t_blkid tk \<mapsto> ?pbid)" by blast
  let ?mg = "if t_type tk \<noteq> LBZ_TASK_USER_WRITE then lbz_nat_sit_complete_write (d_nat_sit_mgmt (sy_dev s))
      else d_nat_sit_mgmt (sy_dev s)"
  let ?d2 = "(sy_dev s)\<lparr>d_mapping := m, d_zone_metadata := zmd, d_nat_sit_mgmt := ?mg\<rparr>"
  let ?s2 = "su\<lparr>sy_dev := ?d2\<rparr>"
  note us = unhook_dev(2-) [OF u]
  have t2: "sy_tasks ?s2 t = Some tk" "t \<in> set (inorder (task_tree ?s2))" "tree_ok (sy_tasks ?s2) (task_tree ?s2)"
    using t(1) tree us by (simp_all add: task_tree_def)
  from write_task_unlinked [OF K t2(1) t(4) t2(2,3)] obtain io sd where
    sd: "del_task_from_tree K t ?s2 = Some sd" and io: "task_put K t sd =
       Some (?s2\<lparr>sy_dev := ?d2\<lparr>d_iosched := io\<rparr>, sy_tasks := (sy_tasks s)(t \<mapsto> tk\<lparr>t_refcount := 1\<rparr>)\<rparr>)"
     "set (inorder (s_task_tree io)) = set (inorder (task_tree s)) - {t}"
     "tree_ok ((sy_tasks s)(t := None)) (s_task_tree io)"
    using us by (auto simp: task_tree_def)
  have "lbz_write_io_endio K b s = write_endio_rest K t p
      (?s2\<lparr>sy_dev := ?d2\<lparr>d_iosched := io\<rparr>, sy_tasks := (sy_tasks s)(t \<mapsto> tk\<lparr>t_refcount := 1\<rparr>)\<rparr>)"
    using x t r(1) sd io(1) us unhook_dev(1) [OF u]
    by (cases "t_type tk = LBZ_TASK_USER_WRITE")
      (simp_all add: lbz_write_io_endio_def write_endio_rest_def upd_dev_def)
  moreover have "ftl_write_done K p (t_blkid tk) ?pbid (d_mapping (sy_dev s), d_zone_metadata (sy_dev s)) =
       do { zmd \<leftarrow> upd_zone p lbz_zone_complete_write zmd; zmd \<leftarrow> upd_zone p lbz_put_zone zmd; Some (m, zmd) }"
    using r0 by (simp add: ftl_write_done_def)
  ultimately show ?thesis using r(2-6) io(2,3)
    by (intro exI [of _ m] exI [of _ zmd] exI [of _ ?mg] exI [of _ io]) simp
qed

text \<open>The completion of a write, for use in the proofs about whole requests.\<close>

lemma write_endio_core:
  assumes K: "kern_ok K" and ok: "sys_maps_ok K s" and w: "write_in_flight s b x t tk p"
    and st: "bi_status x = None" and u: "unhook_io b s = Some su"
    and ap: "append_ok K (d_zone_metadata (sy_dev s)) p (sector_to_blkid (bi_sector x))"
    and dev: "map_get K (d_mapping (sy_dev s)) (t_blkid tk) \<noteq> None"
  shows "\<exists>s'. lbz_write_io_endio K b s = Some s' \<and>
     ftl_write_done K p (t_blkid tk) (sector_to_blkid (bi_sector x)) (d_mapping (sy_dev s), d_zone_metadata (sy_dev s)) =
       Some (d_mapping (sy_dev s'), d_zone_metadata (sy_dev s')) \<and> sys_maps_ok K s' \<and>
     map_get K (d_mapping (sy_dev s')) =
       (map_get K (d_mapping (sy_dev s)))(t_blkid tk \<mapsto> sector_to_blkid (bi_sector x)) \<and>
     sy_tasks s' = (sy_tasks s)(t := None) \<and> tree_ok (sy_tasks s') (task_tree s') \<and>
     set (inorder (task_tree s')) = set (inorder (task_tree s)) - {t} \<and>
     sy_bios s' = sy_bios su \<and> sy_done s' = sy_done su \<and> sy_inflight s' = sy_inflight s \<and>
     d_user_write_inflight_io_cnt (sy_dev s') = d_user_write_inflight_io_cnt (sy_dev s) - 1 \<and>
     d_flags (sy_dev s') = d_flags (sy_dev s) \<and> d_gc_ctx (sy_dev s') = d_gc_ctx (sy_dev s)"
proof -
  let ?pbid = "sector_to_blkid (bi_sector x)"
  from w obtain k e where x: "sy_bios s b = Some x" "bi_end_io x = WriteIoEndio t k e"
    and t: "sy_tasks s t = Some tk" "t_zone tk = Some p" "t_status tk = LBZ_TASK_DISPATCH" "t_refcount tk = 2"
      "t_gc tk = GcNull" "\<And>e. t_integrity_buf tk \<noteq> BufErr e"
    and tree: "t \<in> set (inorder (task_tree s))" "tree_ok (sy_tasks s) (task_tree s)"
    by (auto simp: write_in_flight_def)
  from write_endio_prefix [OF K ok x st t(1-4) tree u ap dev] obtain m zmd mg io where
    e: "lbz_write_io_endio K b s = write_endio_rest K t p (su\<lparr>sy_dev := (sy_dev s)\<lparr>d_mapping := m,
       d_zone_metadata := zmd, d_nat_sit_mgmt := mg, d_iosched := io\<rparr>, sy_tasks := (sy_tasks s)(t \<mapsto> tk\<lparr>t_refcount := 1\<rparr>)\<rparr>)"
    and r0: "ftl_write_done K p (t_blkid tk) ?pbid (d_mapping (sy_dev s), d_zone_metadata (sy_dev s)) =
       do { zmd \<leftarrow> upd_zone p lbz_zone_complete_write zmd; zmd \<leftarrow> upd_zone p lbz_put_zone zmd; Some (m, zmd) }"
    and r: "zmd_wf (complete_zone p zmd)" "zmd_zones zmd p \<noteq> None" "mapping_wf K m"
      "map_consistent (map_get K m) (zmd_rget K zmd)"
      "map_get K m = (map_get K (d_mapping (sy_dev s)))(t_blkid tk \<mapsto> ?pbid)"
    and io: "set (inorder (s_task_tree io)) = set (inorder (task_tree s)) - {t}" "tree_ok ((sy_tasks s)(t := None)) (s_task_tree io)"
    by blast
  note us = unhook_dev(2-) [OF u]
  from zmd_put_commute [OF r(1,2), of K] obtain zmd1 zmd2 where
    z: "upd_zone p lbz_zone_complete_write zmd = Some zmd1" "upd_zone p lbz_put_zone zmd1 = Some zmd2"
      "zmd_wf zmd2" "zmd_rget K zmd2 = zmd_rget K zmd" by blast
  let ?s' = "su\<lparr>sy_dev := (sy_dev s)\<lparr>d_mapping := m, d_zone_metadata := zmd2, d_nat_sit_mgmt := mg, d_iosched := io,
      d_user_write_inflight_io_cnt := d_user_write_inflight_io_cnt (sy_dev s) - 1\<rparr>, sy_tasks := (sy_tasks s)(t := None)\<rparr>"
  let ?s1 = "su\<lparr>sy_dev := (sy_dev s)\<lparr>d_mapping := m, d_zone_metadata := zmd, d_nat_sit_mgmt := mg, d_iosched := io\<rparr>,
      sy_tasks := (sy_tasks s)(t \<mapsto> tk\<lparr>t_refcount := 1\<rparr>)\<rparr>"
  have "task_put K t ?s1 = Some (?s1\<lparr>sy_tasks := (sy_tasks ?s1)(t := None)\<rparr>)"
    by (rule task_put_last [of _ _ "tk\<lparr>t_refcount := 1\<rparr>"]) (use t in simp_all)
  then have "lbz_write_io_endio K b s = Some ?s'"
    unfolding e using z(1,2) by (simp add: write_endio_rest_def upd_dev_def upd_zmd_def put_zone_def)
  moreover have "ftl_write_done K p (t_blkid tk) ?pbid (d_mapping (sy_dev s), d_zone_metadata (sy_dev s)) =
      Some (d_mapping (sy_dev ?s'), d_zone_metadata (sy_dev ?s'))"
    unfolding r0 using z(1,2) by simp
  moreover have "sys_maps_ok K ?s'" using r(3,4) z(3,4) by (simp add: sys_maps_ok_def)
  ultimately show ?thesis using r(5) io us by (intro exI [of _ ?s']) (simp add: task_tree_def)
qed

text \<open>
  C4. A user write completes without error at an address the zone append returned. The handler
  does not stop; the block is mapped to that address and no other mapping changes; the maps stay
  inverse to each other and the zone table well formed; the task leaves the tree and is freed,
  so that the block can be written again; and the bio is given back exactly as it was handed in.
\<close>

theorem write_endio_commits:
  assumes K: "kern_ok K" and ok: "sys_maps_ok K s" and w: "write_in_flight s b x t tk p"
    and st: "bi_status x = None" and u: "unhook_io b s = Some su"
    and ap: "append_ok K (d_zone_metadata (sy_dev s)) p (sector_to_blkid (bi_sector x))"
    and dev: "map_get K (d_mapping (sy_dev s)) (t_blkid tk) \<noteq> None"
  shows "\<exists>s'. lbz_write_io_endio K b s = Some s' \<and> sys_maps_ok K s' \<and>
     map_get K (d_mapping (sy_dev s')) =
       (map_get K (d_mapping (sy_dev s)))(t_blkid tk \<mapsto> sector_to_blkid (bi_sector x)) \<and>
     sy_tasks s' = (sy_tasks s)(t := None) \<and> tree_ok (sy_tasks s') (task_tree s') \<and>
     set (inorder (task_tree s')) = set (inorder (task_tree s)) - {t} \<and>
     sy_bios s' = sy_bios su \<and> sy_done s' = sy_done su \<and> sy_inflight s' = sy_inflight s \<and>
     d_user_write_inflight_io_cnt (sy_dev s') = d_user_write_inflight_io_cnt (sy_dev s) - 1"
  using write_endio_core [OF assms] by blast

text \<open>The completion of a write that failed, with the zone table it leaves.\<close>

lemma write_endio_fault_core:
  assumes K: "kern_ok K" and w: "write_in_flight s b x t tk p" and z: "zmd_zones (d_zone_metadata (sy_dev s)) p = Some z"
    and st: "bi_status x = Some err" and u: "unhook_io b s = Some su"
  shows "\<exists>s'. lbz_write_io_endio K b s = Some s' \<and> is_dev_faulty (sy_dev s') \<and>
     d_mapping (sy_dev s') = d_mapping (sy_dev s) \<and>
     d_zone_metadata (sy_dev s') = (d_zone_metadata (sy_dev s))\<lparr>zmd_zones :=
       (zmd_zones (d_zone_metadata (sy_dev s)))(p \<mapsto> lbz_put_zone (lbz_zone_complete_write z))\<rparr> \<and>
     zmd_rget K (d_zone_metadata (sy_dev s')) = zmd_rget K (d_zone_metadata (sy_dev s)) \<and>
     sy_tasks s' = (sy_tasks s)(t := None) \<and> tree_ok (sy_tasks s') (task_tree s') \<and>
     set (inorder (task_tree s')) = set (inorder (task_tree s)) - {t} \<and>
     sy_bios s' = sy_bios su \<and> sy_done s' = sy_done su"
proof -
  from w obtain k e where x: "sy_bios s b = Some x" "bi_end_io x = WriteIoEndio t k e"
    and t: "sy_tasks s t = Some tk" "t_zone tk = Some p" "t_status tk = LBZ_TASK_DISPATCH" "t_refcount tk = 2"
      "t_gc tk = GcNull" "\<And>e. t_integrity_buf tk \<noteq> BufErr e"
    and tree: "t \<in> set (inorder (task_tree s))" "tree_ok (sy_tasks s) (task_tree s)"
    by (auto simp: write_in_flight_def)
  let ?zmd = "d_zone_metadata (sy_dev s)"
  let ?d0 = "lbz_dev_set_faulty ((sy_dev s)\<lparr>d_user_write_err_cnt := d_user_write_err_cnt (sy_dev s) + 1\<rparr>)"
  let ?mg = "if t_type tk \<noteq> LBZ_TASK_USER_WRITE then lbz_nat_sit_complete_write (d_nat_sit_mgmt (sy_dev s))
      else d_nat_sit_mgmt (sy_dev s)"
  let ?d2 = "?d0\<lparr>d_nat_sit_mgmt := ?mg\<rparr>"
  let ?s2 = "su\<lparr>sy_dev := ?d2\<rparr>"
  note us = unhook_dev(2-) [OF u]
  have t2: "sy_tasks ?s2 t = Some tk" "t \<in> set (inorder (task_tree ?s2))" "tree_ok (sy_tasks ?s2) (task_tree ?s2)"
    using t(1) tree us by (simp_all add: task_tree_def lbz_dev_set_faulty_def)
  from write_endio_tail [OF K t2(1) t(4,5,6) t2(2,3)] obtain io sd where
    sd: "del_task_from_tree K t ?s2 = Some sd" and io: "task_put K t sd =
       Some (?s2\<lparr>sy_dev := ?d2\<lparr>d_iosched := io\<rparr>, sy_tasks := (sy_tasks s)(t \<mapsto> tk\<lparr>t_refcount := 1\<rparr>)\<rparr>)"
     "task_put K t (?s2\<lparr>sy_dev := ?d2\<lparr>d_iosched := io\<rparr>, sy_tasks := (sy_tasks s)(t \<mapsto> tk\<lparr>t_refcount := 1\<rparr>)\<rparr>) =
       Some (?s2\<lparr>sy_dev := ?d2\<lparr>d_iosched := io\<rparr>, sy_tasks := (sy_tasks s)(t := None)\<rparr>)"
     "set (inorder (s_task_tree io)) = set (inorder (task_tree s)) - {t}"
     "tree_ok ((sy_tasks s)(t := None)) (s_task_tree io)"
    using us by (auto simp: task_tree_def lbz_dev_set_faulty_def)
  let ?y = "lbz_put_zone (lbz_zone_complete_write z)"
  let ?zmd2 = "?zmd\<lparr>zmd_zones := (zmd_zones ?zmd)(p \<mapsto> ?y)\<rparr>"
  have rg: "zmd_rget K ?zmd2 q = zmd_rget K ?zmd q" for q
    by (rule zmd_rget_cong [OF z, of ?y]) (simp_all add: zone_simps)
  let ?d3 = "?d2\<lparr>d_iosched := io, d_zone_metadata := ?zmd2,
      d_user_write_inflight_io_cnt := d_user_write_inflight_io_cnt (sy_dev s) - 1\<rparr>"
  let ?s' = "su\<lparr>sy_dev := ?d3, sy_tasks := (sy_tasks s)(t := None)\<rparr>"
  have "lbz_write_io_endio K b s = Some ?s'"
    using x t st sd io(1,2) z us unhook_dev(1) [OF u]
    by (cases "t_type tk = LBZ_TASK_USER_WRITE")
      (simp_all add: lbz_write_io_endio_def upd_dev_def upd_zmd_def put_zone_def upd_zone_def lbz_dev_set_faulty_def)
  then show ?thesis using io(3,4) us rg
    by (intro exI [of _ ?s']) (simp add: task_tree_def fun_eq_iff lbz_dev_set_faulty_def is_dev_faulty_def set_bit_bit_iff)
qed

text \<open>
  C18. A user write that the backing device fails: the handler does not stop, no mapping and no
  reverse entry changes (the old data stays readable), the device becomes faulty, the task is
  freed, and the bio is given back with its error.
\<close>

theorem write_endio_fault:
  assumes K: "kern_ok K" and w: "write_in_flight s b x t tk p" and z: "zmd_zones (d_zone_metadata (sy_dev s)) p = Some z"
    and st: "bi_status x = Some err" and u: "unhook_io b s = Some su"
  shows "\<exists>s'. lbz_write_io_endio K b s = Some s' \<and> is_dev_faulty (sy_dev s') \<and>
     d_mapping (sy_dev s') = d_mapping (sy_dev s) \<and>
     zmd_rget K (d_zone_metadata (sy_dev s')) = zmd_rget K (d_zone_metadata (sy_dev s)) \<and>
     sy_tasks s' = (sy_tasks s)(t := None) \<and> tree_ok (sy_tasks s') (task_tree s') \<and>
     set (inorder (task_tree s')) = set (inorder (task_tree s)) - {t} \<and>
     sy_bios s' = sy_bios su \<and> sy_done s' = sy_done su"
  using write_endio_fault_core [OF assms] by blast

end
