(* ===== verification/Gc_Path.thy ===== *)
theory Gc_Path
  imports Gc Write_Path
begin

text \<open>
  What the completion of a write of the collector does to the whole driver, and facts about the
  collector's scan and pass.
\<close>

definition gc_write_in_flight :: "kern \<Rightarrow> lbz_sys \<Rightarrow> bptr \<Rightarrow> bio \<Rightarrow> tptr \<Rightarrow> lbz_io_task \<Rightarrow> zptr \<Rightarrow> bool" where
  "gc_write_in_flight K s b x t tk p \<longleftrightarrow>
     sy_bios s b = Some x \<and> bi_end_io x = GcWriteEndio t \<and>
     sy_tasks s t = Some tk \<and> t_zone tk = Some p \<and> t_link tk = LinkZone (get_zone_by_pbid K (t_pbid tk)) \<and>
     t_status tk = LBZ_TASK_DISPATCH \<and> t_type tk = LBZ_TASK_GC \<and> t_refcount tk = 2 \<and> t_gc tk = GcIosched \<and>
     (\<forall>e. t_integrity_buf tk \<noteq> BufErr e) \<and> (\<exists>pg. t_page tk = Some pg \<and> sy_pages s pg \<noteq> None) \<and>
     t \<in> set (inorder (task_tree s)) \<and> tree_ok (sy_tasks s) (task_tree s)"

lemma gc_remap_ok:
  assumes ok: "sys_maps_ok K s0" and ap: "append_ok K (d_zone_metadata (sy_dev s0)) p pbid"
    and s: "s = upd_dev (\<lambda>d. d\<lparr>d_zone_metadata := complete_zone p (d_zone_metadata d)\<rparr>) s0"
    and b: "map_get K (d_mapping (sy_dev s0)) (t_blkid tk) = Some (t_pbid tk)" and old: "t_pbid tk \<noteq> LBZ_INVALID_PBID"
    and tk: "t_zone tk = Some p" "t_link tk = LinkZone (get_zone_by_pbid K (t_pbid tk))"
  shows "\<exists>m zmd. gc_remap K tk pbid s = Some (upd_dev (\<lambda>d. d\<lparr>d_mapping := m, d_zone_metadata := zmd\<rparr>) s0) \<and>
     ftl_gc_done K p (t_blkid tk) (t_pbid tk) pbid (d_mapping (sy_dev s0), d_zone_metadata (sy_dev s0)) =
       do { zmd \<leftarrow> upd_zone p lbz_put_zone zmd; zmd \<leftarrow> upd_zone (get_zone_by_pbid K (t_pbid tk)) lbz_put_zone zmd;
            Some (m, zmd) } \<and>
     zmd_wf zmd \<and> mapping_wf K m \<and> map_consistent (map_get K m) (zmd_rget K zmd) \<and>
     map_get K m = (map_get K (d_mapping (sy_dev s0)))(t_blkid tk \<mapsto> pbid) \<and>
     zmd_zones zmd p \<noteq> None \<and> zmd_zones zmd (get_zone_by_pbid K (t_pbid tk)) \<noteq> None \<and>
     zmd_rget K zmd (t_pbid tk) = Some LBZ_INVALID_PBID"
proof -
  let ?zmd = "d_zone_metadata (sy_dev s0)" and ?m = "d_mapping (sy_dev s0)" and ?b = "t_blkid tk" and ?o = "t_pbid tk"
  let ?rz = "get_zone_by_pbid K ?o"
  have "maps_ok K ?m ?zmd" using ok by (simp add: sys_maps_ok_def maps_ok_def)
  from move_ok [OF this ap b old] obtain m zmd1 zmd2 zmd3 where
    r: "upd_zone p lbz_zone_complete_write ?zmd = Some (complete_zone p ?zmd)"
     "lbz_zone_update_reverse_map p pbid ?b (complete_zone p ?zmd) = Some zmd1"
     "lbz_mapping_add K ?m ?b pbid = Some (?o, m)"
     "lbz_zone_update_reverse_map ?rz ?o LBZ_INVALID_PBID zmd1 = Some zmd2"
     "lbz_zone_release_global_res ?rz zmd2 = Some zmd3"
     "maps_ok K m zmd3" "map_get K m = (map_get K ?m)(?b \<mapsto> pbid)"
     "zmd_rget K zmd3 = (drop_entry ?o (zmd_rget K ?zmd))(pbid \<mapsto> ?b)" "pbid \<noteq> ?o"
     "zmd_zones zmd3 p \<noteq> None" "zmd_zones zmd3 ?rz \<noteq> None" by blast
  have "gc_remap K tk pbid s = Some (upd_dev (\<lambda>d. d\<lparr>d_mapping := m, d_zone_metadata := zmd3\<rparr>) s0)"
    using r(2-5) old tk by (simp add: gc_remap_def s upd_zmd_def upd_dev_def read_zone_def)
  moreover have "zmd_rget K zmd3 ?o = Some LBZ_INVALID_PBID" using r(8,9) old by (simp add: drop_entry_def)
  ultimately show ?thesis using r old
    by (intro exI [of _ m] exI [of _ zmd3]) (simp add: ftl_gc_done_def Let_def maps_ok_def)
qed

text \<open>Unwinding a dispatched write of the collector: both zones are released, the task and its page are freed.\<close>

lemma put_zone_rget:
  assumes "zmd_zones zmd p \<noteq> None"
  shows "\<exists>zmd'. upd_zone p lbz_put_zone zmd = Some zmd' \<and> zmd_rget K zmd' = zmd_rget K zmd \<and>
     (\<forall>q. zmd_zones zmd q \<noteq> None \<longrightarrow> zmd_zones zmd' q \<noteq> None)"
proof -
  from assms obtain y where y: "zmd_zones zmd p = Some y" by blast
  have "zmd_rget K (zmd\<lparr>zmd_zones := (zmd_zones zmd)(p \<mapsto> lbz_put_zone y)\<rparr>) r = zmd_rget K zmd r" for r
    by (rule zmd_rget_cong [OF y, of "lbz_put_zone y"]) (simp_all add: zone_simps)
  then show ?thesis using y by (auto simp: upd_zone_def)
qed

lemma gc_unwind_dispatched:
  assumes K: "kern_ok K" and t: "sy_tasks s t = Some tk" "t_zone tk = Some p" "t_link tk = LinkZone rz"
      "t_type tk = LBZ_TASK_GC" "t_refcount tk = 2" "t_page tk = Some pg" "sy_pages s pg \<noteq> None"
      "\<And>e. t_integrity_buf tk \<noteq> BufErr e"
    and tree: "t \<in> set (inorder (task_tree s))" "tree_ok (sy_tasks s) (task_tree s)"
    and z: "zmd_zones (d_zone_metadata (sy_dev s)) p \<noteq> None" "zmd_zones (d_zone_metadata (sy_dev s)) rz \<noteq> None"
  shows "\<exists>io zmd. gc_unwind_writing K t s =
       Some (s\<lparr>sy_dev := (sy_dev s)\<lparr>d_iosched := io, d_zone_metadata := zmd\<rparr>,
               sy_tasks := (sy_tasks s)(t := None), sy_pages := (sy_pages s)(pg := None)\<rparr>) \<and>
     Option.bind (upd_zone p lbz_put_zone (d_zone_metadata (sy_dev s))) (upd_zone rz lbz_put_zone) = Some zmd \<and>
     zmd_rget K zmd = zmd_rget K (d_zone_metadata (sy_dev s)) \<and>
     set (inorder (s_task_tree io)) = set (inorder (task_tree s)) - {t} \<and>
     tree_ok ((sy_tasks s)(t := None)) (s_task_tree io)"
proof -
  let ?tr = "rb_erase K t (task_tree s)" and ?zmd = "d_zone_metadata (sy_dev s)"
  let ?io = "(d_iosched (sy_dev s))\<lparr>s_task_tree := ?tr, s_task_count := s_task_count (d_iosched (sy_dev s)) - 1\<rparr>"
  have d: "distinct (inorder (task_tree s))" by (rule tree_ok_distinct [OF tree(2)])
  then have i: "inorder ?tr = remove1 t (inorder (task_tree s))" using K by (simp add: kern_ok_def)
  have set': "set (inorder ?tr) = set (inorder (task_tree s)) - {t}" using i d by simp
  have "tree_ok (sy_tasks s) ?tr" by (rule tree_ok_remove [OF tree(2) i])
  then have ok: "tree_ok ((sy_tasks s)(t := None)) ?tr" by (rule tree_ok_forget) (use set' in auto)
  from put_zone_rget [OF z(1), of K] obtain zmd1 where z1: "upd_zone p lbz_put_zone ?zmd = Some zmd1"
      "zmd_rget K zmd1 = zmd_rget K ?zmd" "zmd_zones zmd1 rz \<noteq> None" using z(2) by blast
  from put_zone_rget [OF z1(3), of K] obtain zmd2 where z2: "upd_zone rz lbz_put_zone zmd1 = Some zmd2"
      "zmd_rget K zmd2 = zmd_rget K zmd1" by blast
  let ?s1 = "s\<lparr>sy_dev := (sy_dev s)\<lparr>d_zone_metadata := zmd1\<rparr>\<rparr>"
  let ?s2 = "s\<lparr>sy_dev := (sy_dev s)\<lparr>d_iosched := ?io, d_zone_metadata := zmd1\<rparr>\<rparr>"
  let ?s3 = "?s2\<lparr>sy_tasks := (sy_tasks s)(t \<mapsto> tk\<lparr>t_refcount := 1\<rparr>)\<rparr>"
  have 1: "put_zone p s = Some ?s1" using z1(1) by (simp add: put_zone_def upd_zmd_def upd_dev_def)
  have 2: "del_task_from_tree K t ?s1 = Some ?s2"
    using tree(1) by (simp add: del_task_from_tree_def Let_def upd_iosched_def upd_dev_def task_tree_def)
  have 3: "gc_task_put t ?s2 = Some ?s3" using t(1,5) by (simp add: gc_task_put_def task_dec_def Let_def)
  let ?s4 = "?s3\<lparr>sy_pages := (sy_pages s)(pg := None)\<rparr>"
  let ?s5 = "?s4\<lparr>sy_dev := (sy_dev s)\<lparr>d_iosched := ?io, d_zone_metadata := zmd2\<rparr>\<rparr>"
  let ?s' = "s\<lparr>sy_dev := (sy_dev s)\<lparr>d_iosched := ?io, d_zone_metadata := zmd2\<rparr>,
               sy_tasks := (sy_tasks s)(t := None), sy_pages := (sy_pages s)(pg := None)\<rparr>"
  have 4: "put_zone rz ?s4 = Some ?s5" using z2(1) by (simp add: put_zone_def upd_zmd_def upd_dev_def)
  have 5: "gc_task_put t ?s5 = Some ?s'"
    using t(4,8) by (cases "t_integrity_buf tk") (auto simp: gc_task_put_def task_dec_def Let_def task_destroy_def)
  have 6: "gc_unwind_init t ?s4 = Some ?s'" using 4 5 t(3) by (simp add: gc_unwind_init_def read_zone_def)
  have 7: "gc_unwind_reading t ?s3 = Some ?s'" using 6 t(6,7) by (auto simp: gc_unwind_reading_def)
  have "gc_unwind_writing K t s = Some ?s'"
    using t(1,2) 1 2 3 7 by (simp add: gc_unwind_writing_def gc_unwind_alloc_def)
  then show ?thesis using z1(1,2) z2 set' ok by (intro exI [of _ ?io] exI [of _ zmd2]) simp
qed

text \<open>
  The completion of a copy, whatever its outcome, from what its callback does to the maps: the update
  when the copy succeeded on a device without errors, nothing otherwise.
\<close>

lemma gc_write_endio_from:
  assumes K: "kern_ok K" and w: "gc_write_in_flight K s b x t tk p"
    and pz: "zmd_zones (d_zone_metadata (sy_dev s)) p \<noteq> None"
    and s1: "s1 = s\<lparr>sy_tasks := (sy_tasks s)(t \<mapsto> tk\<lparr>t_error := bi_status x\<rparr>)\<rparr>"
    and s2: "s2 = upd_dev (\<lambda>d. d\<lparr>d_zone_metadata := complete_zone p (d_zone_metadata d)\<rparr>) s1"
    and r: "(if \<not> is_dev_faulty (sy_dev s) \<and> bi_status x = None
        then gc_remap K (tk\<lparr>t_error := bi_status x\<rparr>) (sector_to_blkid (bi_sector x)) s2 else Some s2) =
      Some (upd_dev (\<lambda>d. d\<lparr>d_mapping := m, d_zone_metadata := zmd\<rparr>) s1)"
    and z: "zmd_zones zmd p \<noteq> None" "zmd_zones zmd (get_zone_by_pbid K (t_pbid tk)) \<noteq> None"
  shows "\<exists>s' zmd'. lbz_gc_write_endio K b s = Some s' \<and>
     Option.bind (upd_zone p lbz_put_zone zmd) (upd_zone (get_zone_by_pbid K (t_pbid tk)) lbz_put_zone) = Some zmd' \<and>
     d_mapping (sy_dev s') = m \<and> d_zone_metadata (sy_dev s') = zmd' \<and> zmd_rget K zmd' = zmd_rget K zmd \<and>
     sy_tasks s' = (sy_tasks s)(t := None) \<and> tree_ok (sy_tasks s') (task_tree s') \<and>
     set (inorder (task_tree s')) = set (inorder (task_tree s)) - {t} \<and>
     sy_pages s' = (sy_pages s)(the (t_page tk) := None) \<and> sy_bios s' = (sy_bios s)(b := None) \<and>
     d_gc_inflight_io_cnt (sy_dev s') = d_gc_inflight_io_cnt (sy_dev s) - 1 \<and>
     d_flags (sy_dev s') = (if bi_status x = None then d_flags (sy_dev s) else d_flags (lbz_dev_set_faulty (sy_dev s))) \<and>
     d_gc_ctx (sy_dev s') = d_gc_ctx (sy_dev s)"
proof -
  let ?rz = "get_zone_by_pbid K (t_pbid tk)" and ?pbid = "sector_to_blkid (bi_sector x)"
  from w obtain pg where x: "sy_bios s b = Some x" "bi_end_io x = GcWriteEndio t"
    and t: "sy_tasks s t = Some tk" "t_zone tk = Some p" "t_link tk = LinkZone ?rz" "t_status tk = LBZ_TASK_DISPATCH"
      "t_type tk = LBZ_TASK_GC" "t_refcount tk = 2" "t_gc tk = GcIosched" "\<And>e. t_integrity_buf tk \<noteq> BufErr e"
      "t_page tk = Some pg" "sy_pages s pg \<noteq> None"
    and tree: "t \<in> set (inorder (task_tree s))" "tree_ok (sy_tasks s) (task_tree s)"
    by (auto simp: gc_write_in_flight_def)
  let ?tk = "tk\<lparr>t_error := bi_status x\<rparr>" and ?s3 = "upd_dev (\<lambda>d. d\<lparr>d_mapping := m, d_zone_metadata := zmd\<rparr>) s1"
  have s3: "sy_tasks ?s3 t = Some ?tk" "task_tree ?s3 = task_tree s" "d_zone_metadata (sy_dev ?s3) = zmd"
      "sy_pages ?s3 = sy_pages s" "tree_ok (sy_tasks ?s3) (task_tree ?s3)"
    using tree(2) t(1) by (simp_all add: s1 upd_dev_def task_tree_def tree_ok_upd)
  have f: "t_zone ?tk = Some p" "t_link ?tk = LinkZone ?rz" "t_type ?tk = LBZ_TASK_GC" "t_refcount ?tk = 2"
      "t_page ?tk = Some pg" "sy_pages ?s3 pg \<noteq> None" "\<And>e. t_integrity_buf ?tk \<noteq> BufErr e"
      "t \<in> set (inorder (task_tree ?s3))"
      "zmd_zones (d_zone_metadata (sy_dev ?s3)) p \<noteq> None" "zmd_zones (d_zone_metadata (sy_dev ?s3)) ?rz \<noteq> None"
    using t tree(1) z unfolding s3 by auto
  from gc_unwind_dispatched [OF K s3(1) f(1-8) s3(5) f(9-10)] obtain io zmd2 where
    g: "gc_unwind_writing K t ?s3 = Some (?s3\<lparr>sy_dev := (sy_dev ?s3)\<lparr>d_iosched := io, d_zone_metadata := zmd2\<rparr>,
               sy_tasks := (sy_tasks s)(t := None), sy_pages := (sy_pages s)(pg := None)\<rparr>)"
      "Option.bind (upd_zone p lbz_put_zone zmd) (upd_zone ?rz lbz_put_zone) = Some zmd2"
      "zmd_rget K zmd2 = zmd_rget K zmd"
      "set (inorder (s_task_tree io)) = set (inorder (task_tree s)) - {t}"
      "tree_ok ((sy_tasks s)(t := None)) (s_task_tree io)"
    using s3 by (auto simp: s1 upd_dev_def)
  let ?d0 = "(sy_dev s)\<lparr>d_mapping := m, d_zone_metadata := zmd2, d_iosched := io\<rparr>"
  let ?d = "lbz_dec_gc_inflight (if bi_status x = None then ?d0 else lbz_dev_set_faulty (lbz_inc_gc_write_err ?d0))"
  let ?s' = "s\<lparr>sy_dev := ?d, sy_tasks := (sy_tasks s)(t := None), sy_pages := (sy_pages s)(pg := None),
      sy_bios := (sy_bios s)(b := None)\<rparr>"
  have cb: "gc_task_callback K t ?pbid s2 = gc_unwind_writing K t ?s3"
  proof -
    have "gc_task_callback K t ?pbid s2 = Option.bind (if \<not> is_dev_faulty (sy_dev s) \<and> bi_status x = None
        then gc_remap K ?tk ?pbid s2 else Some s2) (gc_unwind_writing K t)"
      using t(4,7) by (simp add: s1 s2 gc_task_callback_def task_iosched_def upd_dev_def is_dev_faulty_def)
    then show ?thesis by (simp only: r Option.bind.simps)
  qed
  have cz: "upd_zone p lbz_zone_complete_write (d_zone_metadata (sy_dev s)) =
      Some (complete_zone p (d_zone_metadata (sy_dev s)))"
    using pz by (auto simp: upd_zone_def complete_zone_def)
  have "lbz_gc_write_endio K b s = Some ?s'"
    using x t(1,2,7) cb g(1) cz
    by (cases "bi_status x")
      (simp_all add: s1 s2 lbz_gc_write_endio_def task_iosched_def upd_task_def upd_zmd_def upd_dev_def bio_put_def
        lbz_dec_gc_inflight_def lbz_dev_set_faulty_def lbz_inc_gc_write_err_def)
  then show ?thesis using g(2-5) t(9)
    by (intro exI [of _ ?s'] exI [of _ zmd2])
      (simp add: task_tree_def lbz_dec_gc_inflight_def lbz_dev_set_faulty_def lbz_inc_gc_write_err_def)
qed

lemma puts_wf:
  assumes "zmd_wf zmd" "Option.bind (upd_zone p lbz_put_zone zmd) (upd_zone q lbz_put_zone) = Some zmd'"
  shows "zmd_wf zmd'"
  using zmd_wf_put_zone [OF zmd_wf_put_zone [OF assms(1)]] assms(2) by (auto simp: bind_eq_Some_conv)

text \<open>The completion of a copy, with its effect on the maps and the zone table.\<close>

lemma gc_write_endio_core:
  assumes K: "kern_ok K" and ok: "sys_maps_ok K s" and w: "gc_write_in_flight K s b x t tk p"
    and st: "bi_status x = None" and nf: "\<not> is_dev_faulty (sy_dev s)"
    and ap: "append_ok K (d_zone_metadata (sy_dev s)) p (sector_to_blkid (bi_sector x))"
    and cur: "map_get K (d_mapping (sy_dev s)) (t_blkid tk) = Some (t_pbid tk)" and old: "t_pbid tk \<noteq> LBZ_INVALID_PBID"
  shows "\<exists>s'. lbz_gc_write_endio K b s = Some s' \<and>
     ftl_gc_done K p (t_blkid tk) (t_pbid tk) (sector_to_blkid (bi_sector x)) (d_mapping (sy_dev s), d_zone_metadata (sy_dev s)) =
       Some (d_mapping (sy_dev s'), d_zone_metadata (sy_dev s')) \<and> sys_maps_ok K s' \<and>
     map_get K (d_mapping (sy_dev s')) =
       (map_get K (d_mapping (sy_dev s)))(t_blkid tk \<mapsto> sector_to_blkid (bi_sector x)) \<and>
     zmd_rget K (d_zone_metadata (sy_dev s')) (t_pbid tk) = Some LBZ_INVALID_PBID \<and>
     sy_tasks s' = (sy_tasks s)(t := None) \<and> tree_ok (sy_tasks s') (task_tree s') \<and>
     set (inorder (task_tree s')) = set (inorder (task_tree s)) - {t} \<and>
     sy_pages s' = (sy_pages s)(the (t_page tk) := None) \<and> sy_bios s' = (sy_bios s)(b := None) \<and>
     d_gc_inflight_io_cnt (sy_dev s') = d_gc_inflight_io_cnt (sy_dev s) - 1 \<and>
     d_flags (sy_dev s') = d_flags (sy_dev s) \<and> d_gc_ctx (sy_dev s') = d_gc_ctx (sy_dev s)"
proof -
  let ?pbid = "sector_to_blkid (bi_sector x)" and ?rz = "get_zone_by_pbid K (t_pbid tk)"
  let ?tk = "tk\<lparr>t_error := bi_status x\<rparr>"
  let ?s1 = "s\<lparr>sy_tasks := (sy_tasks s)(t \<mapsto> ?tk)\<rparr>"
  let ?s2 = "upd_dev (\<lambda>d. d\<lparr>d_zone_metadata := complete_zone p (d_zone_metadata d)\<rparr>) ?s1"
  have t: "t_zone tk = Some p" "t_link tk = LinkZone ?rz" using w by (simp_all add: gc_write_in_flight_def)
  have pz: "zmd_zones (d_zone_metadata (sy_dev s)) p \<noteq> None" using ap by (auto simp: append_ok_def split: option.splits)
  have ok1: "sys_maps_ok K ?s1" using ok by (simp add: sys_maps_ok_def)
  have "\<exists>m zmd. gc_remap K ?tk ?pbid ?s2 = Some (upd_dev (\<lambda>d. d\<lparr>d_mapping := m, d_zone_metadata := zmd\<rparr>) ?s1) \<and>
     ftl_gc_done K p (t_blkid ?tk) (t_pbid ?tk) ?pbid (d_mapping (sy_dev ?s1), d_zone_metadata (sy_dev ?s1)) =
       do { zmd \<leftarrow> upd_zone p lbz_put_zone zmd; zmd \<leftarrow> upd_zone (get_zone_by_pbid K (t_pbid ?tk)) lbz_put_zone zmd;
            Some (m, zmd) } \<and>
     zmd_wf zmd \<and> mapping_wf K m \<and> map_consistent (map_get K m) (zmd_rget K zmd) \<and>
     map_get K m = (map_get K (d_mapping (sy_dev ?s1)))(t_blkid ?tk \<mapsto> ?pbid) \<and>
     zmd_zones zmd p \<noteq> None \<and> zmd_zones zmd (get_zone_by_pbid K (t_pbid ?tk)) \<noteq> None \<and>
     zmd_rget K zmd (t_pbid ?tk) = Some LBZ_INVALID_PBID"
    by (rule gc_remap_ok [OF ok1 _ refl]) (use ap cur old t in simp_all)
  then obtain m zmd where
    r: "gc_remap K ?tk ?pbid ?s2 = Some (upd_dev (\<lambda>d. d\<lparr>d_mapping := m, d_zone_metadata := zmd\<rparr>) ?s1)"
      "zmd_wf zmd" "mapping_wf K m" "map_consistent (map_get K m) (zmd_rget K zmd)"
      "map_get K m = (map_get K (d_mapping (sy_dev s)))(t_blkid tk \<mapsto> ?pbid)"
      "zmd_zones zmd p \<noteq> None" "zmd_zones zmd ?rz \<noteq> None" "zmd_rget K zmd (t_pbid tk) = Some LBZ_INVALID_PBID"
    and r0: "ftl_gc_done K p (t_blkid tk) (t_pbid tk) ?pbid (d_mapping (sy_dev s), d_zone_metadata (sy_dev s)) =
       do { zmd \<leftarrow> upd_zone p lbz_put_zone zmd; zmd \<leftarrow> upd_zone ?rz lbz_put_zone zmd; Some (m, zmd) }" by auto
  have "(if \<not> is_dev_faulty (sy_dev s) \<and> bi_status x = None then gc_remap K ?tk ?pbid ?s2 else Some ?s2) =
      Some (upd_dev (\<lambda>d. d\<lparr>d_mapping := m, d_zone_metadata := zmd\<rparr>) ?s1)" using r(1) st nf by simp
  from gc_write_endio_from [OF K w pz refl refl this r(6,7)] obtain s' zmd' where s':
    "lbz_gc_write_endio K b s = Some s'"
    "Option.bind (upd_zone p lbz_put_zone zmd) (upd_zone ?rz lbz_put_zone) = Some zmd'"
    "d_mapping (sy_dev s') = m" "d_zone_metadata (sy_dev s') = zmd'" "zmd_rget K zmd' = zmd_rget K zmd"
    "sy_tasks s' = (sy_tasks s)(t := None)" "tree_ok (sy_tasks s') (task_tree s')"
    "set (inorder (task_tree s')) = set (inorder (task_tree s)) - {t}"
    "sy_pages s' = (sy_pages s)(the (t_page tk) := None)" "sy_bios s' = (sy_bios s)(b := None)"
    "d_gc_inflight_io_cnt (sy_dev s') = d_gc_inflight_io_cnt (sy_dev s) - 1"
    "d_flags (sy_dev s') = d_flags (sy_dev s)" "d_gc_ctx (sy_dev s') = d_gc_ctx (sy_dev s)" using st by auto
  have "ftl_gc_done K p (t_blkid tk) (t_pbid tk) ?pbid (d_mapping (sy_dev s), d_zone_metadata (sy_dev s)) =
      Some (d_mapping (sy_dev s'), d_zone_metadata (sy_dev s'))"
    unfolding r0 using s'(2-4) by (auto simp: bind_eq_Some_conv)
  moreover have "sys_maps_ok K s'" using r(3,4) s'(3-5) puts_wf [OF r(2) s'(2)] by (simp add: sys_maps_ok_def)
  ultimately show ?thesis using s' r(5,8) by auto
qed

text \<open>A copy that was written successfully while its block was freed: the block is mapped to the copy.\<close>

lemma gc_write_endio_freed:
  assumes K: "kern_ok K" and ok: "sys_maps_ok K s" and w: "gc_write_in_flight K s b x t tk p"
    and st: "bi_status x = None" and nf: "\<not> is_dev_faulty (sy_dev s)"
    and ap: "append_ok K (d_zone_metadata (sy_dev s)) p (sector_to_blkid (bi_sector x))"
    and freed: "map_get K (d_mapping (sy_dev s)) (t_blkid tk) = Some LBZ_INVALID_PBID"
    and rz: "zmd_zones (d_zone_metadata (sy_dev s)) (get_zone_by_pbid K (t_pbid tk)) \<noteq> None"
  shows "\<exists>s'. lbz_gc_write_endio K b s = Some s' \<and>
     ftl_gc_done K p (t_blkid tk) (t_pbid tk) (sector_to_blkid (bi_sector x)) (d_mapping (sy_dev s), d_zone_metadata (sy_dev s)) =
       Some (d_mapping (sy_dev s'), d_zone_metadata (sy_dev s')) \<and> sys_maps_ok K s' \<and>
     map_get K (d_mapping (sy_dev s')) =
       (map_get K (d_mapping (sy_dev s)))(t_blkid tk \<mapsto> sector_to_blkid (bi_sector x))"
proof -
  let ?pbid = "sector_to_blkid (bi_sector x)" and ?rz = "get_zone_by_pbid K (t_pbid tk)"
  let ?m0 = "d_mapping (sy_dev s)" and ?zmd0 = "d_zone_metadata (sy_dev s)"
  let ?tk = "tk\<lparr>t_error := bi_status x\<rparr>"
  let ?s1 = "s\<lparr>sy_tasks := (sy_tasks s)(t \<mapsto> ?tk)\<rparr>"
  let ?s2 = "upd_dev (\<lambda>d. d\<lparr>d_zone_metadata := complete_zone p (d_zone_metadata d)\<rparr>) ?s1"
  have t: "t_zone tk = Some p" "t_link tk = LinkZone ?rz" using w by (simp_all add: gc_write_in_flight_def)
  have pz: "zmd_zones ?zmd0 p \<noteq> None" using ap by (auto simp: append_ok_def split: option.splits)
  have "maps_ok K ?m0 ?zmd0" using ok by (simp add: sys_maps_ok_def maps_ok_def)
  from gc_done_freed [OF this ap freed rz] obtain m zmd' where d:
    "ftl_gc_done K p (t_blkid tk) (t_pbid tk) ?pbid (?m0, ?zmd0) = Some (m, zmd')" "maps_ok K m zmd'"
    "map_get K m = (map_get K ?m0)(t_blkid tk \<mapsto> ?pbid)" by blast
  from fm.add_some [OF freed] obtain m1 where a: "lbz_mapping_add K ?m0 (t_blkid tk) ?pbid = Some (LBZ_INVALID_PBID, m1)" by blast
  have cz: "upd_zone p lbz_zone_complete_write ?zmd0 = Some (complete_zone p ?zmd0)"
    using pz by (auto simp: upd_zone_def complete_zone_def)
  from d(1) a cz obtain zmd zmd1 where u: "lbz_zone_update_reverse_map p ?pbid (t_blkid tk) (complete_zone p ?zmd0) = Some zmd"
    "m = m1" "upd_zone p lbz_put_zone zmd = Some zmd1" "upd_zone ?rz lbz_put_zone zmd1 = Some zmd'"
    by (auto simp: ftl_gc_done_def Let_def bind_eq_Some_conv)
  have z: "zmd_zones zmd p \<noteq> None" "zmd_zones zmd ?rz \<noteq> None"
    using u(3,4) by (auto simp: upd_zone_def split: option.split_asm if_split_asm)
  have "gc_remap K ?tk ?pbid ?s2 = Some (upd_dev (\<lambda>d. d\<lparr>d_mapping := m, d_zone_metadata := zmd\<rparr>) ?s1)"
    using t a u(1,2) by (simp add: gc_remap_def upd_zmd_def upd_dev_def)
  then have "(if \<not> is_dev_faulty (sy_dev s) \<and> bi_status x = None then gc_remap K ?tk ?pbid ?s2 else Some ?s2) =
      Some (upd_dev (\<lambda>d. d\<lparr>d_mapping := m, d_zone_metadata := zmd\<rparr>) ?s1)" using st nf by simp
  from gc_write_endio_from [OF K w pz refl refl this z] obtain s' where
    "lbz_gc_write_endio K b s = Some s'" "d_mapping (sy_dev s') = m" "d_zone_metadata (sy_dev s') = zmd'"
    using u(3,4) by auto
  moreover from this d(2) have "sys_maps_ok K s'" by (simp add: sys_maps_ok_def maps_ok_def)
  ultimately show ?thesis using d by auto
qed

text \<open>
  What a completion without success leaves in the zone table: the write is no longer pending, and the
  references of the operation are dropped.
\<close>

definition ftl_write_failed :: "zptr list \<Rightarrow> zptr \<Rightarrow> lbz_zone_metadata \<Rightarrow> lbz_zone_metadata option" where
  "ftl_write_failed refs zone zmd =
     fold (\<lambda>q r. Option.bind r (upd_zone q lbz_put_zone)) refs (upd_zone zone lbz_zone_complete_write zmd)"

text \<open>The copy failed, or the device had failed before: no map changes.\<close>

lemma gc_write_endio_failed:
  assumes K: "kern_ok K" and w: "gc_write_in_flight K s b x t tk p"
    and st: "bi_status x \<noteq> None \<or> is_dev_faulty (sy_dev s)"
    and pz: "zmd_zones (d_zone_metadata (sy_dev s)) p \<noteq> None"
    and rz: "zmd_zones (d_zone_metadata (sy_dev s)) (get_zone_by_pbid K (t_pbid tk)) \<noteq> None"
  shows "\<exists>s'. lbz_gc_write_endio K b s = Some s' \<and> is_dev_faulty (sy_dev s') \<and>
     d_mapping (sy_dev s') = d_mapping (sy_dev s) \<and>
     ftl_write_failed [p, get_zone_by_pbid K (t_pbid tk)] p (d_zone_metadata (sy_dev s)) = Some (d_zone_metadata (sy_dev s')) \<and>
     zmd_rget K (d_zone_metadata (sy_dev s')) = zmd_rget K (d_zone_metadata (sy_dev s)) \<and>
     sy_tasks s' = (sy_tasks s)(t := None) \<and> sy_bios s' = (sy_bios s)(b := None)"
proof -
  let ?rz = "get_zone_by_pbid K (t_pbid tk)" and ?zmd = "complete_zone p (d_zone_metadata (sy_dev s))"
  let ?s1 = "s\<lparr>sy_tasks := (sy_tasks s)(t \<mapsto> tk\<lparr>t_error := bi_status x\<rparr>)\<rparr>"
  let ?s2 = "upd_dev (\<lambda>d. d\<lparr>d_zone_metadata := complete_zone p (d_zone_metadata d)\<rparr>) ?s1"
  have r: "(if \<not> is_dev_faulty (sy_dev s) \<and> bi_status x = None
      then gc_remap K (tk\<lparr>t_error := bi_status x\<rparr>) (sector_to_blkid (bi_sector x)) ?s2 else Some ?s2) =
      Some (upd_dev (\<lambda>d. d\<lparr>d_mapping := d_mapping (sy_dev s), d_zone_metadata := ?zmd\<rparr>) ?s1)"
    using st by (auto simp: upd_dev_def)
  have z: "zmd_zones ?zmd p \<noteq> None" "zmd_zones ?zmd ?rz \<noteq> None" using rz by (auto simp: complete_zone_def)
  have cz: "upd_zone p lbz_zone_complete_write (d_zone_metadata (sy_dev s)) = Some ?zmd"
    using pz by (auto simp: upd_zone_def complete_zone_def)
  have g: "zmd_rget K ?zmd = zmd_rget K (d_zone_metadata (sy_dev s))" using complete_zone_rget [OF pz, of K] by (simp add: fun_eq_iff)
  have f: "is_dev_faulty d = is_dev_faulty d'" if "d_flags d = d_flags d'" for d d' :: lbz_device
    using that by (simp add: is_dev_faulty_def)
  from gc_write_endio_from [OF K w pz refl refl r z] obtain s' where s': "lbz_gc_write_endio K b s = Some s'"
    "Option.bind (upd_zone p lbz_put_zone ?zmd) (upd_zone ?rz lbz_put_zone) = Some (d_zone_metadata (sy_dev s'))"
    "d_mapping (sy_dev s') = d_mapping (sy_dev s)" "zmd_rget K (d_zone_metadata (sy_dev s')) = zmd_rget K ?zmd"
    "sy_tasks s' = (sy_tasks s)(t := None)" "sy_bios s' = (sy_bios s)(b := None)"
    "d_flags (sy_dev s') = (if bi_status x = None then d_flags (sy_dev s) else d_flags (lbz_dev_set_faulty (sy_dev s)))"
    by blast
  have "is_dev_faulty (sy_dev s')"
    using st f [of "sy_dev s'" "sy_dev s"] f [of "sy_dev s'" "lbz_dev_set_faulty (sy_dev s)"] s'(7)
    by (auto simp: bit_flags split: if_splits)
  then show ?thesis using s' cz g by (auto simp: ftl_write_failed_def)
qed

text \<open>
  C5. The collector's copy of a block that was not rewritten meanwhile reaches the backing
  device: the handler does not stop; the block is mapped to the new address, no other mapping
  changes, the old physical block is released; the maps stay inverse to each other and the zone
  table well formed; the task, its page and its bio are freed and the block is unlocked.
\<close>

theorem gc_write_endio_moves:
  assumes K: "kern_ok K" and ok: "sys_maps_ok K s" and w: "gc_write_in_flight K s b x t tk p"
    and st: "bi_status x = None" and nf: "\<not> is_dev_faulty (sy_dev s)"
    and ap: "append_ok K (d_zone_metadata (sy_dev s)) p (sector_to_blkid (bi_sector x))"
    and cur: "map_get K (d_mapping (sy_dev s)) (t_blkid tk) = Some (t_pbid tk)" and old: "t_pbid tk \<noteq> LBZ_INVALID_PBID"
  shows "\<exists>s'. lbz_gc_write_endio K b s = Some s' \<and> sys_maps_ok K s' \<and>
     map_get K (d_mapping (sy_dev s')) =
       (map_get K (d_mapping (sy_dev s)))(t_blkid tk \<mapsto> sector_to_blkid (bi_sector x)) \<and>
     zmd_rget K (d_zone_metadata (sy_dev s')) (t_pbid tk) = Some LBZ_INVALID_PBID \<and>
     sy_tasks s' = (sy_tasks s)(t := None) \<and> tree_ok (sy_tasks s') (task_tree s') \<and>
     set (inorder (task_tree s')) = set (inorder (task_tree s)) - {t} \<and>
     sy_pages s' = (sy_pages s)(the (t_page tk) := None) \<and> sy_bios s' = (sy_bios s)(b := None) \<and>
     d_gc_inflight_io_cnt (sy_dev s') = d_gc_inflight_io_cnt (sy_dev s) - 1"
  using gc_write_endio_core [OF assms] by blast

text \<open>
  C8. What the completions that move data do to the forward map and the zone table, for every outcome of the
  bio and for every state of the block that the driver can be in then. A user's write that succeeded
  does what \<open>ftl_write_done\<close> does, on a device with errors as well; a user's write that failed leaves the
  map alone and in the table only ends the pending write and drops the zone's reference. A copy that succeeded on a
  device without errors does what \<open>ftl_gc_done\<close> does, both when its block is still at the old
  address and when it was freed meanwhile, in which case the freed block is mapped again, to the copy; a copy that
  failed, or that ended on a device with errors, leaves the map alone, ends the pending write, and drops
  the references of both zones. An error makes the device faulty. The hypotheses describe the
  bio and the task in flight, the consistency of the maps, and (for a success) an address that the zone
  append may return.
\<close>

theorem endio_is_ftl_done:
  assumes "kern_ok K" and "sys_maps_ok K s" and "zmd_zones (d_zone_metadata (sy_dev s)) p \<noteq> None"
    and "bi_status x = None \<longrightarrow> append_ok K (d_zone_metadata (sy_dev s)) p (sector_to_blkid (bi_sector x))"
  shows "(write_in_flight s b x t tk p \<and> unhook_io b s \<noteq> None \<and> map_get K (d_mapping (sy_dev s)) (t_blkid tk) \<noteq> None \<longrightarrow>
       (\<exists>s'. lbz_write_io_endio K b s = Some s' \<and>
          (if bi_status x = None
           then ftl_write_done K p (t_blkid tk) (sector_to_blkid (bi_sector x)) (d_mapping (sy_dev s), d_zone_metadata (sy_dev s)) =
               Some (d_mapping (sy_dev s'), d_zone_metadata (sy_dev s'))
           else d_mapping (sy_dev s') = d_mapping (sy_dev s) \<and> is_dev_faulty (sy_dev s') \<and>
             ftl_write_failed [p] p (d_zone_metadata (sy_dev s)) = Some (d_zone_metadata (sy_dev s'))))) \<and>
     (gc_write_in_flight K s b x t tk p \<and> t_pbid tk \<noteq> LBZ_INVALID_PBID \<and>
        map_get K (d_mapping (sy_dev s)) (t_blkid tk) \<in> {Some (t_pbid tk), Some LBZ_INVALID_PBID} \<and>
        zmd_zones (d_zone_metadata (sy_dev s)) (get_zone_by_pbid K (t_pbid tk)) \<noteq> None \<longrightarrow>
       (\<exists>s'. lbz_gc_write_endio K b s = Some s' \<and>
          (if bi_status x = None \<and> \<not> is_dev_faulty (sy_dev s)
           then ftl_gc_done K p (t_blkid tk) (t_pbid tk) (sector_to_blkid (bi_sector x))
               (d_mapping (sy_dev s), d_zone_metadata (sy_dev s)) =
               Some (d_mapping (sy_dev s'), d_zone_metadata (sy_dev s')) \<and>
             map_get K (d_mapping (sy_dev s')) (t_blkid tk) = Some (sector_to_blkid (bi_sector x))
           else d_mapping (sy_dev s') = d_mapping (sy_dev s) \<and> is_dev_faulty (sy_dev s') \<and>
             ftl_write_failed [p, get_zone_by_pbid K (t_pbid tk)] p (d_zone_metadata (sy_dev s)) =
               Some (d_zone_metadata (sy_dev s')))))"
proof (intro conjI impI; elim conjE)
  assume w: "write_in_flight s b x t tk p" and u: "unhook_io b s \<noteq> None"
    and m: "map_get K (d_mapping (sy_dev s)) (t_blkid tk) \<noteq> None"
  from u obtain su where su: "unhook_io b s = Some su" by blast
  from assms(3) obtain z where z: "zmd_zones (d_zone_metadata (sy_dev s)) p = Some z" by blast
  show "\<exists>s'. lbz_write_io_endio K b s = Some s' \<and>
          (if bi_status x = None
           then ftl_write_done K p (t_blkid tk) (sector_to_blkid (bi_sector x)) (d_mapping (sy_dev s), d_zone_metadata (sy_dev s)) =
               Some (d_mapping (sy_dev s'), d_zone_metadata (sy_dev s'))
           else d_mapping (sy_dev s') = d_mapping (sy_dev s) \<and> is_dev_faulty (sy_dev s') \<and>
             ftl_write_failed [p] p (d_zone_metadata (sy_dev s)) = Some (d_zone_metadata (sy_dev s')))"
  proof (cases "bi_status x")
    case None
    from write_endio_core [OF assms(1,2) w None su mp [OF assms(4) None] m] None show ?thesis by auto
  next
    case (Some e)
    from write_endio_fault_core [OF assms(1) w z Some su] Some z show ?thesis
      by (auto simp: ftl_write_failed_def upd_zone_def)
  qed
next
  assume w: "gc_write_in_flight K s b x t tk p" "t_pbid tk \<noteq> LBZ_INVALID_PBID"
      "map_get K (d_mapping (sy_dev s)) (t_blkid tk) \<in> {Some (t_pbid tk), Some LBZ_INVALID_PBID}"
      "zmd_zones (d_zone_metadata (sy_dev s)) (get_zone_by_pbid K (t_pbid tk)) \<noteq> None"
  show "\<exists>s'. lbz_gc_write_endio K b s = Some s' \<and>
          (if bi_status x = None \<and> \<not> is_dev_faulty (sy_dev s)
           then ftl_gc_done K p (t_blkid tk) (t_pbid tk) (sector_to_blkid (bi_sector x))
               (d_mapping (sy_dev s), d_zone_metadata (sy_dev s)) =
               Some (d_mapping (sy_dev s'), d_zone_metadata (sy_dev s')) \<and>
             map_get K (d_mapping (sy_dev s')) (t_blkid tk) = Some (sector_to_blkid (bi_sector x))
           else d_mapping (sy_dev s') = d_mapping (sy_dev s) \<and> is_dev_faulty (sy_dev s') \<and>
             ftl_write_failed [p, get_zone_by_pbid K (t_pbid tk)] p (d_zone_metadata (sy_dev s)) =
               Some (d_zone_metadata (sy_dev s')))"
  proof (cases "bi_status x = None \<and> \<not> is_dev_faulty (sy_dev s)")
    case True
    then have s: "bi_status x = None" "\<not> is_dev_faulty (sy_dev s)" by simp_all
    note ap = mp [OF assms(4) s(1)]
    from gc_write_endio_core [OF assms(1,2) w(1) s ap _ w(2)] gc_write_endio_freed [OF assms(1,2) w(1) s ap _ w(4)] w(3)
    show ?thesis using s by auto
  next
    case False
    then have "bi_status x \<noteq> None \<or> is_dev_faulty (sy_dev s)" by simp
    from gc_write_endio_failed [OF assms(1) w(1) this assms(3) w(4)] False show ?thesis by auto
  qed
qed

end
