(* ===== verification/Submit_Path.thy ===== *)
theory Submit_Path
  imports Gc_Path
begin

text \<open>
  The submission side of the scheduler as a whole: the allocation of a block over all streams, the
  way of a user write from its arrival to the state in which it is in flight, and the way of a
  read.
\<close>

section \<open>Allocation over all streams\<close>

lemma stream_id_less: "lbz_nat_sit_get_stream_id ss mgmt b < LBZ_ZONE_MAX_STREAM"
  by (simp add: lbz_nat_sit_get_stream_id_def LBZ_ZONE_MAX_STREAM_def)

lemma streams: "[0..<LBZ_ZONE_MAX_STREAM] = [0, 1]"
  by (simp add: LBZ_ZONE_MAX_STREAM_def upt_rec)

lemma alloc_stream_ok:
  assumes wf: "zmd_wf (d_zone_metadata (sy_dev s))" and sid: "sid < LBZ_ZONE_MAX_STREAM" and ss: "ev_stream_support E"
    and nb: "\<not> alloc_blocked (is_dev_faulty (sy_dev s)) md sid (d_zone_metadata (sy_dev s))"
  shows "\<exists>p zmd'. alloc_res_stream E md sid s = Some (Inr p, upd_dev (\<lambda>d. d\<lparr>d_zone_metadata := zmd'\<rparr>) s) \<and> zmd_wf zmd' \<and>
     lbz_zone_alloc_res True (is_dev_faulty (sy_dev s)) md sid (d_zone_metadata (sy_dev s)) (d_gc_ctx (sy_dev s)) =
       Some (Inr p, zmd', d_gc_ctx (sy_dev s))"
  using alloc_res_success [OF wf sid nb, of True "d_gc_ctx (sy_dev s)"] ss
  by (auto simp: alloc_res_stream_def upd_dev_def)

lemma alloc_stream_blocked:
  assumes "zmd_wf (d_zone_metadata (sy_dev s))" and "ev_stream_support E"
    and "alloc_blocked (is_dev_faulty (sy_dev s)) md sid (d_zone_metadata (sy_dev s))"
  shows "alloc_res_stream E md sid s = Some (Inl (if is_dev_faulty (sy_dev s) then EIO else EAGAIN), s)"
  using alloc_res_blocked [OF assms(1,3)] assms(2) by (simp add: alloc_res_stream_def upd_dev_def)

text \<open>
  The two outcomes of the allocation with its fall-back: a block of some stream, or an error that
  leaves the driver unchanged, when every stream is blocked.
\<close>

lemma alloc_any_cases:
  assumes wf: "zmd_wf (d_zone_metadata (sy_dev s))" and ss: "ev_stream_support E"
  shows "(\<forall>sid < LBZ_ZONE_MAX_STREAM. alloc_blocked (is_dev_faulty (sy_dev s)) md sid (d_zone_metadata (sy_dev s))) \<and>
       alloc_res_any E md blkid count s = Some (Inl (if is_dev_faulty (sy_dev s) then EIO else EAGAIN), s) \<or>
     (\<exists>p zmd' sid c. (c = id \<or> c = count) \<and> sid < LBZ_ZONE_MAX_STREAM \<and> zmd_wf zmd' \<and>
        alloc_res_any E md blkid count s = Some (Inr p, upd_dev c (upd_dev (\<lambda>d. d\<lparr>d_zone_metadata := zmd'\<rparr>) s)) \<and>
        lbz_zone_alloc_res True (is_dev_faulty (sy_dev s)) md sid (d_zone_metadata (sy_dev s)) (d_gc_ctx (sy_dev s)) =
          Some (Inr p, zmd', d_gc_ctx (sy_dev s)))"
proof -
  let ?sid = "lbz_nat_sit_get_stream_id (ev_stream_support E) (d_nat_sit_mgmt (sy_dev s)) blkid"
  let ?bl = "\<lambda>sid. alloc_blocked (is_dev_faulty (sy_dev s)) md sid (d_zone_metadata (sy_dev s))"
  have lt: "?sid < LBZ_ZONE_MAX_STREAM" by (rule stream_id_less)
  show ?thesis
  proof (cases "?bl ?sid")
    case False
    from alloc_stream_ok [OF wf lt ss this] obtain p zmd' where
      a: "alloc_res_stream E md ?sid s = Some (Inr p, upd_dev (\<lambda>d. d\<lparr>d_zone_metadata := zmd'\<rparr>) s)" "zmd_wf zmd'"
        "lbz_zone_alloc_res True (is_dev_faulty (sy_dev s)) md ?sid (d_zone_metadata (sy_dev s)) (d_gc_ctx (sy_dev s)) =
         Some (Inr p, zmd', d_gc_ctx (sy_dev s))" by blast
    then have "alloc_res_any E md blkid count s = Some (Inr p, upd_dev id (upd_dev (\<lambda>d. d\<lparr>d_zone_metadata := zmd'\<rparr>) s))"
      by (simp add: alloc_res_any_def Let_def upd_dev_def)
    with a lt show ?thesis by blast
  next
    case True
    let ?e = "if is_dev_faulty (sy_dev s) then EIO else EAGAIN" and ?o = "1 - ?sid"
    have any: "alloc_res_any E md blkid count s = alloc_other_streams E md ?sid count [0, 1] (Inl ?e) s"
      using alloc_stream_blocked [OF wf ss True] ss by (simp add: alloc_res_any_def Let_def streams)
    have two: "?sid = 0 \<or> ?sid = 1" using lt by (auto simp: LBZ_ZONE_MAX_STREAM_def)
    then have o: "?o < LBZ_ZONE_MAX_STREAM" "?o \<noteq> ?sid" "\<And>i. i < LBZ_ZONE_MAX_STREAM \<Longrightarrow> i \<noteq> ?o \<Longrightarrow> i = ?sid"
      by (auto simp: LBZ_ZONE_MAX_STREAM_def)
    show ?thesis
    proof (cases "?bl ?o")
      case True
      then have "\<forall>sid < LBZ_ZONE_MAX_STREAM. ?bl sid" using o(3) \<open>?bl ?sid\<close> by metis
      moreover have "alloc_other_streams E md ?sid count [0, 1] (Inl ?e) s = Some (Inl ?e, s)"
        using two alloc_stream_blocked [OF wf ss True] by (elim disjE) (simp_all del: One_nat_def)
      ultimately show ?thesis using any by simp
    next
      case False
      from alloc_stream_ok [OF wf o(1) ss this] obtain p zmd' where
        a: "alloc_res_stream E md ?o s = Some (Inr p, upd_dev (\<lambda>d. d\<lparr>d_zone_metadata := zmd'\<rparr>) s)" "zmd_wf zmd'"
          "lbz_zone_alloc_res True (is_dev_faulty (sy_dev s)) md ?o (d_zone_metadata (sy_dev s)) (d_gc_ctx (sy_dev s)) =
           Some (Inr p, zmd', d_gc_ctx (sy_dev s))" by blast
      have "alloc_other_streams E md ?sid count [0, 1] (Inl ?e) s =
          Some (Inr p, upd_dev count (upd_dev (\<lambda>d. d\<lparr>d_zone_metadata := zmd'\<rparr>) s))"
        using two a(1) by (elim disjE) (simp_all del: One_nat_def)
      with any a o(1) show ?thesis by auto
    qed
  qed
qed

text \<open>
  C20. While a block is allocatable on a device that is not faulty, the collector gets one: the
  allocation over all streams in \<open>__submit_gc_task\<close> never ends in \<open>EAGAIN\<close>, which would be a \<open>BUG\<close>
  there, and it keeps the zone table well formed and takes exactly one block.
\<close>

theorem gc_alloc_progress:
  assumes "zmd_wf (d_zone_metadata (sy_dev s))" and "ev_stream_support E" and "\<not> is_dev_faulty (sy_dev s)"
    and "zmd_nr_allocable_blks (d_zone_metadata (sy_dev s)) \<noteq> 0"
    and "\<And>d. d_zone_metadata (count d) = d_zone_metadata d"
  shows "\<exists>p s'. alloc_res_any E LBZ_ALLOC_FLAG_GC blkid count s = Some (Inr p, s') \<and>
     zmd_wf (d_zone_metadata (sy_dev s')) \<and> zmd_zones (d_zone_metadata (sy_dev s')) p \<noteq> None \<and>
     zmd_nr_allocable_blks (d_zone_metadata (sy_dev s')) = zmd_nr_allocable_blks (d_zone_metadata (sy_dev s)) - 1"
proof -
  let ?zmd = "d_zone_metadata (sy_dev s)"
  from gc_some_stream [OF assms(1,4)] obtain sid where
    "sid < LBZ_ZONE_MAX_STREAM" "\<not> alloc_blocked (is_dev_faulty (sy_dev s)) LBZ_ALLOC_FLAG_GC sid ?zmd"
    using assms(3) by auto
  with alloc_any_cases [OF assms(1,2), of LBZ_ALLOC_FLAG_GC blkid count] obtain p zmd' sid c where
    c: "c = id \<or> c = count" and sid: "sid < LBZ_ZONE_MAX_STREAM" and wf: "zmd_wf zmd'"
    and a: "alloc_res_any E LBZ_ALLOC_FLAG_GC blkid count s =
        Some (Inr p, upd_dev c (upd_dev (\<lambda>d. d\<lparr>d_zone_metadata := zmd'\<rparr>) s))"
    and l: "lbz_zone_alloc_res True (is_dev_faulty (sy_dev s)) LBZ_ALLOC_FLAG_GC sid ?zmd (d_gc_ctx (sy_dev s)) =
        Some (Inr p, zmd', d_gc_ctx (sy_dev s))" by blast
  have "d_zone_metadata (c ((sy_dev s)\<lparr>d_zone_metadata := zmd'\<rparr>)) = zmd'" using c assms(5) by auto
  with a wf alloc_res_step [OF assms(1) sid l] show ?thesis by (auto simp: upd_dev_def)
qed


section \<open>A user write is dispatched\<close>

text \<open>What the parts of the submission after the allocation leave alone.\<close>

definition same_ftl :: "lbz_device \<Rightarrow> lbz_device \<Rightarrow> bool" where
  "same_ftl d d' \<longleftrightarrow> d_mapping d' = d_mapping d \<and> d_zone_metadata d' = d_zone_metadata d \<and> d_iosched d' = d_iosched d \<and>
     d_flags d' = d_flags d \<and> gc_zone (d_gc_ctx d') = gc_zone (d_gc_ctx d)"

lemma same_ftl_refl [simp]: "same_ftl d d"
  by (simp add: same_ftl_def)

lemma same_ftl_trans: "same_ftl a b \<Longrightarrow> same_ftl b c \<Longrightarrow> same_ftl a c"
  by (simp add: same_ftl_def)

text \<open>The record written with the block, when attaching it succeeds.\<close>

lemma add_integrity_ok:
  assumes t: "sy_tasks s t = Some tk" "t_bio tk = Some b" "sy_bios s b = Some x" and i: "ev_integrity E t = None"
    and log: "log_ok (d_nat_sit_mgmt (sy_dev s))"
  shows "\<exists>log d. add_integrity E t ty s = Some (Buf log, s\<lparr>sy_dev := d\<rparr>) \<and> same_ftl (sy_dev s) d \<and>
     dl_blkid log = t_blkid tk \<and> log_ok (d_nat_sit_mgmt d) \<and> d_timestamp d = d_timestamp (sy_dev s) + 1 \<and>
     dl_timestamp log = d_timestamp d"
proof -
  let ?f = "lbz_nat_sit_to_free (d_nat_sit_mgmt (sy_dev s)) (t_blkid tk)"
  from nl.push_some [OF log, of ?f] obtain mgmt where
    m: "lbz_nat_sit_add_blkid ?f (d_nat_sit_mgmt (sy_dev s)) = Some mgmt" "log_ok mgmt" by blast
  show ?thesis
    using t i log m
    by (cases "t_type tk") (auto simp: add_integrity_def Let_def lbz_dev_get_timestamp_def lbz_dev_get_tx_id_def
        same_ftl_def upd_dev_def)
qed

lemma write_stage_writing_ok:
  assumes t: "sy_tasks s t = Some tk" "t_bio tk = Some b" "sy_bios s b = Some x" and i: "ev_integrity E t = None"
    and log: "log_ok (d_nat_sit_mgmt (sy_dev s))"
  shows "\<exists>log d. write_stage_writing E t b s = Some (None, s\<lparr>sy_dev := d,
       sy_tasks := (sy_tasks s)(t \<mapsto> tk\<lparr>t_integrity_buf := Buf log, t_status := LBZ_TASK_DISPATCH\<rparr>),
       sy_inflight := sy_inflight s @ [b]\<rparr>) \<and> same_ftl (sy_dev s) d \<and> dl_blkid log = t_blkid tk \<and>
     log_ok (d_nat_sit_mgmt d)"
proof -
  from add_integrity_ok [OF t i log, of LBZ_LOG_USER_WRITE] obtain log d where
    a: "add_integrity E t LBZ_LOG_USER_WRITE s = Some (Buf log, s\<lparr>sy_dev := d\<rparr>)" "same_ftl (sy_dev s) d"
      "dl_blkid log = t_blkid tk" "log_ok (d_nat_sit_mgmt d)" by blast
  show ?thesis using a t by (auto simp: write_stage_writing_def upd_task_def submit_bio_def)
qed

text \<open>The state of a write that was handed to the backing device, relative to the state before.\<close>

lemma write_stage_alloc_ok:
  assumes t: "sy_tasks s t = Some tk" "t_bio tk = Some b" "sy_bios s b = Some x" "t_gc tk = GcNull"
    and i: "ev_integrity E t = None" and ss: "ev_stream_support E" and log: "log_ok (d_nat_sit_mgmt (sy_dev s))"
    and wf: "zmd_wf (d_zone_metadata (sy_dev s))" and sid: "sid < LBZ_ZONE_MAX_STREAM"
      "\<not> alloc_blocked (is_dev_faulty (sy_dev s)) LBZ_ALLOC_FLAG_USER sid (d_zone_metadata (sy_dev s))"
  shows "\<exists>p z zmd' d buf. write_stage_alloc E t b blkid s = Some (None, s\<lparr>sy_dev := d,
       sy_tasks := (sy_tasks s)(t \<mapsto> tk\<lparr>t_zone := Some p, t_integrity_buf := Buf buf, t_status := LBZ_TASK_DISPATCH\<rparr>),
       sy_bios := (sy_bios s)(b \<mapsto> x\<lparr>bi_end_io := WriteIoEndio t blkid (bi_end_io x), bi_phys := True,
         bi_sector := ucast (z_start_sector z), bi_append := True\<rparr>),
       sy_inflight := sy_inflight s @ [b]\<rparr>) \<and>
     same_ftl ((sy_dev s)\<lparr>d_zone_metadata := zmd'\<rparr>) d \<and> dl_blkid buf = t_blkid tk \<and> log_ok (d_nat_sit_mgmt d) \<and>
     zmd_wf zmd' \<and> zmd_zones zmd' p = Some z \<and>
     (\<exists>sid. sid < LBZ_ZONE_MAX_STREAM \<and>
        lbz_zone_alloc_res True (is_dev_faulty (sy_dev s)) LBZ_ALLOC_FLAG_USER sid (d_zone_metadata (sy_dev s)) (d_gc_ctx (sy_dev s)) =
          Some (Inr p, zmd', d_gc_ctx (sy_dev s)))"
proof -
  let ?count = "\<lambda>d. d\<lparr>d_write_alloc_encounter_eagain := d_write_alloc_encounter_eagain d + 1\<rparr>"
  from alloc_any_cases [OF wf ss, of LBZ_ALLOC_FLAG_USER blkid ?count] sid obtain p zmd' sd c where
    c: "c = id \<or> c = ?count" and sd: "sd < LBZ_ZONE_MAX_STREAM" and wf': "zmd_wf zmd'"
    and a: "alloc_res_any E LBZ_ALLOC_FLAG_USER blkid ?count s =
        Some (Inr p, upd_dev c (upd_dev (\<lambda>d. d\<lparr>d_zone_metadata := zmd'\<rparr>) s))"
    and l: "lbz_zone_alloc_res True (is_dev_faulty (sy_dev s)) LBZ_ALLOC_FLAG_USER sd (d_zone_metadata (sy_dev s)) (d_gc_ctx (sy_dev s)) =
        Some (Inr p, zmd', d_gc_ctx (sy_dev s))" by blast
  from alloc_res_step [OF wf sd l] obtain z where z: "zmd_zones zmd' p = Some z" by blast
  define d0 where "d0 = c ((sy_dev s)\<lparr>d_zone_metadata := zmd'\<rparr>)"
  define d1 where "d1 = (if lbz_check_need_reclaim_high zmd' then d0\<lparr>d_gc_ctx := lbz_trigger_gc_reclaim (d_gc_ctx d0)\<rparr> else d0)"
  have d1: "same_ftl ((sy_dev s)\<lparr>d_zone_metadata := zmd'\<rparr>) d1" "d_zone_metadata d1 = zmd'" "d_zone_metadata d0 = zmd'"
      "log_ok (d_nat_sit_mgmt d1)"
    using c log by (auto simp: d1_def d0_def same_ftl_def)
  let ?x = "x\<lparr>bi_end_io := WriteIoEndio t blkid (bi_end_io x), bi_phys := True,
         bi_sector := ucast (z_start_sector z), bi_append := True\<rparr>"
  let ?tk = "tk\<lparr>t_zone := Some p, t_status := LBZ_TASK_IO_WRITING\<rparr>"
  let ?s = "s\<lparr>sy_dev := d1, sy_bios := (sy_bios s)(b \<mapsto> ?x), sy_tasks := (sy_tasks s)(t \<mapsto> ?tk)\<rparr>"
  have w: "write_stage_alloc E t b blkid s = write_stage_writing E t b ?s"
    using t a z d1(2,3) c
    by (auto simp: write_stage_alloc_def pending_gc_node_def upd_task_def hook_io_write_def upd_bio_def upd_dev_def
        d0_def [symmetric] d1_def Let_def)
  have "sy_tasks ?s t = Some ?tk" "t_bio ?tk = Some b" "sy_bios ?s b = Some ?x" "log_ok (d_nat_sit_mgmt (sy_dev ?s))"
    using t d1(4) by simp_all
  from write_stage_writing_ok [OF this(1-3) i this(4)] obtain log d where
    ws: "write_stage_writing E t b ?s = Some (None, ?s\<lparr>sy_dev := d,
       sy_tasks := (sy_tasks ?s)(t \<mapsto> ?tk\<lparr>t_integrity_buf := Buf log, t_status := LBZ_TASK_DISPATCH\<rparr>),
       sy_inflight := sy_inflight ?s @ [b]\<rparr>)" "same_ftl d1 d" "dl_blkid log = t_blkid tk" "log_ok (d_nat_sit_mgmt d)"
    by auto
  show ?thesis
    by (intro exI [of _ p] exI [of _ z] exI [of _ zmd'] exI [of _ d] exI [of _ log])
      (use w ws(1,3,4) same_ftl_trans [OF d1(1) ws(2)] wf' z sd l in auto)
qed


lemma zmd_rget_alloc:
  assumes "zmd_wf zmd" "sid < LBZ_ZONE_MAX_STREAM" "lbz_zone_alloc_res ss f md sid zmd gc = Some (Inr p, zmd', gc')"
  shows "zmd_rget K zmd' = zmd_rget K zmd"
proof
  fix q
  from alloc_res_step [OF assms] obtain z z' where "zmd_zones zmd p = Some z" "zmd_zones zmd' p = Some z'"
    "z_zrms z' = z_zrms z" "z_start_sector z' = z_start_sector z" "\<forall>q. q \<noteq> p \<longrightarrow> zmd_zones zmd' q = zmd_zones zmd q" by blast
  then show "zmd_rget K zmd' q = zmd_rget K zmd q"
    by (intro zmd_rget_cong [of zmd p z z']) (auto simp: fun_eq_iff)
qed

lemma log_ok_classify: "classify_write blkid fl mgmt = (ty, mgmt') \<Longrightarrow> log_ok mgmt' = log_ok mgmt"
  by (auto simp: classify_write_def log_ok_def log_blkids_def lbz_nat_sit_cp_write_def lbz_nat_sit_add_write_def
      lbz_nat_sit_user_write_def lbz_nat_sit_ssa_write_def split: if_splits)

text \<open>The submission of a write whose block is free and for which there is room.\<close>

definition write_can_start :: "lbz_env \<Rightarrow> lbz_sys \<Rightarrow> u32 \<Rightarrow> bool" where
  "write_can_start E s blkid \<longleftrightarrow>
     ev_stream_support E \<and> ev_integrity E (sy_next s) = None \<and> sy_tasks s (sy_next s) = None \<and>
     log_ok (d_nat_sit_mgmt (sy_dev s)) \<and> \<not> is_dev_faulty (sy_dev s) \<and> tree_ok (sy_tasks s) (task_tree s) \<and>
     (\<forall>q\<in>set (inorder (task_tree s)). task_key (sy_tasks s) q \<noteq> blkid) \<and>
     (\<exists>sid < LBZ_ZONE_MAX_STREAM. \<not> alloc_blocked False LBZ_ALLOC_FLAG_USER sid (d_zone_metadata (sy_dev s)))"

lemma submit_write_ok:
  assumes K: "kern_ok (ev_kern E)" and ok: "sys_maps_ok (ev_kern E) s" and x: "sy_bios s b = Some x" "bi_write x"
    and can: "write_can_start E s (sector_to_blkid (bi_sector x))"
  shows "\<exists>s' x' tk p z. lbz_submit_io_to_iosched E b s = Some s' \<and> write_in_flight s' b x' (sy_next s) tk p \<and>
     t_blkid tk = sector_to_blkid (bi_sector x) \<and> sys_maps_ok (ev_kern E) s' \<and>
     d_mapping (sy_dev s') = d_mapping (sy_dev s) \<and> d_flags (sy_dev s') = d_flags (sy_dev s) \<and>
     gc_zone (d_gc_ctx (sy_dev s')) = gc_zone (d_gc_ctx (sy_dev s)) \<and>
     zmd_rget (ev_kern E) (d_zone_metadata (sy_dev s')) = zmd_rget (ev_kern E) (d_zone_metadata (sy_dev s)) \<and>
     zmd_zones (d_zone_metadata (sy_dev s')) p = Some z \<and>
     x' = x\<lparr>bi_end_io := WriteIoEndio (sy_next s) (sector_to_blkid (bi_sector x)) (bi_end_io x), bi_phys := True,
            bi_sector := ucast (z_start_sector z), bi_append := True\<rparr> \<and>
     sy_bios s' = (sy_bios s)(b \<mapsto> x') \<and> sy_inflight s' = sy_inflight s @ [b] \<and> sy_done s' = sy_done s \<and>
     sy_pages s' = sy_pages s \<and> sy_ctxs s' = sy_ctxs s \<and> log_ok (d_nat_sit_mgmt (sy_dev s')) \<and>
     (\<exists>sid < LBZ_ZONE_MAX_STREAM. lbz_zone_alloc_res True False LBZ_ALLOC_FLAG_USER sid (d_zone_metadata (sy_dev s)) (d_gc_ctx (sy_dev s)) =
        Some (Inr p, d_zone_metadata (sy_dev s'), d_gc_ctx (sy_dev s)))"
proof -
  let ?t = "sy_next s" and ?b = "sector_to_blkid (bi_sector x)" and ?K = "ev_kern E"
  from can obtain sid where c: "ev_stream_support E" "ev_integrity E ?t = None" "sy_tasks s ?t = None"
      "log_ok (d_nat_sit_mgmt (sy_dev s))" "\<not> is_dev_faulty (sy_dev s)" "tree_ok (sy_tasks s) (task_tree s)"
      "\<forall>q\<in>set (inorder (task_tree s)). task_key (sy_tasks s) q \<noteq> ?b"
    and sid: "sid < LBZ_ZONE_MAX_STREAM" "\<not> alloc_blocked False LBZ_ALLOC_FLAG_USER sid (d_zone_metadata (sy_dev s))"
    by (auto simp: write_can_start_def)
  obtain ty mgmt where cl: "classify_write ?b (bi_flush x) (d_nat_sit_mgmt (sy_dev s)) = (ty, mgmt)" by force
  define d1 where "d1 = (sy_dev s)\<lparr>d_user_write_blocks := d_user_write_blocks (sy_dev s) + 1,
      d_user_write_inflight_io_cnt := d_user_write_inflight_io_cnt (sy_dev s) + 1, d_nat_sit_mgmt := mgmt\<rparr>"
  let ?tk = "(task_init ty)\<lparr>t_bio := Some b, t_blkid := ?b\<rparr>"
  define s1 where "s1 = s\<lparr>sy_dev := d1, sy_tasks := (sy_tasks s)(?t \<mapsto> ?tk), sy_next := ?t + 1\<rparr>"
  have ft: "?t \<notin> set (inorder (task_tree s))" using c(3,6) by (auto simp: tree_ok_def)
  have d1: "same_ftl (sy_dev s) d1" "log_ok (d_nat_sit_mgmt d1)" "is_dev_faulty d1 = is_dev_faulty (sy_dev s)"
    using log_ok_classify [OF cl] c(4) by (simp_all add: d1_def same_ftl_def is_dev_faulty_def)
  have tr1: "task_tree s1 = task_tree s" by (simp add: s1_def task_tree_def d1_def)
  have ok1: "tree_ok (sy_tasks s1) (task_tree s1)" unfolding tr1 using tree_ok_forget [OF c(6) ft] by (simp add: s1_def)
  have free1: "\<forall>q\<in>set (inorder (task_tree s1)). task_key (sy_tasks s1) q \<noteq> t_blkid ?tk"
    unfolding tr1 using c(7) ft by (auto simp: s1_def task_key_def)
  have t1: "sy_tasks s1 ?t = Some ?tk" by (simp add: s1_def)
  from insert_new [OF K ok1 t1 free1] obtain tr where
    i: "insert_task_to_tree ?K ?t s1 = Some (None, s1\<lparr>sy_dev := (sy_dev s1)\<lparr>d_iosched := (d_iosched (sy_dev s1))\<lparr>
         s_task_tree := tr, s_task_count := s_task_count (d_iosched (sy_dev s1)) + 1\<rparr>\<rparr>,
         sy_tasks := (sy_tasks s1)(?t \<mapsto> ?tk\<lparr>t_refcount := t_refcount ?tk + 1\<rparr>)\<rparr>)"
      "set (inorder tr) = insert ?t (set (inorder (task_tree s)))"
      "tree_ok ((sy_tasks s1)(?t \<mapsto> ?tk\<lparr>t_refcount := t_refcount ?tk + 1\<rparr>)) tr"
    unfolding tr1 by blast
  define tk2 where "tk2 = ?tk\<lparr>t_refcount := 2, t_status := LBZ_TASK_ALLOC_RES\<rparr>"
  define d2 where "d2 = d1\<lparr>d_iosched := (d_iosched d1)\<lparr>s_task_tree := tr, s_task_count := s_task_count (d_iosched d1) + 1\<rparr>\<rparr>"
  define s2 where "s2 = s\<lparr>sy_dev := d2, sy_tasks := (sy_tasks s)(?t \<mapsto> tk2), sy_next := ?t + 1\<rparr>"
  have t2: "sy_tasks s2 ?t = Some tk2" "t_bio tk2 = Some b" "sy_bios s2 b = Some x" "t_gc tk2 = GcNull"
      "log_ok (d_nat_sit_mgmt (sy_dev s2))" "zmd_wf (d_zone_metadata (sy_dev s2))"
      "\<not> alloc_blocked (is_dev_faulty (sy_dev s2)) LBZ_ALLOC_FLAG_USER sid (d_zone_metadata (sy_dev s2))"
    using x d1 sid c(5) ok by (simp_all add: s2_def d2_def tk2_def task_init_def same_ftl_def sys_maps_ok_def is_dev_faulty_def)
  from write_stage_alloc_ok [OF t2(1-4) c(2,1) t2(5,6) sid(1) t2(7), of ?b] obtain p z zmd' d buf sd where
    w: "write_stage_alloc E ?t b ?b s2 = Some (None, s2\<lparr>sy_dev := d,
       sy_tasks := (sy_tasks s2)(?t \<mapsto> tk2\<lparr>t_zone := Some p, t_integrity_buf := Buf buf, t_status := LBZ_TASK_DISPATCH\<rparr>),
       sy_bios := (sy_bios s2)(b \<mapsto> x\<lparr>bi_end_io := WriteIoEndio ?t ?b (bi_end_io x), bi_phys := True,
         bi_sector := ucast (z_start_sector z), bi_append := True\<rparr>),
       sy_inflight := sy_inflight s2 @ [b]\<rparr>)"
    and d: "same_ftl (d2\<lparr>d_zone_metadata := zmd'\<rparr>) d" "log_ok (d_nat_sit_mgmt d)" "zmd_wf zmd'" "zmd_zones zmd' p = Some z"
    and al: "sd < LBZ_ZONE_MAX_STREAM" "lbz_zone_alloc_res True (is_dev_faulty (sy_dev s2)) LBZ_ALLOC_FLAG_USER sd
        (d_zone_metadata (sy_dev s2)) (d_gc_ctx (sy_dev s2)) = Some (Inr p, zmd', d_gc_ctx (sy_dev s2))"
    by (auto simp: s2_def)
  define tk3 where "tk3 = tk2\<lparr>t_zone := Some p, t_integrity_buf := Buf buf, t_status := LBZ_TASK_DISPATCH\<rparr>"
  define x3 where "x3 = x\<lparr>bi_end_io := WriteIoEndio ?t ?b (bi_end_io x), bi_phys := True,
         bi_sector := ucast (z_start_sector z), bi_append := True\<rparr>"
  define s3 where "s3 = s2\<lparr>sy_dev := d, sy_tasks := (sy_tasks s2)(?t \<mapsto> tk3), sy_bios := (sy_bios s2)(b \<mapsto> x3),
       sy_inflight := sy_inflight s2 @ [b]\<rparr>"
  let ?s0 = "s\<lparr>sy_dev := d1, sy_next := ?t + 1, sy_tasks := (sy_tasks s)(?t \<mapsto> (task_init ty)\<lparr>t_bio := Some b\<rparr>)\<rparr>"
  have u0: "upd_task ?t (\<lambda>tk. tk\<lparr>t_blkid := ?b\<rparr>) ?s0 = Some s1" by (simp add: upd_task_def s1_def)
  have u1: "upd_task ?t (\<lambda>tk. tk\<lparr>t_status := LBZ_TASK_ALLOC_RES\<rparr>)
      (s1\<lparr>sy_dev := (sy_dev s1)\<lparr>d_iosched := (d_iosched (sy_dev s1))\<lparr>
         s_task_tree := tr, s_task_count := s_task_count (d_iosched (sy_dev s1)) + 1\<rparr>\<rparr>,
         sy_tasks := (sy_tasks s1)(?t \<mapsto> ?tk\<lparr>t_refcount := t_refcount ?tk + 1\<rparr>)\<rparr>) = Some s2"
    by (simp add: upd_task_def s1_def s2_def d2_def tk2_def task_init_def)
  have sw: "submit_write_task E ?t ?s0 = Some (None, s3)"
    using x u0 i(1) u1 w by (simp add: submit_write_task_def Let_def task_init_def s3_def tk3_def x3_def)
  have res: "lbz_submit_io_to_iosched E b s = Some s3"
    using x cl sw by (simp add: lbz_submit_io_to_iosched_def Let_def task_alloc_def upd_task_def upd_dev_def d1_def)
  have rg: "zmd_rget ?K zmd' = zmd_rget ?K (d_zone_metadata (sy_dev s))"
    using zmd_rget_alloc [OF t2(6) al] by (simp add: s2_def d2_def d1_def)
  have "tree_ok (sy_tasks s3) tr"
    using i(3) tree_ok_upd [of "(sy_tasks s1)(?t \<mapsto> ?tk\<lparr>t_refcount := t_refcount ?tk + 1\<rparr>)" ?t
        "?tk\<lparr>t_refcount := t_refcount ?tk + 1\<rparr>" tk3 tr]
    by (simp add: s3_def s2_def s1_def tk3_def tk2_def)
  moreover have "task_tree s3 = tr" using d(1) by (simp add: s3_def task_tree_def same_ftl_def d2_def)
  ultimately have fl: "write_in_flight s3 b x3 ?t tk3 p"
    using i(2) by (simp add: write_in_flight_def s3_def s2_def x3_def tk3_def tk2_def task_init_def)
  have "d_mapping d = d_mapping (sy_dev s)" "d_flags d = d_flags (sy_dev s)" "d_zone_metadata d = zmd'"
      "gc_zone (d_gc_ctx d) = gc_zone (d_gc_ctx (sy_dev s))"
    using d(1) by (simp_all add: same_ftl_def d2_def d1_def)
  moreover have "lbz_zone_alloc_res True False LBZ_ALLOC_FLAG_USER sd (d_zone_metadata (sy_dev s)) (d_gc_ctx (sy_dev s)) =
      Some (Inr p, zmd', d_gc_ctx (sy_dev s))"
    using al(2) c(5) by (simp add: s2_def d2_def d1_def is_dev_faulty_def)
  ultimately show ?thesis
    using res fl ok d(2-4) rg al(1)
    by (intro exI [of _ s3] exI [of _ x3] exI [of _ tk3] exI [of _ p] exI [of _ z])
      (auto simp: s3_def s2_def sys_maps_ok_def tk3_def tk2_def x3_def)
qed


section \<open>Reads\<close>

lemma submit_read_mapped:
  assumes ok: "sys_maps_ok (ev_kern E) s" and x: "sy_bios s b = Some x" "\<not> bi_write x"
    and m: "map_get (ev_kern E) (d_mapping (sy_dev s)) (sector_to_blkid (bi_sector x)) = Some p" "p \<noteq> LBZ_INVALID_PBID"
  shows "\<exists>s' z. zmd_zones (d_zone_metadata (sy_dev s)) (get_zone_by_pbid (ev_kern E) p) = Some z \<and>
     lbz_submit_io_to_iosched E b s = Some s' \<and>
     zmd_zones (d_zone_metadata (sy_dev s')) = (zmd_zones (d_zone_metadata (sy_dev s)))(get_zone_by_pbid (ev_kern E) p \<mapsto> lbz_get_zone z) \<and>
     sy_bios s' = (sy_bios s)(b \<mapsto> x\<lparr>bi_end_io := ReadIoEndio (get_zone_by_pbid (ev_kern E) p) (sector_to_blkid (bi_sector x)) (bi_end_io x),
       bi_phys := True, bi_sector := blkid_to_sector p\<rparr>) \<and>
     d_mapping (sy_dev s') = d_mapping (sy_dev s) \<and> sy_inflight s' = sy_inflight s @ [b] \<and> sy_done s' = sy_done s \<and>
     sy_tasks s' = sy_tasks s \<and> sy_pages s' = sy_pages s \<and>
     lbz_mapping_lookup (ev_kern E) (d_mapping (sy_dev s)) (sector_to_blkid (bi_sector x)) (d_zone_metadata (sy_dev s)) =
       Some (Inr (get_zone_by_pbid (ev_kern E) p, p), d_zone_metadata (sy_dev s')) \<and>
     d_flags (sy_dev s') = d_flags (sy_dev s) \<and> d_gc_ctx (sy_dev s') = d_gc_ctx (sy_dev s)"
proof -
  let ?K = "ev_kern E"
  have "zmd_rget ?K (d_zone_metadata (sy_dev s)) p = Some (sector_to_blkid (bi_sector x))"
    using ok m by (auto simp: sys_maps_ok_def intro: map_consistent_fr)
  from zmd_rget_zone [OF this] obtain z where z: "zmd_zones (d_zone_metadata (sy_dev s)) (get_zone_by_pbid ?K p) = Some z" by blast
  then show ?thesis
    using x m(2) lookup_by_get [OF m(1), of "d_zone_metadata (sy_dev s)"]
    by (simp add: lbz_submit_io_to_iosched_def submit_read_io_def Let_def upd_dev_def upd_zone_def hook_io_read_def
        upd_bio_def submit_bio_def)
qed

text \<open>
  C23. A read of a block of the device. A block that was written is read from its physical
  address, with one more reference on its zone, which keeps the zone from being reset until the
  read completes. A block that was never written is reported to the layer above at once, without
  an error; nothing is submitted and, although the code calls this reading zeroes, no page of
  the bio is written.
\<close>

theorem read_follows_map:
  assumes ok: "sys_maps_ok (ev_kern E) s" and x: "sy_bios s b = Some x" "\<not> bi_write x"
    and e: "bi_end_io x = UserEndio n"
    and m: "map_get (ev_kern E) (d_mapping (sy_dev s)) (sector_to_blkid (bi_sector x)) = Some p"
  shows "\<exists>s'. lbz_submit_io_to_iosched E b s = Some s' \<and> sy_pages s' = sy_pages s \<and> d_mapping (sy_dev s') = d_mapping (sy_dev s) \<and>
     (if p = LBZ_INVALID_PBID
      then sy_done s' = sy_done s @ [(b, n, bi_status x)] \<and> sy_inflight s' = sy_inflight s \<and>
        d_zone_metadata (sy_dev s') = d_zone_metadata (sy_dev s)
      else \<exists>z y. zmd_zones (d_zone_metadata (sy_dev s)) (get_zone_by_pbid (ev_kern E) p) = Some z \<and>
        zmd_zones (d_zone_metadata (sy_dev s')) =
          (zmd_zones (d_zone_metadata (sy_dev s)))(get_zone_by_pbid (ev_kern E) p \<mapsto> lbz_get_zone z) \<and>
        sy_bios s' b = Some y \<and> bi_sector y = blkid_to_sector p \<and> bi_pages y = bi_pages x \<and>
        sy_inflight s' = sy_inflight s @ [b] \<and> sy_done s' = sy_done s)"
proof (cases "p = LBZ_INVALID_PBID")
  case True
  then show ?thesis
    using x e lookup_by_get [OF m, of "d_zone_metadata (sy_dev s)"]
    by (simp add: lbz_submit_io_to_iosched_def submit_read_io_def Let_def upd_dev_def bio_endio_def
        bio_endio_unhooked_def bio_endio_user_def)
next
  case False
  from submit_read_mapped [OF ok x m False] False show ?thesis by auto
qed

section \<open>A block is read where it was written\<close>

lemma unhook_user:
  assumes "sy_bios s b = Some x" "bi_end_io x = WriteIoEndio t k (UserEndio n)"
  shows "unhook_io b s = Some (s\<lparr>sy_done := sy_done s @ [(b, n, bi_status x)], sy_bios := (sy_bios s)(b := None)\<rparr>)"
  using assms by (simp add: unhook_io_def upd_bio_def bio_endio_unhooked_def bio_endio_user_def)

text \<open>
  C1. Read your write, across the scheduler, the zone table and both maps. A write for which
  there is room is accepted by the scheduler, given one block of a zone by one allocation, sent to
  the backing device as an append to that zone,
  and, when the device reports any admissible address for it, reported once to the layer above
  without error. A read of the same block that arrives next is then sent to exactly that
  address, and every other block is still mapped as before the write.
\<close>

theorem read_your_write:
  assumes K: "kern_ok (ev_kern E)" and ok: "sys_maps_ok (ev_kern E) s"
    and x: "sy_bios s b = Some x" "bi_write x" "bi_end_io x = UserEndio n" "bi_status x = None"
    and can: "write_can_start E s (sector_to_blkid (bi_sector x))"
    and dev: "map_get (ev_kern E) (d_mapping (sy_dev s)) (sector_to_blkid (bi_sector x)) \<noteq> None"
    and y: "sy_bios s r = Some y" "r \<noteq> b" "\<not> bi_write y" "sector_to_blkid (bi_sector y) = sector_to_blkid (bi_sector x)"
  shows "\<exists>s1 x1 tk p. lbz_submit_io_to_iosched E b s = Some s1 \<and> sy_inflight s1 = sy_inflight s @ [b] \<and>
     sy_bios s1 b = Some x1 \<and> bi_append x1 \<and> bi_pages x1 = bi_pages x \<and>
     sy_tasks s1 (sy_next s) = Some tk \<and> t_zone tk = Some p \<and>
     (\<exists>sid < LBZ_ZONE_MAX_STREAM. lbz_zone_alloc_res True False LBZ_ALLOC_FLAG_USER sid (d_zone_metadata (sy_dev s)) (d_gc_ctx (sy_dev s)) =
        Some (Inr p, d_zone_metadata (sy_dev s1), d_gc_ctx (sy_dev s))) \<and>
     (\<forall>addr. append_ok (ev_kern E) (d_zone_metadata (sy_dev s1)) p (sector_to_blkid addr) \<longrightarrow>
        (\<exists>s2 s3 y'. lbz_write_io_endio (ev_kern E) b (s1\<lparr>sy_bios := (sy_bios s1)(b \<mapsto> x1\<lparr>bi_sector := addr\<rparr>)\<rparr>) = Some s2 \<and>
           sys_maps_ok (ev_kern E) s2 \<and> sy_done s2 = sy_done s @ [(b, n, None)] \<and>
           (\<forall>c. c \<noteq> sector_to_blkid (bi_sector x) \<longrightarrow>
              map_get (ev_kern E) (d_mapping (sy_dev s2)) c = map_get (ev_kern E) (d_mapping (sy_dev s)) c) \<and>
           lbz_submit_io_to_iosched E r s2 = Some s3 \<and> sy_bios s3 r = Some y' \<and>
           bi_sector y' = blkid_to_sector (sector_to_blkid addr) \<and> sy_inflight s3 = sy_inflight s2 @ [r]))"
proof -
  let ?K = "ev_kern E" and ?b = "sector_to_blkid (bi_sector x)"
  from submit_write_ok [OF K ok x(1,2) can] obtain s1 x1 tk p and z :: lbz_zone where
    s1: "lbz_submit_io_to_iosched E b s = Some s1" "write_in_flight s1 b x1 (sy_next s) tk p" "t_blkid tk = ?b"
      "sys_maps_ok ?K s1" "d_mapping (sy_dev s1) = d_mapping (sy_dev s)" "sy_bios s1 = (sy_bios s)(b \<mapsto> x1)"
      "sy_inflight s1 = sy_inflight s @ [b]" "sy_done s1 = sy_done s"
      "\<exists>sid < LBZ_ZONE_MAX_STREAM. lbz_zone_alloc_res True False LBZ_ALLOC_FLAG_USER sid (d_zone_metadata (sy_dev s)) (d_gc_ctx (sy_dev s)) =
        Some (Inr p, d_zone_metadata (sy_dev s1), d_gc_ctx (sy_dev s))"
    and x1: "x1 = x\<lparr>bi_end_io := WriteIoEndio (sy_next s) ?b (bi_end_io x), bi_phys := True,
            bi_sector := ucast (z_start_sector z), bi_append := True\<rparr>" by blast
  have "\<exists>s2 s3 y'. lbz_write_io_endio ?K b (s1\<lparr>sy_bios := (sy_bios s1)(b \<mapsto> x1\<lparr>bi_sector := addr\<rparr>)\<rparr>) = Some s2 \<and>
           sys_maps_ok ?K s2 \<and> sy_done s2 = sy_done s @ [(b, n, None)] \<and>
           (\<forall>c. c \<noteq> ?b \<longrightarrow> map_get ?K (d_mapping (sy_dev s2)) c = map_get ?K (d_mapping (sy_dev s)) c) \<and>
           lbz_submit_io_to_iosched E r s2 = Some s3 \<and> sy_bios s3 r = Some y' \<and>
           bi_sector y' = blkid_to_sector (sector_to_blkid addr) \<and> sy_inflight s3 = sy_inflight s2 @ [r]"
    if ap: "append_ok ?K (d_zone_metadata (sy_dev s1)) p (sector_to_blkid addr)" for addr
  proof -
    let ?x = "x1\<lparr>bi_sector := addr\<rparr>"
    let ?s = "s1\<lparr>sy_bios := (sy_bios s1)(b \<mapsto> ?x)\<rparr>"
    have w: "write_in_flight ?s b ?x (sy_next s) tk p" using s1(2) by (simp add: write_in_flight_def task_tree_def)
    have u: "unhook_io b ?s = Some (?s\<lparr>sy_done := sy_done ?s @ [(b, n, bi_status ?x)], sy_bios := (sy_bios ?s)(b := None)\<rparr>)"
      by (rule unhook_user) (use x(3) x1 in auto)
    have st: "bi_status ?x = None" using x(4) x1 by simp
    have okS: "sys_maps_ok ?K ?s" using s1(4) by (simp add: sys_maps_ok_def)
    have ap': "append_ok ?K (d_zone_metadata (sy_dev ?s)) p (sector_to_blkid (bi_sector ?x))" using ap by simp
    have dv: "map_get ?K (d_mapping (sy_dev ?s)) (t_blkid tk) \<noteq> None" using dev s1(3,5) by simp
    from write_endio_core [OF K okS w st u ap' dv] obtain s2 where
      s2: "lbz_write_io_endio ?K b ?s = Some s2" "sys_maps_ok ?K s2"
        "map_get ?K (d_mapping (sy_dev s2)) = (map_get ?K (d_mapping (sy_dev s)))(?b \<mapsto> sector_to_blkid addr)"
        "sy_bios s2 = (sy_bios ?s)(b := None)" "sy_done s2 = sy_done s @ [(b, n, None)]"
      using s1(3,5,8) st by auto
    have y2: "sy_bios s2 r = Some y" using y(1,2) s2(4) s1(6) by simp
    have m: "map_get ?K (d_mapping (sy_dev s2)) (sector_to_blkid (bi_sector y)) = Some (sector_to_blkid addr)"
      "sector_to_blkid addr \<noteq> LBZ_INVALID_PBID" using s2(3) y(4) ap by (auto simp: append_ok_def)
    from submit_read_mapped [OF s2(2) y2 y(3) m] obtain s3 where
      "lbz_submit_io_to_iosched E r s2 = Some s3" "sy_inflight s3 = sy_inflight s2 @ [r]"
      "\<exists>y'. sy_bios s3 r = Some y' \<and> bi_sector y' = blkid_to_sector (sector_to_blkid addr)" by auto
    with s2 show ?thesis by auto
  qed
  moreover have "sy_tasks s1 (sy_next s) = Some tk" "t_zone tk = Some p" "sy_bios s1 b = Some x1" "bi_append x1" "bi_pages x1 = bi_pages x"
    using s1(2,6) x1 by (auto simp: write_in_flight_def)
  ultimately show ?thesis using s1(1,7,9) by blast
qed


section \<open>Writes that have to wait\<close>

text \<open>
  C24. At most one write per block is under way: a write of a block for which another task is in
  the tree is not sent. Its bio is untouched, nothing is allocated, the task in the tree keeps its
  references, and the new task waits at the end of the retry list, whose work is queued.
\<close>

theorem write_conflict_waits:
  assumes x: "sy_bios s b = Some x" "bi_write x" and fresh: "sy_tasks s (sy_next s) = None"
    and ok: "tree_ok (sy_tasks s) (task_tree s)"
    and q: "q \<in> set (inorder (task_tree s))" "sy_tasks s q = Some tq" "t_blkid tq = sector_to_blkid (bi_sector x)"
      "t_refcount tq \<noteq> 0"
  shows "\<exists>s' tk. lbz_submit_io_to_iosched E b s = Some s' \<and> sy_bios s' = sy_bios s \<and> sy_inflight s' = sy_inflight s \<and>
     sy_done s' = sy_done s \<and> sy_tasks s' = (sy_tasks s)(sy_next s \<mapsto> tk) \<and> t_bio tk = Some b \<and> t_status tk = LBZ_TASK_INIT \<and>
     d_mapping (sy_dev s') = d_mapping (sy_dev s) \<and> d_zone_metadata (sy_dev s') = d_zone_metadata (sy_dev s) \<and>
     task_tree s' = task_tree s \<and> s_user_pending (d_iosched (sy_dev s')) = s_user_pending (d_iosched (sy_dev s)) @ [sy_next s] \<and>
     s_retry_queued (d_iosched (sy_dev s'))"
proof -
  let ?t = "sy_next s" and ?b = "sector_to_blkid (bi_sector x)"
  obtain ty mgmt where cl: "classify_write ?b (bi_flush x) (d_nat_sit_mgmt (sy_dev s)) = (ty, mgmt)" by force
  define d1 where "d1 = (sy_dev s)\<lparr>d_user_write_blocks := d_user_write_blocks (sy_dev s) + 1,
      d_user_write_inflight_io_cnt := d_user_write_inflight_io_cnt (sy_dev s) + 1, d_nat_sit_mgmt := mgmt\<rparr>"
  let ?tk = "(task_init ty)\<lparr>t_bio := Some b, t_blkid := ?b\<rparr>"
  let ?s1 = "s\<lparr>sy_dev := d1, sy_next := ?t + 1, sy_tasks := (sy_tasks s)(?t \<mapsto> ?tk)\<rparr>"
  have ft: "?t \<notin> set (inorder (task_tree s))" "q \<noteq> ?t" using fresh ok q(2) by (auto simp: tree_ok_def)
  have tr1: "s_task_tree (d_iosched (sy_dev ?s1)) = task_tree s" by (simp add: d1_def task_tree_def)
  have ok1: "tree_ok (sy_tasks ?s1) (task_tree s)" using tree_ok_forget [OF ok ft(1)] by simp
  have "task_key (sy_tasks ?s1) q = ?b" using q ft(2) by (simp add: task_key_def)
  with tree_link_spec [OF ok1, of ?b ?t] q(1) obtain q' where
    l: "tree_link (sy_tasks ?s1) ?b ?t (task_tree s) = Some (Inl q')" "q' \<in> set (inorder (task_tree s))"
      "task_key (sy_tasks ?s1) q' = ?b" by (fastforce simp: task_key_def)
  have "q' = q" by (rule tree_ok_inj [OF ok1 l(2) q(1)]) (use l(3) \<open>task_key _ q = ?b\<close> in simp)
  with l have i: "insert_task_to_tree (ev_kern E) ?t ?s1 =
      Some (Some q, ?s1\<lparr>sy_tasks := (sy_tasks ?s1)(q \<mapsto> tq\<lparr>t_refcount := t_refcount tq + 1\<rparr>)\<rparr>)"
    using q(2) ft(2) tr1 by (simp add: insert_task_to_tree_def task_get_def upd_task_def)
  have "t_refcount tq + 1 \<noteq> 1" using q(4) by simp
  then have tp: "task_put (ev_kern E) q (?s1\<lparr>sy_tasks := (sy_tasks ?s1)(q \<mapsto> tq\<lparr>t_refcount := t_refcount tq + 1\<rparr>)\<rparr>) = Some ?s1"
    using q(2) ft(2) by (subst task_put_dec [of _ _ "tq\<lparr>t_refcount := t_refcount tq + 1\<rparr>"]) (auto simp: fun_upd_twist fun_upd_idem)
  let ?s0 = "s\<lparr>sy_dev := d1, sy_next := ?t + 1, sy_tasks := (sy_tasks s)(?t \<mapsto> (task_init ty)\<lparr>t_bio := Some b\<rparr>)\<rparr>"
  have "upd_task ?t (\<lambda>tk. tk\<lparr>t_blkid := ?b\<rparr>) ?s0 = Some ?s1" by (simp add: upd_task_def)
  with i tp x(1) have sw: "submit_write_task E ?t ?s0 = Some (Some EAGAIN, ?s1)"
    by (simp add: submit_write_task_def Let_def task_init_def)
  let ?d2 = "d1\<lparr>d_user_encounter_emergency := d_user_encounter_emergency d1 + 1, d_iosched := (d_iosched d1)\<lparr>
      s_pending_count := s_pending_count (d_iosched d1) + 1, s_user_pending := s_user_pending (d_iosched d1) @ [?t],
      s_retry_queued := True\<rparr>\<rparr>"
  have "\<exists>s'. lbz_submit_io_to_iosched E b s = Some s' \<and> sy_dev s' = ?d2 \<and> sy_bios s' = sy_bios s \<and>
      sy_inflight s' = sy_inflight s \<and> sy_done s' = sy_done s \<and> sy_tasks s' = (sy_tasks s)(?t \<mapsto> ?tk\<lparr>t_link := LinkList\<rparr>)"
    using x cl sw by (simp add: lbz_submit_io_to_iosched_def Let_def task_alloc_def upd_task_def upd_dev_def d1_def
        add_task_to_retry_def upd_iosched_def trigger_retry_work_def)
  then obtain s' where "lbz_submit_io_to_iosched E b s = Some s'" "sy_dev s' = ?d2" "sy_bios s' = sy_bios s"
      "sy_inflight s' = sy_inflight s" "sy_done s' = sy_done s" "sy_tasks s' = (sy_tasks s)(?t \<mapsto> ?tk\<lparr>t_link := LinkList\<rparr>)" by blast
  then show ?thesis
    by (intro exI [of _ s'] exI [of _ "?tk\<lparr>t_link := LinkList\<rparr>"]) (simp add: d1_def task_tree_def task_init_def)
qed

end
