(* ===== verification/Copy_Path.thy ===== *)
theory Copy_Path
  imports Submit_Path Ftl_Safety
begin

text \<open>
  The way of a block through the collector's task between the end of its read and the submission
  of its write: the completion of the read queues the task, and the retry work then either drops
  the copy, because the block has moved, or allocates a block and sends the write.
\<close>

section \<open>The state of a task whose block was read\<close>

text \<open>
  The task owns one reference, its page holds the content, and it is not in the tree. Its block is
  free when no other task for it is in the tree.
\<close>

definition block_free :: "lbz_sys \<Rightarrow> u32 \<Rightarrow> bool" where
  "block_free s b \<longleftrightarrow> (\<forall>q\<in>set (inorder (task_tree s)). task_key (sy_tasks s) q \<noteq> b)"

definition gc_copy_ready :: "kern \<Rightarrow> lbz_sys \<Rightarrow> tptr \<Rightarrow> lbz_io_task \<Rightarrow> bool" where
  "gc_copy_ready K s t tk \<longleftrightarrow>
     sy_tasks s t = Some tk \<and> t_type tk = LBZ_TASK_GC \<and> t_status tk = LBZ_TASK_GC_READING \<and>
     t_zone tk = Some (get_zone_by_pbid K (t_pbid tk)) \<and> t_refcount tk = 1 \<and> t_gc tk = GcIosched \<and>
     (\<forall>e. t_integrity_buf tk \<noteq> BufErr e) \<and> (\<exists>pg. t_page tk = Some pg \<and> sy_pages s pg \<noteq> None) \<and>
     tree_ok (sy_tasks s) (task_tree s) \<and> t \<notin> set (inorder (task_tree s))"

lemma gc_copy_ready_link:
  assumes r: "gc_copy_ready K s t tk"
  shows "gc_copy_ready K (s\<lparr>sy_tasks := (sy_tasks s)(t \<mapsto> tk\<lparr>t_link := l\<rparr>)\<rparr>) t (tk\<lparr>t_link := l\<rparr>)"
proof -
  let ?tasks = "(sy_tasks s)(t \<mapsto> tk\<lparr>t_link := l\<rparr>)"
  have t: "sy_tasks s t = Some tk" using r by (simp add: gc_copy_ready_def)
  have "tree_ok ?tasks (task_tree s)" using r t by (simp add: gc_copy_ready_def tree_ok_upd)
  then show ?thesis using r by (simp add: gc_copy_ready_def task_tree_def)
qed

lemma block_free_upd:
  assumes "sy_tasks s t = Some tk" "t_blkid tk' = t_blkid tk"
  shows "block_free (s\<lparr>sy_tasks := (sy_tasks s)(t \<mapsto> tk')\<rparr>) b = block_free s b"
proof -
  have "task_key ((sy_tasks s)(t \<mapsto> tk')) = task_key (sy_tasks s)" using assms by (auto simp: task_key_def fun_eq_iff)
  then show ?thesis by (simp add: block_free_def task_tree_def)
qed

text \<open>The completion of the read: the task waits for the retry work, the maps are as before.\<close>

lemma gc_read_endio_queues:
  assumes x: "sy_bios s b = Some x" "bi_end_io x = GcReadEndio t" "bi_status x = None" and r: "gc_copy_ready K s t tk"
  shows "\<exists>s'. lbz_gc_read_endio K b s = Some s' \<and> gc_copy_ready K s' t (tk\<lparr>t_link := LinkList\<rparr>) \<and>
    d_mapping (sy_dev s') = d_mapping (sy_dev s) \<and> d_zone_metadata (sy_dev s') = d_zone_metadata (sy_dev s) \<and>
    d_flags (sy_dev s') = d_flags (sy_dev s) \<and> d_gc_ctx (sy_dev s') = d_gc_ctx (sy_dev s) \<and>
    s_gc_writes (d_iosched (sy_dev s')) = s_gc_writes (d_iosched (sy_dev s)) @ [t] \<and> s_retry_queued (d_iosched (sy_dev s')) \<and>
    sy_bios s' = (sy_bios s)(b := None)"
proof -
  have t: "sy_tasks s t = Some tk" "t_gc tk = GcIosched" using r by (simp_all add: gc_copy_ready_def)
  from gc_copy_ready_link [OF r, of LinkList] x t show ?thesis
    by (simp add: lbz_gc_read_endio_def task_iosched_def upd_task_def add_task_to_gc_writes_def upd_iosched_def upd_dev_def
        trigger_retry_work_def bio_put_def gc_copy_ready_def task_tree_def)
qed

section \<open>The check whether the block is still there\<close>

text \<open>
  The lookup takes a reference on the zone where the block is, which the check drops again; apart
  from that, and from a state that dropping a reference may set, the zone table is as before.
\<close>

lemma gc_check_total:
  assumes ok: "sys_maps_ok K s" and m: "map_get K (d_mapping (sy_dev s)) b = Some q"
  shows "\<exists>zmd. ftl_gc_check K b old (d_mapping (sy_dev s)) (d_zone_metadata (sy_dev s)) =
      Some (q = old \<and> q \<noteq> LBZ_INVALID_PBID, zmd) \<and> zmd_wf zmd \<and>
    zmd_rget K zmd = zmd_rget K (d_zone_metadata (sy_dev s)) \<and>
    zmd_nr_allocable_blks zmd = zmd_nr_allocable_blks (d_zone_metadata (sy_dev s)) \<and>
    (\<forall>p. zmd_zones (d_zone_metadata (sy_dev s)) p \<noteq> None \<longrightarrow> zmd_zones zmd p \<noteq> None)"
proof (cases "q = LBZ_INVALID_PBID")
  case True
  then show ?thesis using ok lookup_by_get [OF m] by (auto simp: ftl_gc_check_def sys_maps_ok_def)
next
  case False
  let ?zmd = "d_zone_metadata (sy_dev s)" and ?p = "get_zone_by_pbid K q"
  have wf: "zmd_wf ?zmd" using ok by (simp add: sys_maps_ok_def)
  have "zmd_rget K ?zmd q = Some b" using ok m False by (auto simp: sys_maps_ok_def intro: map_consistent_fr)
  from zmd_rget_zone [OF this] obtain z where z: "zmd_zones ?zmd ?p = Some z" by blast
  let ?z1 = "?zmd\<lparr>zmd_zones := (zmd_zones ?zmd)(?p \<mapsto> lbz_get_zone z)\<rparr>"
  let ?z2 = "?zmd\<lparr>zmd_zones := (zmd_zones ?zmd)(?p \<mapsto> lbz_put_zone (lbz_get_zone z))\<rparr>"
  have g: "upd_zone ?p lbz_get_zone ?zmd = Some ?z1" using z by (simp add: upd_zone_def)
  note w1 = get_zone_ok [OF wf g]
  have p: "upd_zone ?p lbz_put_zone ?z1 = Some ?z2" by (simp add: upd_zone_def)
  from put_zone_ok [OF w1(1), of ?p K] p have "zmd_wf ?z2" "zmd_rget K ?z2 = zmd_rget K ?z1" by auto
  then show ?thesis using lookup_by_get [OF m, of ?zmd] False g p w1(2) [of K]
    by (intro exI [of _ ?z2]) (auto simp: ftl_gc_check_def)
qed

section \<open>The first part of the retry of a copy\<close>

text \<open>
  The task after it was linked into the tree, and the driver with the tree \<open>tr\<close>, the task \<open>tk\<close> and
  the zone table that the check leaves.
\<close>

definition copy_task_linked :: "kern \<Rightarrow> lbz_io_task \<Rightarrow> lbz_io_task" where
  "copy_task_linked K tk = tk\<lparr>t_link := LinkZone (get_zone_by_pbid K (t_pbid tk)), t_zone := None, t_bio := None, t_refcount := 2\<rparr>"

definition copy_linked :: "tptr \<Rightarrow> tptr tree \<Rightarrow> lbz_zone_metadata \<Rightarrow> lbz_io_task \<Rightarrow> lbz_sys \<Rightarrow> lbz_sys" where
  "copy_linked t tr zmd tk s = s\<lparr>sy_dev := (sy_dev s)\<lparr>d_iosched := (d_iosched (sy_dev s))\<lparr>s_task_tree := tr,
       s_task_count := s_task_count (d_iosched (sy_dev s)) + 1\<rparr>, d_zone_metadata := zmd\<rparr>, sy_tasks := (sy_tasks s)(t \<mapsto> tk)\<rparr>"

lemma copy_inserted:
  assumes K: "kern_ok K" and r: "gc_copy_ready K s t tk" and b: "block_free s (t_blkid tk)"
  shows "\<exists>tr. insert_task_to_tree K t (s\<lparr>sy_tasks := (sy_tasks s)(t \<mapsto> tk\<lparr>t_link := LinkZone (get_zone_by_pbid K (t_pbid tk)),
       t_zone := None, t_bio := None\<rparr>)\<rparr>) = Some (None, copy_linked t tr (d_zone_metadata (sy_dev s)) (copy_task_linked K tk) s) \<and>
     set (inorder tr) = insert t (set (inorder (task_tree s))) \<and> tree_ok ((sy_tasks s)(t \<mapsto> copy_task_linked K tk)) tr"
proof -
  let ?tk1 = "tk\<lparr>t_link := LinkZone (get_zone_by_pbid K (t_pbid tk)), t_zone := None, t_bio := None\<rparr>"
  let ?s1 = "s\<lparr>sy_tasks := (sy_tasks s)(t \<mapsto> ?tk1)\<rparr>"
  have t: "sy_tasks s t = Some tk" "t_refcount tk = 1"
    and tree: "tree_ok (sy_tasks s) (task_tree s)" using r by (auto simp: gc_copy_ready_def)
  have tr1: "task_tree ?s1 = task_tree s" by (simp add: task_tree_def)
  have ok1: "tree_ok (sy_tasks ?s1) (task_tree ?s1)" unfolding tr1 using tree t(1) by (simp add: tree_ok_upd)
  have free: "\<forall>q\<in>set (inorder (task_tree ?s1)). task_key (sy_tasks ?s1) q \<noteq> t_blkid ?tk1"
    using b block_free_upd [of s t tk ?tk1 "t_blkid tk"] t(1) by (simp add: block_free_def)
  have t1: "sy_tasks ?s1 t = Some ?tk1" by simp
  have tk2: "?tk1\<lparr>t_refcount := t_refcount ?tk1 + 1\<rparr> = copy_task_linked K tk" using t(2) by (simp add: copy_task_linked_def)
  from insert_new [OF K ok1 t1 free] show ?thesis unfolding tr1 tk2 by (auto simp: copy_linked_def)
qed

lemma gc_stage_reading_links:
  assumes K: "kern_ok (ev_kern E)" and r: "gc_copy_ready (ev_kern E) s t tk" and b: "block_free s (t_blkid tk)"
    and c: "ftl_gc_check (ev_kern E) (t_blkid tk) (t_pbid tk) (d_mapping (sy_dev s)) (d_zone_metadata (sy_dev s)) = Some (cur, zmd)"
  shows "\<exists>tr f. set (inorder tr) = insert t (set (inorder (task_tree s))) \<and>
     tree_ok ((sy_tasks s)(t \<mapsto> copy_task_linked (ev_kern E) tk)) tr \<and>
     (\<forall>d. same_ftl d (f d)) \<and>
     gc_stage_reading E t s =
       (if cur then gc_stage_alloc E t (copy_linked t tr zmd ((copy_task_linked (ev_kern E) tk)\<lparr>t_status := LBZ_TASK_ALLOC_RES\<rparr>) s)
        else gc_skip (ev_kern E) t (upd_dev f (copy_linked t tr zmd (copy_task_linked (ev_kern E) tk) s)))"
proof -
  let ?K = "ev_kern E"
  have t: "sy_tasks s t = Some tk" "t_zone tk = Some (get_zone_by_pbid ?K (t_pbid tk))" using r by (auto simp: gc_copy_ready_def)
  from copy_inserted [OF K r b] obtain tr where
    i: "insert_task_to_tree ?K t (s\<lparr>sy_tasks := (sy_tasks s)(t \<mapsto> tk\<lparr>t_link := LinkZone (get_zone_by_pbid ?K (t_pbid tk)),
       t_zone := None, t_bio := None\<rparr>)\<rparr>) = Some (None, copy_linked t tr (d_zone_metadata (sy_dev s)) (copy_task_linked ?K tk) s)"
      "set (inorder tr) = insert t (set (inorder (task_tree s)))" "tree_ok ((sy_tasks s)(t \<mapsto> copy_task_linked ?K tk)) tr" by blast
  let ?dis = "\<lambda>d::lbz_device. d\<lparr>d_gc_write_discarded_blocks := d_gc_write_discarded_blocks d + 1\<rparr>"
  let ?com = "\<lambda>d::lbz_device. d\<lparr>d_gc_write_complete_blocks := d_gc_write_complete_blocks d + 1\<rparr>"
  have q: "\<forall>d. same_ftl d (?dis d)" "\<forall>d. same_ftl d (?com d)" by (simp_all add: same_ftl_def)
  obtain f where f: "\<forall>d. same_ftl d (f d)"
    "gc_stage_reading E t s =
       (if cur then gc_stage_alloc E t (copy_linked t tr zmd ((copy_task_linked ?K tk)\<lparr>t_status := LBZ_TASK_ALLOC_RES\<rparr>) s)
        else gc_skip ?K t (upd_dev f (copy_linked t tr zmd (copy_task_linked ?K tk) s)))"
  proof -
    from c obtain l zmd0 where l: "lbz_mapping_lookup ?K (d_mapping (sy_dev s)) (t_blkid tk) (d_zone_metadata (sy_dev s)) = Some (l, zmd0)"
      by (auto simp: ftl_gc_check_def bind_eq_Some_conv)
    show thesis
    proof (cases l)
      case (Inl e)
      have p: "\<not> cur" "zmd0 = zmd" using c l by (simp_all add: ftl_gc_check_def Inl)
      have "gc_stage_reading E t s = gc_skip ?K t (upd_dev ?dis (copy_linked t tr zmd (copy_task_linked ?K tk) s))"
        using l t i(1) p(2) by (simp add: gc_stage_reading_def upd_task_def copy_linked_def upd_dev_def Inl)
      then show thesis using p(1) by (intro that [of ?dis, OF q(1)]) simp
    next
      case (Inr zq)
      obtain z q where zq: "zq = (z, q)" by force
      have p: "upd_zone z lbz_put_zone zmd0 = Some zmd" "cur = (q = t_pbid tk)"
        using c l by (auto simp: ftl_gc_check_def Inr zq bind_eq_Some_conv)
      have "gc_stage_reading E t s =
          (if q = t_pbid tk then gc_stage_alloc E t (copy_linked t tr zmd ((copy_task_linked ?K tk)\<lparr>t_status := LBZ_TASK_ALLOC_RES\<rparr>) s)
           else gc_skip ?K t (upd_dev ?com (copy_linked t tr zmd (copy_task_linked ?K tk) s)))"
        using l t i(1) p(1)
        by (simp add: gc_stage_reading_def upd_task_def copy_linked_def upd_dev_def put_zone_def upd_zmd_def Inr zq)
      then show thesis using p(2) by (intro that [of ?com, OF q(2)]) simp
    qed
  qed
  show ?thesis by (rule exI [of _ tr], rule exI [of _ f]) (use f i(2,3) in simp)
qed


section \<open>A copy that is not needed any more\<close>

lemma gc_skip_ok:
  assumes "sy_tasks s t = Some tk" "t_refcount tk = 2" "t \<in> set (inorder (task_tree s))"
  shows "gc_skip K t s = Some (Some EEXIST, upd_iosched (\<lambda>io. io\<lparr>s_task_tree := rb_erase K t (s_task_tree io),
      s_task_count := s_task_count io - 1\<rparr>) (s\<lparr>sy_tasks := (sy_tasks s)(t \<mapsto> tk\<lparr>t_error := Some EEXIST, t_refcount := 1\<rparr>)\<rparr>))"
  using assms
  by (simp add: gc_skip_def upd_task_def del_task_from_tree_def task_tree_def upd_iosched_def upd_dev_def task_put_def
      task_dec_def Let_def)

lemma gc_task_callback_drops:
  assumes "sy_tasks s t = Some tk" "t_error tk \<noteq> None" "t_status tk = LBZ_TASK_GC_READING" "t_type tk = LBZ_TASK_GC"
    "t_refcount tk = 1" "t_gc tk = GcIosched" "t_link tk = LinkZone rz" "t_page tk = Some pg" "sy_pages s pg \<noteq> None"
    "\<And>e. t_integrity_buf tk \<noteq> BufErr e" "upd_zone rz lbz_put_zone (d_zone_metadata (sy_dev s)) = Some zmd"
  shows "gc_task_callback K t pbid s = Some (s\<lparr>sy_dev := (sy_dev s)\<lparr>d_zone_metadata := zmd\<rparr>,
      sy_tasks := (sy_tasks s)(t := None), sy_pages := (sy_pages s)(pg := None)\<rparr>)"
proof -
  have "\<exists>c. sy_pages s pg = Some c" using assms(9) by auto
  then show ?thesis using assms
    by (cases "t_integrity_buf tk")
      (auto simp: gc_task_callback_def task_iosched_def gc_unwind_reading_def gc_unwind_init_def read_zone_def put_zone_def
        upd_zmd_def upd_dev_def gc_task_put_def task_dec_def Let_def task_destroy_def)
qed

text \<open>
  The retry drops a copy whose block has moved or was freed: the task leaves the tree that it has
  just entered, its page is freed and its reference on the old zone is given back.
\<close>

lemma copy_dropped:
  assumes K: "kern_ok (ev_kern E)" and r: "gc_copy_ready (ev_kern E) s t tk" and b: "block_free s (t_blkid tk)"
    and c: "ftl_gc_check (ev_kern E) (t_blkid tk) (t_pbid tk) (d_mapping (sy_dev s)) (d_zone_metadata (sy_dev s)) = Some (False, zmd1)"
    and u: "upd_zone (get_zone_by_pbid (ev_kern E) (t_pbid tk)) lbz_put_zone zmd1 = Some zmd2"
  shows "\<exists>s'. retry_gc_tasks E [t] s = Some s' \<and> d_zone_metadata (sy_dev s') = zmd2 \<and>
     d_mapping (sy_dev s') = d_mapping (sy_dev s) \<and> d_flags (sy_dev s') = d_flags (sy_dev s) \<and>
     gc_zone (d_gc_ctx (sy_dev s')) = gc_zone (d_gc_ctx (sy_dev s)) \<and> sy_tasks s' = (sy_tasks s)(t := None) \<and>
     sy_pages s' = (sy_pages s)(the (t_page tk) := None) \<and> sy_bios s' = sy_bios s \<and> sy_inflight s' = sy_inflight s \<and>
     set (inorder (task_tree s')) = set (inorder (task_tree s))"
proof -
  let ?K = "ev_kern E" and ?tk0 = "tk\<lparr>t_link := LinkList\<rparr>"
  let ?s0 = "s\<lparr>sy_tasks := (sy_tasks s)(t \<mapsto> ?tk0)\<rparr>"
  from r obtain pg where t: "sy_tasks s t = Some tk" "t_page tk = Some pg" "sy_pages s pg \<noteq> None" "t_type tk = LBZ_TASK_GC"
    "t_gc tk = GcIosched" "t_status tk = LBZ_TASK_GC_READING" "\<And>e. t_integrity_buf tk \<noteq> BufErr e" by (auto simp: gc_copy_ready_def)
  have r0: "gc_copy_ready ?K ?s0 t ?tk0" by (rule gc_copy_ready_link [OF r])
  have b0: "block_free ?s0 (t_blkid ?tk0)" using b block_free_upd [of s t tk ?tk0] t(1) by simp
  have c0: "ftl_gc_check ?K (t_blkid ?tk0) (t_pbid ?tk0) (d_mapping (sy_dev ?s0)) (d_zone_metadata (sy_dev ?s0)) = Some (False, zmd1)"
    using c by simp
  from gc_stage_reading_links [OF K r0 b0 c0] obtain tr f where
    l: "set (inorder tr) = insert t (set (inorder (task_tree s)))" "tree_ok ((sy_tasks s)(t \<mapsto> copy_task_linked ?K tk)) tr"
      "same_ftl d (f d)" "gc_stage_reading E t ?s0 = gc_skip ?K t (upd_dev f (copy_linked t tr zmd1 (copy_task_linked ?K tk) s))" for d
    by (auto simp: copy_linked_def copy_task_linked_def task_tree_def)
  let ?s1 = "upd_dev f (copy_linked t tr zmd1 (copy_task_linked ?K tk) s)"
  have s1: "sy_tasks ?s1 = (sy_tasks s)(t \<mapsto> copy_task_linked ?K tk)" "sy_pages ?s1 = sy_pages s" "sy_bios ?s1 = sy_bios s"
    "sy_inflight ?s1 = sy_inflight s" "task_tree ?s1 = tr" "d_zone_metadata (sy_dev ?s1) = zmd1"
    "d_mapping (sy_dev ?s1) = d_mapping (sy_dev s)" "d_flags (sy_dev ?s1) = d_flags (sy_dev s)"
    "gc_zone (d_gc_ctx (sy_dev ?s1)) = gc_zone (d_gc_ctx (sy_dev s))"
    using l(3) by (simp_all add: upd_dev_def copy_linked_def same_ftl_def task_tree_def)
  define tk2 where "tk2 = (copy_task_linked ?K tk)\<lparr>t_error := Some EEXIST, t_refcount := 1\<rparr>"
  define s2 where "s2 = upd_iosched (\<lambda>io. io\<lparr>s_task_tree := rb_erase ?K t (s_task_tree io),
      s_task_count := s_task_count io - 1\<rparr>) (?s1\<lparr>sy_tasks := (sy_tasks ?s1)(t \<mapsto> tk2)\<rparr>)"
  have sk: "gc_skip ?K t ?s1 = Some (Some EEXIST, s2)"
    unfolding s2_def tk2_def by (rule gc_skip_ok) (use l(1) s1 in \<open>simp_all add: copy_task_linked_def\<close>)
  have d: "distinct (inorder tr)" by (rule tree_ok_distinct [OF l(2)])
  have nt: "t \<notin> set (inorder (task_tree s))" using r by (auto simp: gc_copy_ready_def)
  have s2: "sy_tasks s2 = (sy_tasks s)(t \<mapsto> tk2)" "sy_pages s2 = sy_pages s" "sy_bios s2 = sy_bios s"
    "sy_inflight s2 = sy_inflight s" "d_zone_metadata (sy_dev s2) = zmd1" "d_mapping (sy_dev s2) = d_mapping (sy_dev s)"
    "d_flags (sy_dev s2) = d_flags (sy_dev s)" "gc_zone (d_gc_ctx (sy_dev s2)) = gc_zone (d_gc_ctx (sy_dev s))"
    "task_tree s2 = rb_erase ?K t tr"
    using s1 by (simp_all add: s2_def upd_iosched_def upd_dev_def task_tree_def)
  have cb: "gc_task_callback ?K t LBZ_INVALID_PBID s2 = Some (s2\<lparr>sy_dev := (sy_dev s2)\<lparr>d_zone_metadata := zmd2\<rparr>,
      sy_tasks := (sy_tasks s2)(t := None), sy_pages := (sy_pages s2)(pg := None)\<rparr>)"
    by (rule gc_task_callback_drops [where tk = tk2 and rz = "get_zone_by_pbid ?K (t_pbid tk)"])
      (use t u in \<open>simp_all add: s2 tk2_def copy_task_linked_def\<close>)
  have "submit_gc_task E t ?s0 = Some (Some EEXIST, s2)"
    using t(6) l(4) sk by (simp add: submit_gc_task_def)
  moreover have "upd_task t (\<lambda>tk. tk\<lparr>t_link := LinkList\<rparr>) s = Some ?s0" using t(1) by (simp add: upd_task_def)
  moreover have "set (inorder (rb_erase ?K t tr)) = set (inorder (task_tree s))"
    using K d l(1) nt by (simp add: kern_ok_def)
  ultimately show ?thesis using cb t(2) s2
    by (simp add: upd_dev_def lbz_dec_gc_inflight_def task_tree_def)
qed


section \<open>A copy that is written\<close>

lemma gc_stage_writing_ok:
  assumes t: "sy_tasks s t = Some tk" "t_bio tk = Some b" "sy_bios s b = Some x" "t_type tk = LBZ_TASK_GC"
    and i: "ev_integrity E t = None"
  shows "\<exists>log d. gc_stage_writing E t (Some b) s = Some (None, s\<lparr>sy_dev := d,
       sy_tasks := (sy_tasks s)(t \<mapsto> tk\<lparr>t_integrity_buf := Buf log, t_status := LBZ_TASK_DISPATCH\<rparr>),
       sy_inflight := sy_inflight s @ [b]\<rparr>) \<and> same_ftl (sy_dev s) d \<and> dl_blkid log = t_blkid tk"
proof -
  let ?d = "(sy_dev s)\<lparr>d_timestamp := d_timestamp (sy_dev s) + 1\<rparr>"
  let ?log = "\<lparr>dl_timestamp = d_timestamp ?d, dl_txid = 0, dl_blkid = t_blkid tk, dl_free_blkid = 0,
     dl_log_type = LBZ_LOG_GC_WRITE, dl_crc = 0\<rparr>"
  let ?d' = "?d\<lparr>d_gc_write_blocks := d_gc_write_blocks ?d + 1\<rparr>"
  have "add_integrity E t LBZ_LOG_GC_WRITE s = Some (Buf ?log, s\<lparr>sy_dev := ?d\<rparr>)"
    using t i by (simp add: add_integrity_def Let_def lbz_dev_get_timestamp_def)
  then have "gc_stage_writing E t (Some b) s = Some (None, s\<lparr>sy_dev := ?d',
       sy_tasks := (sy_tasks s)(t \<mapsto> tk\<lparr>t_integrity_buf := Buf ?log, t_status := LBZ_TASK_DISPATCH\<rparr>),
       sy_inflight := sy_inflight s @ [b]\<rparr>)"
    using t by (simp add: gc_stage_writing_def upd_task_def upd_dev_def submit_bio_def)
  moreover have "same_ftl (sy_dev s) ?d'" by (simp add: same_ftl_def)
  ultimately show ?thesis by (intro exI [of _ ?log] exI [of _ ?d']) simp
qed

text \<open>The bio that a copy is written with.\<close>

definition gc_write_bio :: "tptr \<Rightarrow> page \<Rightarrow> lbz_zone \<Rightarrow> bio" where
  "gc_write_bio t pg z = \<lparr>bi_write = True, bi_flush = False, bi_has_data = True, bi_sector = ucast (z_start_sector z),
     bi_sectors = 8, bi_status = None, bi_end_io = GcWriteEndio t, bi_append = True, bi_phys = True, bi_pages = [pg]\<rparr>"

lemma gc_stage_alloc_ok:
  assumes t: "sy_tasks s t = Some tk" "t_type tk = LBZ_TASK_GC" "t_page tk = Some pg" and i: "ev_integrity E t = None"
    and ss: "ev_stream_support E" and wf: "zmd_wf (d_zone_metadata (sy_dev s))" and nf: "\<not> is_dev_faulty (sy_dev s)"
    and room: "zmd_nr_allocable_blks (d_zone_metadata (sy_dev s)) \<noteq> 0"
  shows "\<exists>p z zmd' sid d log. gc_stage_alloc E t s = Some (None, s\<lparr>sy_dev := d,
       sy_tasks := (sy_tasks s)(t \<mapsto> tk\<lparr>t_zone := Some p, t_bio := Some (sy_next s), t_integrity_buf := Buf log,
         t_status := LBZ_TASK_DISPATCH\<rparr>),
       sy_bios := (sy_bios s)(sy_next s \<mapsto> gc_write_bio t pg z), sy_next := sy_next s + 1,
       sy_inflight := sy_inflight s @ [sy_next s]\<rparr>) \<and>
     same_ftl ((sy_dev s)\<lparr>d_zone_metadata := zmd'\<rparr>) d \<and> sid < LBZ_ZONE_MAX_STREAM \<and> zmd_zones zmd' p = Some z \<and>
     lbz_zone_alloc_res True False LBZ_ALLOC_FLAG_GC sid (d_zone_metadata (sy_dev s)) (d_gc_ctx (sy_dev s)) =
       Some (Inr p, zmd', d_gc_ctx (sy_dev s))"
proof -
  let ?zmd = "d_zone_metadata (sy_dev s)"
  let ?count = "\<lambda>d::lbz_device. d\<lparr>d_gc_alloc_encounter_eagain := d_gc_alloc_encounter_eagain d + 1\<rparr>"
  from gc_some_stream [OF wf room] obtain sid0 where
    "sid0 < LBZ_ZONE_MAX_STREAM" "\<not> alloc_blocked (is_dev_faulty (sy_dev s)) LBZ_ALLOC_FLAG_GC sid0 ?zmd" using nf by auto
  with alloc_any_cases [OF wf ss, of LBZ_ALLOC_FLAG_GC "t_blkid tk" ?count] obtain p zmd' sid c where
    c: "c = id \<or> c = ?count" and sid: "sid < LBZ_ZONE_MAX_STREAM"
    and a: "alloc_res_any E LBZ_ALLOC_FLAG_GC (t_blkid tk) ?count s =
        Some (Inr p, upd_dev c (upd_dev (\<lambda>d. d\<lparr>d_zone_metadata := zmd'\<rparr>) s))"
    and l: "lbz_zone_alloc_res True (is_dev_faulty (sy_dev s)) LBZ_ALLOC_FLAG_GC sid ?zmd (d_gc_ctx (sy_dev s)) =
        Some (Inr p, zmd', d_gc_ctx (sy_dev s))" by blast
  from alloc_res_step [OF wf sid l] obtain z where z: "zmd_zones zmd' p = Some z" by blast
  define d0 where "d0 = c ((sy_dev s)\<lparr>d_zone_metadata := zmd'\<rparr>)"
  have d0: "same_ftl ((sy_dev s)\<lparr>d_zone_metadata := zmd'\<rparr>) d0" "d_zone_metadata d0 = zmd'"
    using c by (auto simp: d0_def same_ftl_def)
  let ?b = "sy_next s"
  let ?tk = "tk\<lparr>t_zone := Some p, t_bio := Some ?b, t_status := LBZ_TASK_GC_WRITING\<rparr>"
  let ?s = "s\<lparr>sy_dev := d0, sy_next := ?b + 1, sy_bios := (sy_bios s)(?b \<mapsto> gc_write_bio t pg z), sy_tasks := (sy_tasks s)(t \<mapsto> ?tk)\<rparr>"
  have w: "gc_stage_alloc E t s = gc_stage_writing E t (Some ?b) ?s"
    using t a z d0(2)
    by (simp add: gc_stage_alloc_def upd_task_def init_gc_write_block_def Let_def upd_bio_def upd_dev_def d0_def [symmetric]
        gc_write_bio_def)
  have "sy_tasks ?s t = Some ?tk" "t_bio ?tk = Some ?b" "sy_bios ?s ?b = Some (gc_write_bio t pg z)" "t_type ?tk = LBZ_TASK_GC"
    using t by simp_all
  from gc_stage_writing_ok [OF this i] obtain log d where
    ws: "gc_stage_writing E t (Some ?b) ?s = Some (None, ?s\<lparr>sy_dev := d,
       sy_tasks := (sy_tasks ?s)(t \<mapsto> ?tk\<lparr>t_integrity_buf := Buf log, t_status := LBZ_TASK_DISPATCH\<rparr>),
       sy_inflight := sy_inflight ?s @ [?b]\<rparr>)" "same_ftl d0 d" by auto
  have "lbz_zone_alloc_res True False LBZ_ALLOC_FLAG_GC sid ?zmd (d_gc_ctx (sy_dev s)) = Some (Inr p, zmd', d_gc_ctx (sy_dev s))"
    using l nf by simp
  then show ?thesis using w ws(1) same_ftl_trans [OF d0(1) ws(2)] sid z
    by (intro exI [of _ p] exI [of _ z] exI [of _ zmd'] exI [of _ sid] exI [of _ d] exI [of _ log]) simp
qed

text \<open>
  The retry writes a copy whose block is still where the collector read it: the task is in the
  tree, a block of some stream is allocated to it, and its page is on the way to that zone.
\<close>

lemma copy_started:
  assumes K: "kern_ok (ev_kern E)" and r: "gc_copy_ready (ev_kern E) s t tk" and b: "block_free s (t_blkid tk)"
    and c: "ftl_gc_check (ev_kern E) (t_blkid tk) (t_pbid tk) (d_mapping (sy_dev s)) (d_zone_metadata (sy_dev s)) = Some (True, zmd1)"
    and i: "ev_integrity E t = None" and ss: "ev_stream_support E" and nf: "\<not> is_dev_faulty (sy_dev s)"
    and wf: "zmd_wf zmd1" "zmd_nr_allocable_blks zmd1 \<noteq> 0"
  shows "\<exists>s' x tk' p sid. retry_gc_tasks E [t] s = Some s' \<and> gc_write_in_flight (ev_kern E) s' (sy_next s) x t tk' p \<and>
     t_blkid tk' = t_blkid tk \<and> t_pbid tk' = t_pbid tk \<and> t_page tk' = t_page tk \<and> bi_append x \<and> bi_status x = None \<and>
     bi_pages x = [the (t_page tk)] \<and>
     sy_inflight s' = sy_inflight s @ [sy_next s] \<and> d_mapping (sy_dev s') = d_mapping (sy_dev s) \<and>
     d_flags (sy_dev s') = d_flags (sy_dev s) \<and> gc_zone (d_gc_ctx (sy_dev s')) = gc_zone (d_gc_ctx (sy_dev s)) \<and>
     sid < LBZ_ZONE_MAX_STREAM \<and>
     lbz_zone_alloc_res True False LBZ_ALLOC_FLAG_GC sid zmd1 (d_gc_ctx (sy_dev s)) =
       Some (Inr p, d_zone_metadata (sy_dev s'), d_gc_ctx (sy_dev s))"
proof -
  let ?K = "ev_kern E" and ?tk0 = "tk\<lparr>t_link := LinkList\<rparr>"
  let ?s0 = "s\<lparr>sy_tasks := (sy_tasks s)(t \<mapsto> ?tk0)\<rparr>"
  from r obtain pg where t: "sy_tasks s t = Some tk" "t_page tk = Some pg" "sy_pages s pg \<noteq> None" "t_type tk = LBZ_TASK_GC"
    "t_gc tk = GcIosched" "t_status tk = LBZ_TASK_GC_READING" by (auto simp: gc_copy_ready_def)
  have r0: "gc_copy_ready ?K ?s0 t ?tk0" by (rule gc_copy_ready_link [OF r])
  have b0: "block_free ?s0 (t_blkid ?tk0)" using b block_free_upd [of s t tk ?tk0] t(1) by simp
  have c0: "ftl_gc_check ?K (t_blkid ?tk0) (t_pbid ?tk0) (d_mapping (sy_dev ?s0)) (d_zone_metadata (sy_dev ?s0)) = Some (True, zmd1)"
    using c by simp
  let ?L = "(copy_task_linked ?K tk)\<lparr>t_status := LBZ_TASK_ALLOC_RES\<rparr>"
  from gc_stage_reading_links [OF K r0 b0 c0] obtain tr where
    l: "set (inorder tr) = insert t (set (inorder (task_tree s)))" "tree_ok ((sy_tasks s)(t \<mapsto> copy_task_linked ?K tk)) tr"
      "gc_stage_reading E t ?s0 = gc_stage_alloc E t (copy_linked t tr zmd1 ?L s)"
    by (auto simp: copy_linked_def copy_task_linked_def task_tree_def)
  let ?s1 = "copy_linked t tr zmd1 ?L s"
  have s1: "sy_tasks ?s1 t = Some ?L" "t_type ?L = LBZ_TASK_GC" "t_page ?L = Some pg" "d_zone_metadata (sy_dev ?s1) = zmd1"
    "is_dev_faulty (sy_dev ?s1) = is_dev_faulty (sy_dev s)" "d_gc_ctx (sy_dev ?s1) = d_gc_ctx (sy_dev s)" "sy_next ?s1 = sy_next s"
    using t by (simp_all add: copy_linked_def copy_task_linked_def is_dev_faulty_def)
  have s1': "zmd_wf (d_zone_metadata (sy_dev ?s1))" "\<not> is_dev_faulty (sy_dev ?s1)"
      "zmd_nr_allocable_blks (d_zone_metadata (sy_dev ?s1)) \<noteq> 0"
    unfolding s1(4,5) by (rule wf nf)+
  from gc_stage_alloc_ok [OF s1(1-3) i ss s1'] obtain p z zmd' sid d log where
    a: "gc_stage_alloc E t ?s1 = Some (None, ?s1\<lparr>sy_dev := d,
       sy_tasks := (sy_tasks ?s1)(t \<mapsto> ?L\<lparr>t_zone := Some p, t_bio := Some (sy_next s), t_integrity_buf := Buf log,
         t_status := LBZ_TASK_DISPATCH\<rparr>),
       sy_bios := (sy_bios ?s1)(sy_next s \<mapsto> gc_write_bio t pg z), sy_next := sy_next s + 1,
       sy_inflight := sy_inflight ?s1 @ [sy_next s]\<rparr>)"
      "same_ftl ((sy_dev ?s1)\<lparr>d_zone_metadata := zmd'\<rparr>) d" "sid < LBZ_ZONE_MAX_STREAM"
      "lbz_zone_alloc_res True False LBZ_ALLOC_FLAG_GC sid zmd1 (d_gc_ctx (sy_dev s)) = Some (Inr p, zmd', d_gc_ctx (sy_dev s))"
    unfolding s1(4,6,7) by blast
  define tk' where "tk' = ?L\<lparr>t_zone := Some p, t_bio := Some (sy_next s), t_integrity_buf := Buf log, t_status := LBZ_TASK_DISPATCH\<rparr>"
  define s' where "s' = s\<lparr>sy_dev := d, sy_tasks := (sy_tasks s)(t \<mapsto> tk'),
       sy_bios := (sy_bios s)(sy_next s \<mapsto> gc_write_bio t pg z), sy_next := sy_next s + 1, sy_inflight := sy_inflight s @ [sy_next s]\<rparr>"
  have e: "gc_stage_alloc E t ?s1 = Some (None, s')" using a(1) by (simp add: s'_def tk'_def copy_linked_def)
  have "retry_gc_tasks E [t] s = Some s'"
    using t(1,6) l(3) e by (simp add: upd_task_def submit_gc_task_def)
  moreover have d: "d_mapping d = d_mapping (sy_dev s)" "d_flags d = d_flags (sy_dev s)" "d_zone_metadata d = zmd'"
      "gc_zone (d_gc_ctx d) = gc_zone (d_gc_ctx (sy_dev s))" "s_task_tree (d_iosched d) = tr"
    using a(2) by (simp_all add: same_ftl_def copy_linked_def)
  moreover have "gc_write_in_flight ?K s' (sy_next s) (gc_write_bio t pg z) t tk' p"
  proof -
    have "tree_ok ((sy_tasks s)(t \<mapsto> tk')) tr"
      using l(2) tree_ok_upd [of "(sy_tasks s)(t \<mapsto> copy_task_linked ?K tk)" t "copy_task_linked ?K tk" tk' tr]
      by (simp add: tk'_def)
    then show ?thesis using t l(1) d(5)
      by (simp add: gc_write_in_flight_def s'_def tk'_def gc_write_bio_def copy_task_linked_def task_tree_def)
  qed
  ultimately show ?thesis using a(3,4) t(2)
    by (intro exI [of _ s'] exI [of _ "gc_write_bio t pg z"] exI [of _ tk'] exI [of _ p] exI [of _ sid])
      (simp add: s'_def tk'_def gc_write_bio_def copy_task_linked_def)
qed


section \<open>A copy that finds its block locked\<close>

text \<open>
  A write of the block is in flight. The copy leaves its task with the task of the write, which
  will drop it: the write replaces the block, so the copy is not needed.
\<close>

definition write_with_copy :: "kern \<Rightarrow> lbz_sys \<Rightarrow> bptr \<Rightarrow> bio \<Rightarrow> tptr \<Rightarrow> lbz_io_task \<Rightarrow> zptr \<Rightarrow> tptr \<Rightarrow> lbz_io_task \<Rightarrow> bool" where
  "write_with_copy K s b x t tk p g gk \<longleftrightarrow>
     sy_bios s b = Some x \<and> (\<exists>k e. bi_end_io x = WriteIoEndio t k e) \<and>
     sy_tasks s t = Some tk \<and> t_zone tk = Some p \<and> t_status tk = LBZ_TASK_DISPATCH \<and> t_refcount tk = 2 \<and>
     t_gc tk = GcNode g \<and> t_type tk \<noteq> LBZ_TASK_GC \<and> (\<forall>e. t_integrity_buf tk \<noteq> BufErr e) \<and>
     t \<in> set (inorder (task_tree s)) \<and> tree_ok (sy_tasks s) (task_tree s) \<and>
     sy_tasks s g = Some gk \<and> t_type gk = LBZ_TASK_GC \<and> t_status gk = LBZ_TASK_GC_READING \<and> t_error gk \<noteq> None \<and>
     t_refcount gk = 1 \<and> t_gc gk = GcIosched \<and> t_link gk = LinkZone (get_zone_by_pbid K (t_pbid gk)) \<and>
     (\<forall>e. t_integrity_buf gk \<noteq> BufErr e) \<and> (\<exists>pg. t_page gk = Some pg \<and> sy_pages s pg \<noteq> None) \<and>
     g \<notin> set (inorder (task_tree s)) \<and> t_blkid gk = t_blkid tk"

lemma tree_link_member:
  assumes ok: "tree_ok tasks tree" and q: "q \<in> set (inorder tree)" "task_key tasks q = b"
  shows "tree_link tasks b t tree = Some (Inl q)"
  using tree_link_spec [OF ok, of b t]
proof (elim disjE exE conjE)
  fix q' tk assume l: "tree_link tasks b t tree = Some (Inl q')" "q' \<in> set (inorder tree)" "tasks q' = Some tk" "t_blkid tk = b"
  have "q' = q" by (rule tree_ok_inj [OF ok l(2) q(1)]) (use l(3,4) q(2) in \<open>simp add: task_key_def\<close>)
  with l(1) show ?thesis by simp
next
  fix tr xs ys
  assume "inorder tree = xs @ ys" "\<forall>x\<in>set xs. task_key tasks x < b" "\<forall>y\<in>set ys. b < task_key tasks y"
  with q show ?thesis by fastforce
qed

lemma copy_waits:
  assumes r: "gc_copy_ready (ev_kern E) s t tk"
    and q: "q \<in> set (inorder (task_tree s))" "sy_tasks s q = Some tq" "t_blkid tq = t_blkid tk" "t_refcount tq \<noteq> 0"
  shows "\<exists>s'. retry_gc_tasks E [t] s = Some s' \<and>
     sy_tasks s' = (sy_tasks s)(t \<mapsto> tk\<lparr>t_link := LinkZone (get_zone_by_pbid (ev_kern E) (t_pbid tk)), t_zone := None,
       t_bio := None, t_error := Some ENOENT\<rparr>, q \<mapsto> tq\<lparr>t_gc := GcNode t\<rparr>) \<and>
     task_tree s' = task_tree s \<and> sy_bios s' = sy_bios s \<and> sy_pages s' = sy_pages s \<and> sy_inflight s' = sy_inflight s \<and>
     d_mapping (sy_dev s') = d_mapping (sy_dev s) \<and> d_zone_metadata (sy_dev s') = d_zone_metadata (sy_dev s) \<and>
     d_flags (sy_dev s') = d_flags (sy_dev s) \<and> d_gc_ctx (sy_dev s') = d_gc_ctx (sy_dev s)"
proof -
  let ?K = "ev_kern E"
  let ?tk1 = "tk\<lparr>t_link := LinkZone (get_zone_by_pbid ?K (t_pbid tk)), t_zone := None, t_bio := None\<rparr>"
  let ?s0 = "s\<lparr>sy_tasks := (sy_tasks s)(t \<mapsto> tk\<lparr>t_link := LinkList\<rparr>)\<rparr>"
  let ?s1 = "s\<lparr>sy_tasks := (sy_tasks s)(t \<mapsto> ?tk1)\<rparr>"
  have t: "sy_tasks s t = Some tk" "t_zone tk = Some (get_zone_by_pbid ?K (t_pbid tk))" "t_status tk = LBZ_TASK_GC_READING"
    and tree: "tree_ok (sy_tasks s) (task_tree s)" "t \<notin> set (inorder (task_tree s))" using r by (auto simp: gc_copy_ready_def)
  have ne: "q \<noteq> t" using q(1) tree(2) by auto
  have ok1: "tree_ok (sy_tasks ?s1) (s_task_tree (d_iosched (sy_dev s)))"
    using tree(1) t(1) by (simp add: tree_ok_upd task_tree_def)
  have l: "tree_link (sy_tasks ?s1) (t_blkid tk) t (s_task_tree (d_iosched (sy_dev s))) = Some (Inl q)"
    by (rule tree_link_member [OF ok1]) (use q ne in \<open>simp_all add: task_key_def task_tree_def\<close>)
  let ?tq1 = "tq\<lparr>t_refcount := t_refcount tq + 1\<rparr>"
  have i: "insert_task_to_tree ?K t ?s1 = Some (Some q, ?s1\<lparr>sy_tasks := (sy_tasks ?s1)(q \<mapsto> ?tq1)\<rparr>)"
    using l q(2) ne by (simp add: insert_task_to_tree_def task_get_def upd_task_def)
  have r1: "t_refcount tq + 1 \<noteq> 1" using q(4) by simp
  let ?d = "(sy_dev s)\<lparr>d_gc_write_agency_blocks := d_gc_write_agency_blocks (sy_dev s) + 1\<rparr>"
  let ?s2 = "s\<lparr>sy_dev := ?d, sy_tasks := (sy_tasks s)(t \<mapsto> ?tk1\<lparr>t_error := Some ENOENT\<rparr>, q \<mapsto> ?tq1\<lparr>t_gc := GcNode t\<rparr>)\<rparr>"
  let ?s3 = "s\<lparr>sy_dev := ?d, sy_tasks := (sy_tasks s)(t \<mapsto> ?tk1\<lparr>t_error := Some ENOENT\<rparr>, q \<mapsto> tq\<lparr>t_gc := GcNode t\<rparr>)\<rparr>"
  have tp: "task_put ?K q ?s2 = Some ?s3"
    using task_put_dec [of ?s2 q "?tq1\<lparr>t_gc := GcNode t\<rparr>" ?K] r1 by simp
  have "gc_stage_reading E t ?s0 = Some (Some ENOENT, ?s3)"
    using t i tp ne by (simp add: gc_stage_reading_def upd_task_def upd_dev_def fun_upd_twist)
  then have "retry_gc_tasks E [t] s = Some ?s3"
    using t(1,3) by (simp add: upd_task_def submit_gc_task_def)
  then show ?thesis by (intro exI [of _ ?s3]) (simp add: task_tree_def)
qed

lemma copy_joins_write:
  assumes r: "gc_copy_ready (ev_kern E) s t tk" and w: "write_in_flight s b x q tq p" "t_blkid tq = t_blkid tk" "t_type tq \<noteq> LBZ_TASK_GC"
  shows "\<exists>s' gk. retry_gc_tasks E [t] s = Some s' \<and> write_with_copy (ev_kern E) s' b x q (tq\<lparr>t_gc := GcNode t\<rparr>) p t gk \<and>
     t_blkid gk = t_blkid tk \<and> t_pbid gk = t_pbid tk \<and> sy_inflight s' = sy_inflight s \<and>
     d_mapping (sy_dev s') = d_mapping (sy_dev s) \<and> d_zone_metadata (sy_dev s') = d_zone_metadata (sy_dev s) \<and>
     d_flags (sy_dev s') = d_flags (sy_dev s) \<and> d_gc_ctx (sy_dev s') = d_gc_ctx (sy_dev s)"
proof -
  let ?gk = "tk\<lparr>t_link := LinkZone (get_zone_by_pbid (ev_kern E) (t_pbid tk)), t_zone := None, t_bio := None, t_error := Some ENOENT\<rparr>"
  let ?tasks = "(sy_tasks s)(t \<mapsto> ?gk, q \<mapsto> tq\<lparr>t_gc := GcNode t\<rparr>)"
  have q: "q \<in> set (inorder (task_tree s))" "sy_tasks s q = Some tq" "t_refcount tq \<noteq> 0"
    using w(1) by (auto simp: write_in_flight_def)
  have t: "sy_tasks s t = Some tk" "t \<notin> set (inorder (task_tree s))" "tree_ok (sy_tasks s) (task_tree s)"
    using r by (auto simp: gc_copy_ready_def)
  from copy_waits [OF r q(1,2) w(2) q(3)] obtain s' where s': "retry_gc_tasks E [t] s = Some s'" "sy_tasks s' = ?tasks"
     "task_tree s' = task_tree s" "sy_bios s' = sy_bios s" "sy_pages s' = sy_pages s" "sy_inflight s' = sy_inflight s"
     "d_mapping (sy_dev s') = d_mapping (sy_dev s)" "d_zone_metadata (sy_dev s') = d_zone_metadata (sy_dev s)"
     "d_flags (sy_dev s') = d_flags (sy_dev s)" "d_gc_ctx (sy_dev s') = d_gc_ctx (sy_dev s)" by blast
  have ne: "q \<noteq> t" using q(1) t(2) by auto
  have "tree_ok ((sy_tasks s)(t \<mapsto> ?gk)) (task_tree s)" using t(1,3) by (simp add: tree_ok_upd)
  then have "tree_ok ?tasks (task_tree s)" using q(2) ne by (simp add: tree_ok_upd)
  then have "write_with_copy (ev_kern E) s' b x q (tq\<lparr>t_gc := GcNode t\<rparr>) p t ?gk"
    using r w ne s'(2-5) by (simp add: write_with_copy_def write_in_flight_def gc_copy_ready_def)
  with s'(1,6-10) show ?thesis by (intro exI [of _ s'] exI [of _ ?gk]) simp
qed

text \<open>Two zones are updated in any order.\<close>

lemma upd_zone_commute:
  assumes "p \<noteq> q" "upd_zone p f zmd = Some a" "upd_zone q g zmd = Some b"
  shows "upd_zone q g a = upd_zone p f b"
  using assms by (auto simp: upd_zone_def fun_upd_twist split: option.splits)

text \<open>The release of the task of a write with which a copy waits: the copy is dropped, then the task.\<close>

lemma task_put_drops_copy:
  assumes t: "sy_tasks s t = Some tk" "t_refcount tk = 1" "t_gc tk = GcNode g" "t_type tk \<noteq> LBZ_TASK_GC"
      "\<And>e. t_integrity_buf tk \<noteq> BufErr e"
    and g: "sy_tasks s g = Some gk" "t_type gk = LBZ_TASK_GC" "t_status gk = LBZ_TASK_GC_READING" "t_error gk \<noteq> None"
      "t_refcount gk = 1" "t_gc gk = GcIosched" "t_link gk = LinkZone rz" "\<And>e. t_integrity_buf gk \<noteq> BufErr e"
      "t_page gk = Some pg" "sy_pages s pg \<noteq> None"
    and u: "upd_zone rz lbz_put_zone (d_zone_metadata (sy_dev s)) = Some zmd"
  shows "task_put K t s = Some (s\<lparr>sy_dev := lbz_dec_gc_inflight ((sy_dev s)\<lparr>d_zone_metadata := zmd\<rparr>),
      sy_tasks := (sy_tasks s)(g := None, t := None), sy_pages := (sy_pages s)(pg := None)\<rparr>)"
proof -
  have ne: "g \<noteq> t" using t(1,4) g(1,2) by auto
  let ?tk = "tk\<lparr>t_refcount := 0\<rparr>"
  let ?gk = "if t_error tk \<noteq> None then gk\<lparr>t_error := t_error tk\<rparr> else gk"
  let ?s1 = "s\<lparr>sy_tasks := (sy_tasks s)(t \<mapsto> ?tk, g \<mapsto> ?gk)\<rparr>"
  let ?s2 = "?s1\<lparr>sy_dev := (sy_dev ?s1)\<lparr>d_zone_metadata := zmd\<rparr>, sy_tasks := (sy_tasks ?s1)(g := None),
      sy_pages := (sy_pages ?s1)(pg := None)\<rparr>"
  have cb: "gc_task_callback K g LBZ_INVALID_PBID ?s1 = Some ?s2"
    by (rule gc_task_callback_drops [where tk = ?gk and rz = rz]) (use g u in auto)
  have e: "(sy_tasks s)(t \<mapsto> ?tk, g \<mapsto> gk) = (sy_tasks s)(t \<mapsto> ?tk)" using g(1) ne by (auto simp: fun_eq_iff)
  have d: "task_dec t s = Some (?tk, s\<lparr>sy_tasks := (sy_tasks s)(t \<mapsto> ?tk)\<rparr>)" using t(1,2) by (simp add: task_dec_def Let_def)
  have up: "(if t_error ?tk \<noteq> None then upd_task g (\<lambda>gk. gk\<lparr>t_error := t_error ?tk\<rparr>) (s\<lparr>sy_tasks := (sy_tasks s)(t \<mapsto> ?tk)\<rparr>)
      else Some (s\<lparr>sy_tasks := (sy_tasks s)(t \<mapsto> ?tk)\<rparr>)) = Some ?s1"
    using g(1) ne e by (simp add: upd_task_def)
  have "task_destroy t (upd_dev lbz_dec_gc_inflight ?s2) = Some (s\<lparr>sy_dev := lbz_dec_gc_inflight ((sy_dev s)\<lparr>d_zone_metadata := zmd\<rparr>),
      sy_tasks := (sy_tasks s)(g := None, t := None), sy_pages := (sy_pages s)(pg := None)\<rparr>)"
    using t(5) ne by (cases "t_integrity_buf tk") (auto simp: task_destroy_def upd_dev_def fun_upd_twist)
  with cb d up t(3,4) g(1,6) ne show ?thesis
    by (simp add: task_put_def pending_gc_node_def task_iosched_def)
qed


text \<open>
  The completion of a write with which a copy waits. On the maps and the zone table it is the
  completion of the write followed by the release of the copy's zone.
\<close>

lemma write_ends_copy:
  assumes K: "kern_ok K" and ok: "sys_maps_ok K s" and w: "write_with_copy K s b x t tk p g gk"
    and st: "bi_status x = None" and u: "unhook_io b s = Some su"
    and ap: "append_ok K (d_zone_metadata (sy_dev s)) p (sector_to_blkid (bi_sector x))"
    and dev: "map_get K (d_mapping (sy_dev s)) (t_blkid tk) \<noteq> None" and ne: "get_zone_by_pbid K (t_pbid gk) \<noteq> p"
    and rz: "\<forall>m zmd. ftl_write_done K p (t_blkid tk) (sector_to_blkid (bi_sector x))
        (d_mapping (sy_dev s), d_zone_metadata (sy_dev s)) = Some (m, zmd) \<longrightarrow> zmd_zones zmd (get_zone_by_pbid K (t_pbid gk)) \<noteq> None"
  shows "\<exists>s' zmd. lbz_write_io_endio K b s = Some s' \<and>
     ftl_write_done K p (t_blkid tk) (sector_to_blkid (bi_sector x)) (d_mapping (sy_dev s), d_zone_metadata (sy_dev s)) =
       Some (d_mapping (sy_dev s'), zmd) \<and>
     upd_zone (get_zone_by_pbid K (t_pbid gk)) lbz_put_zone zmd = Some (d_zone_metadata (sy_dev s')) \<and>
     sy_tasks s' = (sy_tasks s)(g := None, t := None) \<and> sy_pages s' = (sy_pages s)(the (t_page gk) := None) \<and>
     sy_bios s' = sy_bios su \<and> sy_done s' = sy_done su \<and>
     set (inorder (task_tree s')) = set (inorder (task_tree s)) - {t} \<and>
     d_flags (sy_dev s') = d_flags (sy_dev s) \<and> d_gc_ctx (sy_dev s') = d_gc_ctx (sy_dev s) \<and>
     d_gc_inflight_io_cnt (sy_dev s') = d_gc_inflight_io_cnt (sy_dev s) - 1"
proof -
  let ?pbid = "sector_to_blkid (bi_sector x)" and ?rz = "get_zone_by_pbid K (t_pbid gk)"
  from w obtain k e pg where x: "sy_bios s b = Some x" "bi_end_io x = WriteIoEndio t k e"
    and t: "sy_tasks s t = Some tk" "t_zone tk = Some p" "t_status tk = LBZ_TASK_DISPATCH" "t_refcount tk = 2"
      "t_gc tk = GcNode g" "t_type tk \<noteq> LBZ_TASK_GC" "\<And>e. t_integrity_buf tk \<noteq> BufErr e"
    and tree: "t \<in> set (inorder (task_tree s))" "tree_ok (sy_tasks s) (task_tree s)"
    and g: "sy_tasks s g = Some gk" "t_type gk = LBZ_TASK_GC" "t_status gk = LBZ_TASK_GC_READING" "t_error gk \<noteq> None"
      "t_refcount gk = 1" "t_gc gk = GcIosched" "t_link gk = LinkZone ?rz" "\<And>e. t_integrity_buf gk \<noteq> BufErr e"
      "t_page gk = Some pg" "sy_pages s pg \<noteq> None"
    by (auto simp: write_with_copy_def)
  from write_endio_prefix [OF K ok x st t(1-4) tree u ap dev] obtain m zmd mg io where
    e: "lbz_write_io_endio K b s = write_endio_rest K t p (su\<lparr>sy_dev := (sy_dev s)\<lparr>d_mapping := m,
       d_zone_metadata := zmd, d_nat_sit_mgmt := mg, d_iosched := io\<rparr>, sy_tasks := (sy_tasks s)(t \<mapsto> tk\<lparr>t_refcount := 1\<rparr>)\<rparr>)"
    and r0: "ftl_write_done K p (t_blkid tk) ?pbid (d_mapping (sy_dev s), d_zone_metadata (sy_dev s)) =
       do { zmd \<leftarrow> upd_zone p lbz_zone_complete_write zmd; zmd \<leftarrow> upd_zone p lbz_put_zone zmd; Some (m, zmd) }"
    and r: "zmd_wf (complete_zone p zmd)" "zmd_zones zmd p \<noteq> None"
    and io: "set (inorder (s_task_tree io)) = set (inorder (task_tree s)) - {t}"
    by blast
  note us = unhook_dev(2-) [OF u]
  from zmd_put_commute [OF r, of K] obtain zmd1 zmd2 where
    z: "upd_zone p lbz_zone_complete_write zmd = Some zmd1" "upd_zone p lbz_put_zone zmd1 = Some zmd2" by blast
  have wd: "ftl_write_done K p (t_blkid tk) ?pbid (d_mapping (sy_dev s), d_zone_metadata (sy_dev s)) = Some (m, zmd2)"
    unfolding r0 using z by simp
  have "zmd_zones zmd ?rz \<noteq> None" "zmd_zones zmd1 ?rz \<noteq> None"
    using rz wd z ne by (auto simp: upd_zone_def split: option.splits)
  then obtain zmda zmdb where a: "upd_zone ?rz lbz_put_zone zmd = Some zmda" "upd_zone ?rz lbz_put_zone zmd1 = Some zmdb"
    by (auto simp: upd_zone_def split: option.splits)
  have c1: "upd_zone p lbz_zone_complete_write zmda = Some zmdb"
    using upd_zone_commute [OF ne a(1) z(1)] a(2) z(1) upd_zone_commute [OF ne [symmetric] z(1) a(1)] by simp
  have c2: "upd_zone ?rz lbz_put_zone zmd2 = upd_zone p lbz_put_zone zmdb"
    using upd_zone_commute [OF ne [symmetric] z(2) a(2)] by simp
  have "zmd_zones zmd2 ?rz \<noteq> None" using rz wd by blast
  then obtain zmdf where f: "upd_zone ?rz lbz_put_zone zmd2 = Some zmdf" by (auto simp: upd_zone_def)
  have c3: "upd_zone p lbz_put_zone zmdb = Some zmdf" using c2 f by simp
  let ?s1 = "su\<lparr>sy_dev := (sy_dev s)\<lparr>d_mapping := m, d_zone_metadata := zmd, d_nat_sit_mgmt := mg, d_iosched := io\<rparr>,
      sy_tasks := (sy_tasks s)(t \<mapsto> tk\<lparr>t_refcount := 1\<rparr>)\<rparr>"
  have gt: "g \<noteq> t" using t(1,6) g(1,2) by auto
  have tp: "task_put K t ?s1 = Some (?s1\<lparr>sy_dev := lbz_dec_gc_inflight ((sy_dev ?s1)\<lparr>d_zone_metadata := zmda\<rparr>),
      sy_tasks := (sy_tasks ?s1)(g := None, t := None), sy_pages := (sy_pages ?s1)(pg := None)\<rparr>)"
    by (rule task_put_drops_copy [where tk = "tk\<lparr>t_refcount := 1\<rparr>" and gk = gk and rz = ?rz]) (use t g gt a(1) us in simp_all)
  let ?s' = "su\<lparr>sy_dev := (sy_dev s)\<lparr>d_mapping := m, d_zone_metadata := zmdf, d_nat_sit_mgmt := mg, d_iosched := io,
      d_gc_inflight_io_cnt := d_gc_inflight_io_cnt (sy_dev s) - 1,
      d_user_write_inflight_io_cnt := d_user_write_inflight_io_cnt (sy_dev s) - 1\<rparr>,
      sy_tasks := (sy_tasks s)(g := None, t := None), sy_pages := (sy_pages s)(pg := None)\<rparr>"
  have "lbz_write_io_endio K b s = Some ?s'"
    unfolding e using tp c1 c3 us gt
    by (simp add: write_endio_rest_def upd_dev_def upd_zmd_def put_zone_def lbz_dec_gc_inflight_def fun_upd_twist)
  then show ?thesis using wd f io g(9) by (intro exI [of _ ?s'] exI [of _ zmd2]) (simp add: task_tree_def)
qed

end
