(* ===== verification/Request.thy ===== *)
theory Request
  imports Gc
begin

text \<open>
  \<^verbatim>\<open>lbz_dev_submit_bio\<close> of \<^verbatim>\<open>lbz-request.c\<close>: the entry of every bio, flushes, and the split of long
  bios into bios of one block.

  The flush of a check point block makes the submitter wait for its completion. The model splits
  that call at the wait: \<open>lbz_submit_flush_bio\<close> runs up to it, \<open>lbz_flush_bio_done\<close> is the rest,
  which can run once the bio has completed.
\<close>

section \<open>Flush\<close>

definition lbz_submit_flush_bio :: "lbz_env \<Rightarrow> bptr \<Rightarrow> u32 \<Rightarrow> lbz_sys \<Rightarrow> lbz_sys option" where
  "lbz_submit_flush_bio E b blkid s = do {
     s \<leftarrow> upd_bio b (\<lambda>x. x\<lparr>bi_end_io := FlushBioEndio (bi_end_io x)\<rparr>) s;
     lbz_submit_io_to_iosched E b (s\<lparr>sy_flush_wait := (sy_flush_wait s)(b \<mapsto> blkid)\<rparr>)
   }"

definition lbz_flush_bio_done :: "lbz_env \<Rightarrow> bptr \<Rightarrow> lbz_sys \<Rightarrow> lbz_sys option" where
  "lbz_flush_bio_done E b s = do {
     blkid \<leftarrow> sy_flush_wait s b;
     x \<leftarrow> sy_bios s b;
     e \<leftarrow> (case bi_end_io x of FlushBioEndio e \<Rightarrow> Some e | _ \<Rightarrow> None);
     s \<leftarrow> (if bi_status x = None
          then do {
            (mgmt, m, zmd) \<leftarrow> lbz_nat_sit_tx_complete (ev_kern E) (d_nat_sit_mgmt (sy_dev s))
                                (d_mapping (sy_dev s)) (d_zone_metadata (sy_dev s));
            Some (upd_dev (\<lambda>d. d\<lparr>d_nat_sit_mgmt := mgmt, d_mapping := m, d_zone_metadata := zmd\<rparr>) s)
          }
          else Some s);
     s \<leftarrow> upd_bio b (\<lambda>x. x\<lparr>bi_end_io := e\<rparr>) s;
     s \<leftarrow> bio_endio_user b s;
     Some (upd_dev (\<lambda>d. d\<lparr>d_nat_sit_mgmt := lbz_nat_sit_set_cur_cp (d_nat_sit_mgmt d) blkid\<rparr>)
       (s\<lparr>sy_flush_wait := (sy_flush_wait s)(b := None), sy_flush_done := remove1 b (sy_flush_done s)\<rparr>))
   }"

section \<open>Long bios\<close>

definition max_sectors :: nat where "max_sectors = 2 ^ (LBZ_DATA_BLK_SHIFT - SECTOR_SHIFT)"

text \<open>One iteration of the loop that splits: the front block goes to the scheduler.\<close>

definition split_one :: "lbz_env \<Rightarrow> bptr \<Rightarrow> nat \<Rightarrow> bio \<Rightarrow> lbz_sys \<Rightarrow> lbz_sys option" where
  "split_one E b c x s = do {
     let (front, rest) = ev_bio_split E max_sectors x;
     let sb = sy_next s;
     ctx \<leftarrow> sy_ctxs s c;
     let s = s\<lparr>sy_bios := (sy_bios s)(b \<mapsto> rest, sb \<mapsto> front\<lparr>bi_end_io := LongBioEndio c\<rparr>),
              sy_ctxs := (sy_ctxs s)(c \<mapsto> ctx\<lparr>lc_remaining := lc_remaining ctx + 1\<rparr>),
              sy_next := sy_next s + 1\<rparr>;
     lbz_submit_io_to_iosched E sb s
   }"

text \<open>The loop ends when at most one block is left; a bio that \<open>bio_split\<close> does not shorten would keep it running.\<close>

partial_function (option) split_loop :: "lbz_env \<Rightarrow> bptr \<Rightarrow> nat \<Rightarrow> lbz_sys \<Rightarrow> lbz_sys option" where
  "split_loop E b c s =
     (case sy_bios s b of
        None \<Rightarrow> None
      | Some x \<Rightarrow>
          (if max_sectors < bi_sectors x
           then Option.bind (split_one E b c x s) (\<lambda>s. split_loop E b c s)
           else Some s))"

definition lbz_split_long_bio :: "lbz_env \<Rightarrow> bptr \<Rightarrow> lbz_sys \<Rightarrow> lbz_sys option" where
  "lbz_split_long_bio E b s = do {
     x \<leftarrow> sy_bios s b;
     let c = sy_next s;
     let s = s\<lparr>sy_ctxs := (sy_ctxs s)(c \<mapsto> \<lparr>lc_user_bio_long = b, lc_user_endio_long = bi_end_io x,
                                           lc_remaining = 1\<rparr>),
              sy_next := sy_next s + 1\<rparr>;
     s \<leftarrow> split_loop E b c s;
     upd_bio b (\<lambda>x. x\<lparr>bi_end_io := LongBioEndio c\<rparr>) s
   }"

section \<open>Entry\<close>

definition lbz_dev_submit_bio :: "lbz_env \<Rightarrow> bptr \<Rightarrow> lbz_sys \<Rightarrow> lbz_sys option" where
  "lbz_dev_submit_bio E b s = do {
     x \<leftarrow> sy_bios s b;
     let blkid = sector_to_blkid (bi_sector x);
     if bi_flush x \<and> \<not> bi_has_data x then bio_endio_unhooked b s
     else if bi_flush x \<and> lbz_nat_sit_is_cp_block (d_nat_sit_mgmt (sy_dev s)) blkid
     then (if ev_free_support E
           then lbz_submit_flush_bio E b blkid s
           else do {
             s \<leftarrow> lbz_submit_io_to_iosched E b s;
             Some (upd_dev (\<lambda>d. d\<lparr>d_nat_sit_mgmt := lbz_nat_sit_set_cur_cp (d_nat_sit_mgmt d) blkid\<rparr>) s)
           })
     else if \<not> bi_has_data x \<or> is_dev_faulty (sy_dev s) \<or> \<not> is_dev_ready (sy_dev s)
     then bio_endio_unhooked b s
     else if max_sectors < bi_sectors x
     then do {
       s \<leftarrow> lbz_split_long_bio E b s;
       lbz_submit_io_to_iosched E b s
     }
     else lbz_submit_io_to_iosched E b s
   }"

text \<open>
  C32. A defect: a bio that arrives while the device is faulty or not ready is reported to the layer
  above at once, without an error and without being executed: a write is acknowledged and its
  data is lost. The one exception is the flush of a check point block with data, which the code
  hands to the scheduler before it looks at the device.
\<close>

theorem faulty_device_acknowledges:
  assumes "sy_bios s b = Some x" and "bi_end_io x = UserEndio n" and "bi_status x = None"
    and "is_dev_faulty (sy_dev s) \<or> \<not> is_dev_ready (sy_dev s)"
    and "\<not> (bi_flush x \<and> bi_has_data x \<and>
      lbz_nat_sit_is_cp_block (d_nat_sit_mgmt (sy_dev s)) (sector_to_blkid (bi_sector x)))"
  shows "lbz_dev_submit_bio E b s =
    Some (s\<lparr>sy_done := sy_done s @ [(b, n, None)], sy_bios := (sy_bios s)(b := None)\<rparr>)"
  using assms by (auto simp: lbz_dev_submit_bio_def bio_endio_unhooked_def bio_endio_user_def Let_def)

end
