(* ===== verification/Ftl_Handlers.thy ===== *)
theory Ftl_Handlers
  imports Ftl_Collect Gc_Thread Copy_Path Request
begin

text \<open>
  The handlers of the driver take the steps of the machine. The steps of \<open>ftl_step\<close> are made of the
  functions that update the maps and the zone table; a handler also moves bios, tasks, pages and
  counters. The theory relates a state of the driver to a state of the machine and shows that the
  submission of a write and of a read, their ends, the read, the check and the write of a copy, and
  a whole pass of the collector over a zone are steps, or runs, of the machine.
\<close>

section \<open>The machine's view of the driver\<close>

text \<open>What the machine shows of the driver: the maps, the zone table, the collected zone and the flags of the device.\<close>

definition ftl_view :: "lbz_sys \<Rightarrow> fstate \<Rightarrow> bool" where
  "ftl_view s f \<longleftrightarrow> d_mapping (fs_dev f) = d_mapping (sy_dev s) \<and> fs_zmd f = d_zone_metadata (sy_dev s) \<and>
     gc_zone (d_gc_ctx (fs_dev f)) = gc_zone (d_gc_ctx (sy_dev s)) \<and> d_flags (fs_dev f) = d_flags (sy_dev s)"

section \<open>Runs\<close>

lemma run_append: "run step t fs u \<Longrightarrow> run step s es t \<Longrightarrow> run step s (es @ fs) u"
proof (induction rule: run.induct)
  case (run_snoc u0 fs u e v)
  then show ?case using run.run_snoc [of step s "es @ fs" u e v] by simp
qed simp

lemma run_cons: "step s e t \<Longrightarrow> run step t es u \<Longrightarrow> run step s (e # es) u"
  using run_append [of step t es u s "[e]"] run.run_snoc [OF run.run_nil, of step s e t] by simp

section \<open>Allocation does not look at the collector\<close>

lemma open_any_gc:
  "open_active_zone ss md sid zmd gc = Some (Inr p, zmd', gc') \<Longrightarrow> open_active_zone ss md sid zmd gc2 = Some (Inr p, zmd', gc2)"
  by (auto simp: open_active_zone_def Let_def split: option.splits prod.splits if_splits)

lemma alloc_any_gc:
  assumes "lbz_zone_alloc_res ss fy md sid zmd gc = Some (Inr p, zmd', gc')"
  shows "lbz_zone_alloc_res ss fy md sid zmd gc2 = Some (Inr p, zmd', gc2)"
proof -
  let ?pick = "\<lambda>gc. case zmd_active_zone zmd sid of
      None \<Rightarrow> open_active_zone ss md sid zmd gc
    | Some p \<Rightarrow> do {
        z \<leftarrow> zmd_zones zmd p;
        if z_wp_block z = zmd_zone_nr_blocks zmd
        then do { zmd \<leftarrow> upd_zone p lbz_put_zone zmd; open_active_zone ss md sid zmd gc }
        else Some (Inr p, zmd, gc)
      }"
  have g: "\<not> fy" "\<not> (md = LBZ_ALLOC_FLAG_USER \<and> zmd_nr_allocable_blks zmd < zmd_reserved_blks_gc zmd)"
    using assms by (auto simp: lbz_zone_alloc_res_def split: if_split_asm)
  then obtain r z1 g1 where r: "?pick gc = Some (r, z1, g1)"
    "(case r of Inl e \<Rightarrow> Some (Inl e, z1, g1) | Inr p \<Rightarrow> do { zmd \<leftarrow> take_block sid p z1; Some (Inr p, zmd, g1) }) =
      Some (Inr p, zmd', gc')"
    using assms by (auto simp: lbz_zone_alloc_res_def)
  then have p: "?pick gc = Some (Inr p, z1, g1)" "take_block sid p z1 = Some zmd'" by (cases r; auto)+
  have "?pick gc2 = Some (Inr p, z1, gc2)"
    using p(1) open_any_gc by (fastforce split: option.split_asm if_split_asm simp: bind_eq_Some_conv)
  then show ?thesis using g p(2) by (simp add: lbz_zone_alloc_res_def)
qed

section \<open>A pass of the collector is a run\<close>

text \<open>The copies of the entries of a zone.\<close>

definition entry_copies :: "lbz_zone \<Rightarrow> nat \<Rightarrow> nat \<Rightarrow> fop multiset" where
  "entry_copies z n m = mset (map (\<lambda>(i, b). FCopy b (zone_pbid z i)) (live_entries (z_zrms z) n m))"

lemma entry_copies_step:
  "n < m \<Longrightarrow> zrms_get (z_zrms z) n = Some b \<Longrightarrow>
     entry_copies z n m = (if b = LBZ_INVALID_PBID then {#} else {#FCopy b (zone_pbid z n)#}) + entry_copies z (Suc n) m"
  by (simp add: entry_copies_def live_entries_step)

lemma entry_copies_end: "m \<le> n \<Longrightarrow> entry_copies z n m = {#}"
  by (simp add: entry_copies_def live_entries_end)

lemma entry_copies_get: "entry_copies (lbz_get_zone z) = entry_copies z" "entry_copies (lbz_set_zone_state st z) = entry_copies z"
  by (simp_all add: entry_copies_def fun_eq_iff zone_pbid_def lbz_get_zone_def lbz_set_zone_state_def)

lemma scan_run:
  assumes o: "fs_ops f = R + {#FScan p n pos#}" and z: "zmd_zones (fs_zmd f) p = Some z"
    and n: "n \<le> unat (z_wp_block z)" "zrms_get (z_zrms z) n = Some pos"
    and zr: "\<forall>k \<le> unat (z_wp_block z). zrms_get (z_zrms z) k \<noteq> None"
    and m: "size (fs_ops f) + (unat (z_wp_block z) - n) \<le> max_ops"
  shows "\<exists>es g pos'. run (ftl_step ss K) f es g \<and> set es \<subseteq> {Internal} \<and>
    fs_ops g = R + entry_copies z n (unat (z_wp_block z)) + {#FScan p (unat (z_wp_block z)) pos'#} \<and> fs_media g = fs_media f \<and>
    fs_dev g = (fs_dev f)\<lparr>d_zone_metadata := (fs_zmd f)\<lparr>zmd_zones := (zmd_zones (fs_zmd f))
      (p \<mapsto> z\<lparr>z_refcount := z_refcount z + of_nat (size (entry_copies z n (unat (z_wp_block z))))\<rparr>)\<rparr>\<rparr>"
  using assms
proof (induction "unat (z_wp_block z) - n" arbitrary: n pos z f R)
  case 0
  have u: "(zmd_zones (fs_zmd f))(p \<mapsto> z) = zmd_zones (fs_zmd f)" using "0.prems"(2) by (simp add: fun_upd_idem)
  have e: "n = unat (z_wp_block z)" using 0 by simp
  show ?case
    unfolding e using "0.prems"(1) e
    by (intro exI [of _ "[]"] exI [of _ f] exI [of _ pos]) (simp add: entry_copies_end run.run_nil u)
next
  case (Suc d)
  then have lt: "n < unat (z_wp_block z)" by simp
  obtain pos' where pos': "zrms_get (z_zrms z) (n + 1) = Some pos'" using Suc.prems(5) lt by fastforce
  note step = entry_copies_step [OF lt Suc.prems(4)]
  have d: "d = unat (z_wp_block z) - (n + 1)" using Suc.hyps(2) by simp
  show ?case
  proof (cases "pos = LBZ_INVALID_PBID")
    case True
    let ?f = "f\<lparr>fs_ops := R + {#FScan p (n + 1) pos'#}\<rparr>"
    have st: "ftl_step ss K f Internal ?f"
      by (rule scan_skip [OF _ Suc.prems(2) lt]) (use Suc.prems(1) True pos' in auto)
    have sz0: "size (fs_ops ?f) + (unat (z_wp_block z) - (n + 1)) \<le> max_ops" using Suc.prems(1,6) lt by simp
    obtain es g q where "run (ftl_step ss K) ?f es g" "set es \<subseteq> {Internal}"
      "fs_ops g = R + entry_copies z (n + 1) (unat (z_wp_block z)) + {#FScan p (unat (z_wp_block z)) q#}" "fs_media g = fs_media ?f"
      "fs_dev g = (fs_dev ?f)\<lparr>d_zone_metadata := (fs_zmd ?f)\<lparr>zmd_zones := (zmd_zones (fs_zmd ?f))
        (p \<mapsto> z\<lparr>z_refcount := z_refcount z + of_nat (size (entry_copies z (n + 1) (unat (z_wp_block z))))\<rparr>)\<rparr>\<rparr>"
      using Suc.hyps(1) [OF d, of ?f R pos', OF _ _ _ _ _ sz0] Suc.prems lt pos' by auto
    then show ?thesis
      using run_cons [of "ftl_step ss K", OF st] step True by (intro exI [of _ "Internal # es"] exI [of _ g] exI [of _ q]) simp
  next
    case False
    let ?z = "lbz_get_zone z"
    let ?f = "f\<lparr>fs_dev := (fs_dev f)\<lparr>d_zone_metadata := (fs_zmd f)\<lparr>zmd_zones := (zmd_zones (fs_zmd f))(p \<mapsto> ?z)\<rparr>\<rparr>,
      fs_ops := R + {#FCopy pos (zone_pbid z n), FScan p (n + 1) pos'#}\<rparr>"
    have st: "ftl_step ss K f Internal ?f"
      by (rule scan_entry [OF _ Suc.prems(1,2) lt False]) (use Suc.prems pos' lt in \<open>auto simp: upd_zone_def\<close>)
    have gz: "z_wp_block ?z = z_wp_block z" "z_zrms ?z = z_zrms z" "z_refcount ?z = z_refcount z + 1" by (simp_all add: lbz_get_zone_def)
    have ops: "fs_ops ?f = R + {#FCopy pos (zone_pbid z n)#} + {#FScan p (n + 1) pos'#}" by simp
    have sz: "size (fs_ops ?f) + (unat (z_wp_block ?z) - (n + 1)) \<le> max_ops" using Suc.prems(1,6) lt gz by simp
    obtain es g q where g: "run (ftl_step ss K) ?f es g" "set es \<subseteq> {Internal}"
      "fs_ops g = R + {#FCopy pos (zone_pbid z n)#} + entry_copies ?z (n + 1) (unat (z_wp_block ?z)) + {#FScan p (unat (z_wp_block ?z)) q#}"
      "fs_media g = fs_media ?f"
      "fs_dev g = (fs_dev ?f)\<lparr>d_zone_metadata := (fs_zmd ?f)\<lparr>zmd_zones := (zmd_zones (fs_zmd ?f))
        (p \<mapsto> ?z\<lparr>z_refcount := z_refcount ?z + of_nat (size (entry_copies ?z (n + 1) (unat (z_wp_block ?z))))\<rparr>)\<rparr>\<rparr>"
      using Suc.hyps(1) [of ?z "n + 1", OF _ ops _ _ _ _ sz] Suc.prems lt pos' d gz by auto
    have "?z\<lparr>z_refcount := r\<rparr> = z\<lparr>z_refcount := r\<rparr>" for r by (simp add: lbz_get_zone_def)
    then have "fs_dev g = (fs_dev f)\<lparr>d_zone_metadata := (fs_zmd f)\<lparr>zmd_zones := (zmd_zones (fs_zmd f))
        (p \<mapsto> z\<lparr>z_refcount := z_refcount z + of_nat (size (entry_copies z n (unat (z_wp_block z))))\<rparr>)\<rparr>\<rparr>"
      using g(5) step False by (simp add: gz entry_copies_get add_ac)
    then show ?thesis
      using run_cons [of "ftl_step ss K", OF st g(1)] g(2-4) step False
      by (intro exI [of _ "Internal # es"] exI [of _ g] exI [of _ q]) (simp add: gz entry_copies_get)
  qed
qed

lemma pass_idle:
  assumes "gc_pass E j s = Some (True, s')"
  shows "gc_idle (d_gc_ctx (sy_dev s)) (d_zone_metadata (sy_dev s))"
  unfolding gc_idle_def
proof (intro allI impI)
  fix p assume p: "gc_zone (d_gc_ctx (sy_dev s)) = Some p"
  show "\<exists>z. zmd_zones (d_zone_metadata (sy_dev s)) p = Some z \<and> \<not> is_lbz_zone_state LBZ_ZONE_GC z"
    using assms p
    by (cases "zmd_zones (d_zone_metadata (sy_dev s)) p") (simp_all add: gc_pass_def Let_def split: if_split_asm)
qed

lemma size_entry_copies: "size (entry_copies z n m) = length (live_entries (z_zrms z) n m)"
  by (simp add: entry_copies_def)

lemma gc_pass_run:
  assumes ready: "scan_ready s" and v: "ftl_view s f" and pass: "gc_pass E j s = Some (True, s')"
    and room: "\<And>p z. zmd_zones (fs_zmd f) p = Some z \<Longrightarrow> size (fs_ops f) + unat (z_wp_block z) < max_ops"
  shows "\<exists>es g p z. run (ftl_step ss K) f es g \<and> set es \<subseteq> {Internal} \<and> ftl_view s' g \<and>
    gc_zone (d_gc_ctx (sy_dev s')) = Some p \<and> zmd_zones (d_zone_metadata (sy_dev s)) p = Some z \<and>
    fs_ops g = fs_ops f + entry_copies z 0 (unat (z_wp_block z)) \<and> fs_media g = fs_media f"
proof -
  have zmd: "fs_zmd f = d_zone_metadata (sy_dev s)" using v by (simp add: ftl_view_def)
  from pass_cases [OF ready, of E j] pass obtain p zmd z1 t where c:
    "lbz_find_victim_zone (gc_victim_mod E j (sy_dev s)) (fs_zmd f) = Some (Some p, zmd)"
    "zmd_zones zmd p = Some z1" "gc_collected p z1 (victim_taken p zmd s) t" "s' = zone_done j t"
    unfolding zmd by auto
  obtain z where z: "p \<in> set (full_zones s)" "zmd_zones (fs_zmd f) p = Some z" "z1 = lbz_set_zone_state LBZ_ZONE_GC (lbz_get_zone z)"
    using find_victim_effect [OF c(1)] c(2) zmd by auto
  have wp: "z_wp_block z1 = z_wp_block z" "z_zrms z1 = z_zrms z" by (simp_all add: z(3) lbz_set_zone_state_def lbz_get_zone_def)
  have zr: "\<forall>k \<le> unat (z_wp_block z1). zrms_get (z_zrms z1) k \<noteq> None"
    using ready z(1,2) unfolding wp zmd by (auto simp: scan_ready_def)
  then obtain pos where pos: "zrms_get (z_zrms z1) 0 = Some pos" by auto
  let ?f1 = "f\<lparr>fs_dev := (fs_dev f)\<lparr>d_zone_metadata := zmd, d_gc_ctx := (d_gc_ctx (fs_dev f))\<lparr>gc_zone := Some p\<rparr>\<rparr>,
    fs_ops := fs_ops f + {#FScan p 0 pos#}\<rparr>"
  have idle: "gc_idle (d_gc_ctx (fs_dev f)) (fs_zmd f)"
    using pass_idle [OF pass] v by (simp add: gc_idle_def ftl_view_def)
  have sm: "size (fs_ops f) < max_ops" using room [OF z(2)] by simp
  have st1: "ftl_step ss K f Internal ?f1" by (rule victim [OF sm idle c(1,2) pos])
  have m1: "size (fs_ops ?f1) + (unat (z_wp_block z1) - 0) \<le> max_ops" using room [OF z(2)] wp(1) by simp
  have o1: "fs_ops ?f1 = fs_ops f + {#FScan p 0 pos#}" and z1: "zmd_zones (fs_zmd ?f1) p = Some z1" using c(2) by simp_all
  let ?n = "length (live_entries (z_zrms z1) 0 (unat (z_wp_block z1)))"
  from scan_run [OF o1 z1 _ pos zr m1, of ss K] obtain es g1 pos' where g1: "run (ftl_step ss K) ?f1 es g1" "set es \<subseteq> {Internal}"
    "fs_ops g1 = fs_ops f + entry_copies z1 0 (unat (z_wp_block z1)) + {#FScan p (unat (z_wp_block z1)) pos'#}"
    "fs_media g1 = fs_media f"
    "fs_dev g1 = (fs_dev ?f1)\<lparr>d_zone_metadata := zmd\<lparr>zmd_zones := (zmd_zones zmd)
      (p \<mapsto> z1\<lparr>z_refcount := z_refcount z1 + of_nat ?n\<rparr>)\<rparr>\<rparr>"
    by (auto simp: size_entry_copies)
  let ?zmd = "zmd\<lparr>zmd_zones := (zmd_zones zmd)(p \<mapsto> scanned_zone ?n z1)\<rparr>"
  let ?g = "g1\<lparr>fs_dev := (fs_dev g1)\<lparr>d_zone_metadata := ?zmd\<rparr>, fs_ops := fs_ops f + entry_copies z1 0 (unat (z_wp_block z1))\<rparr>"
  have st2: "ftl_step ss K g1 Internal ?g"
    by (rule scan_end [OF g1(3), where z = "z1\<lparr>z_refcount := z_refcount z1 + of_nat ?n\<rparr>"])
      (simp_all add: g1(5) ftl_scan_end_def upd_zone_def scanned_zone_def)
  have r: "run (ftl_step ss K) f (Internal # es @ [Internal]) ?g"
    using run_cons [of "ftl_step ss K", OF st1 run_snoc [of "ftl_step ss K", OF g1(1) st2]] by simp
  have "ftl_view s' ?g"
    using v c(3,4) g1(5) by (simp add: ftl_view_def gc_collected_def Let_def zone_done_def victim_taken_def upd_dev_def is_dev_faulty_def)
  moreover have "gc_zone (d_gc_ctx (sy_dev s')) = Some p"
    using c(3,4) by (simp add: gc_collected_def Let_def zone_done_def victim_taken_def upd_dev_def)
  moreover have "entry_copies z1 = entry_copies z" by (simp add: z(3) entry_copies_get)
  ultimately show ?thesis
    using r g1(2,4) z(2) zmd wp(1)
    by (intro exI [of _ "Internal # es @ [Internal]"] exI [of _ ?g] exI [of _ p] exI [of _ z]) auto
qed

section \<open>The handlers of user requests are steps\<close>

text \<open>A state of the driver and a reachable state of the machine that shows the same maps.\<close>

definition ftl_sim :: "kern \<Rightarrow> lbz_sys \<Rightarrow> fstate \<Rightarrow> bool" where
  "ftl_sim K s f \<longleftrightarrow> ftl_inv K f \<and> ftl_view s f"

lemma sim_maps:
  assumes "ftl_sim K s f"
  shows "ftl_inv K f" "fs_map f = d_mapping (sy_dev s)" "fs_zmd f = d_zone_metadata (sy_dev s)" "sys_maps_ok K s"
  using assms ftl_inv_facts [of K f] by (simp_all add: ftl_sim_def ftl_view_def sys_maps_ok_def)

lemma sim_step:
  assumes "ftl_sim K s f" "ftl_step ss K f e g" "ftl_view s' g"
  shows "ftl_sim K s' g"
  using assms ftl_store.inv_step [of ss K f e g] by (simp add: ftl_sim_def)

lemma write_submit_step:
  assumes sim: "ftl_sim (ev_kern E) s f" and K: "kern_ok (ev_kern E)" and x: "sy_bios s b = Some x" "bi_write x"
    and can: "write_can_start E s (sector_to_blkid (bi_sector x))"
    and dev: "map_get (ev_kern E) (fs_map f) (sector_to_blkid (bi_sector x)) \<noteq> None"
    and free: "\<not> locked (fs_ops f) (sector_to_blkid (bi_sector x))" "size (fs_ops f) < max_ops"
  shows "\<exists>s' g x' tk p. lbz_submit_io_to_iosched E b s = Some s' \<and> write_in_flight s' b x' (sy_next s) tk p \<and>
    t_blkid tk = sector_to_blkid (bi_sector x) \<and>
    ftl_step True (ev_kern E) f (Submit (sector_to_blkid (bi_sector x)) v) g \<and> ftl_sim (ev_kern E) s' g \<and>
    fs_ops g = fs_ops f + {#FWrite p (sector_to_blkid (bi_sector x)) v#}"
proof -
  let ?b = "sector_to_blkid (bi_sector x)" and ?K = "ev_kern E"
  note m = sim_maps [OF sim]
  from submit_write_ok [OF K m(4) x can] obtain s' x' tk p sid where s':
    "lbz_submit_io_to_iosched E b s = Some s'" "write_in_flight s' b x' (sy_next s) tk p" "t_blkid tk = ?b"
    "d_mapping (sy_dev s') = d_mapping (sy_dev s)" "d_flags (sy_dev s') = d_flags (sy_dev s)"
    "gc_zone (d_gc_ctx (sy_dev s')) = gc_zone (d_gc_ctx (sy_dev s))" "sid < LBZ_ZONE_MAX_STREAM"
    "lbz_zone_alloc_res True False LBZ_ALLOC_FLAG_USER sid (d_zone_metadata (sy_dev s)) (d_gc_ctx (sy_dev s)) =
        Some (Inr p, d_zone_metadata (sy_dev s'), d_gc_ctx (sy_dev s))" by blast
  have v: "ftl_view s f" using sim by (simp add: ftl_sim_def)
  have nf: "is_dev_faulty (fs_dev f) = False" using can v by (simp add: write_can_start_def ftl_view_def is_dev_faulty_def)
  let ?g = "f\<lparr>fs_dev := (fs_dev f)\<lparr>d_zone_metadata := d_zone_metadata (sy_dev s'), d_gc_ctx := d_gc_ctx (fs_dev f)\<rparr>,
    fs_ops := fs_ops f + {#FWrite p ?b v#}\<rparr>"
  have "lbz_zone_alloc_res True (is_dev_faulty (fs_dev f)) LBZ_ALLOC_FLAG_USER sid (fs_zmd f) (d_gc_ctx (fs_dev f)) =
      Some (Inr p, d_zone_metadata (sy_dev s'), d_gc_ctx (fs_dev f))"
    unfolding nf m(3) by (rule alloc_any_gc [OF s'(8)])
  then have st: "ftl_step True ?K f (Submit ?b v) ?g"
    by (rule write_start [OF free(2) dev free(1) s'(7)])
  moreover have "ftl_view s' ?g" using v s'(4-6) by (simp add: ftl_view_def is_dev_faulty_def)
  ultimately show ?thesis
    using s'(1-3) sim_step [OF sim st] by (intro exI [of _ s'] exI [of _ ?g] exI [of _ x'] exI [of _ tk] exI [of _ p]) simp
qed

lemma write_end_step:
  assumes sim: "ftl_sim K s f" and K: "kern_ok K" and w: "write_in_flight s b x t tk p" and st: "bi_status x = None"
    and u: "unhook_io b s \<noteq> None" and o: "fs_ops f = R + {#FWrite p (t_blkid tk) v#}"
    and a: "fresh_append K f p (sector_to_blkid (bi_sector x))"
  shows "\<exists>s' g. lbz_write_io_endio K b s = Some s' \<and> ftl_step ss K f (Commit (t_blkid tk) v) g \<and> ftl_sim K s' g \<and> fs_ops g = R"
proof -
  let ?a = "sector_to_blkid (bi_sector x)"
  note m = sim_maps [OF sim]
  have op: "FWrite p (t_blkid tk) v \<in># fs_ops f" using o by simp
  have ap: "append_ok K (d_zone_metadata (sy_dev s)) p ?a"
    using fresh_append_ok(1) [OF m(1) a op] m(3) by simp
  have dev: "map_get K (d_mapping (sy_dev s)) (t_blkid tk) \<noteq> None"
    using ftl_inv_op [OF m(1) op] m(2) by (simp add: op_ok_def)
  from u obtain su where su: "unhook_io b s = Some su" by blast
  from write_endio_core [OF K m(4) w st su ap dev] obtain s' where s': "lbz_write_io_endio K b s = Some s'"
    "ftl_write_done K p (t_blkid tk) ?a (fs_map f, fs_zmd f) = Some (d_mapping (sy_dev s'), d_zone_metadata (sy_dev s'))"
    "d_flags (sy_dev s') = d_flags (sy_dev s)" "d_gc_ctx (sy_dev s') = d_gc_ctx (sy_dev s)"
    unfolding m(2,3) by blast
  let ?g = "f\<lparr>fs_dev := (fs_dev f)\<lparr>d_mapping := d_mapping (sy_dev s'), d_zone_metadata := d_zone_metadata (sy_dev s')\<rparr>,
    fs_media := (fs_media f)(?a \<mapsto> v), fs_ops := R\<rparr>"
  have st: "ftl_step ss K f (Commit (t_blkid tk) v) ?g" by (rule write_done [OF o a s'(2)])
  have "ftl_view s f" using sim by (simp add: ftl_sim_def)
  then have "ftl_view s' ?g" using s'(3,4) by (simp add: ftl_view_def is_dev_faulty_def)
  then show ?thesis using s'(1) st sim_step [OF sim st] by (intro exI [of _ s'] exI [of _ ?g]) simp
qed

lemma copy_end_step:
  assumes sim: "ftl_sim K s f" and K: "kern_ok K" and w: "gc_write_in_flight K s b x t tk p" and st: "bi_status x = None"
    and nf: "\<not> is_dev_faulty (sy_dev s)" and o: "fs_ops f = R + {#FMove p (t_blkid tk) (t_pbid tk) v#}"
    and a: "fresh_append K f p (sector_to_blkid (bi_sector x))"
  shows "\<exists>s' g. lbz_gc_write_endio K b s = Some s' \<and> ftl_step ss K f Internal g \<and> ftl_sim K s' g \<and> fs_ops g = R"
proof -
  let ?a = "sector_to_blkid (bi_sector x)"
  note m = sim_maps [OF sim]
  have op: "FMove p (t_blkid tk) (t_pbid tk) v \<in># fs_ops f" using o by simp
  have ap: "append_ok K (d_zone_metadata (sy_dev s)) p ?a"
    using fresh_append_ok(1) [OF m(1) a op] m(3) by simp
  have cur: "map_get K (d_mapping (sy_dev s)) (t_blkid tk) = Some (t_pbid tk)" "t_pbid tk \<noteq> LBZ_INVALID_PBID"
    using ftl_inv_op [OF m(1) op] m(2) by (simp_all add: op_ok_def)
  from gc_write_endio_core [OF K m(4) w st nf ap cur] obtain s' where s': "lbz_gc_write_endio K b s = Some s'"
    "ftl_gc_done K p (t_blkid tk) (t_pbid tk) ?a (fs_map f, fs_zmd f) = Some (d_mapping (sy_dev s'), d_zone_metadata (sy_dev s'))"
    "d_flags (sy_dev s') = d_flags (sy_dev s)" "d_gc_ctx (sy_dev s') = d_gc_ctx (sy_dev s)"
    unfolding m(2,3) by blast
  let ?g = "f\<lparr>fs_dev := (fs_dev f)\<lparr>d_mapping := d_mapping (sy_dev s'), d_zone_metadata := d_zone_metadata (sy_dev s')\<rparr>,
    fs_media := (fs_media f)(?a := v), fs_ops := R\<rparr>"
  have st: "ftl_step ss K f Internal ?g" by (rule move_done [OF o a s'(2)])
  have "ftl_view s f" using sim by (simp add: ftl_sim_def)
  then have "ftl_view s' ?g" using s'(3,4) by (simp add: ftl_view_def is_dev_faulty_def)
  then show ?thesis using s'(1) st sim_step [OF sim st] by (intro exI [of _ s'] exI [of _ ?g]) simp
qed

lemma copy_read_step:
  assumes sim: "ftl_sim K s f" and r: "gc_copy_ready K s t tk"
    and x: "sy_bios s b = Some x" "bi_end_io x = GcReadEndio t" "bi_status x = None"
    and o: "fs_ops f = R + {#FCopy (t_blkid tk) (t_pbid tk)#}"
  shows "\<exists>s' g tk'. lbz_gc_read_endio K b s = Some s' \<and> gc_copy_ready K s' t tk' \<and> t_blkid tk' = t_blkid tk \<and>
    t_pbid tk' = t_pbid tk \<and> t \<in> set (s_gc_writes (d_iosched (sy_dev s'))) \<and> s_retry_queued (d_iosched (sy_dev s')) \<and>
    ftl_step ss K f Internal g \<and> ftl_sim K s' g \<and>
    fs_ops g = R + {#FHold (t_blkid tk) (t_pbid tk) (fs_media f (t_pbid tk))#}"
proof -
  from gc_read_endio_queues [OF x r] obtain s' where s': "lbz_gc_read_endio K b s = Some s'"
    "gc_copy_ready K s' t (tk\<lparr>t_link := LinkList\<rparr>)" "d_mapping (sy_dev s') = d_mapping (sy_dev s)"
    "d_zone_metadata (sy_dev s') = d_zone_metadata (sy_dev s)" "d_flags (sy_dev s') = d_flags (sy_dev s)"
    "d_gc_ctx (sy_dev s') = d_gc_ctx (sy_dev s)" "t \<in> set (s_gc_writes (d_iosched (sy_dev s')))"
    "s_retry_queued (d_iosched (sy_dev s'))" by auto
  let ?g = "f\<lparr>fs_ops := R + {#FHold (t_blkid tk) (t_pbid tk) (fs_media f (t_pbid tk))#}\<rparr>"
  have st: "ftl_step ss K f Internal ?g" by (rule copy_read [OF o])
  have "ftl_view s f" using sim by (simp add: ftl_sim_def)
  then have "ftl_view s' ?g" using s'(3-6) by (simp add: ftl_view_def is_dev_faulty_def)
  then show ?thesis using s'(1,2,7,8) st sim_step [OF sim st]
    by (intro exI [of _ s'] exI [of _ ?g] exI [of _ "tk\<lparr>t_link := LinkList\<rparr>"]) simp
qed

lemma copy_drop_step:
  assumes sim: "ftl_sim (ev_kern E) s f" and K: "kern_ok (ev_kern E)" and r: "gc_copy_ready (ev_kern E) s t tk"
    and b: "block_free s (t_blkid tk)"
    and o: "fs_ops f = R + {#FHold (t_blkid tk) (t_pbid tk) v#}" and free: "\<not> locked (fs_ops f) (t_blkid tk)"
    and q: "map_get (ev_kern E) (fs_map f) (t_blkid tk) = Some q" "q \<noteq> t_pbid tk \<or> q = LBZ_INVALID_PBID"
  shows "\<exists>s' g. retry_gc_tasks E [t] s = Some s' \<and> sy_tasks s' t = None \<and> sy_inflight s' = sy_inflight s \<and>
    ftl_step ss (ev_kern E) f Internal g \<and> ftl_sim (ev_kern E) s' g \<and> fs_ops g = R"
proof -
  let ?K = "ev_kern E" and ?rz = "get_zone_by_pbid (ev_kern E) (t_pbid tk)"
  note m = sim_maps [OF sim]
  have q1: "map_get ?K (d_mapping (sy_dev s)) (t_blkid tk) = Some q" using q(1) m(2) by simp
  from gc_check_total [OF m(4) q1, of "t_pbid tk"] q(2) obtain zmd1 where
    c: "ftl_gc_check ?K (t_blkid tk) (t_pbid tk) (d_mapping (sy_dev s)) (d_zone_metadata (sy_dev s)) = Some (False, zmd1)" "zmd_wf zmd1"
      "\<And>p. zmd_zones (d_zone_metadata (sy_dev s)) p \<noteq> None \<Longrightarrow> zmd_zones zmd1 p \<noteq> None" by auto
  have "zmd_zones (fs_zmd f) ?rz \<noteq> None" using ftl_inv_zone [OF m(1), of "FHold (t_blkid tk) (t_pbid tk) v" ?rz] o by auto
  then have "zmd_zones zmd1 ?rz \<noteq> None" using c(3) m(3) by simp
  from put_zone_ok [OF c(2) this, of ?K] obtain zmd2 where u: "upd_zone ?rz lbz_put_zone zmd1 = Some zmd2" by blast
  from copy_dropped [OF K r b c(1) u] obtain s' where s': "retry_gc_tasks E [t] s = Some s'" "d_zone_metadata (sy_dev s') = zmd2"
     "d_mapping (sy_dev s') = d_mapping (sy_dev s)" "d_flags (sy_dev s') = d_flags (sy_dev s)"
     "gc_zone (d_gc_ctx (sy_dev s')) = gc_zone (d_gc_ctx (sy_dev s))" "sy_tasks s' t = None" "sy_inflight s' = sy_inflight s" by auto
  let ?g = "f\<lparr>fs_dev := (fs_dev f)\<lparr>d_zone_metadata := zmd2\<rparr>, fs_ops := R\<rparr>"
  have st: "ftl_step ss ?K f Internal ?g" by (rule move_skip [OF o free _ u]) (use c(1) m(2,3) in simp)
  have "ftl_view s f" using sim by (simp add: ftl_sim_def)
  then have "ftl_view s' ?g" using s'(2-5) by (simp add: ftl_view_def is_dev_faulty_def)
  then show ?thesis using s'(1,6,7) st sim_step [OF sim st] by (intro exI [of _ s'] exI [of _ ?g]) simp
qed

lemma copy_start_step:
  assumes sim: "ftl_sim (ev_kern E) s f" and K: "kern_ok (ev_kern E)" and r: "gc_copy_ready (ev_kern E) s t tk"
    and b: "block_free s (t_blkid tk)"
    and o: "fs_ops f = R + {#FHold (t_blkid tk) (t_pbid tk) v#}" and free: "\<not> locked (fs_ops f) (t_blkid tk)"
    and q: "map_get (ev_kern E) (fs_map f) (t_blkid tk) = Some (t_pbid tk)" "t_pbid tk \<noteq> LBZ_INVALID_PBID"
    and i: "ev_integrity E t = None" and ss: "ev_stream_support E" and nf: "\<not> is_dev_faulty (sy_dev s)"
    and room: "zmd_nr_allocable_blks (fs_zmd f) \<noteq> 0"
  shows "\<exists>s' g x tk' p. retry_gc_tasks E [t] s = Some s' \<and> gc_write_in_flight (ev_kern E) s' (sy_next s) x t tk' p \<and>
    t_blkid tk' = t_blkid tk \<and> t_pbid tk' = t_pbid tk \<and> bi_append x \<and> bi_pages x = [the (t_page tk)] \<and>
    sy_inflight s' = sy_inflight s @ [sy_next s] \<and>
    ftl_step True (ev_kern E) f Internal g \<and> ftl_sim (ev_kern E) s' g \<and> fs_ops g = R + {#FMove p (t_blkid tk) (t_pbid tk) v#}"
proof -
  let ?K = "ev_kern E"
  note m = sim_maps [OF sim]
  have q1: "map_get ?K (d_mapping (sy_dev s)) (t_blkid tk) = Some (t_pbid tk)" using q(1) m(2) by simp
  from gc_check_total [OF m(4) q1, of "t_pbid tk"] q(2) obtain zmd1 where
    c: "ftl_gc_check ?K (t_blkid tk) (t_pbid tk) (d_mapping (sy_dev s)) (d_zone_metadata (sy_dev s)) = Some (True, zmd1)" "zmd_wf zmd1"
      "zmd_nr_allocable_blks zmd1 = zmd_nr_allocable_blks (d_zone_metadata (sy_dev s))" by auto
  have room1: "zmd_nr_allocable_blks zmd1 \<noteq> 0" using room c(3) m(3) by simp
  from copy_started [OF K r b c(1) i ss nf c(2) room1] obtain s' x tk' p sid where
    s': "retry_gc_tasks E [t] s = Some s'" "gc_write_in_flight ?K s' (sy_next s) x t tk' p"
     "t_blkid tk' = t_blkid tk" "t_pbid tk' = t_pbid tk" "bi_append x" "bi_pages x = [the (t_page tk)]"
     "sy_inflight s' = sy_inflight s @ [sy_next s]" "d_mapping (sy_dev s') = d_mapping (sy_dev s)"
     "d_flags (sy_dev s') = d_flags (sy_dev s)" "gc_zone (d_gc_ctx (sy_dev s')) = gc_zone (d_gc_ctx (sy_dev s))"
     "sid < LBZ_ZONE_MAX_STREAM"
     "lbz_zone_alloc_res True False LBZ_ALLOC_FLAG_GC sid zmd1 (d_gc_ctx (sy_dev s)) =
       Some (Inr p, d_zone_metadata (sy_dev s'), d_gc_ctx (sy_dev s))" by blast
  have v: "ftl_view s f" using sim by (simp add: ftl_sim_def)
  let ?g = "f\<lparr>fs_dev := (fs_dev f)\<lparr>d_zone_metadata := d_zone_metadata (sy_dev s'), d_gc_ctx := d_gc_ctx (fs_dev f)\<rparr>,
    fs_ops := R + {#FMove p (t_blkid tk) (t_pbid tk) v#}\<rparr>"
  have c': "ftl_gc_check ?K (t_blkid tk) (t_pbid tk) (fs_map f) (fs_zmd f) = Some (True, zmd1)" using c(1) m(2,3) by simp
  have nf': "is_dev_faulty (fs_dev f) = False" using v nf by (simp add: ftl_view_def is_dev_faulty_def)
  have "lbz_zone_alloc_res True (is_dev_faulty (fs_dev f)) LBZ_ALLOC_FLAG_GC sid zmd1 (d_gc_ctx (fs_dev f)) =
      Some (Inr p, d_zone_metadata (sy_dev s'), d_gc_ctx (fs_dev f))"
    unfolding nf' by (rule alloc_any_gc [OF s'(12)])
  then have st: "ftl_step True ?K f Internal ?g" by (rule move_start [OF o free s'(11) c'])
  have "ftl_view s' ?g" using v s'(8-10) by (simp add: ftl_view_def is_dev_faulty_def)
  then show ?thesis using s'(1-7) sim_step [OF sim st] st
    by (intro exI [of _ s'] exI [of _ ?g] exI [of _ x] exI [of _ tk'] exI [of _ p]) simp
qed

lemma copy_join_step:
  assumes sim: "ftl_sim (ev_kern E) s f" and r: "gc_copy_ready (ev_kern E) s t tk" and w: "write_in_flight s b x q tq p"
    and bl: "t_blkid tq = t_blkid tk" "t_type tq \<noteq> LBZ_TASK_GC"
  shows "\<exists>s' gk. retry_gc_tasks E [t] s = Some s' \<and> write_with_copy (ev_kern E) s' b x q (tq\<lparr>t_gc := GcNode t\<rparr>) p t gk \<and>
    t_blkid gk = t_blkid tk \<and> t_pbid gk = t_pbid tk \<and> sy_inflight s' = sy_inflight s \<and> ftl_sim (ev_kern E) s' f"
proof -
  from copy_joins_write [OF r w bl] obtain s' gk where s': "retry_gc_tasks E [t] s = Some s'"
     "write_with_copy (ev_kern E) s' b x q (tq\<lparr>t_gc := GcNode t\<rparr>) p t gk" "t_blkid gk = t_blkid tk" "t_pbid gk = t_pbid tk"
     "sy_inflight s' = sy_inflight s" "d_mapping (sy_dev s') = d_mapping (sy_dev s)"
     "d_zone_metadata (sy_dev s') = d_zone_metadata (sy_dev s)" "d_flags (sy_dev s') = d_flags (sy_dev s)"
     "d_gc_ctx (sy_dev s') = d_gc_ctx (sy_dev s)" by blast
  have "ftl_sim (ev_kern E) s' f" using sim s'(6-9) by (simp add: ftl_sim_def ftl_view_def is_dev_faulty_def)
  with s' show ?thesis by blast
qed

lemma write_end_copy_run:
  assumes sim: "ftl_sim K s f" and K: "kern_ok K" and w: "write_with_copy K s b x t tk p g gk" and st: "bi_status x = None"
    and u: "unhook_io b s \<noteq> None"
    and o: "fs_ops f = R + {#FWrite p (t_blkid tk) v, FHold (t_blkid tk) (t_pbid gk) v'#}"
    and a: "fresh_append K f p (sector_to_blkid (bi_sector x))"
    and gc: "phase_at (fs_zmd f) (get_zone_by_pbid K (t_pbid gk)) PGc"
  shows "\<exists>s' h. lbz_write_io_endio K b s = Some s' \<and> sy_tasks s' t = None \<and> sy_tasks s' g = None \<and>
    run (ftl_step ss K) f [Commit (t_blkid tk) v, Internal] h \<and> ftl_sim K s' h \<and> fs_ops h = R"
proof -
  let ?a = "sector_to_blkid (bi_sector x)" and ?rz = "get_zone_by_pbid K (t_pbid gk)"
  note m = sim_maps [OF sim]
  have op: "FWrite p (t_blkid tk) v \<in># fs_ops f" "FHold (t_blkid tk) (t_pbid gk) v' \<in># fs_ops f" using o by auto
  have o1: "fs_ops f = (R + {#FHold (t_blkid tk) (t_pbid gk) v'#}) + {#FWrite p (t_blkid tk) v#}" using o by simp
  have ap: "append_ok K (d_zone_metadata (sy_dev s)) p ?a" using fresh_append_ok(1) [OF m(1) a op(1)] m(3) by simp
  have dev: "map_get K (d_mapping (sy_dev s)) (t_blkid tk) \<noteq> None" using ftl_inv_op [OF m(1) op(1)] m(2) by (simp add: op_ok_def)
  have old: "?a \<noteq> t_pbid gk" using ftl_inv_op [OF m(1) op(2)] a by (auto simp: op_ok_def fresh_append_def)
  have ne: "?rz \<noteq> p" using fresh_append_ok(2) [OF m(1) a op(1)] gc by auto
  from u obtain su where su: "unhook_io b s = Some su" by blast
  have rz: "zmd_zones zmd ?rz \<noteq> None"
    if wd: "ftl_write_done K p (t_blkid tk) ?a (d_mapping (sy_dev s), d_zone_metadata (sy_dev s)) = Some (mm, zmd)" for mm zmd
  proof -
    have st: "ftl_step ss K f (Commit (t_blkid tk) v) (f\<lparr>fs_dev := (fs_dev f)\<lparr>d_mapping := mm, d_zone_metadata := zmd\<rparr>,
        fs_media := (fs_media f)(?a \<mapsto> v), fs_ops := R + {#FHold (t_blkid tk) (t_pbid gk) v'#}\<rparr>)" (is "ftl_step _ _ _ _ ?g")
      by (rule write_done [OF o1 a]) (use wd m(2,3) in simp)
    have "ftl_inv K ?g" by (rule ftl_store.inv_step [OF st m(1)])
    from ftl_inv_zone [OF this, of "FHold (t_blkid tk) (t_pbid gk) v'" ?rz] show ?thesis by auto
  qed
  from write_ends_copy [OF K m(4) w st su ap dev ne] rz obtain s' zmd where s': "lbz_write_io_endio K b s = Some s'"
     "ftl_write_done K p (t_blkid tk) ?a (d_mapping (sy_dev s), d_zone_metadata (sy_dev s)) = Some (d_mapping (sy_dev s'), zmd)"
     "upd_zone ?rz lbz_put_zone zmd = Some (d_zone_metadata (sy_dev s'))" "sy_tasks s' t = None" "sy_tasks s' g = None"
     "d_flags (sy_dev s') = d_flags (sy_dev s)" "d_gc_ctx (sy_dev s') = d_gc_ctx (sy_dev s)" by auto
  let ?g = "f\<lparr>fs_dev := (fs_dev f)\<lparr>d_mapping := d_mapping (sy_dev s'), d_zone_metadata := zmd\<rparr>,
        fs_media := (fs_media f)(?a \<mapsto> v), fs_ops := R + {#FHold (t_blkid tk) (t_pbid gk) v'#}\<rparr>"
  have st1: "ftl_step ss K f (Commit (t_blkid tk) v) ?g"
    by (rule write_done [OF o1 a]) (use s'(2) m(2,3) in simp)
  have i1: "ftl_inv K ?g" by (rule ftl_store.inv_step [OF st1 m(1)])
  have mg: "map_get K (d_mapping (sy_dev s')) (t_blkid tk) = Some ?a"
    using inv_write_done [OF m(1) o1 a] s'(2) m(2,3) by auto
  let ?h = "?g\<lparr>fs_dev := (fs_dev ?g)\<lparr>d_zone_metadata := d_zone_metadata (sy_dev s')\<rparr>, fs_ops := R\<rparr>"
  have st2: "ftl_step ss K ?g Internal ?h"
    by (rule move_agency [where b = "t_blkid tk" and old = "t_pbid gk" and v = v']) (use mg old s'(3) in simp_all)
  have r: "run (ftl_step ss K) f [Commit (t_blkid tk) v, Internal] ?h"
    using run_cons [of "ftl_step ss K", OF st1 run_cons [of "ftl_step ss K", OF st2 run.run_nil]] .
  have "ftl_view s f" using sim by (simp add: ftl_sim_def)
  then have "ftl_view s' ?h" using s'(6,7) by (simp add: ftl_view_def is_dev_faulty_def)
  then show ?thesis using s'(1,4,5) r ftl_store.inv_step [OF st2 i1]
    by (intro exI [of _ s'] exI [of _ ?h]) (simp add: ftl_sim_def)
qed

lemma read_submit_step:
  assumes sim: "ftl_sim (ev_kern E) s f" and x: "sy_bios s b = Some x" "\<not> bi_write x"
    and a: "map_get (ev_kern E) (fs_map f) (sector_to_blkid (bi_sector x)) = Some a" "a \<noteq> LBZ_INVALID_PBID"
    and m: "size (fs_ops f) < max_ops"
  shows "\<exists>s' g x'. lbz_submit_io_to_iosched E b s = Some s' \<and> sy_bios s' b = Some x' \<and> bi_sector x' = blkid_to_sector a \<and>
    ftl_step ss (ev_kern E) f (Lookup (sector_to_blkid (bi_sector x)) (fs_media f a)) g \<and> ftl_sim (ev_kern E) s' g \<and>
    fs_ops g = fs_ops f + {#FRead (get_zone_by_pbid (ev_kern E) a) a (fs_media f a)#}"
proof -
  let ?b = "sector_to_blkid (bi_sector x)" and ?K = "ev_kern E" and ?p = "get_zone_by_pbid (ev_kern E) a"
  note v = sim_maps [OF sim]
  have a': "map_get ?K (d_mapping (sy_dev s)) ?b = Some a" using a(1) v(2) by simp
  from submit_read_mapped [OF v(4) x a' a(2)] obtain s' where s': "lbz_submit_io_to_iosched E b s = Some s'"
    "sy_bios s' = (sy_bios s)(b \<mapsto> x\<lparr>bi_end_io := ReadIoEndio ?p ?b (bi_end_io x), bi_phys := True, bi_sector := blkid_to_sector a\<rparr>)"
    "d_mapping (sy_dev s') = d_mapping (sy_dev s)"
    "lbz_mapping_lookup ?K (fs_map f) ?b (fs_zmd f) = Some (Inr (?p, a), d_zone_metadata (sy_dev s'))"
    "d_flags (sy_dev s') = d_flags (sy_dev s)" "d_gc_ctx (sy_dev s') = d_gc_ctx (sy_dev s)"
    unfolding v(2,3) by blast
  let ?g = "f\<lparr>fs_dev := (fs_dev f)\<lparr>d_zone_metadata := d_zone_metadata (sy_dev s')\<rparr>,
    fs_ops := fs_ops f + {#FRead ?p a (fs_media f a)#}\<rparr>"
  have st: "ftl_step ss ?K f (Lookup ?b (fs_media f a)) ?g" by (rule read_start [OF m s'(4)])
  have "ftl_view s f" using sim by (simp add: ftl_sim_def)
  then have "ftl_view s' ?g" using s'(3,5,6) by (simp add: ftl_view_def is_dev_faulty_def)
  then show ?thesis using s'(1,2) st sim_step [OF sim st] by (intro exI [of _ s'] exI [of _ ?g]) simp
qed

lemma read_end_step:
  assumes sim: "ftl_sim K s f" and x: "sy_bios s b = Some x" "bi_end_io x = ReadIoEndio p k e" "bi_status x = None"
    and u: "unhook_io b s \<noteq> None" and o: "fs_ops f = R + {#FRead p a v#}"
  shows "\<exists>s' g. lbz_read_io_endio b s = Some s' \<and> ftl_step ss K f (Deliver v (fs_media f a)) g \<and> ftl_sim K s' g \<and> fs_ops g = R"
proof -
  note m = sim_maps [OF sim]
  from u obtain su where su: "unhook_io b s = Some su" by blast
  obtain z where z: "zmd_zones (fs_zmd f) p = Some z" using ftl_inv_zone [OF m(1), of "FRead p a v" p] o by auto
  let ?zmd = "(fs_zmd f)\<lparr>zmd_zones := (zmd_zones (fs_zmd f))(p \<mapsto> lbz_put_zone z)\<rparr>"
  have up: "upd_zone p lbz_put_zone (fs_zmd f) = Some ?zmd" using z by (simp add: upd_zone_def)
  let ?s' = "su\<lparr>sy_dev := (sy_dev s)\<lparr>d_zone_metadata := ?zmd, d_user_read_inflight_io_cnt := d_user_read_inflight_io_cnt (sy_dev s) - 1\<rparr>\<rparr>"
  have e: "lbz_read_io_endio b s = Some ?s'"
    using x su up m(3) unhook_dev(2) [OF su] by (simp add: lbz_read_io_endio_def put_zone_def upd_zmd_def upd_dev_def)
  let ?g = "f\<lparr>fs_dev := (fs_dev f)\<lparr>d_zone_metadata := ?zmd\<rparr>, fs_ops := R\<rparr>"
  have st: "ftl_step ss K f (Deliver v (fs_media f a)) ?g" by (rule read_done [OF o up])
  have "ftl_view s f" using sim by (simp add: ftl_sim_def)
  then have "ftl_view ?s' ?g" by (simp add: ftl_view_def is_dev_faulty_def)
  then show ?thesis using e st sim_step [OF sim st] by (intro exI [of _ ?s'] exI [of _ ?g]) simp
qed

lemma collect_run:
  assumes sim: "ftl_sim K s f" and ready: "scan_ready s" and pass: "gc_pass E j s = Some (True, s')"
    and room: "size (fs_ops f) + unat (zmd_zone_nr_blocks (fs_zmd f)) < max_ops"
  shows "\<exists>es g p z. run (ftl_step ss K) f es g \<and> set es \<subseteq> {Internal} \<and> ftl_sim K s' g \<and>
    gc_zone (d_gc_ctx (sy_dev s')) = Some p \<and> zmd_zones (fs_zmd f) p = Some z \<and>
    fs_ops g = fs_ops f + entry_copies z 0 (unat (z_wp_block z)) \<and> fs_media g = fs_media f"
proof -
  note m = sim_maps [OF sim]
  have r: "size (fs_ops f) + unat (z_wp_block z) < max_ops" if z: "zmd_zones (fs_zmd f) p = Some z" for p z
  proof -
    have "z_wp_block z \<le> zmd_zone_nr_blocks (fs_zmd f)"
      using zmd_wf_zone_ok [OF ftl_inv_facts(1) [OF m(1)] z] by (auto simp: zone_ok_def zone_acct_def)
    then show ?thesis using room by (simp add: word_le_nat_alt)
  qed
  have v: "ftl_view s f" using sim by (simp add: ftl_sim_def)
  from gc_pass_run [OF ready v pass, where ss = ss and K = K] r obtain es g p z where g:
    "run (ftl_step ss K) f es g" "set es \<subseteq> {Internal}" "ftl_view s' g"
    "gc_zone (d_gc_ctx (sy_dev s')) = Some p" "zmd_zones (d_zone_metadata (sy_dev s)) p = Some z"
    "fs_ops g = fs_ops f + entry_copies z 0 (unat (z_wp_block z))" "fs_media g = fs_media f" by blast
  have "ftl_inv K g" by (rule ftl_store.inv_run [OF g(1) m(1)])
  then show ?thesis using g m(3) by (intro exI [of _ es] exI [of _ g] exI [of _ p] exI [of _ z]) (simp add: ftl_sim_def)
qed

section \<open>The commit of a transaction frees blocks\<close>

lemma free_blkids_run:
  assumes "ftl_inv K f" and "\<forall>b\<in>set bs. map_get K (fs_map f) b \<noteq> None \<and> (\<forall>p old v. FMove p b old v \<notin># fs_ops f)"
  shows "\<exists>m zmd n'. free_blkids K bs (fs_map f, fs_zmd f, n) = Some (m, zmd, n') \<and>
    run (ftl_step ss K) f (map Discard bs) (f\<lparr>fs_dev := (fs_dev f)\<lparr>d_mapping := m, d_zone_metadata := zmd\<rparr>\<rparr>)"
  using assms
proof (induction bs arbitrary: f n)
  case (Cons b bs)
  have b: "map_get K (fs_map f) b \<noteq> None" "\<forall>p old v. FMove p b old v \<notin># fs_ops f" using Cons.prems(2) by auto
  from inv_discard [OF Cons.prems(1) b, of n] obtain m1 zmd1 n1 where r: "free_blkid K b (fs_map f, fs_zmd f, n) = Some (m1, zmd1, n1)"
    "map_get K m1 = (map_get K (fs_map f))(b \<mapsto> LBZ_INVALID_PBID)"
    "ftl_inv K (f\<lparr>fs_dev := (fs_dev f)\<lparr>d_mapping := m1, d_zone_metadata := zmd1\<rparr>\<rparr>)" by blast
  let ?g = "f\<lparr>fs_dev := (fs_dev f)\<lparr>d_mapping := m1, d_zone_metadata := zmd1\<rparr>\<rparr>"
  have st: "ftl_step ss K f (Discard b) ?g" by (rule discard [OF b r(1)])
  have "\<forall>c\<in>set bs. map_get K (fs_map ?g) c \<noteq> None \<and> (\<forall>p old v. FMove p c old v \<notin># fs_ops ?g)"
    using Cons.prems(2) r(2) by auto
  from Cons.IH [OF r(3) this, of n1] obtain m zmd n' where
    "free_blkids K bs (m1, zmd1, n1) = Some (m, zmd, n')"
    "run (ftl_step ss K) ?g (map Discard bs) (f\<lparr>fs_dev := (fs_dev f)\<lparr>d_mapping := m, d_zone_metadata := zmd\<rparr>\<rparr>)" by auto
  then show ?case using r(1) run_cons [of "ftl_step ss K", OF st] by auto
qed (simp add: run.run_nil)

lemma commit_run:
  assumes sim: "ftl_sim (ev_kern E) s f" and x: "sy_bios s b = Some x" "bi_end_io x = FlushBioEndio (UserEndio n)" "bi_status x = None"
    and w: "sy_flush_wait s b = Some blk" and log: "log_ok (d_nat_sit_mgmt (sy_dev s))"
    and bs: "\<forall>c\<in>set (log_blkids (d_nat_sit_mgmt (sy_dev s))). map_get (ev_kern E) (fs_map f) c \<noteq> None \<and>
      (\<forall>p old v. FMove p c old v \<notin># fs_ops f)"
  shows "\<exists>s' g. lbz_flush_bio_done E b s = Some s' \<and> sy_done s' = sy_done s @ [(b, n, None)] \<and>
    run (ftl_step ss (ev_kern E)) f (map Discard (log_blkids (d_nat_sit_mgmt (sy_dev s)))) g \<and>
    ftl_sim (ev_kern E) s' g \<and> fs_ops g = fs_ops f"
proof -
  let ?K = "ev_kern E" and ?mg = "d_nat_sit_mgmt (sy_dev s)"
  note m = sim_maps [OF sim]
  from free_blkids_run [OF m(1) bs, of "ns_total_freed_blks ?mg" ss] obtain mm zmd n' where
    r: "free_blkids ?K (log_blkids ?mg) (d_mapping (sy_dev s), d_zone_metadata (sy_dev s), ns_total_freed_blks ?mg) = Some (mm, zmd, n')"
      "run (ftl_step ss ?K) f (map Discard (log_blkids ?mg)) (f\<lparr>fs_dev := (fs_dev f)\<lparr>d_mapping := mm, d_zone_metadata := zmd\<rparr>\<rparr>)"
    unfolding m(2,3) by blast
  let ?g = "f\<lparr>fs_dev := (fs_dev f)\<lparr>d_mapping := mm, d_zone_metadata := zmd\<rparr>\<rparr>"
  have "free_nodes ?K (ns_head ?mg) st = free_blkids ?K (log_blkids ?mg) st" for st
    unfolding log_blkids_def by (rule free_nodes_log) (use log in \<open>auto simp: log_ok_def\<close>)
  then obtain mg where t: "lbz_nat_sit_tx_complete ?K ?mg (d_mapping (sy_dev s)) (d_zone_metadata (sy_dev s)) = Some (mg, mm, zmd)"
    using r(1) by (simp add: lbz_nat_sit_tx_complete_def)
  then obtain s' where s': "lbz_flush_bio_done E b s = Some s'" "sy_done s' = sy_done s @ [(b, n, None)]"
    "d_mapping (sy_dev s') = mm" "d_zone_metadata (sy_dev s') = zmd" "d_flags (sy_dev s') = d_flags (sy_dev s)"
    "d_gc_ctx (sy_dev s') = d_gc_ctx (sy_dev s)"
    using x w by (simp add: lbz_flush_bio_done_def upd_bio_def bio_endio_user_def upd_dev_def)
  have "ftl_view s f" using sim by (simp add: ftl_sim_def)
  then have "ftl_view s' ?g" using s'(3-6) by (simp add: ftl_view_def)
  then show ?thesis using s'(1,2) r(2) ftl_store.inv_run [OF r(2) m(1)]
    by (intro exI [of _ s'] exI [of _ ?g]) (simp add: ftl_sim_def)
qed

section \<open>The zone state worker\<close>

text \<open>The worker reads and writes nothing of the device but what the machine shows.\<close>

definition same_view :: "lbz_device \<Rightarrow> lbz_device \<Rightarrow> bool" where
  "same_view d e \<longleftrightarrow> d_mapping e = d_mapping d \<and> d_zone_metadata e = d_zone_metadata d \<and>
     gc_zone (d_gc_ctx e) = gc_zone (d_gc_ctx d) \<and> d_flags e = d_flags d"

lemma worker_iteration_view:
  assumes v: "same_view d e" and st: "zone_state_step r i b d = Some (d', x, y)"
  shows "\<exists>e'. zone_state_step r i b e = Some (e', x, y) \<and> same_view d' e'"
proof -
  let ?zmd = "d_zone_metadata d"
  have e: "d_zone_metadata e = ?zmd" using v by (simp add: same_view_def)
  have upd: "same_view (d\<lparr>d_zone_metadata := zmd\<rparr>) (e\<lparr>d_zone_metadata := zmd\<rparr>)"
    "same_view (d\<lparr>d_gc_ctx := lbz_complete_one_zone (d_gc_ctx d)\<rparr>) (e\<lparr>d_gc_ctx := lbz_complete_one_zone (d_gc_ctx e)\<rparr>)"
    "same_view (d\<lparr>d_zone_metadata := zmd, d_gc_ctx := lbz_complete_one_zone (d_gc_ctx d)\<rparr>)
      (e\<lparr>d_zone_metadata := zmd, d_gc_ctx := lbz_complete_one_zone (d_gc_ctx e)\<rparr>)"
    "same_view (lbz_dev_set_faulty (d\<lparr>d_zone_metadata := zmd\<rparr>)) (lbz_dev_set_faulty (e\<lparr>d_zone_metadata := zmd\<rparr>))" for zmd
    using v by (simp_all add: same_view_def lbz_dev_set_faulty_def lbz_complete_one_zone_def gc_clear_def)
  obtain z where z: "zmd_zones ?zmd i = Some z" using st by (auto simp: zone_state_step_def bind_eq_Some_conv)
  consider "is_lbz_zone_state LBZ_ZONE_TO_FULL z" | "\<not> is_lbz_zone_state LBZ_ZONE_TO_FULL z" "z_refcount z \<noteq> 0"
    | "\<not> is_lbz_zone_state LBZ_ZONE_TO_FULL z" "z_refcount z = 0" by blast
  then show ?thesis
  proof cases
    case 1
    let ?m = "(if z_state z = BLK_ZONE_COND_FULL
          then do { zmd \<leftarrow> upd_zone i (\<lambda>z. z\<lparr>z_state := BLK_ZONE_COND_CLOSED\<rparr>) ?zmd; Some (zmd, True) }
          else Some (?zmd, b))"
    from st z 1 obtain zmd1 zmd2 where m: "?m = Some (zmd1, x)" "(if x then close_full_zone i zmd1 else Some zmd1) = Some zmd2"
      "d' = d\<lparr>d_zone_metadata := zmd2\<rparr>" "y" unfolding zone_state_step_def by (simp add: bind_eq_Some_conv) blast
    have "zone_state_step r i b e = Some (e\<lparr>d_zone_metadata := zmd2\<rparr>, x, y)"
      unfolding zone_state_step_def e using z 1 m(1,2,4) by simp
    then show ?thesis using upd(1) [of zmd2] m(3) by blast
  next
    case 2
    then show ?thesis using st z v e by (simp add: zone_state_step_def)
  next
    case 3
    show ?thesis
    proof (cases "is_lbz_zone_state LBZ_ZONE_GC z \<and> (b \<or> z_state z = BLK_ZONE_COND_EMPTY)")
      case False
      then show ?thesis using st z v e 3 upd(2) by (auto simp: zone_state_step_def Let_def split: if_split_asm)
    next
      case True
      let ?rz = "lbz_reset_zone z ?zmd"
      show ?thesis
      proof (cases "r i")
        case True
        then show ?thesis using st z e 3 \<open>is_lbz_zone_state LBZ_ZONE_GC z \<and> _\<close> upd(4) [of ?rz]
          by (simp add: zone_state_step_def Let_def)
      next
        case False
        from st z 3 this \<open>is_lbz_zone_state LBZ_ZONE_GC z \<and> _\<close> obtain zmd where m: "reinit_zone i ?rz = Some zmd"
          "d' = d\<lparr>d_zone_metadata := zmd, d_gc_ctx := lbz_complete_one_zone (d_gc_ctx d)\<rparr>" "x" "y"
          unfolding zone_state_step_def by (auto simp: Let_def bind_eq_Some_conv)
        have "zone_state_step r i b e = Some (e\<lparr>d_zone_metadata := zmd, d_gc_ctx := lbz_complete_one_zone (d_gc_ctx e)\<rparr>, x, y)"
          unfolding zone_state_step_def e using z 3 False \<open>is_lbz_zone_state LBZ_ZONE_GC z \<and> _\<close> m(1,3,4) by (simp add: Let_def)
        then show ?thesis using upd(3) [of zmd] m(2) by blast
      qed
    qed
  qed
qed

lemma worker_loop_view:
  assumes "same_view d e" "zone_state_loop r is b d = Some d'"
  shows "\<exists>e'. zone_state_loop r is b e = Some e' \<and> same_view d' e'"
  using assms
proof (induction "is" arbitrary: b d e)
  case (Cons i "is")
  from Cons.prems(2) obtain d1 x y where d1: "zone_state_step r i b d = Some (d1, x, y)"
    "(if y then zone_state_loop r is x d1 else Some d1) = Some d'" by (auto simp: bind_eq_Some_conv)
  from worker_iteration_view [OF Cons.prems(1) d1(1)] obtain e1 where e1: "zone_state_step r i b e = Some (e1, x, y)" "same_view d1 e1"
    by blast
  then show ?case using Cons.IH [OF e1(2)] d1(2) by (cases y) auto
qed simp

lemma worker_view:
  assumes "same_view d e" "zone_state_wk_fn r d = Some d'"
  shows "\<exists>e'. zone_state_wk_fn r e = Some e' \<and> same_view d' e'"
  using assms worker_loop_view [OF assms(1)]
  by (auto simp: zone_state_wk_fn_def is_dev_faulty_def is_dev_ready_def same_view_def split: if_split_asm)

lemma worker_step:
  assumes sim: "ftl_sim K s f"
  shows "\<exists>d. zone_state_wk_fn r (sy_dev s) = Some d \<and>
    (\<forall>b a. map_get K (fs_map f) b = Some a \<longrightarrow> a \<noteq> LBZ_INVALID_PBID \<longrightarrow>
       erase_reset K (fs_zmd f) (d_zone_metadata d) (fs_media f) a = fs_media f a) \<and>
    (worker_spares (fs_zmd f) (d_zone_metadata d) \<longrightarrow>
      (\<exists>g. ftl_step ss K f Internal g \<and> ftl_sim K (s\<lparr>sy_dev := d\<rparr>) g \<and> fs_ops g = fs_ops f \<and>
         fs_media g = erase_reset K (fs_zmd f) (d_zone_metadata d) (fs_media f)))"
proof -
  have v: "same_view (fs_dev f) (sy_dev s)" using sim by (simp add: ftl_sim_def ftl_view_def same_view_def)
  from inv_worker [OF sim_maps(1) [OF sim], of r] obtain d' where d': "zone_state_wk_fn r (fs_dev f) = Some d'"
    "\<forall>b a. map_get K (fs_map f) b = Some a \<longrightarrow> a \<noteq> LBZ_INVALID_PBID \<longrightarrow>
        erase_reset K (fs_zmd f) (d_zone_metadata d') (fs_media f) a = fs_media f a" by blast
  from worker_view [OF v d'(1)] obtain d where d: "zone_state_wk_fn r (sy_dev s) = Some d" "same_view d' d" by blast
  let ?g = "f\<lparr>fs_dev := d', fs_media := erase_reset K (fs_zmd f) (d_zone_metadata d') (fs_media f)\<rparr>"
  have z: "d_zone_metadata d = d_zone_metadata d'" using d(2) by (simp add: same_view_def)
  have "\<exists>g. ftl_step ss K f Internal g \<and> ftl_sim K (s\<lparr>sy_dev := d\<rparr>) g \<and> fs_ops g = fs_ops f \<and>
      fs_media g = erase_reset K (fs_zmd f) (d_zone_metadata d) (fs_media f)"
    if "worker_spares (fs_zmd f) (d_zone_metadata d)"
  proof -
    have st: "ftl_step ss K f Internal ?g" by (rule worker [OF d'(1)]) (use that z in simp)
    have "ftl_view (s\<lparr>sy_dev := d\<rparr>) ?g" using d(2) by (simp add: ftl_view_def same_view_def)
    then show ?thesis using st sim_step [OF sim st] z by (intro exI [of _ ?g]) simp
  qed
  then show ?thesis using d(1) d'(2) z by (intro exI [of _ d]) simp
qed

section \<open>All handlers\<close>

text \<open>
  C6. The handlers of the driver are steps of the machine. Let the machine be in a state of its
  invariant (every reachable one is) that shows the maps of the driver. Then the submission of a write or of a read, the end of a
  read and of a write, a pass of the collector over a zone, the commit of a transaction when the
  flush of a check point is done, and a run of the zone state worker each lead to a state of the
  driver whose maps the machine shows again after one step (after a run of internal steps for the
  pass, after freeing the logged blocks one by one for the commit), with the operation in flight
  that belongs to the bio or the task. Every bio that ends here ends without error; a write is one that finds
  its block unlocked and space in some stream; the blocks of the commit are blocks of the device of which the collector is
  writing no copy; and the run of the worker is a step if it closes no zone with a write in flight. Every
  run of the worker returns and erases no block that is mapped.
\<close>

theorem handlers_are_steps:
  assumes "ftl_sim (ev_kern E) s f" and "kern_ok (ev_kern E)"
  shows "(\<forall>b x v. sy_bios s b = Some x \<and> bi_write x \<and> write_can_start E s (sector_to_blkid (bi_sector x)) \<and>
        map_get (ev_kern E) (fs_map f) (sector_to_blkid (bi_sector x)) \<noteq> None \<and>
        \<not> locked (fs_ops f) (sector_to_blkid (bi_sector x)) \<and> size (fs_ops f) < max_ops \<longrightarrow>
      (\<exists>s' g x' tk p. lbz_submit_io_to_iosched E b s = Some s' \<and> write_in_flight s' b x' (sy_next s) tk p \<and>
         t_blkid tk = sector_to_blkid (bi_sector x) \<and>
         ftl_step True (ev_kern E) f (Submit (sector_to_blkid (bi_sector x)) v) g \<and> ftl_sim (ev_kern E) s' g \<and>
         fs_ops g = fs_ops f + {#FWrite p (sector_to_blkid (bi_sector x)) v#})) \<and>
    (\<forall>b x t tk p R v. write_in_flight s b x t tk p \<and> bi_status x = None \<and> unhook_io b s \<noteq> None \<and>
        fs_ops f = R + {#FWrite p (t_blkid tk) v#} \<and> fresh_append (ev_kern E) f p (sector_to_blkid (bi_sector x)) \<longrightarrow>
      (\<exists>s' g. lbz_write_io_endio (ev_kern E) b s = Some s' \<and> ftl_step ss (ev_kern E) f (Commit (t_blkid tk) v) g \<and>
         ftl_sim (ev_kern E) s' g \<and> fs_ops g = R)) \<and>
    (\<forall>b x a. sy_bios s b = Some x \<and> \<not> bi_write x \<and> map_get (ev_kern E) (fs_map f) (sector_to_blkid (bi_sector x)) = Some a \<and>
        a \<noteq> LBZ_INVALID_PBID \<and> size (fs_ops f) < max_ops \<longrightarrow>
      (\<exists>s' g x'. lbz_submit_io_to_iosched E b s = Some s' \<and> sy_bios s' b = Some x' \<and> bi_sector x' = blkid_to_sector a \<and>
         ftl_step ss (ev_kern E) f (Lookup (sector_to_blkid (bi_sector x)) (fs_media f a)) g \<and> ftl_sim (ev_kern E) s' g \<and>
         fs_ops g = fs_ops f + {#FRead (get_zone_by_pbid (ev_kern E) a) a (fs_media f a)#})) \<and>
    (\<forall>b x p k e R a v. sy_bios s b = Some x \<and> bi_end_io x = ReadIoEndio p k e \<and> bi_status x = None \<and> unhook_io b s \<noteq> None \<and>
        fs_ops f = R + {#FRead p a v#} \<longrightarrow>
      (\<exists>s' g. lbz_read_io_endio b s = Some s' \<and> ftl_step ss (ev_kern E) f (Deliver v (fs_media f a)) g \<and>
         ftl_sim (ev_kern E) s' g \<and> fs_ops g = R)) \<and>
    (\<forall>j s'. scan_ready s \<and> gc_pass E j s = Some (True, s') \<and>
        size (fs_ops f) + unat (zmd_zone_nr_blocks (fs_zmd f)) < max_ops \<longrightarrow>
      (\<exists>es g p z. run (ftl_step ss (ev_kern E)) f es g \<and> set es \<subseteq> {Internal} \<and> ftl_sim (ev_kern E) s' g \<and>
         gc_zone (d_gc_ctx (sy_dev s')) = Some p \<and> zmd_zones (fs_zmd f) p = Some z \<and>
         fs_ops g = fs_ops f + entry_copies z 0 (unat (z_wp_block z)) \<and> fs_media g = fs_media f)) \<and>
    (\<forall>b x n blk. sy_bios s b = Some x \<and> bi_end_io x = FlushBioEndio (UserEndio n) \<and> bi_status x = None \<and>
        sy_flush_wait s b = Some blk \<and> log_ok (d_nat_sit_mgmt (sy_dev s)) \<and>
        (\<forall>c\<in>set (log_blkids (d_nat_sit_mgmt (sy_dev s))). map_get (ev_kern E) (fs_map f) c \<noteq> None \<and>
          (\<forall>p old v. FMove p c old v \<notin># fs_ops f)) \<longrightarrow>
      (\<exists>s' g. lbz_flush_bio_done E b s = Some s' \<and> sy_done s' = sy_done s @ [(b, n, None)] \<and>
         run (ftl_step ss (ev_kern E)) f (map Discard (log_blkids (d_nat_sit_mgmt (sy_dev s)))) g \<and>
         ftl_sim (ev_kern E) s' g \<and> fs_ops g = fs_ops f)) \<and>
    (\<forall>reset_err. \<exists>d. zone_state_wk_fn reset_err (sy_dev s) = Some d \<and>
      (\<forall>b a. map_get (ev_kern E) (fs_map f) b = Some a \<longrightarrow> a \<noteq> LBZ_INVALID_PBID \<longrightarrow>
         erase_reset (ev_kern E) (fs_zmd f) (d_zone_metadata d) (fs_media f) a = fs_media f a) \<and>
      (worker_spares (fs_zmd f) (d_zone_metadata d) \<longrightarrow>
        (\<exists>g. ftl_step ss (ev_kern E) f Internal g \<and> ftl_sim (ev_kern E) (s\<lparr>sy_dev := d\<rparr>) g \<and> fs_ops g = fs_ops f \<and>
           fs_media g = erase_reset (ev_kern E) (fs_zmd f) (d_zone_metadata d) (fs_media f))))"
  by (intro conjI allI impI; (elim conjE)?;
      rule write_submit_step [OF assms] write_end_step [OF assms] read_submit_step [OF assms(1)] read_end_step [OF assms(1)]
        collect_run [OF assms(1)] commit_run [OF assms(1)] worker_step [OF assms(1)]; assumption)

text \<open>
  C7. Every stage of a copy of the collector is a step of the machine. The end of its read queues
  the task. The retry work drops the copy when the block has moved or was freed meanwhile; leaves
  it with the write of the block when one is in flight, without a step; and otherwise gives it a
  block of some stream and sends its write. When a write ends with which a copy waits, the write
  is committed and the copy dropped, and both tasks are gone. The end of the copy's own write moves the
  block. In each case the machine shows the maps of the driver again, and the operation in flight
  is the one of the next stage.
\<close>

theorem copies_are_steps:
  assumes "ftl_sim (ev_kern E) s f" and "kern_ok (ev_kern E)"
  shows "(\<forall>b x t tk R. gc_copy_ready (ev_kern E) s t tk \<and> sy_bios s b = Some x \<and> bi_end_io x = GcReadEndio t \<and> bi_status x = None \<and>
        fs_ops f = R + {#FCopy (t_blkid tk) (t_pbid tk)#} \<longrightarrow>
      (\<exists>s' g tk'. lbz_gc_read_endio (ev_kern E) b s = Some s' \<and> gc_copy_ready (ev_kern E) s' t tk' \<and> t_blkid tk' = t_blkid tk \<and>
         t_pbid tk' = t_pbid tk \<and> t \<in> set (s_gc_writes (d_iosched (sy_dev s'))) \<and> s_retry_queued (d_iosched (sy_dev s')) \<and>
         ftl_step ss (ev_kern E) f Internal g \<and> ftl_sim (ev_kern E) s' g \<and>
         fs_ops g = R + {#FHold (t_blkid tk) (t_pbid tk) (fs_media f (t_pbid tk))#})) \<and>
    (\<forall>t tk q R v. gc_copy_ready (ev_kern E) s t tk \<and> block_free s (t_blkid tk) \<and> fs_ops f = R + {#FHold (t_blkid tk) (t_pbid tk) v#} \<and>
        \<not> locked (fs_ops f) (t_blkid tk) \<and> map_get (ev_kern E) (fs_map f) (t_blkid tk) = Some q \<and>
        (q \<noteq> t_pbid tk \<or> q = LBZ_INVALID_PBID) \<longrightarrow>
      (\<exists>s' g. retry_gc_tasks E [t] s = Some s' \<and> sy_tasks s' t = None \<and> sy_inflight s' = sy_inflight s \<and>
         ftl_step ss (ev_kern E) f Internal g \<and> ftl_sim (ev_kern E) s' g \<and> fs_ops g = R)) \<and>
    (\<forall>t tk b x q tq p. gc_copy_ready (ev_kern E) s t tk \<and> write_in_flight s b x q tq p \<and> t_blkid tq = t_blkid tk \<and>
        t_type tq \<noteq> LBZ_TASK_GC \<longrightarrow>
      (\<exists>s' gk. retry_gc_tasks E [t] s = Some s' \<and> write_with_copy (ev_kern E) s' b x q (tq\<lparr>t_gc := GcNode t\<rparr>) p t gk \<and>
         t_blkid gk = t_blkid tk \<and> t_pbid gk = t_pbid tk \<and> sy_inflight s' = sy_inflight s \<and> ftl_sim (ev_kern E) s' f)) \<and>
    (\<forall>b x t tk p g gk R v v'. write_with_copy (ev_kern E) s b x t tk p g gk \<and> bi_status x = None \<and> unhook_io b s \<noteq> None \<and>
        fs_ops f = R + {#FWrite p (t_blkid tk) v, FHold (t_blkid tk) (t_pbid gk) v'#} \<and>
        fresh_append (ev_kern E) f p (sector_to_blkid (bi_sector x)) \<and>
        phase_at (fs_zmd f) (get_zone_by_pbid (ev_kern E) (t_pbid gk)) PGc \<longrightarrow>
      (\<exists>s' h. lbz_write_io_endio (ev_kern E) b s = Some s' \<and> sy_tasks s' t = None \<and> sy_tasks s' g = None \<and>
         run (ftl_step ss (ev_kern E)) f [Commit (t_blkid tk) v, Internal] h \<and> ftl_sim (ev_kern E) s' h \<and> fs_ops h = R)) \<and>
    (\<forall>t tk R v. gc_copy_ready (ev_kern E) s t tk \<and> block_free s (t_blkid tk) \<and> fs_ops f = R + {#FHold (t_blkid tk) (t_pbid tk) v#} \<and>
        \<not> locked (fs_ops f) (t_blkid tk) \<and> map_get (ev_kern E) (fs_map f) (t_blkid tk) = Some (t_pbid tk) \<and>
        t_pbid tk \<noteq> LBZ_INVALID_PBID \<and> ev_integrity E t = None \<and> ev_stream_support E \<and> \<not> is_dev_faulty (sy_dev s) \<and>
        zmd_nr_allocable_blks (fs_zmd f) \<noteq> 0 \<longrightarrow>
      (\<exists>s' g x tk' p. retry_gc_tasks E [t] s = Some s' \<and> gc_write_in_flight (ev_kern E) s' (sy_next s) x t tk' p \<and>
         t_blkid tk' = t_blkid tk \<and> t_pbid tk' = t_pbid tk \<and> bi_append x \<and> bi_pages x = [the (t_page tk)] \<and>
         sy_inflight s' = sy_inflight s @ [sy_next s] \<and>
         ftl_step True (ev_kern E) f Internal g \<and> ftl_sim (ev_kern E) s' g \<and>
         fs_ops g = R + {#FMove p (t_blkid tk) (t_pbid tk) v#})) \<and>
    (\<forall>b x t tk p R v. gc_write_in_flight (ev_kern E) s b x t tk p \<and> bi_status x = None \<and> \<not> is_dev_faulty (sy_dev s) \<and>
        fs_ops f = R + {#FMove p (t_blkid tk) (t_pbid tk) v#} \<and> fresh_append (ev_kern E) f p (sector_to_blkid (bi_sector x)) \<longrightarrow>
      (\<exists>s' g. lbz_gc_write_endio (ev_kern E) b s = Some s' \<and> ftl_step ss (ev_kern E) f Internal g \<and>
         ftl_sim (ev_kern E) s' g \<and> fs_ops g = R))"
  by (intro conjI allI impI; elim conjE;
      rule copy_read_step [OF assms(1)] copy_drop_step [OF assms] copy_join_step [OF assms(1)] write_end_copy_run [OF assms]
        copy_start_step [OF assms] copy_end_step [OF assms]; assumption)

end
