(* ===== verification/Zone_Demo.thy ===== *)
theory Zone_Demo
  imports Zone_Init
begin

text \<open>
  A small backing device (three zones of two blocks) on which the theorems about the zone
  table are applied: the table right after initialisation, and a table in which the first zone
  was filled and all its blocks have died.
\<close>

definition demo_blkz :: "u64 \<Rightarrow> blk_zone" where
  "demo_blkz start = \<lparr>bz_start = start, bz_len = 16, bz_wp = start,
     bz_cond = BLK_ZONE_COND_EMPTY, bz_capacity = 16\<rparr>"

definition demo_report :: "(blk_zone \<times> bool) list" where
  "demo_report = [(demo_blkz 0, True), (demo_blkz 16, True), (demo_blkz 32, True)]"

definition demo_zmd :: lbz_zone_metadata where
  "demo_zmd = snd (the (report_zones demo_report None 0 (zmd_zero\<lparr>zmd_nr_zones := 3\<rparr>)))"

lemma demo_report_fresh: "fresh_report demo_report"
  by (simp add: fresh_report_def demo_report_def demo_blkz_def)

lemma demo_zmd_inv: "init_inv 3 demo_zmd" "zmd_nr_zones demo_zmd = 3" "zmd_zone_nr_blocks demo_zmd \<noteq> 0"
proof -
  have i: "init_inv 0 (zmd_zero\<lparr>zmd_nr_zones := 3\<rparr>)" by (simp add: init_inv_def zmd_zero_def)
  have r: "demo_report = (demo_blkz 0, True) # tl demo_report" by (simp add: demo_report_def)
  have c: "8 \<le> unat (ucast (bz_capacity (demo_blkz 0)) :: u32)" by (simp add: demo_blkz_def)
  have l: "length demo_report = 3" by (simp add: demo_report_def)
  from report_zones_init [OF demo_report_fresh r i c, unfolded l]
  have "init_inv 3 demo_zmd \<and> zmd_nr_zones demo_zmd = 3 \<and> zmd_zone_nr_blocks demo_zmd \<noteq> 0"
    by (auto simp: demo_zmd_def)
  then show "init_inv 3 demo_zmd" "zmd_nr_zones demo_zmd = 3" "zmd_zone_nr_blocks demo_zmd \<noteq> 0"
    by blast+
qed

lemma demo_zmd_wf: "zmd_wf demo_zmd"
  by (rule init_inv_wf) (use demo_zmd_inv in simp_all)

lemma demo_zmd_facts:
  "zmd_empty_zone_list demo_zmd = [0, 1, 2]" "zmd_full_zone_list demo_zmd = []"
  "zmd_active_zone demo_zmd = (\<lambda>_. None)"
  using demo_zmd_inv by (simp_all add: init_inv_def upt_rec)

lemma demo_zmd_nrb: "zmd_zone_nr_blocks demo_zmd = 2"
  by (simp add: demo_zmd_def demo_report_def demo_blkz_def lbz_init_zone_def Let_def
      init_zmd_by_first_zone_def lbz_zone_insert_def zone_from_report_def lbz_zone_add_to_list_def
      lbz_close_zone_def sector_to_blkid_def LBZ_DATA_BLK_SHIFT_def SECTOR_SHIFT_def)

theorem alloc_res_wf_witness:
  "zmd_wf demo_zmd \<and> (0::nat) < LBZ_ZONE_MAX_STREAM \<and>
   (\<exists>p zmd'. lbz_zone_alloc_res True False LBZ_ALLOC_FLAG_GC 0 demo_zmd gc_ctx_zero =
      Some (Inr p, zmd', gc_ctx_zero) \<and> zmd_wf zmd')"
proof -
  have s: "(0::nat) < LBZ_ZONE_MAX_STREAM" by (simp add: LBZ_ZONE_MAX_STREAM_def)
  show ?thesis
    using alloc_res_wf [OF demo_zmd_wf s, of False LBZ_ALLOC_FLAG_GC gc_ctx_zero] demo_zmd_wf s
    by (auto simp: alloc_blocked_def demo_zmd_facts)
qed

theorem alloc_res_effect_witness:
  "\<exists>p zmd' z z'. lbz_zone_alloc_res True False LBZ_ALLOC_FLAG_GC 1 demo_zmd gc_ctx_zero =
      Some (Inr p, zmd', gc_ctx_zero) \<and> zmd_zones demo_zmd p = Some z \<and> zmd_zones zmd' p = Some z' \<and>
      z_wp_block z' = z_wp_block z + 1"
proof -
  have s: "(1::nat) < LBZ_ZONE_MAX_STREAM" by (simp add: LBZ_ZONE_MAX_STREAM_def)
  have nb: "\<not> alloc_blocked False LBZ_ALLOC_FLAG_GC 1 demo_zmd"
    by (simp add: alloc_blocked_def demo_zmd_facts)
  from alloc_res_success [OF demo_zmd_wf s nb] obtain p zmd' where
    a: "lbz_zone_alloc_res True False LBZ_ALLOC_FLAG_GC 1 demo_zmd gc_ctx_zero = Some (Inr p, zmd', gc_ctx_zero)"
    by blast
  from alloc_res_effect [OF demo_zmd_wf s a] a show ?thesis by blast
qed

lemma demo_report_ok: "report_ok 3 demo_report"
  using demo_report_fresh by (simp add: report_ok_def demo_report_def demo_blkz_def)

theorem init_zone_metadata_wf_witness:
  "\<exists>zmd. lbz_init_zone_metadata 3 16 demo_report None WqOk zmd_zero = Some (Inr (), zmd) \<and> zmd_wf zmd"
  using init_zone_metadata_wf [OF demo_report_ok, of 16] by blast

section \<open>A table with a dead full zone\<close>

definition demo_full_zone :: lbz_zone where
  "demo_full_zone = (zone_only_state LBZ_ZONE_FULL (the (zmd_zones demo_zmd 0)))\<lparr>z_wp_block := 2,
     z_state := BLK_ZONE_COND_CLOSED\<rparr>"

definition demo_full_zmd :: lbz_zone_metadata where
  "demo_full_zmd = demo_zmd\<lparr>zmd_zones := (zmd_zones demo_zmd)(0 \<mapsto> demo_full_zone),
     zmd_empty_zone_list := [1, 2], zmd_empty_zone_count := 2, zmd_full_zone_list := [0],
     zmd_full_zone_count := 1, zmd_nr_allocable_blks := 4\<rparr>"

lemma demo_full_zone_ok:
  "zone_ok 2 demo_full_zone" "zone_phase demo_full_zone = PFull" "z_weight demo_full_zone = 0"
proof -
  from demo_zmd_inv(1) obtain z where z: "zmd_zones demo_zmd 0 = Some z" "fresh_zone z" "zone_acct 2 z"
    unfolding init_inv_def demo_zmd_nrb by (metis not_None_eq zero_less_numeral)
  show ph: "zone_phase demo_full_zone = PFull"
    by (simp add: demo_full_zone_def zone_phase_def is_lbz_zone_state_def zone_only_state_def bit_numeral_rec)
  show w: "z_weight demo_full_zone = 0"
    using z by (simp add: demo_full_zone_def zone_only_state_def fresh_zone_def)
  have v: "zone_valid demo_full_zone = zone_valid z" "valid_count demo_full_zone = valid_count z"
    by (rule zone_valid_cong valid_count_cong; simp add: demo_full_zone_def zone_only_state_def z)+
  show "zone_ok 2 demo_full_zone"
    using z ph w unfolding zone_ok_def zone_acct_def v
    by (auto simp: demo_full_zone_def zone_only_state_def fresh_zone_def)
qed

lemma msum_3:
  "msum 3 m f = (case m 0 of None \<Rightarrow> 0 | Some x \<Rightarrow> f x) + (case m 1 of None \<Rightarrow> 0 | Some x \<Rightarrow> f x) +
     (case m 2 of None \<Rightarrow> 0 | Some x \<Rightarrow> f x)"
  by (simp add: msum_def eval_nat_numeral)

lemma demo_full_zmd_wf: "zmd_wf demo_full_zmd"
proof -
  have z: "fresh_zone z \<and> zone_acct 2 z" if "zmd_zones demo_zmd p = Some z" for p z
    using demo_zmd_inv(1) that by (auto simp: init_inv_def demo_zmd_nrb)
  have dom: "(\<exists>z. zmd_zones demo_zmd p = Some z) \<longleftrightarrow> p < 3" for p
    using demo_zmd_inv(1) by (auto simp: init_inv_def)
  have at: "phase_at demo_full_zmd p k \<longleftrightarrow> (p = 0 \<and> k = PFull) \<or> (p \<in> {1, 2} \<and> k = PEmpty)" for p k
  proof (cases "p = 0")
    case False
    then have "phase_at demo_full_zmd p k \<longleftrightarrow> p < 3 \<and> k = PEmpty"
      using dom [of p] z [of p] by (auto simp: demo_full_zmd_def phase_at_def fresh_zone_def)
    with False show ?thesis by auto
  qed (auto simp: demo_full_zmd_def phase_at_def demo_full_zone_ok)
  have "wf_zones demo_full_zmd"
    using dom z demo_full_zone_ok demo_zmd_inv(2)
    by (auto simp: wf_zones_def demo_full_zmd_def demo_zmd_nrb zone_ok_def fresh_zone_def)
  moreover have "wf_lists demo_full_zmd" unfolding wf_lists_def at by (auto simp: demo_full_zmd_def)
  moreover have "wf_active demo_full_zmd"
    unfolding wf_active_def at by (auto simp: demo_full_zmd_def demo_zmd_facts)
  moreover have "wf_sums demo_full_zmd"
  proof -
    obtain a b where "zmd_zones demo_zmd 1 = Some a" "zmd_zones demo_zmd 2 = Some b"
      using dom [of 1] dom [of 2] by auto
    moreover have "zmd_nr_valid_blks demo_zmd = 0" using demo_zmd_inv(1) by (simp add: init_inv_def)
    moreover have "z_wp_block demo_full_zone = 2" by (simp add: demo_full_zone_def)
    ultimately show ?thesis
      using z [of 1 a] z [of 2 b] demo_full_zone_ok demo_zmd_inv(2)
      by (simp add: wf_sums_def demo_full_zmd_def msum_3 demo_zmd_nrb fresh_zone_def)
  qed
  ultimately show ?thesis by (simp add: zmd_wf_def)
qed

theorem find_victim_zone_spec_witness:
  "zmd_wf demo_full_zmd \<and>
   (\<exists>zmd'. lbz_find_victim_zone LBZ_VICTIM_REGULAR demo_full_zmd = Some (Some 0, zmd') \<and> zmd_wf zmd' \<and>
      zmd_full_zone_list zmd' = [])"
proof -
  have n: "unat (zmd_zone_nr_blocks demo_full_zmd) < 2 ^ 31 - 1" "zmd_zone_nr_blocks demo_full_zmd = 2"
      "zmd_full_zone_list demo_full_zmd = [0]" "zmd_zones demo_full_zmd 0 = Some demo_full_zone"
    by (simp_all add: demo_full_zmd_def demo_zmd_nrb)
  have low: "lbz_check_zone_low_wm demo_full_zmd demo_full_zone"
    by (simp add: lbz_check_zone_low_wm_def Let_def demo_full_zone_ok)
  from find_victim_zone_spec [OF demo_full_zmd_wf n(1), of LBZ_VICTIM_REGULAR] show ?thesis
    using demo_full_zmd_wf n low by (auto simp: demo_full_zone_ok split: option.splits)
qed

section \<open>A table with two zones that were written to their end\<close>

text \<open>The writes to the first zone have ended, those to the second are still in flight.\<close>

definition demo_written :: "u32 \<Rightarrow> blk_zone_cond \<Rightarrow> lbz_zone \<Rightarrow> lbz_zone" where
  "demo_written n c z = (zone_only_state LBZ_ZONE_TO_FULL z)\<lparr>z_wp_block := 2, z_weight := n, z_pending_write_io := n,
     z_refcount := n, z_state := c\<rparr>"

definition demo_closing_zmd :: lbz_zone_metadata where
  "demo_closing_zmd = demo_zmd\<lparr>zmd_zones := (zmd_zones demo_zmd)
       (0 \<mapsto> demo_written 0 BLK_ZONE_COND_FULL (the (zmd_zones demo_zmd 0)),
        1 \<mapsto> demo_written 2 BLK_ZONE_COND_EXP_OPEN (the (zmd_zones demo_zmd 1))),
     zmd_empty_zone_list := [2], zmd_empty_zone_count := 1, zmd_nr_allocable_blks := 2, zmd_nr_valid_blks := 2\<rparr>"

lemma demo_written_ok:
  assumes "fresh_zone z" "zone_acct 2 z" "n \<le> 2"
  shows "zone_ok 2 (demo_written n c z)" "zone_phase (demo_written n c z) = PToFull"
    "is_lbz_zone_state LBZ_ZONE_TO_FULL (demo_written n c z)"
proof -
  show t: "is_lbz_zone_state LBZ_ZONE_TO_FULL (demo_written n c z)"
    by (simp add: demo_written_def is_lbz_zone_state_def zone_only_state_def bit_numeral_rec)
  show ph: "zone_phase (demo_written n c z) = PToFull"
    by (simp add: demo_written_def zone_phase_def is_lbz_zone_state_def zone_only_state_def bit_numeral_rec)
  have v: "zone_valid (demo_written n c z) = zone_valid z" "valid_count (demo_written n c z) = valid_count z"
    by (rule zone_valid_cong valid_count_cong; simp add: demo_written_def zone_only_state_def)+
  have "valid_count z = 0" using assms(1,2) by (simp add: zone_acct_def fresh_zone_def)
  then show "zone_ok 2 (demo_written n c z)"
    using assms ph unfolding zone_ok_def zone_acct_def v
    by (auto simp: demo_written_def zone_only_state_def fresh_zone_def word_le_nat_alt)
qed

lemma demo_zone_some: "p < 3 \<Longrightarrow> \<exists>z. zmd_zones demo_zmd p = Some z \<and> fresh_zone z \<and> zone_acct 2 z"
  using demo_zmd_inv(1) unfolding init_inv_def demo_zmd_nrb by (metis not_None_eq)

lemma demo_closing_zmd_wf: "zmd_wf demo_closing_zmd"
proof -
  obtain a b c where z: "zmd_zones demo_zmd 0 = Some a" "zmd_zones demo_zmd 1 = Some b" "zmd_zones demo_zmd 2 = Some c"
    and f: "fresh_zone a" "zone_acct 2 a" "fresh_zone b" "zone_acct 2 b" "fresh_zone c" "zone_acct 2 c"
    using demo_zone_some [of 0] demo_zone_some [of 1] demo_zone_some [of 2] by auto
  note w = demo_written_ok [OF f(1,2), of 0 BLK_ZONE_COND_FULL] demo_written_ok [OF f(3,4), of 2 BLK_ZONE_COND_EXP_OPEN]
  have out: "zmd_zones demo_zmd p = None" if "\<not> p < 3" for p
    using demo_zmd_inv(1) that unfolding init_inv_def by (metis option.exhaust)
  have zs: "zmd_zones demo_closing_zmd p = (if p = 0 then Some (demo_written 0 BLK_ZONE_COND_FULL a)
      else if p = 1 then Some (demo_written 2 BLK_ZONE_COND_EXP_OPEN b) else if p = 2 then Some c else None)" for p
  proof (cases "p < 3")
    case True
    then have "p = 0 \<or> p = 1 \<or> p = 2" by auto
    then show ?thesis using z by (auto simp: demo_closing_zmd_def)
  qed (use out [of p] in \<open>simp add: demo_closing_zmd_def\<close>)
  have c: "zone_phase c = PEmpty" "zone_ok 2 c" using f(5,6) by (simp_all add: fresh_zone_def zone_ok_def)
  have at: "phase_at demo_closing_zmd p k \<longleftrightarrow> (p \<in> {0, 1} \<and> k = PToFull) \<or> (p = 2 \<and> k = PEmpty)" for p k
    using w c by (auto simp: phase_at_def zs)
  have "wf_zones demo_closing_zmd"
    using w c demo_zmd_inv(2) unfolding wf_zones_def zs by (auto simp: demo_closing_zmd_def demo_zmd_nrb split: if_splits)
  moreover have "wf_lists demo_closing_zmd"
    using demo_zmd_inv(1) unfolding wf_lists_def at by (auto simp: demo_closing_zmd_def demo_zmd_facts init_inv_def)
  moreover have "wf_active demo_closing_zmd"
    unfolding wf_active_def at by (auto simp: demo_closing_zmd_def demo_zmd_facts)
  moreover have "wf_sums demo_closing_zmd"
    using f(5) demo_zmd_inv(2) unfolding wf_sums_def
    by (simp add: demo_closing_zmd_def msum_3 demo_zmd_nrb z fresh_zone_def demo_written_def)
  ultimately show ?thesis by (simp add: zmd_wf_def)
qed

end
