(* ===== verification/System_Demo.thy ===== *)
theory System_Demo
  imports Zone_Demo Request Submit_Path
begin

text \<open>
  A small driver state on which the theorems about the maps, the tree of tasks and the handlers
  are applied: the three zones of two blocks of the zone demo, a device of 512 blocks, a write of
  block 5 in flight to the first zone, and then a copy of that block in flight to the second zone.
\<close>

section \<open>The maps\<close>

definition demo_map :: lbz_mapping where
  "demo_map = the (lbz_mapping_init demo_kern 4096)"

lemma demo_map_facts:
  "mapping_wf demo_kern demo_map"
  "map_get demo_kern demo_map b = (if unat b < 512 then Some LBZ_INVALID_PBID else None)"
proof -
  have "unat (4096::u64) div 8 < 2 ^ 31"
      "unat (4096::u64) div 8 \<le> MAX_INTERNAL_NODES demo_kern * LBZ_INT_NODE_INDEXED_BLKS demo_kern"
    using max_internal_nodes_cover [OF demo_kern_ok] by simp_all
  from mapping_init_fits [OF demo_kern_ok this] show "mapping_wf demo_kern demo_map"
    "map_get demo_kern demo_map b = (if unat b < 512 then Some LBZ_INVALID_PBID else None)"
    by (auto simp: demo_map_def)
qed

lemma demo_zone_facts:
  "zmd_zones demo_zmd p = Some z \<Longrightarrow> fresh_zone z \<and> zone_acct 2 z"
  using demo_zmd_inv(1) by (auto simp: init_inv_def demo_zmd_nrb)

lemma demo_consistent: "map_consistent (map_get demo_kern demo_map) (zmd_rget demo_kern demo_zmd)"
proof (rule map_consistentI)
  show "map_get demo_kern demo_map LBZ_INVALID_PBID = None"
    by (simp add: demo_map_facts LBZ_INVALID_PBID_def unsigned_minus_1_eq_mask mask_eq_exp_minus_1)
next
  fix b p assume "map_get demo_kern demo_map b = Some p" "p \<noteq> LBZ_INVALID_PBID"
  then show "zmd_rget demo_kern demo_zmd p = Some b" by (simp add: demo_map_facts split: if_splits)
next
  fix p b assume r: "zmd_rget demo_kern demo_zmd p = Some b" "b \<noteq> LBZ_INVALID_PBID"
  from zmd_rget_zone [OF r(1)] obtain z where
    z: "zmd_zones demo_zmd (get_zone_by_pbid demo_kern p) = Some z"
      "zrms_get (z_zrms z) (unat (pbid_dis z p)) = Some b" by blast
  have "\<not> zone_valid z (unat (pbid_dis z p))"
    using zone_acct_weightless [of 2 z] demo_zone_facts [OF z(1)] by (simp add: fresh_zone_def)
  then have False using z(2) r(2) by (simp add: zone_valid_def)
  then show "map_get demo_kern demo_map b = Some p" "p \<noteq> LBZ_INVALID_PBID" by blast+
qed

text \<open>The zones of the demo, computed.\<close>

lemmas demo_zmd_eval = demo_zmd_def demo_report_def demo_blkz_def lbz_init_zone_def Let_def
  init_zmd_by_first_zone_def lbz_zone_insert_def zone_from_report_def lbz_zone_add_to_list_def
  lbz_close_zone_def sector_to_blkid_def LBZ_DATA_BLK_SHIFT_def SECTOR_SHIFT_def

lemma demo_zone_0: "\<exists>z. zmd_zones demo_zmd 0 = Some z \<and> z_start_sector z = 0 \<and>
    zrms_get (z_zrms z) 0 = Some LBZ_INVALID_PBID"
  by (simp add: demo_zmd_eval zone_simps zrms_get_def LBZ_REVERSE_MAP_ENTRIES_def)

lemma demo_zone_1: "\<exists>z. zmd_zones demo_zmd 1 = Some z \<and> z_start_sector z = 16 \<and>
    zrms_get (z_zrms z) 0 = Some LBZ_INVALID_PBID"
  by (simp add: demo_zmd_eval zone_simps zrms_get_def LBZ_REVERSE_MAP_ENTRIES_def)

section \<open>A write in flight\<close>

text \<open>The table after one block of the first zone was allocated for stream 0.\<close>

definition demo_wr_zmd :: lbz_zone_metadata where
  "demo_wr_zmd = fst (snd (the (lbz_zone_alloc_res True False LBZ_ALLOC_FLAG_GC 0 demo_zmd gc_ctx_zero)))"

lemma alloc_next_zone:
  assumes wf: "zmd_wf zmd" and sid: "sid < LBZ_ZONE_MAX_STREAM" and a: "zmd_active_zone zmd sid = None"
    and l: "zmd_empty_zone_list zmd = p # ps" and z: "zmd_zones zmd p = Some z" and n: "zmd_zone_nr_blocks zmd \<noteq> 1"
    and md: "md = LBZ_ALLOC_FLAG_GC \<or> zmd_reserved_blks_gc zmd = 0"
  shows "\<exists>zmd' z'. lbz_zone_alloc_res True False md sid zmd gc = Some (Inr p, zmd', gc) \<and> zmd_wf zmd' \<and>
     zmd_zones zmd' = (zmd_zones zmd)(p \<mapsto> z') \<and> z_wp_block z' = z_wp_block z + 1 \<and>
     z_pending_write_io z' = z_pending_write_io z + 1 \<and> z_zrms z' = z_zrms z \<and>
     z_start_sector z' = z_start_sector z \<and>
     zmd_empty_zone_list zmd' = ps \<and> zmd_active_zone zmd' = (zmd_active_zone zmd)(sid := Some p) \<and>
     zmd_zone_nr_blocks zmd' = zmd_zone_nr_blocks zmd"
proof -
  have nb: "\<not> alloc_blocked False md sid zmd" using a l md by (auto simp: alloc_blocked_def)
  from alloc_res_success [OF wf sid nb, of True gc] l a obtain zmd1 zmd' where
    s: "lbz_zone_alloc_res True False md sid zmd gc = Some (Inr p, zmd', gc)" "zmd_wf zmd'"
      "take_block sid p zmd1 = Some zmd'" "open_active_zone True md sid zmd gc = Some (Inr p, zmd1, gc)"
    by auto
  have "phase_at zmd p PEmpty" using wf l by (auto simp: zmd_wf_def wf_lists_def)
  then have wp: "z_wp_block z = 0" using zmd_wf_zone_ok [OF wf z] z by (auto simp: phase_at_def zone_ok_def)
  from s(4) l z have zmd1: "zmd1 = zmd\<lparr>zmd_empty_zone_list := ps, zmd_empty_zone_count := zmd_empty_zone_count zmd - 1,
      zmd_active_zone := (zmd_active_zone zmd)(sid := Some p), zmd_zones := (zmd_zones zmd)(p \<mapsto>
        (lbz_set_zone_state LBZ_ZONE_ACTIVE (lbz_get_zone (z\<lparr>z_stream := int sid\<rparr>)))\<lparr>z_state := BLK_ZONE_COND_EXP_OPEN\<rparr>)\<rparr>"
    by (auto simp: open_active_zone_def get_free_zone_def upd_zone_def)
  show ?thesis
    using s(1-3) n wp unfolding zmd1
    by (auto simp: take_block_def upd_zone_def zone_simps Let_def)
qed

lemma demo_wr_facts:
  "zmd_wf demo_wr_zmd" "append_ok demo_kern demo_wr_zmd 0 0" "zmd_rget demo_kern demo_wr_zmd = zmd_rget demo_kern demo_zmd"
  "zmd_empty_zone_list demo_wr_zmd = [1, 2]" "zmd_active_zone demo_wr_zmd = (\<lambda>_. None)(0 := Some 0)"
  "zmd_zones demo_wr_zmd 1 = zmd_zones demo_zmd 1" "zmd_zone_nr_blocks demo_wr_zmd = 2"
proof -
  obtain z where z: "zmd_zones demo_zmd 0 = Some z" "z_start_sector z = 0" "zrms_get (z_zrms z) 0 = Some LBZ_INVALID_PBID"
    using demo_zone_0 by blast
  have f: "z_wp_block z = 0" "z_pending_write_io z = 0" using demo_zone_facts [OF z(1)] by (auto simp: fresh_zone_def)
  have s: "(0::nat) < LBZ_ZONE_MAX_STREAM" by (simp add: LBZ_ZONE_MAX_STREAM_def)
  have "zmd_active_zone demo_zmd 0 = None" "zmd_empty_zone_list demo_zmd = 0 # [1, 2]" "zmd_zone_nr_blocks demo_zmd \<noteq> 1"
    by (simp_all add: demo_zmd_facts demo_zmd_nrb)
  from alloc_next_zone [OF demo_zmd_wf s this(1,2) z(1) this(3), of LBZ_ALLOC_FLAG_GC gc_ctx_zero] obtain zmd' z' where
    a: "lbz_zone_alloc_res True False LBZ_ALLOC_FLAG_GC 0 demo_zmd gc_ctx_zero = Some (Inr 0, zmd', gc_ctx_zero)"
    and w: "zmd_wf zmd'" and zs: "zmd_zones zmd' = (zmd_zones demo_zmd)(0 \<mapsto> z')"
    and z': "z_wp_block z' = 1" "z_pending_write_io z' = 1" "z_zrms z' = z_zrms z" "z_start_sector z' = 0"
    and o: "zmd_empty_zone_list zmd' = [1, 2]" "zmd_active_zone zmd' = (zmd_active_zone demo_zmd)(0 := Some 0)"
      "zmd_zone_nr_blocks zmd' = zmd_zone_nr_blocks demo_zmd"
    using f z by auto
  have e: "demo_wr_zmd = zmd'" using a by (simp add: demo_wr_zmd_def)
  have gz: "get_zone_by_pbid demo_kern 0 = 0"
    by (simp add: get_zone_by_pbid_def demo_kern_def blkid_to_sector_def)
  show "zmd_wf demo_wr_zmd" "zmd_empty_zone_list demo_wr_zmd = [1, 2]" "zmd_zones demo_wr_zmd 1 = zmd_zones demo_zmd 1"
    "zmd_active_zone demo_wr_zmd = (\<lambda>_. None)(0 := Some 0)" "zmd_zone_nr_blocks demo_wr_zmd = 2"
    using w zs o by (simp_all add: e demo_zmd_facts demo_zmd_nrb)
  show "append_ok demo_kern demo_wr_zmd 0 0"
    using gz zs z' z(3) by (simp add: e append_ok_def LBZ_INVALID_PBID_def pbid_dis_def sector_to_blkid_def)
  show "zmd_rget demo_kern demo_wr_zmd = zmd_rget demo_kern demo_zmd"
    using zmd_rget_cong [OF z(1), of z' zmd' demo_kern] zs z' z(2) by (auto simp: e)
qed

definition demo_task :: lbz_io_task where
  "demo_task = (task_init LBZ_TASK_USER_WRITE)\<lparr>t_bio := Some 2, t_blkid := 5, t_zone := Some 0,
     t_status := LBZ_TASK_DISPATCH, t_refcount := 2\<rparr>"

definition demo_bio :: bio where
  "demo_bio = \<lparr>bi_write = True, bi_flush = False, bi_has_data = True, bi_sector = 0, bi_sectors = 8,
     bi_status = None, bi_end_io = WriteIoEndio 1 5 (UserEndio 9), bi_append = True, bi_phys = True,
     bi_pages = [3]\<rparr>"

definition demo_iosched :: lbz_io_scheduler where
  "demo_iosched = \<lparr>s_task_tree = Node Leaf 1 Leaf, s_task_count = 1, s_pending_count = 0, s_user_pending = [],
     s_gc_write_count = 0, s_gc_writes = [], s_retry_queued = False,
     s_retry_wq = WqOk\<rparr>"

definition demo_dev :: "lbz_zone_metadata \<Rightarrow> lbz_mapping \<Rightarrow> lbz_device" where
  "demo_dev zmd m = \<lparr>d_minor = 0, d_meta_bytes = 64, d_dev_size = 4096, d_refcnt = 1, d_transaction_id = 0,
     d_timestamp = 0, d_nr_zones = 3, d_flags = 1, d_zone_metadata = zmd, d_mapping = m,
     d_iosched = demo_iosched, d_gc_ctx = gc_ctx_zero, d_nat_sit_mgmt = ns_zero,
     d_user_write_inflight_io_cnt = 1, d_user_read_inflight_io_cnt = 0, d_user_read_err_cnt = 0,
     d_user_read_zero_cnt = 0, d_user_write_err_cnt = 0, d_user_encounter_emergency = 0,
     d_write_alloc_encounter_eagain = 0, d_gc_alloc_encounter_eagain = 0, d_user_write_blocks = 1,
     d_user_read_blocks = 0, d_gc_inflight_io_cnt = 0, d_gc_write_err_cnt = 0, d_gc_read_err_cnt = 0,
     d_gc_read_blocks = 0, d_gc_write_blocks = 0, d_gc_write_agency_blocks = 0,
     d_gc_write_complete_blocks = 0, d_gc_write_discarded_blocks = 0, d_gc_reset_blocks = 0\<rparr>"

definition demo_sys :: lbz_sys where
  "demo_sys = \<lparr>sy_dev = demo_dev demo_wr_zmd demo_map, sy_tasks = [1 \<mapsto> demo_task], sy_bios = [2 \<mapsto> demo_bio],
     sy_ctxs = Map.empty, sy_pages = [3 \<mapsto> 77], sy_inflight = [], sy_done = [],
     sy_flush_wait = Map.empty, sy_flush_done = [], sy_next = 10\<rparr>"

lemma demo_sys_facts:
  "sys_maps_ok demo_kern demo_sys" "write_in_flight demo_sys 2 demo_bio 1 demo_task 0"
  "unhook_io 2 demo_sys = Some (demo_sys\<lparr>sy_done := [(2, 9, None)], sy_bios := Map.empty\<rparr>)"
  using demo_wr_facts(1,3) demo_map_facts demo_consistent
  by (simp_all add: sys_maps_ok_def demo_sys_def demo_dev_def write_in_flight_def demo_bio_def demo_task_def
      task_init_def task_tree_def demo_iosched_def tree_ok_def unhook_io_def upd_bio_def
      bio_endio_unhooked_def bio_endio_user_def)

theorem write_endio_commits_witness:
  "\<exists>s'. lbz_write_io_endio demo_kern 2 demo_sys = Some s' \<and>
     map_get demo_kern (d_mapping (sy_dev s')) 5 = Some 0 \<and> sy_done s' = [(2, 9, None)] \<and> sy_tasks s' = Map.empty"
proof -
  have st: "bi_status demo_bio = None" by (simp add: demo_bio_def)
  have ap: "append_ok demo_kern (d_zone_metadata (sy_dev demo_sys)) 0 (sector_to_blkid (bi_sector demo_bio))"
    using demo_wr_facts(2) by (simp add: demo_sys_def demo_dev_def demo_bio_def sector_to_blkid_def)
  have dev: "map_get demo_kern (d_mapping (sy_dev demo_sys)) (t_blkid demo_task) \<noteq> None"
    by (simp add: demo_sys_def demo_dev_def demo_task_def task_init_def demo_map_facts)
  from write_endio_commits [OF demo_kern_ok demo_sys_facts(1,2) st demo_sys_facts(3) ap dev] show ?thesis
    by (auto simp: demo_sys_def demo_task_def demo_bio_def task_init_def sector_to_blkid_def)
qed

theorem write_endio_fault_witness:
  "\<exists>s'. lbz_write_io_endio demo_kern 2 (demo_sys\<lparr>sy_bios := [2 \<mapsto> demo_bio\<lparr>bi_status := Some EIO\<rparr>]\<rparr>) = Some s' \<and>
     is_dev_faulty (sy_dev s') \<and> d_mapping (sy_dev s') = demo_map \<and> sy_done s' = [(2, 9, Some EIO)]"
proof -
  let ?s = "demo_sys\<lparr>sy_bios := [2 \<mapsto> demo_bio\<lparr>bi_status := Some EIO\<rparr>]\<rparr>"
  have w: "write_in_flight ?s 2 (demo_bio\<lparr>bi_status := Some EIO\<rparr>) 1 demo_task 0"
    using demo_sys_facts(2) by (auto simp: write_in_flight_def task_tree_def)
  have u: "unhook_io 2 ?s = Some (?s\<lparr>sy_done := [(2, 9, Some EIO)], sy_bios := Map.empty\<rparr>)"
    by (simp add: unhook_io_def upd_bio_def bio_endio_unhooked_def bio_endio_user_def demo_bio_def demo_sys_def)
  obtain z where z: "zmd_zones (d_zone_metadata (sy_dev ?s)) 0 = Some z"
    using demo_wr_facts(2) by (auto simp: demo_sys_def demo_dev_def append_ok_def split: option.splits)
  from write_endio_fault [OF demo_kern_ok w z _ u, of EIO] show ?thesis
    by (auto simp: demo_sys_def demo_dev_def)
qed

section \<open>The other theorems about the maps, the tree and the worker\<close>

theorem mapping_lookup_after_update_witness:
  "\<exists>old m1 m2 zmd'. lbz_mapping_add demo_kern demo_map 5 0 = Some (old, m1) \<and>
     lbz_mapping_lookup demo_kern m1 5 demo_zmd = Some (Inr (0, 0), zmd') \<and>
     lbz_mapping_remove demo_kern m1 5 = Some (0, m2) \<and>
     lbz_mapping_lookup demo_kern m2 5 demo_zmd = Some (Inl ENOENT, demo_zmd)"
proof -
  have gz: "get_zone_by_pbid demo_kern 0 = 0"
    by (simp add: get_zone_by_pbid_def demo_kern_def blkid_to_sector_def)
  obtain z where z: "zmd_zones demo_zmd (get_zone_by_pbid demo_kern 0) = Some z" using demo_zone_0 gz by auto
  have "map_get demo_kern demo_map 5 = Some LBZ_INVALID_PBID" by (simp add: demo_map_facts)
  from fm.add_some [OF this] obtain m1 where a: "lbz_mapping_add demo_kern demo_map 5 0 = Some (LBZ_INVALID_PBID, m1)"
    by blast
  have "(0::u32) \<noteq> LBZ_INVALID_PBID" by (simp add: LBZ_INVALID_PBID_def)
  from mapping_lookup_after_update [OF z this a] a gz show ?thesis by auto
qed

lemma demo_log: "\<exists>mgmt. lbz_nat_sit_add_blkid 5 ns_zero = Some mgmt \<and> log_ok mgmt \<and> log_blkids mgmt = [5]"
proof -
  have "log_ok ns_zero" "log_blkids ns_zero = []" by (simp_all add: log_ok_def ns_zero_def log_blkids_def)
  with nl.push_some [of ns_zero 5] show ?thesis by auto
qed

theorem tx_complete_commits_witness:
  "\<exists>mgmt mgmt' m' zmd'. lbz_nat_sit_add_blkid 5 ns_zero = Some mgmt \<and>
     lbz_nat_sit_tx_complete demo_kern mgmt demo_map demo_zmd = Some (mgmt', m', zmd') \<and> zmd_wf zmd' \<and>
     map_get demo_kern m' 5 = Some LBZ_INVALID_PBID \<and> ns_total_freed_blks mgmt' = ns_total_freed_blks mgmt"
proof -
  obtain mgmt where m: "lbz_nat_sit_add_blkid 5 ns_zero = Some mgmt" "log_ok mgmt" "log_blkids mgmt = [5]"
    using demo_log by blast
  have "\<forall>b\<in>set (log_blkids mgmt). map_get demo_kern demo_map b \<noteq> None" by (simp add: m demo_map_facts)
  moreover have "mapped (map_get demo_kern demo_map) = {}" by (auto simp: mapped_def demo_map_facts split: if_splits)
  ultimately show ?thesis
    using tx_complete_commits [OF demo_consistent demo_zmd_wf demo_map_facts(1) m(2)] m by auto
qed

lemma demo_settled: "zones_settled demo_zmd"
  unfolding zones_settled_def
proof (intro allI impI conjI)
  fix p z assume z: "zmd_zones demo_zmd p = Some z"
  have f: "zone_phase z = PEmpty" "z_weight z = 0" using demo_zone_facts [OF z] by (auto simp: fresh_zone_def)
  have "p < 3" using demo_zmd_inv(1) z by (auto simp: init_inv_def)
  then have "p = 0 \<or> p = 1 \<or> p = 2" by auto
  then show "length (z_zrms z) = unat (zmd_zone_nr_reverse_map_blocks demo_zmd)"
    using z by (elim disjE) (auto simp: demo_zmd_eval zone_simps)
  show "zone_phase z = PToFull" if "is_lbz_zone_state LBZ_ZONE_TO_FULL z"
    using f(1) that by (simp add: zone_phase_def split: if_splits)
  show "z_weight z = 0" if "zone_phase z = PGc \<and> z_refcount z = 0" by (rule f(2))
qed

theorem zone_state_wk_keeps_data_witness:
  "\<exists>dev'. zone_state_wk_fn (\<lambda>_. False) (demo_dev demo_zmd demo_map) = Some dev' \<and>
     zmd_wf (d_zone_metadata dev') \<and> d_mapping dev' = demo_map"
  using zone_state_wk_keeps_data [of "demo_dev demo_zmd demo_map" "\<lambda>_. False" demo_kern] demo_zmd_wf demo_settled
  by (auto simp: demo_dev_def)

lemma demo_closing_settled: "zones_settled demo_closing_zmd"
  unfolding zones_settled_def
proof (intro allI impI conjI)
  fix p z assume z: "zmd_zones demo_closing_zmd p = Some z"
  obtain a b where ab: "zmd_zones demo_zmd 0 = Some a" "zmd_zones demo_zmd 1 = Some b"
    "fresh_zone a" "zone_acct 2 a" "fresh_zone b" "zone_acct 2 b" using demo_zone_some [of 0] demo_zone_some [of 1] by auto
  have len: "length (z_zrms y) = unat (zmd_zone_nr_reverse_map_blocks demo_zmd)" if "zmd_zones demo_zmd q = Some y" for q y
    using demo_settled that by (simp add: zones_settled_def)
  have r: "zmd_zone_nr_reverse_map_blocks demo_closing_zmd = zmd_zone_nr_reverse_map_blocks demo_zmd"
    by (simp add: demo_closing_zmd_def)
  have w: "z_zrms (demo_written n c y) = z_zrms y" for n c y by (simp add: demo_written_def zone_only_state_def)
  consider (a) "p = 0" | (b) "p = 1" | (c) "p \<noteq> 0" "p \<noteq> 1" by blast
  then have "zone_phase z = PToFull \<and> length (z_zrms z) = unat (zmd_zone_nr_reverse_map_blocks demo_zmd) \<or>
      zmd_zones demo_zmd p = Some z"
  proof cases
    case a
    then have "z = demo_written 0 BLK_ZONE_COND_FULL a" using z ab(1) by (simp add: demo_closing_zmd_def)
    then show ?thesis using demo_written_ok(2) [OF ab(3,4)] len [OF ab(1)] by (simp add: w)
  next
    case b
    then have "z = demo_written 2 BLK_ZONE_COND_EXP_OPEN b" using z ab(2) by (simp add: demo_closing_zmd_def)
    then show ?thesis using demo_written_ok(2) [OF ab(5,6)] len [OF ab(2)] by (simp add: w)
  next
    case c
    then show ?thesis using z by (simp add: demo_closing_zmd_def)
  qed
  then have "length (z_zrms z) = unat (zmd_zone_nr_reverse_map_blocks demo_zmd) \<and>
      (is_lbz_zone_state LBZ_ZONE_TO_FULL z \<longrightarrow> zone_phase z = PToFull) \<and>
      (zone_phase z = PGc \<and> z_refcount z = 0 \<longrightarrow> z_weight z = 0)"
  proof
    assume "zmd_zones demo_zmd p = Some z"
    then show ?thesis using demo_settled unfolding zones_settled_def by blast
  qed simp
  then show "length (z_zrms z) = unat (zmd_zone_nr_reverse_map_blocks demo_closing_zmd)"
    "is_lbz_zone_state LBZ_ZONE_TO_FULL z \<Longrightarrow> zone_phase z = PToFull" "zone_phase z = PGc \<and> z_refcount z = 0 \<Longrightarrow> z_weight z = 0"
    unfolding r by blast+
qed

theorem zone_state_flag_sticky_witness:
  "\<exists>dev' z'. zone_state_wk_fn (\<lambda>_. False) (demo_dev demo_closing_zmd demo_map) = Some dev' \<and>
     zmd_zones (d_zone_metadata dev') 1 = Some z' \<and> zone_phase z' = PFull \<and> z_pending_write_io z' = 2"
proof -
  let ?d = "demo_dev demo_closing_zmd demo_map"
  obtain a b where ab: "zmd_zones demo_zmd 0 = Some a" "zmd_zones demo_zmd 1 = Some b"
    "fresh_zone a" "zone_acct 2 a" "fresh_zone b" "zone_acct 2 b" using demo_zone_some [of 0] demo_zone_some [of 1] by auto
  have d: "zmd_wf (d_zone_metadata ?d)" "zones_settled (d_zone_metadata ?d)" "is_dev_ready ?d" "\<not> is_dev_faulty ?d"
    using demo_closing_zmd_wf demo_closing_settled by (simp_all add: demo_dev_def dev_flag_defs bit_numeral_rec)
  have z: "zmd_zones (d_zone_metadata ?d) 0 = Some (demo_written 0 BLK_ZONE_COND_FULL a)"
    "zmd_zones (d_zone_metadata ?d) 1 = Some (demo_written 2 BLK_ZONE_COND_EXP_OPEN b)"
    using ab by (simp_all add: demo_dev_def demo_closing_zmd_def)
  have s: "z_state (demo_written 0 BLK_ZONE_COND_FULL a) = BLK_ZONE_COND_FULL"
    "z_state (demo_written 2 BLK_ZONE_COND_EXP_OPEN b) \<noteq> BLK_ZONE_COND_FULL"
    "z_pending_write_io (demo_written 2 BLK_ZONE_COND_EXP_OPEN b) = 2" by (simp_all add: demo_written_def)
  have t: "is_lbz_zone_state LBZ_ZONE_TO_FULL (demo_written n c y)" for n c y
    by (simp add: demo_written_def is_lbz_zone_state_def zone_only_state_def bit_numeral_rec)
  from zone_state_flag_sticky [OF d zero_less_one z(1) t s(1) z(2) t s(2)] show ?thesis
    using s(3) by auto
qed

lemma demo_tree_ok: "tree_ok (sy_tasks demo_sys) (task_tree demo_sys)" "1 \<in> set (inorder (task_tree demo_sys))"
  by (simp_all add: demo_sys_def demo_dev_def demo_iosched_def task_tree_def tree_ok_def)

theorem insert_task_spec_witness:
  "\<exists>s'. insert_task_to_tree demo_kern 4 (demo_sys\<lparr>sy_tasks := [1 \<mapsto> demo_task, 4 \<mapsto> demo_task\<lparr>t_blkid := 6\<rparr>]\<rparr>) =
     Some (None, s') \<and> set (inorder (task_tree s')) = {1, 4}"
proof -
  let ?s = "demo_sys\<lparr>sy_tasks := [1 \<mapsto> demo_task, 4 \<mapsto> demo_task\<lparr>t_blkid := 6\<rparr>]\<rparr>"
  have ok: "tree_ok (sy_tasks ?s) (task_tree ?s)" and tr: "inorder (task_tree ?s) = [1]"
    by (simp_all add: demo_sys_def demo_dev_def demo_iosched_def task_tree_def tree_ok_def)
  have t: "sy_tasks ?s 4 = Some (demo_task\<lparr>t_blkid := 6\<rparr>)" by simp
  from insert_task_spec [OF demo_kern_ok ok t] tr show ?thesis
    by (auto simp: demo_task_def split: option.splits)
qed

theorem del_task_spec_witness:
  "\<exists>s'. del_task_from_tree demo_kern 1 demo_sys = Some s' \<and> set (inorder (task_tree s')) = {}"
  using del_task_spec [OF demo_kern_ok demo_tree_ok]
  by (auto simp: demo_sys_def demo_dev_def demo_iosched_def task_tree_def)

theorem search_task_root_only_witness:
  "tree_search [1 \<mapsto> demo_task, 4 \<mapsto> demo_task\<lparr>t_blkid := 6\<rparr>] 6 (Node Leaf 1 (Node Leaf 4 Leaf)) = Some None"
proof -
  have "tree_ok [1 \<mapsto> demo_task, 4 \<mapsto> demo_task\<lparr>t_blkid := 6\<rparr>] (Node Leaf 1 (Node Leaf 4 Leaf))"
    by (simp add: tree_ok_def task_key_def demo_task_def)
  from search_task_root_only [OF this, of 6] show ?thesis by (simp add: task_key_def demo_task_def)
qed

definition demo_env :: lbz_env where
  "demo_env = \<lparr>ev_kern = demo_kern, ev_stream_support = True, ev_free_support = True, ev_integrity = (\<lambda>_. None),
     ev_HZ = 250, ev_bio_split = (\<lambda>n x. (x\<lparr>bi_sectors := n, bi_pages := take (n div 8) (bi_pages x), bi_status := None\<rparr>,
       x\<lparr>bi_sector := bi_sector x + of_nat n, bi_sectors := bi_sectors x - n, bi_pages := drop (n div 8) (bi_pages x)\<rparr>))\<rparr>"

lemma demo_env_ok: "env_ok demo_env"
  by (auto simp: env_ok_def demo_env_def demo_kern_ok)

theorem faulty_device_acknowledges_witness:
  "\<exists>s'. lbz_dev_submit_bio demo_env 2 (demo_sys\<lparr>sy_bios := [2 \<mapsto> demo_bio\<lparr>bi_end_io := UserEndio 9\<rparr>],
       sy_dev := (sy_dev demo_sys)\<lparr>d_flags := 5\<rparr>\<rparr>) = Some s' \<and> sy_done s' = [(2, 9, None)]"
proof -
  let ?x = "demo_bio\<lparr>bi_end_io := UserEndio 9\<rparr>"
  let ?s = "demo_sys\<lparr>sy_bios := [2 \<mapsto> ?x], sy_dev := (sy_dev demo_sys)\<lparr>d_flags := 5\<rparr>\<rparr>"
  have "sy_bios ?s 2 = Some ?x" "bi_end_io ?x = UserEndio 9" "bi_status ?x = None" "\<not> bi_flush ?x"
    by (simp_all add: demo_bio_def)
  moreover have "is_dev_faulty (sy_dev ?s)" by (simp add: is_dev_faulty_def bit_numeral_rec)
  ultimately show ?thesis
    using faulty_device_acknowledges [of ?s 2 ?x 9 demo_env] by (simp add: demo_sys_def)
qed

section \<open>A copy of the collector in flight\<close>

text \<open>
  The same device after the write of block 5 was committed to the physical block 0, when the
  collector has taken the first block of the second zone to move it there.
\<close>

definition demo_map1 :: lbz_mapping where
  "demo_map1 = snd (the (lbz_mapping_add demo_kern demo_map 5 0))"

definition demo_wrote_zmd :: lbz_zone_metadata where
  "demo_wrote_zmd = complete_zone 0 (the (zmd_update demo_kern demo_wr_zmd 0 5))"

definition demo_gc_zmd :: lbz_zone_metadata where
  "demo_gc_zmd = fst (snd (the (lbz_zone_alloc_res True False LBZ_ALLOC_FLAG_GC 1 demo_wrote_zmd gc_ctx_zero)))"

lemma demo_map1_facts:
  "mapping_wf demo_kern demo_map1" "map_get demo_kern demo_map1 = (map_get demo_kern demo_map)(5 \<mapsto> 0)"
proof -
  have "map_get demo_kern demo_map 5 = Some LBZ_INVALID_PBID" by (simp add: demo_map_facts)
  from fm.add_some [OF this] obtain m1 where a: "lbz_mapping_add demo_kern demo_map 5 0 = Some (LBZ_INVALID_PBID, m1)"
    by blast
  then have e: "demo_map1 = m1" by (simp add: demo_map1_def)
  show "mapping_wf demo_kern demo_map1" unfolding e by (rule mapping_wf_add [OF demo_map_facts(1) a])
  show "map_get demo_kern demo_map1 = (map_get demo_kern demo_map)(5 \<mapsto> 0)"
    unfolding e using fm.get_add [OF a] by auto
qed

lemma demo_gz: "get_zone_by_pbid demo_kern 0 = 0" "get_zone_by_pbid demo_kern 2 = 1"
  by (simp_all add: get_zone_by_pbid_def demo_kern_def blkid_to_sector_def LBZ_DATA_BLK_SHIFT_def SECTOR_SHIFT_def)

lemma demo_wrote_facts:
  "zmd_wf demo_wrote_zmd" "zmd_rget demo_kern demo_wrote_zmd = (zmd_rget demo_kern demo_zmd)(0 \<mapsto> 5)"
  "zmd_empty_zone_list demo_wrote_zmd = [1, 2]" "zmd_active_zone demo_wrote_zmd = (\<lambda>_. None)(0 := Some 0)"
  "zmd_zones demo_wrote_zmd 1 = zmd_zones demo_zmd 1" "zmd_zone_nr_blocks demo_wrote_zmd = 2"
proof -
  have "(5::u32) \<noteq> LBZ_INVALID_PBID" by (simp add: LBZ_INVALID_PBID_def)
  from complete_write_some [OF demo_wr_facts(1,2) this] obtain zmd1 where
    u: "zmd_update demo_kern demo_wr_zmd 0 5 = Some zmd1" "zmd_wf (complete_zone 0 zmd1)" "zmd_zones zmd1 0 \<noteq> None" by blast
  have e: "demo_wrote_zmd = complete_zone 0 zmd1" by (simp add: demo_wrote_zmd_def u)
  show "zmd_wf demo_wrote_zmd" using u(2) by (simp add: e)
  show "zmd_rget demo_kern demo_wrote_zmd = (zmd_rget demo_kern demo_zmd)(0 \<mapsto> 5)"
    using rm.rget_update [OF u(1)] by (auto simp: e complete_zone_rget [OF u(3)] demo_wr_facts(3))
  show "zmd_empty_zone_list demo_wrote_zmd = [1, 2]" "zmd_active_zone demo_wrote_zmd = (\<lambda>_. None)(0 := Some 0)"
    "zmd_zones demo_wrote_zmd 1 = zmd_zones demo_zmd 1" "zmd_zone_nr_blocks demo_wrote_zmd = 2"
    using u(1) demo_wr_facts(4-7)
    by (auto simp: e complete_zone_def zmd_update_def demo_gz update_reverse_map_Some)
qed

lemma demo_gc_facts:
  "zmd_wf demo_gc_zmd" "append_ok demo_kern demo_gc_zmd 1 2"
  "zmd_rget demo_kern demo_gc_zmd = (zmd_rget demo_kern demo_zmd)(0 \<mapsto> 5)"
proof -
  obtain z where z: "zmd_zones demo_wrote_zmd 1 = Some z" "z_start_sector z = 16" "zrms_get (z_zrms z) 0 = Some LBZ_INVALID_PBID"
    using demo_zone_1 demo_wrote_facts(5) by auto
  have f: "z_wp_block z = 0" "z_pending_write_io z = 0"
    using demo_zone_facts [of 1 z] z(1) demo_wrote_facts(5) by (auto simp: fresh_zone_def)
  have s: "(1::nat) < LBZ_ZONE_MAX_STREAM" by (simp add: LBZ_ZONE_MAX_STREAM_def)
  have "zmd_active_zone demo_wrote_zmd 1 = None" "zmd_empty_zone_list demo_wrote_zmd = 1 # [2]" "zmd_zone_nr_blocks demo_wrote_zmd \<noteq> 1"
    by (simp_all add: demo_wrote_facts)
  from alloc_next_zone [OF demo_wrote_facts(1) s this(1,2) z(1) this(3), of LBZ_ALLOC_FLAG_GC gc_ctx_zero] obtain zmd' z' where
    a: "lbz_zone_alloc_res True False LBZ_ALLOC_FLAG_GC 1 demo_wrote_zmd gc_ctx_zero = Some (Inr 1, zmd', gc_ctx_zero)"
    and w: "zmd_wf zmd'" and zs: "zmd_zones zmd' = (zmd_zones demo_wrote_zmd)(1 \<mapsto> z')"
    and z': "z_wp_block z' = 1" "z_pending_write_io z' = 1" "z_zrms z' = z_zrms z" "z_start_sector z' = 16"
    using f z by auto
  have e: "demo_gc_zmd = zmd'" using a by (simp add: demo_gc_zmd_def)
  show "zmd_wf demo_gc_zmd" using w by (simp add: e)
  show "append_ok demo_kern demo_gc_zmd 1 2"
    using demo_gz zs z' z(3)
    by (simp add: e append_ok_def LBZ_INVALID_PBID_def pbid_dis_def sector_to_blkid_def LBZ_DATA_BLK_SHIFT_def SECTOR_SHIFT_def)
  show "zmd_rget demo_kern demo_gc_zmd = (zmd_rget demo_kern demo_zmd)(0 \<mapsto> 5)"
    using zmd_rget_cong [OF z(1), of z' zmd' demo_kern] zs z' z(2) by (auto simp: e demo_wrote_facts(2))
qed

lemma demo_gc_consistent:
  "map_consistent (map_get demo_kern demo_map1) (zmd_rget demo_kern demo_gc_zmd)"
proof -
  have "zmd_rget demo_kern demo_zmd 0 = Some LBZ_INVALID_PBID"
    using demo_zone_0 by (auto simp: zmd_rget_def demo_gz pbid_dis_def sector_to_blkid_def)
  then show ?thesis
    unfolding demo_gc_facts demo_map1_facts
    by (intro map_consistent_map [OF demo_consistent, of 5 0]) (auto simp: demo_map_facts LBZ_INVALID_PBID_def)
qed

definition demo_gc_task :: lbz_io_task where
  "demo_gc_task = (task_init LBZ_TASK_GC)\<lparr>t_bio := Some 2, t_blkid := 5, t_pbid := 0, t_zone := Some 1,
     t_link := LinkZone 0, t_gc := GcIosched, t_page := Some 3, t_status := LBZ_TASK_DISPATCH, t_refcount := 2\<rparr>"

definition demo_gc_sys :: lbz_sys where
  "demo_gc_sys = demo_sys\<lparr>sy_dev := demo_dev demo_gc_zmd demo_map1, sy_tasks := [1 \<mapsto> demo_gc_task],
     sy_bios := [2 \<mapsto> demo_bio\<lparr>bi_sector := 16, bi_end_io := GcWriteEndio 1\<rparr>]\<rparr>"

theorem gc_write_endio_moves_witness:
  "\<exists>s'. lbz_gc_write_endio demo_kern 2 demo_gc_sys = Some s' \<and>
     map_get demo_kern (d_mapping (sy_dev demo_gc_sys)) 5 = Some 0 \<and> map_get demo_kern (d_mapping (sy_dev s')) 5 = Some 2 \<and>
     sy_tasks s' = Map.empty \<and> sy_pages s' = Map.empty"
proof -
  let ?x = "demo_bio\<lparr>bi_sector := 16, bi_end_io := GcWriteEndio 1\<rparr>"
  have ok: "sys_maps_ok demo_kern demo_gc_sys"
    using demo_gc_facts(1) demo_map1_facts(1) demo_gc_consistent by (simp add: sys_maps_ok_def demo_gc_sys_def demo_dev_def)
  have w: "gc_write_in_flight demo_kern demo_gc_sys 2 ?x 1 demo_gc_task 1"
    by (simp add: gc_write_in_flight_def demo_gc_sys_def demo_gc_task_def demo_sys_def demo_dev_def task_init_def
        task_tree_def demo_iosched_def tree_ok_def demo_gz)
  have o: "bi_status ?x = None" "\<not> is_dev_faulty (sy_dev demo_gc_sys)"
      "append_ok demo_kern (d_zone_metadata (sy_dev demo_gc_sys)) 1 (sector_to_blkid (bi_sector ?x))"
      "map_get demo_kern (d_mapping (sy_dev demo_gc_sys)) (t_blkid demo_gc_task) = Some (t_pbid demo_gc_task)"
      "t_pbid demo_gc_task \<noteq> LBZ_INVALID_PBID"
    using demo_gc_facts(2)
    by (simp_all add: demo_bio_def demo_gc_sys_def demo_dev_def is_dev_faulty_def bit_numeral_rec sector_to_blkid_def
        LBZ_DATA_BLK_SHIFT_def SECTOR_SHIFT_def demo_gc_task_def demo_map1_facts task_init_def LBZ_INVALID_PBID_def)
  from gc_write_endio_moves [OF demo_kern_ok ok w o] o(4) show ?thesis
    by (auto simp: demo_gc_sys_def demo_sys_def demo_gc_task_def demo_bio_def task_init_def sector_to_blkid_def
        LBZ_DATA_BLK_SHIFT_def SECTOR_SHIFT_def)
qed


section \<open>Requests from their arrival on\<close>

text \<open>The device without any request under way, and a write and a read of block 5 that arrive.\<close>

definition demo_write :: bio where
  "demo_write = demo_bio\<lparr>bi_sector := 40, bi_end_io := UserEndio 9, bi_append := False, bi_phys := False\<rparr>"

definition demo_read :: bio where
  "demo_read = demo_write\<lparr>bi_write := False, bi_end_io := UserEndio 8, bi_pages := [6]\<rparr>"

definition demo_idle_dev :: lbz_device where
  "demo_idle_dev = (demo_dev demo_zmd demo_map)\<lparr>d_iosched := demo_iosched\<lparr>s_task_tree := Leaf, s_task_count := 0\<rparr>\<rparr>"

definition demo_idle :: lbz_sys where
  "demo_idle = demo_sys\<lparr>sy_dev := demo_idle_dev, sy_tasks := Map.empty, sy_bios := [2 \<mapsto> demo_write, 4 \<mapsto> demo_read]\<rparr>"

lemma demo_idle_facts:
  "sys_maps_ok demo_kern demo_idle" "\<not> is_dev_faulty (sy_dev demo_idle)" "d_zone_metadata (sy_dev demo_idle) = demo_zmd"
  "d_mapping (sy_dev demo_idle) = demo_map" "zmd_reserved_blks_gc demo_zmd = 0" "task_tree demo_idle = Leaf"
  "log_ok (d_nat_sit_mgmt (sy_dev demo_idle))"
  "sy_bios demo_idle 2 = Some demo_write" "sy_bios demo_idle 4 = Some demo_read" "sy_done demo_idle = []" "sy_inflight demo_idle = []"
  "sy_next demo_idle = 10" "sy_tasks demo_idle = Map.empty"
  using demo_zmd_wf demo_map_facts demo_consistent
  by (simp_all add: sys_maps_ok_def demo_idle_def demo_idle_dev_def demo_sys_def demo_dev_def demo_zmd_eval zmd_zero_def
      task_tree_def is_dev_faulty_def bit_numeral_rec log_ok_def ns_zero_def log_blkids_def)

lemma demo_request_facts:
  "bi_write demo_write" "bi_end_io demo_write = UserEndio 9" "bi_status demo_write = None"
  "sector_to_blkid (bi_sector demo_write) = 5" "\<not> bi_write demo_read" "sector_to_blkid (bi_sector demo_read) = 5"
  "bi_end_io demo_read = UserEndio 8" "bi_status demo_read = None"
  by (simp_all add: demo_write_def demo_read_def demo_bio_def sector_to_blkid_def LBZ_DATA_BLK_SHIFT_def SECTOR_SHIFT_def)

lemma demo_can_start: "write_can_start demo_env demo_idle 5"
proof -
  have "\<not> alloc_blocked False LBZ_ALLOC_FLAG_USER 0 demo_zmd" "(0::nat) < LBZ_ZONE_MAX_STREAM"
    by (simp_all add: alloc_blocked_def demo_idle_facts demo_zmd_facts LBZ_ZONE_MAX_STREAM_def)
  then show ?thesis unfolding write_can_start_def demo_idle_facts using demo_idle_facts(2,7)
    by (auto simp: demo_env_def tree_ok_def)
qed

theorem gc_alloc_progress_witness:
  "\<exists>p s'. alloc_res_any demo_env LBZ_ALLOC_FLAG_GC 5 (\<lambda>d. d) demo_idle = Some (Inr p, s') \<and>
     zmd_nr_allocable_blks (d_zone_metadata (sy_dev s')) = 5"
proof -
  have a: "zmd_nr_allocable_blks demo_zmd = 6"
    using demo_zmd_inv by (simp add: init_inv_def demo_zmd_nrb)
  have "zmd_wf (d_zone_metadata (sy_dev demo_idle))" "zmd_nr_allocable_blks (d_zone_metadata (sy_dev demo_idle)) \<noteq> 0"
    "ev_stream_support demo_env"
    by (simp_all add: demo_idle_facts demo_zmd_wf a demo_env_def)
  from gc_alloc_progress [OF this(1,3) demo_idle_facts(2) this(2), of "\<lambda>d. d" 5] show ?thesis
    by (auto simp: demo_idle_facts a)
qed

theorem read_follows_map_witness:
  "\<exists>s'. lbz_submit_io_to_iosched demo_env 4 demo_idle = Some s' \<and> sy_done s' = [(4, 8, None)] \<and> sy_pages s' = sy_pages demo_idle"
proof -
  have K: "ev_kern demo_env = demo_kern" by (simp add: demo_env_def)
  have m: "map_get (ev_kern demo_env) (d_mapping (sy_dev demo_idle)) (sector_to_blkid (bi_sector demo_read)) = Some LBZ_INVALID_PBID"
    by (simp add: K demo_idle_facts demo_request_facts demo_map_facts)
  from read_follows_map [OF _ demo_idle_facts(9) demo_request_facts(5,7) m] show ?thesis
    using demo_idle_facts(1) by (auto simp: K demo_idle_facts demo_request_facts)
qed

lemma demo_user_alloc:
  assumes "sid < LBZ_ZONE_MAX_STREAM"
    "lbz_zone_alloc_res True False LBZ_ALLOC_FLAG_USER sid demo_zmd gc_ctx_zero = Some (Inr p, zmd', gc_ctx_zero)"
  shows "p = 0 \<and> append_ok demo_kern zmd' 0 0"
proof -
  obtain z where z: "zmd_zones demo_zmd 0 = Some z" "z_start_sector z = 0" "zrms_get (z_zrms z) 0 = Some LBZ_INVALID_PBID"
    using demo_zone_0 by blast
  have f: "z_wp_block z = 0" "z_pending_write_io z = 0" using demo_zone_facts [OF z(1)] by (auto simp: fresh_zone_def)
  have h: "zmd_active_zone demo_zmd sid = None" "zmd_empty_zone_list demo_zmd = 0 # [1, 2]" "zmd_zone_nr_blocks demo_zmd \<noteq> 1"
    by (simp_all add: demo_zmd_facts demo_zmd_nrb)
  from alloc_next_zone [OF demo_zmd_wf assms(1) h(1,2) z(1) h(3), of LBZ_ALLOC_FLAG_USER gc_ctx_zero] demo_idle_facts(5) assms(2)
  obtain z' where "p = 0" "zmd_zones zmd' = (zmd_zones demo_zmd)(0 \<mapsto> z')" "z_wp_block z' = 1" "z_pending_write_io z' = 1"
      "z_zrms z' = z_zrms z" "z_start_sector z' = 0"
    using f z by auto
  then show ?thesis
    using demo_gz z(3) by (simp add: append_ok_def LBZ_INVALID_PBID_def pbid_dis_def sector_to_blkid_def)
qed

theorem read_your_write_witness:
  "\<exists>s1 x1 s2 s3 y'. lbz_submit_io_to_iosched demo_env 2 demo_idle = Some s1 \<and> sy_bios s1 2 = Some x1 \<and>
     lbz_write_io_endio demo_kern 2 (s1\<lparr>sy_bios := (sy_bios s1)(2 \<mapsto> x1\<lparr>bi_sector := 0\<rparr>)\<rparr>) = Some s2 \<and>
     sy_done s2 = [(2, 9, None)] \<and> lbz_submit_io_to_iosched demo_env 4 s2 = Some s3 \<and>
     sy_bios s3 4 = Some y' \<and> bi_sector y' = 0"
proof -
  have K: "ev_kern demo_env = demo_kern" by (simp add: demo_env_def)
  have g: "d_gc_ctx (sy_dev demo_idle) = gc_ctx_zero" by (simp add: demo_idle_def demo_idle_dev_def demo_dev_def)
  have "map_get (ev_kern demo_env) (d_mapping (sy_dev demo_idle)) (sector_to_blkid (bi_sector demo_write)) \<noteq> None"
    by (simp add: K demo_idle_facts demo_request_facts demo_map_facts)
  moreover have pre: "kern_ok (ev_kern demo_env)" "sys_maps_ok (ev_kern demo_env) demo_idle"
      "write_can_start demo_env demo_idle (sector_to_blkid (bi_sector demo_write))" "(4::nat) \<noteq> 2"
      "sector_to_blkid (bi_sector demo_read) = sector_to_blkid (bi_sector demo_write)"
    using demo_kern_ok demo_idle_facts(1) demo_can_start by (simp_all add: K demo_request_facts)
  ultimately have "\<exists>s1 x1 tk p. lbz_submit_io_to_iosched demo_env 2 demo_idle = Some s1 \<and> sy_inflight s1 = sy_inflight demo_idle @ [2] \<and>
     sy_bios s1 2 = Some x1 \<and> bi_append x1 \<and> bi_pages x1 = bi_pages demo_write \<and>
     sy_tasks s1 (sy_next demo_idle) = Some tk \<and> t_zone tk = Some p \<and>
     (\<exists>sid < LBZ_ZONE_MAX_STREAM. lbz_zone_alloc_res True False LBZ_ALLOC_FLAG_USER sid demo_zmd gc_ctx_zero =
        Some (Inr p, d_zone_metadata (sy_dev s1), gc_ctx_zero)) \<and>
     (\<forall>addr. append_ok demo_kern (d_zone_metadata (sy_dev s1)) p (sector_to_blkid addr) \<longrightarrow>
        (\<exists>s2 s3 y'. lbz_write_io_endio demo_kern 2 (s1\<lparr>sy_bios := (sy_bios s1)(2 \<mapsto> x1\<lparr>bi_sector := addr\<rparr>)\<rparr>) = Some s2 \<and>
           sys_maps_ok demo_kern s2 \<and> sy_done s2 = [] @ [(2, 9, None)] \<and>
           (\<forall>c. c \<noteq> sector_to_blkid (bi_sector demo_write) \<longrightarrow>
              map_get demo_kern (d_mapping (sy_dev s2)) c = map_get demo_kern (d_mapping (sy_dev demo_idle)) c) \<and>
           lbz_submit_io_to_iosched demo_env 4 s2 = Some s3 \<and> sy_bios s3 4 = Some y' \<and>
           bi_sector y' = blkid_to_sector (sector_to_blkid addr) \<and> sy_inflight s3 = sy_inflight s2 @ [4]))"
    using read_your_write [OF pre(1,2) demo_idle_facts(8) demo_request_facts(1-3) pre(3) _ demo_idle_facts(9) pre(4)
        demo_request_facts(5) pre(5)]
    unfolding K g demo_idle_facts(3,10) by blast
  then obtain s1 x1 p sid where r: "lbz_submit_io_to_iosched demo_env 2 demo_idle = Some s1" "sy_bios s1 2 = Some x1"
      "sid < LBZ_ZONE_MAX_STREAM" "lbz_zone_alloc_res True False LBZ_ALLOC_FLAG_USER sid demo_zmd gc_ctx_zero =
        Some (Inr p, d_zone_metadata (sy_dev s1), gc_ctx_zero)"
    and n: "append_ok demo_kern (d_zone_metadata (sy_dev s1)) p (sector_to_blkid 0) \<longrightarrow>
       (\<exists>s2 s3 y'. lbz_write_io_endio demo_kern 2 (s1\<lparr>sy_bios := (sy_bios s1)(2 \<mapsto> x1\<lparr>bi_sector := 0\<rparr>)\<rparr>) = Some s2 \<and>
           sys_maps_ok demo_kern s2 \<and> sy_done s2 = [] @ [(2, 9, None)] \<and>
           (\<forall>c. c \<noteq> sector_to_blkid (bi_sector demo_write) \<longrightarrow>
              map_get demo_kern (d_mapping (sy_dev s2)) c = map_get demo_kern (d_mapping (sy_dev demo_idle)) c) \<and>
           lbz_submit_io_to_iosched demo_env 4 s2 = Some s3 \<and> sy_bios s3 4 = Some y' \<and>
           bi_sector y' = blkid_to_sector (sector_to_blkid 0) \<and> sy_inflight s3 = sy_inflight s2 @ [4])"
    by (elim exE conjE allE [of _ 0]) blast
  have "append_ok demo_kern (d_zone_metadata (sy_dev s1)) p (sector_to_blkid 0)"
    using demo_user_alloc [OF r(3,4)] by (simp add: sector_to_blkid_def)
  with n obtain s2 s3 y' where
    "lbz_write_io_endio demo_kern 2 (s1\<lparr>sy_bios := (sy_bios s1)(2 \<mapsto> x1\<lparr>bi_sector := 0\<rparr>)\<rparr>) = Some s2"
    "sy_done s2 = [(2, 9, None)]" "lbz_submit_io_to_iosched demo_env 4 s2 = Some s3" "sy_bios s3 4 = Some y'"
    "bi_sector y' = blkid_to_sector (sector_to_blkid 0)" unfolding append_Nil by blast
  moreover have "blkid_to_sector (sector_to_blkid 0) = 0" by (simp add: sector_to_blkid_def blkid_to_sector_def)
  ultimately show ?thesis using r(1,2) by metis
qed

theorem write_conflict_waits_witness:
  "\<exists>s'. lbz_submit_io_to_iosched demo_env 7 (demo_sys\<lparr>sy_bios := [2 \<mapsto> demo_bio, 7 \<mapsto> demo_write]\<rparr>) = Some s' \<and>
     sy_inflight s' = [] \<and> s_user_pending (d_iosched (sy_dev s')) = [10]"
proof -
  let ?s = "demo_sys\<lparr>sy_bios := [2 \<mapsto> demo_bio, 7 \<mapsto> demo_write]\<rparr>"
  have f: "sy_bios ?s 7 = Some demo_write" "sy_tasks ?s (sy_next ?s) = None" "tree_ok (sy_tasks ?s) (task_tree ?s)"
      "1 \<in> set (inorder (task_tree ?s))" "sy_tasks ?s 1 = Some demo_task"
      "t_blkid demo_task = sector_to_blkid (bi_sector demo_write)" "t_refcount demo_task \<noteq> 0"
    using demo_request_facts(4)
    by (simp_all add: demo_sys_def demo_dev_def demo_iosched_def task_tree_def tree_ok_def demo_task_def)
  from write_conflict_waits [OF f(1) demo_request_facts(1) f(2-7), of demo_env] show ?thesis
    by (auto simp: demo_sys_def demo_dev_def demo_iosched_def)
qed

end
