(* ===== verification/Proc_Cmd.thy ===== *)
theory Proc_Cmd
  imports Dev_Life
begin

text \<open>
  \<^verbatim>\<open>lbz-proc.c\<close>: the control file under \<^verbatim>\<open>/proc\<close>, whose commands create devices and install the F2FS
  rules, and the entry and exit of the module. The conversions of \<open>sscanf\<close> that the commands use
  are modelled after the C library of the kernel: they work on the buffer itself, and a read
  behind its end stops the model. The content of the buffer before the command is copied into
  it, the outcome of opening the backing device, and what the kernel answers during a creation
  are arguments.
\<close>

section \<open>Scanning\<close>

definition NUL :: char where "NUL = CHR 0x00"

definition is_space :: "char \<Rightarrow> bool" where
  "is_space c \<longleftrightarrow> (of_char c :: nat) \<in> {9, 10, 11, 12, 13, 32, 160}"

datatype scan_item = ScanInt bool | ScanStr | ScanLit char

datatype scan_val = IntVal u64 | StrVal string

fun skip_spaces :: "string \<Rightarrow> string option" where
  "skip_spaces [] = None"
| "skip_spaces (c # cs) = (if is_space c then skip_spaces cs else Some (c # cs))"

fun take_digits :: "string \<Rightarrow> (string \<times> string) option" where
  "take_digits [] = None"
| "take_digits (c # cs) =
     (if is_digit c then do { (ds, rest) \<leftarrow> take_digits cs; Some (c # ds, rest) } else Some ([], c # cs))"

text \<open>An integer conversion: the outer option is a read behind the end, the inner one a mismatch.\<close>

definition scan_int :: "bool \<Rightarrow> string \<Rightarrow> ((u64 \<times> string) option) option" where
  "scan_int is_sign str = do {
     str \<leftarrow> skip_spaces str;
     let neg = (is_sign \<and> hd str = CHR ''-'');
     let digits = (if neg then tl str else str);
     (ds, rest) \<leftarrow> take_digits digits;
     if ds = [] then Some None
     else (let v = (of_nat (digits_value ds) :: u64) in Some (Some (if neg then - v else v, rest)))
   }"

fun take_word :: "string \<Rightarrow> (string \<times> string) option" where
  "take_word [] = None"
| "take_word (c # cs) =
     (if c = NUL \<or> is_space c then Some ([], c # cs)
      else do { (w, rest) \<leftarrow> take_word cs; Some (c # w, rest) })"

fun vsscanf :: "scan_item list \<Rightarrow> string \<Rightarrow> scan_val list option" where
  "vsscanf [] str = Some []"
| "vsscanf (ScanLit c # fmt) str =
     (case str of [] \<Rightarrow> None | x # rest \<Rightarrow> if x = c then vsscanf fmt rest else Some [])"
| "vsscanf (ScanInt is_sign # fmt) str =
     (case str of [] \<Rightarrow> None
      | x # _ \<Rightarrow> if x = NUL then Some []
          else do {
            r \<leftarrow> scan_int is_sign str;
            case r of None \<Rightarrow> Some []
            | Some (v, rest) \<Rightarrow> do { vs \<leftarrow> vsscanf fmt rest; Some (IntVal v # vs) }
          })"
| "vsscanf (ScanStr # fmt) str =
     (case str of [] \<Rightarrow> None
      | x # _ \<Rightarrow> if x = NUL then Some []
          else do {
            str \<leftarrow> skip_spaces str;
            (w, rest) \<leftarrow> take_word str;
            vs \<leftarrow> vsscanf fmt rest;
            Some (StrVal w # vs)
          })"

definition int_fmt :: "scan_item list" where "int_fmt = [ScanInt True]"

definition create_fmt :: "scan_item list" where "create_fmt = [ScanInt True, ScanLit CHR '','', ScanStr]"

definition rule_fmt :: "scan_item list" where
  "rule_fmt = [ScanInt True, ScanLit CHR '','', ScanInt False, ScanLit CHR '','', ScanInt False,
     ScanLit CHR '','', ScanInt False, ScanLit CHR '','', ScanInt False]"

section \<open>The commands\<close>

definition MESSSAGE_LENGTH :: nat where "MESSSAGE_LENGTH = 80"

definition BDEVNAME_SIZE :: nat where "BDEVNAME_SIZE = 32"

text \<open>The buffer after the copy; \<open>stack\<close> is what it held before.\<close>

definition copy_message :: "string \<Rightarrow> string \<Rightarrow> nat \<times> string" where
  "copy_message stack buff =
     (let i = min (MESSSAGE_LENGTH - 1) (length buff) in (i, take i buff @ drop i stack))"

text \<open>An error is reported with the whole buffer as a string, which needs its end.\<close>

definition input_error :: "string \<Rightarrow> errno \<Rightarrow> lbz_module \<Rightarrow> ((errno + nat) \<times> lbz_module) option" where
  "input_error message e m = (if NUL \<in> set message then Some (Inl e, m) else None)"

definition id_command :: "string \<Rightarrow> nat \<Rightarrow> lbz_module \<Rightarrow> ((errno + nat) \<times> lbz_module) option" where
  "id_command message i m = do {
     vs \<leftarrow> vsscanf int_fmt (tl message);
     if length vs < 1 then input_error message EPERM m else Some (Inr i, m)
   }"

definition create_command ::
  "(string \<Rightarrow> errno + nat) \<Rightarrow> create_env \<Rightarrow> lbz_env \<Rightarrow> sizes \<Rightarrow> string \<Rightarrow> nat \<Rightarrow> lbz_module \<Rightarrow>
     ((errno + nat) \<times> lbz_module) option" where
  "create_command open_bdev C E S message i m = do {
     vs \<leftarrow> vsscanf create_fmt (tl message);
     case vs of
       [IntVal dev_size, StrVal dev_path] \<Rightarrow>
         if BDEVNAME_SIZE \<le> length dev_path then None
         else (case open_bdev dev_path of
             Inl e \<Rightarrow> Some (Inl e, m)
           | Inr bd \<Rightarrow> do {
               let m = m\<lparr>lm_bdevs := bd # lm_bdevs m\<rparr>;
               (rc, m) \<leftarrow> lbz_create_device C E S PAGE_SIZE (push_bit 21 dev_size) bd m;
               case rc of Some e \<Rightarrow> Some (Inl e, m) | None \<Rightarrow> Some (Inr i, m)
             })
     | _ \<Rightarrow> input_error message EPERM m
   }"

fun upd_first :: "('a \<Rightarrow> bool) \<Rightarrow> ('a \<Rightarrow> 'a) \<Rightarrow> 'a list \<Rightarrow> 'a list" where
  "upd_first P f [] = []"
| "upd_first P f (x # xs) = (if P x then f x # xs else x # upd_first P f xs)"

definition rule_command :: "string \<Rightarrow> nat \<Rightarrow> lbz_module \<Rightarrow> ((errno + nat) \<times> lbz_module) option" where
  "rule_command message i m = do {
     vs \<leftarrow> vsscanf rule_fmt (tl message);
     case vs of
       [IntVal minor, IntVal cp, IntVal sit, IntVal nt, IntVal nb] \<Rightarrow>
         (let dev_minor = sint (ucast minor :: u32);
              args = \<lparr>a_cp_blkaddr = ucast cp, a_sit_blkaddr = ucast sit, a_nat_blkaddr = ucast nt,
                      a_nat_blocks = ucast nb\<rparr>
          in case lbz_dev_find_by_minor dev_minor m of
               None \<Rightarrow> Some (Inl EINVAL, m)
             | Some n \<Rightarrow> do {
                 mgmt \<leftarrow> lbz_nat_sit_add_rule args (d_nat_sit_mgmt (nd_dev n));
                 Some (Inr i, m\<lparr>lm_devices := upd_first (\<lambda>n. int (d_minor (nd_dev n)) = dev_minor)
                   (\<lambda>n. n\<lparr>nd_dev := (nd_dev n)\<lparr>d_nat_sit_mgmt := mgmt\<rparr>\<rparr>) (lm_devices m)\<rparr>)
               })
     | _ \<Rightarrow> input_error message EINVAL m
   }"

definition module_input ::
  "(string \<Rightarrow> errno + nat) \<Rightarrow> create_env \<Rightarrow> lbz_env \<Rightarrow> sizes \<Rightarrow> string \<Rightarrow> string \<Rightarrow> lbz_module \<Rightarrow>
     ((errno + nat) \<times> lbz_module) option" where
  "module_input open_bdev C E S stack buff m =
     (let (i, message) = copy_message stack buff;
          cmd = hd message
      in if cmd = CHR ''d'' then id_command message i m
         else if cmd = CHR ''r'' then id_command message i m
         else if cmd = CHR ''c'' then create_command open_bdev C E S message i m
         else if cmd = CHR ''s'' then rule_command message i m
         else Some (Inr i, m))"

text \<open>
  Reading the control file: the text is copied whatever the size of the reader's buffer is.
\<close>

definition module_read :: "bool \<Rightarrow> bool \<Rightarrow> nat \<Rightarrow> (errno + string) \<times> nat" where
  "module_read page_ok copy_ok offset =
     (if offset \<noteq> 0 then (Inr [], offset)
      else if \<not> page_ok then (Inl ENOMEM, 1)
      else if \<not> copy_ok then (Inl (EOTHER 14), 1)
      else (Inr (''LBZ INFO as fllows:'' @ [CHR 0x0A]), 1))"

section \<open>Entry and exit of the module\<close>

definition lbz_proc_init :: "bool \<Rightarrow> lbz_module \<Rightarrow> errno option \<times> lbz_module" where
  "lbz_proc_init ok m = (if ok then (None, m\<lparr>lm_proc_file := True\<rparr>) else (Some ENOENT, m))"

definition lbz_proc_exit :: "lbz_module \<Rightarrow> lbz_module" where
  "lbz_proc_exit m = m\<lparr>lm_proc_file := False\<rparr>"

definition lbz_module_init :: "bool \<Rightarrow> int \<Rightarrow> bool \<Rightarrow> lbz_module \<Rightarrow> errno option \<times> lbz_module" where
  "lbz_module_init proc_ok major proc_dir m =
     (let (ret, m) = lbz_proc_init proc_ok m
      in case ret of
           Some e \<Rightarrow> (Some e, m)
         | None \<Rightarrow>
             (let (ret, m) = lbz_dev_init major proc_dir m
              in case ret of Some e \<Rightarrow> (Some e, lbz_proc_exit m) | None \<Rightarrow> (None, m)))"

definition lbz_module_exit :: "kern \<Rightarrow> sizes \<Rightarrow> lbz_module \<Rightarrow> (bool \<times> lbz_module) option" where
  "lbz_module_exit K S m = do {
     (over, m) \<leftarrow> lbz_dev_exit K S m;
     if over then Some (True, lbz_proc_exit m) else Some (False, m)
   }"

section \<open>References on the module\<close>

text \<open>\<open>live\<close> is the answer of \<open>try_module_get\<close>, which fails while the module is being removed.\<close>

definition module_open :: "bool \<Rightarrow> int \<Rightarrow> errno option \<times> int" where
  "module_open live refs = (None, if live then refs + 1 else refs)"

definition module_close :: "int \<Rightarrow> errno option \<times> int" where
  "module_close refs = (None, refs - 1)"

text \<open>The answer is ignored: an opening that got no reference gives one back when it is closed.\<close>

lemma module_refs:
  "fst (module_open live refs) = None"
  "snd (module_close (snd (module_open live refs))) = (if live then refs else refs - 1)"
  by (simp_all add: module_open_def module_close_def)

section \<open>Commands are read as they are written\<close>

lemma digit_class:
  assumes "is_digit c"
  shows "\<not> is_space c" "c \<noteq> NUL" "c \<noteq> CHR ''-''" "c \<noteq> CHR '',''"
  using assms by (auto simp: is_digit_def is_space_def NUL_def)

lemma take_digits_app:
  "\<forall>c\<in>set ds. is_digit c \<Longrightarrow> \<not> is_digit x \<Longrightarrow> take_digits (ds @ x # rest) = Some (ds, x # rest)"
  by (induction ds) auto

lemma take_word_app:
  "\<forall>c\<in>set w. c \<noteq> NUL \<and> \<not> is_space c \<Longrightarrow> is_space x \<Longrightarrow> take_word (w @ x # rest) = Some (w, x # rest)"
  by (induction w) auto

lemma scan_int_show:
  assumes "\<not> is_digit x"
  shows "scan_int is_sign (show_nat n @ x # rest) = Some (Some (of_nat n, x # rest))"
proof -
  obtain d ds where s: "show_nat n = d # ds" using show_nat_not_Nil by (cases "show_nat n") auto
  have d: "is_digit d" using show_nat_digits [of d n] s by simp
  have "skip_spaces (show_nat n @ x # rest) = Some (show_nat n @ x # rest)"
    using digit_class(1) [OF d] by (simp add: s)
  moreover have "take_digits (show_nat n @ x # rest) = Some (show_nat n, x # rest)"
    by (rule take_digits_app) (use assms show_nat_digits in auto)
  ultimately show ?thesis
    using digit_class(3) [OF d] by (simp add: scan_int_def s digits_value_show [of n, unfolded s])
qed

lemma vsscanf_show:
  assumes "\<not> is_digit x"
  shows "vsscanf (ScanInt is_sign # fmt) (show_nat n @ x # rest) =
     map_option (Cons (IntVal (of_nat n))) (vsscanf fmt (x # rest))"
proof -
  obtain d ds where s: "show_nat n = d # ds" using show_nat_not_Nil by (cases "show_nat n") auto
  have "d \<noteq> NUL" using digit_class(2) [of d] show_nat_digits [of d n] s by simp
  then have "vsscanf (ScanInt is_sign # fmt) (show_nat n @ x # rest) =
      Option.bind (scan_int is_sign (show_nat n @ x # rest)) (\<lambda>r.
         case r of None \<Rightarrow> Some [] | Some (v, rest) \<Rightarrow> do { vs \<leftarrow> vsscanf fmt rest; Some (IntVal v # vs) })"
    by (simp add: s del: bind_eq_Some Some_eq_bind)
  then show ?thesis
    by (cases "vsscanf fmt (x # rest)") (simp_all add: scan_int_show [OF assms])
qed

lemma separators: "\<not> is_digit CHR '',''" "\<not> is_digit CHR 0x0A" "is_space CHR 0x0A"
  by (simp_all add: is_digit_def is_space_def)

lemma copy_message_short:
  "length buff \<le> MESSSAGE_LENGTH - 1 \<Longrightarrow> copy_message stack buff = (length buff, buff @ drop (length buff) stack)"
  by (simp add: copy_message_def Let_def)

text \<open>The commands as a user writes them, ended by a new line.\<close>

definition print_rule :: "nat \<Rightarrow> nat_sit_args \<Rightarrow> string" where
  "print_rule minor args = ''s'' @ show_nat minor @ '','' @ show_nat (unat (a_cp_blkaddr args)) @ '','' @
     show_nat (unat (a_sit_blkaddr args)) @ '','' @ show_nat (unat (a_nat_blkaddr args)) @ '','' @
     show_nat (unat (a_nat_blocks args)) @ [CHR 0x0A]"

definition print_create :: "nat \<Rightarrow> string \<Rightarrow> string" where
  "print_create gib path = ''c'' @ show_nat gib @ '','' @ path @ [CHR 0x0A]"

lemma length_show_u32: "length (show_nat (unat (w :: u32))) \<le> 10"
  by (rule length_show_nat) (use unat_u32_less [of w] in auto)

lemma print_rule_short: "minor < 2 ^ 31 \<Longrightarrow> length (print_rule minor args) \<le> MESSSAGE_LENGTH - 1"
  using length_show_nat [of minor 10] length_show_u32 [of "a_cp_blkaddr args"] length_show_u32 [of "a_sit_blkaddr args"]
    length_show_u32 [of "a_nat_blkaddr args"] length_show_u32 [of "a_nat_blocks args"]
  by (simp add: print_rule_def MESSSAGE_LENGTH_def)

lemma ucast_u32_u64: "ucast (ucast (w :: u32) :: u64) = w"
  by (rule bit_word_eqI) (simp add: bit_simps)

lemma minor_of_scan:
  assumes "minor < 2 ^ 31"
  shows "sint (ucast (of_nat minor :: u64) :: u32) = int minor"
proof -
  have "minor < 2 ^ 64" using assms by (rule less_trans) simp
  then have "unat (of_nat minor :: u64) = minor" by (simp add: unat_of_nat take_bit_nat_eq_self)
  then have "unat (ucast (of_nat minor :: u64) :: u32) = minor"
    using assms by (simp add: unsigned_ucast_eq take_bit_nat_eq_self)
  with assms show ?thesis using sint_small [of "ucast (of_nat minor :: u64) :: u32"] by simp
qed

lemma scan_rule:
  "vsscanf rule_fmt (tl (print_rule minor args @ rest)) =
     Some [IntVal (of_nat minor), IntVal (of_nat (unat (a_cp_blkaddr args))), IntVal (of_nat (unat (a_sit_blkaddr args))),
       IntVal (of_nat (unat (a_nat_blkaddr args))), IntVal (of_nat (unat (a_nat_blocks args)))]"
  unfolding rule_fmt_def print_rule_def
  by (simp add: vsscanf_show separators del: vsscanf.simps(3))

lemma scan_create:
  assumes "path \<noteq> []" and "\<forall>c\<in>set path. c \<noteq> NUL \<and> \<not> is_space c"
  shows "vsscanf create_fmt (tl (print_create gib path @ rest)) = Some [IntVal (of_nat gib), StrVal path]"
proof -
  obtain c cs where p: "path = c # cs" using assms(1) by (cases path) auto
  have "skip_spaces (path @ CHR 0x0A # rest) = Some (path @ CHR 0x0A # rest)" using assms(2) p by simp
  then have "vsscanf [ScanStr] (path @ CHR 0x0A # rest) = Some [StrVal path]"
    using assms(2) take_word_app [OF assms(2) separators(3), of rest] by (simp add: p)
  then show ?thesis
    unfolding create_fmt_def print_create_def
    by (simp add: vsscanf_show separators del: vsscanf.simps(3,4))
qed

text \<open>
  C39. The rule command reads back every rule as it was written. For every device number and all
  four addresses, the command printed in decimal fits the buffer, whatever the buffer held
  before, and has exactly the effect of installing that rule on the device with that number:
  it is refused when there is no such device, and stops the kernel exactly when the rule does.
\<close>

theorem rule_command_roundtrip:
  assumes "minor < 2 ^ 31"
  shows "module_input open_bdev C E S stack (print_rule minor args) m =
    (case find (\<lambda>n. d_minor (nd_dev n) = minor) (lm_devices m) of
       None \<Rightarrow> Some (Inl EINVAL, m)
     | Some n \<Rightarrow> map_option (\<lambda>mgmt. (Inr (length (print_rule minor args)), m\<lparr>lm_devices :=
           upd_first (\<lambda>n. d_minor (nd_dev n) = minor)
             (\<lambda>n. n\<lparr>nd_dev := (nd_dev n)\<lparr>d_nat_sit_mgmt := mgmt\<rparr>\<rparr>) (lm_devices m)\<rparr>))
         (lbz_nat_sit_add_rule args (d_nat_sit_mgmt (nd_dev n))))"
proof -
  have hd: "hd (print_rule minor args @ r) = CHR ''s''" for r by (simp add: print_rule_def)
  have a: "\<lparr>a_cp_blkaddr = a_cp_blkaddr args, a_sit_blkaddr = a_sit_blkaddr args,
      a_nat_blkaddr = a_nat_blkaddr args, a_nat_blocks = a_nat_blocks args\<rparr> = args" by simp
  have "module_input open_bdev C E S stack (print_rule minor args) m =
      rule_command (print_rule minor args @ drop (length (print_rule minor args)) stack) (length (print_rule minor args)) m"
    by (simp add: module_input_def copy_message_short [OF print_rule_short [OF assms]] Let_def hd)
  then show ?thesis
    by (cases "find (\<lambda>n. d_minor (nd_dev n) = minor) (lm_devices m)")
      (simp_all add: rule_command_def scan_rule ucast_u32_u64 minor_of_scan [OF assms] a Let_def
        lbz_dev_find_by_minor_def map_option_case split: option.splits)
qed

text \<open>
  C40. The create command with a size of at most 64 GiB and a path that fits its buffer, on a backing
  device whose zones are all reset, when the allocations and work queues that the creation does not
  check are there: it opens the backing device, creates a device of that size on it and returns the length of the
  command, or the error of the creation. After a failed creation no device exists, but the
  claim on the backing device is not given back.
\<close>

theorem create_command_outcome:
  assumes "kern_ok (ev_kern E)" and "report_ok (co_nr_zones C) (co_report C)" and "unchecked_allocs C"
    and "gib \<le> 64" and "path \<noteq> []" and "\<forall>c\<in>set path. c \<noteq> NUL \<and> \<not> is_space c" and "length path < BDEVNAME_SIZE"
    and "open_bdev path = Inr bd" and wq: "create_errno C = None \<or> wqs_there C"
  shows "\<exists>m'. module_input open_bdev C E S stack (print_create gib path) m =
      Some (case create_errno C of Some e \<Rightarrow> Inl e | None \<Rightarrow> Inr (length (print_create gib path)), m') \<and>
    lm_bdevs m' = bd # lm_bdevs m \<and>
    (create_errno C \<noteq> None \<longrightarrow> lm_devices m' = lm_devices m \<and> lm_mem m' = lm_mem m) \<and>
    (create_errno C = None \<longrightarrow> (\<exists>n. lm_devices m' = n # lm_devices m \<and> nd_phy_bdev n = bd \<and>
       device_fresh (ev_kern E) (nd_dev n) \<and> unat (d_dev_size (nd_dev n)) = gib * 2 ^ 21))"
proof -
  let ?m = "m\<lparr>lm_bdevs := bd # lm_bdevs m\<rparr>" and ?sz = "push_bit 21 (of_nat gib) :: u64"
  have "length (show_nat gib) \<le> 2" by (rule length_show_nat) (use assms(4) in auto)
  then have len: "length (print_create gib path) \<le> MESSSAGE_LENGTH - 1"
    using assms(7) by (simp add: print_create_def MESSSAGE_LENGTH_def BDEVNAME_SIZE_def)
  have hd: "hd (print_create gib path @ r) = CHR ''c''" for r by (simp add: print_create_def)
  have "gib * 2 ^ 21 \<le> 134217728" using assms(4) by simp
  then have "unat (of_nat (gib * 2 ^ 21) :: u64) = gib * 2 ^ 21"
    by (simp only: unat_of_nat) (simp add: take_bit_nat_eq_self)
  moreover have "?sz = of_nat (gib * 2 ^ 21)" by (simp add: push_bit_eq_mult)
  ultimately have sz: "unat ?sz = gib * 2 ^ 21" by simp
  then have "unat ?sz \<le> 64 * 2 ^ 21" using assms(4) by simp
  note core = create_device_core [OF assms(1) order_refl assms(2,3) this wq, of S bd ?m]
  have run: "module_input open_bdev C E S stack (print_create gib path) m =
      Some (case create_errno C of Some e \<Rightarrow> Inl e | None \<Rightarrow> Inr (length (print_create gib path)), m')"
    if "lbz_create_device C E S PAGE_SIZE ?sz bd ?m = Some (create_errno C, m')" for m'
    using assms(7,8) that
    by (cases "create_errno C")
      (simp_all add: module_input_def copy_message_short [OF len] Let_def hd create_command_def
        scan_create [OF assms(5,6)])
  show ?thesis
  proof (cases "create_errno C")
    case None
    with core obtain m' n where "lbz_create_device C E S PAGE_SIZE ?sz bd ?m = Some (create_errno C, m')"
      "lm_devices m' = n # lm_devices m" "device_fresh (ev_kern E) (nd_dev n)" "d_dev_size (nd_dev n) = ?sz"
      "nd_phy_bdev n = bd" "lm_bdevs m' = bd # lm_bdevs m" by auto
    with None run sz show ?thesis by auto
  next
    case (Some e)
    with core obtain m' where c: "lbz_create_device C E S PAGE_SIZE ?sz bd ?m = Some (create_errno C, m')"
      "m'\<lparr>lm_ida := lm_ida ?m\<rparr> = ?m" by auto
    have "lm_bdevs (m'\<lparr>lm_ida := lm_ida ?m\<rparr>) = lm_bdevs ?m" "lm_mem (m'\<lparr>lm_ida := lm_ida ?m\<rparr>) = lm_mem ?m"
      "lm_devices (m'\<lparr>lm_ida := lm_ida ?m\<rparr>) = lm_devices ?m" by (simp_all only: c(2))
    with Some run [OF c(1)] show ?thesis by auto
  qed
qed

text \<open>
  Only the commands to create a device and to install a rule change anything: the delete and
  reset commands are checked for a number and otherwise ignored, every other first character
  is accepted as it is, and so is a command that cannot be parsed, with an error code.
\<close>

theorem other_commands_ignored:
  assumes "module_input open_bdev C E S stack buff m = Some (r, m')" and "buff \<noteq> []"
    and "hd buff \<noteq> CHR ''c''" and "hd buff \<noteq> CHR ''s''"
  shows "m' = m \<and> (r = Inr (min 79 (length buff)) \<or> r = Inl EPERM) \<and>
    (r = Inl EPERM \<longrightarrow> hd buff = CHR ''d'' \<or> hd buff = CHR ''r'')"
proof -
  have i: "copy_message stack buff = (min 79 (length buff), take (min 79 (length buff)) buff @ drop (min 79 (length buff)) stack)"
    by (simp add: copy_message_def MESSSAGE_LENGTH_def Let_def)
  have hd: "hd (take (min 79 (length buff)) buff @ r) = hd buff" for r
    using assms(2) by (cases buff) (auto simp: min_def)
  show ?thesis
    using assms(1,3,4)
    by (auto simp: module_input_def i hd Let_def id_command_def input_error_def split: if_splits)
qed

end
