(* ===== verification/Life_Demo.thy ===== *)
theory Life_Demo
  imports System_Demo Proc_Cmd
begin

text \<open>
  A concrete module and a concrete creation of a device on three empty zones, on which the
  theorems about the life of devices and about the commands are applied.
\<close>

definition demo_sizes :: sizes where
  "demo_sizes = \<lparr>sz_device = 800, sz_zone_metadata = 600, sz_zone = 120, sz_mapping = 400,
     sz_io_scheduler = 300, sz_gc_context = 200, sz_nat_sit_mgmt = 160\<rparr>"

definition demo_limits :: queue_limits where
  "demo_limits = \<lparr>q_max_hw_sectors = 0, q_max_sectors = 0, q_max_segment_size = 0, q_max_segments = 0,
     q_max_discard_sectors = 0, q_discard_granularity = 0, q_io_min = 0, q_logical_block_size = 0,
     q_physical_block_size = 0, q_nonrot = False, q_add_random = True, q_discard = False,
     q_nomerges = False, q_write_cache = False, q_fua = False\<rparr>"

definition demo_create :: "nat \<Rightarrow> create_env" where
  "demo_create idx = \<lparr>co_alloc_device = True, co_idx = Inr idx, co_alloc_disk = Some demo_limits,
     co_alloc_zone_metadata = True, co_nr_zones = 3, co_zone_sectors = 16, co_report = demo_report,
     co_report_err = None, co_zone_wq = WqOk, co_alloc_mapping = True, co_alloc_iosched = True,
     co_retry_wq = WqOk, co_alloc_gc_ctx = True, co_gc_thread_err = None, co_proc_entry = True,
     co_bioset_err = None, co_alloc_nat_sit = True\<rparr>"

definition demo_module :: lbz_module where
  "demo_module = \<lparr>lm_devices = [], lm_mem = 0, lm_major = 250, lm_ida = [], lm_disks = 0, lm_biosets = 0, lm_added = [],
     lm_procs = [], lm_bdevs = [], lm_proc_dir = True, lm_proc_file = True\<rparr>"

lemma demo_create_facts:
  "report_ok (co_nr_zones (demo_create i)) (co_report (demo_create i))" "unchecked_allocs (demo_create i)"
  "create_errno (demo_create i) = None" "co_idx (demo_create i) = Inr i"
  "create_errno ((demo_create i)\<lparr>co_gc_thread_err := Some EAGAIN\<rparr>) = Some EAGAIN"
  "unchecked_allocs ((demo_create i)\<lparr>co_gc_thread_err := Some EAGAIN\<rparr>)"
  "wqs_there (demo_create i)" "wqs_there ((demo_create i)\<lparr>co_gc_thread_err := Some EAGAIN\<rparr>)"
  "unchecked_allocs ((demo_create i)\<lparr>co_retry_wq := WqNull\<rparr>)" "\<not> wqs_there ((demo_create i)\<lparr>co_retry_wq := WqNull\<rparr>)"
  "create_errno ((demo_create i)\<lparr>co_retry_wq := WqNull\<rparr>) = None"
  "co_zone_wq (demo_create i) = WqOk" "co_retry_wq (demo_create i) = WqOk"
  using demo_report_ok
  by (simp_all add: demo_create_def unchecked_allocs_def create_errno_def err_zones_def err_maps_def err_gc_def
      err_proc_def wqs_there_def)

lemma demo_env_kern: "kern_ok (ev_kern demo_env)"
  by (simp add: demo_env_def demo_kern_ok)

lemma demo_sectors: "unat (29360128 :: u64) \<le> 64 * 2 ^ 21"
  by simp

theorem create_device_outcome_witness:
  "(\<exists>m1 n. lbz_create_device (demo_create 1) demo_env demo_sizes PAGE_SIZE 29360128 7 demo_module = Some (None, m1) \<and>
     lm_devices m1 = [n] \<and> device_fresh demo_kern (nd_dev n)) \<and>
   lbz_create_device ((demo_create 0)\<lparr>co_gc_thread_err := Some EAGAIN\<rparr>) demo_env demo_sizes PAGE_SIZE 29360128 7 demo_module =
       Some (Some EAGAIN, demo_module) \<and>
   (\<exists>m1 n. lbz_create_device ((demo_create 1)\<lparr>co_retry_wq := WqNull\<rparr>) demo_env demo_sizes PAGE_SIZE 29360128 7 demo_module =
       Some (None, m1) \<and> lm_devices m1 = [n] \<and> lbz_remove_device demo_kern demo_sizes n [] m1 = None)"
proof (intro conjI)
  have k: "ev_kern demo_env = demo_kern" by (simp add: demo_env_def)
  have d: "lm_devices demo_module = []" by (simp add: demo_module_def)
  have r: "report_ok (co_nr_zones ((demo_create i)\<lparr>co_gc_thread_err := e\<rparr>)) (co_report ((demo_create i)\<lparr>co_gc_thread_err := e\<rparr>))"
    "co_idx ((demo_create i)\<lparr>co_gc_thread_err := e\<rparr>) = Inr i"
    "report_ok (co_nr_zones ((demo_create i)\<lparr>co_retry_wq := q\<rparr>)) (co_report ((demo_create i)\<lparr>co_retry_wq := q\<rparr>))" for i e q
    using demo_create_facts(1) [of i] demo_create_facts(4) [of i] by simp_all
  note t = create_device_outcome [OF demo_env_kern order_refl _ demo_sectors, of _ demo_sizes 7 demo_module]
  from t [OF demo_create_facts(1), of 1] demo_create_facts(2,3,4,7) [of 1]
  show "\<exists>m1 n. lbz_create_device (demo_create 1) demo_env demo_sizes PAGE_SIZE 29360128 7 demo_module = Some (None, m1) \<and>
     lm_devices m1 = [n] \<and> device_fresh demo_kern (nd_dev n)" by (auto simp: k d)
  from t [OF r(1) [where i = 0 and e = "Some EAGAIN"]] demo_create_facts(5,6,8) [of 0] r(2) [where i = 0 and e = "Some EAGAIN"]
  show "lbz_create_device ((demo_create 0)\<lparr>co_gc_thread_err := Some EAGAIN\<rparr>) demo_env demo_sizes PAGE_SIZE 29360128 7 demo_module =
       Some (Some EAGAIN, demo_module)" by auto
  from t [OF r(3) [where i = 1 and q = WqNull]] demo_create_facts(9,10,11) [of 1]
  show "\<exists>m1 n. lbz_create_device ((demo_create 1)\<lparr>co_retry_wq := WqNull\<rparr>) demo_env demo_sizes PAGE_SIZE 29360128 7 demo_module =
       Some (None, m1) \<and> lm_devices m1 = [n] \<and> lbz_remove_device demo_kern demo_sizes n [] m1 = None" by (auto simp: k d)
qed

theorem remove_device_restores_witness:
  "\<exists>m1 n m2. lbz_create_device (demo_create 1) demo_env demo_sizes PAGE_SIZE 29360128 7 demo_module = Some (None, m1) \<and>
     lbz_remove_device demo_kern demo_sizes n [] m1 = Some (True, m2) \<and> lm_mem m2 = 0 \<and> lm_devices m2 = [] \<and>
     1 \<in> set (lm_ida m2) \<and> lm_biosets m2 = 1"
proof -
  have k: "ev_kern demo_env = demo_kern" by (simp add: demo_env_def)
  have w: "create_errno (demo_create 1) = None \<or> wqs_there (demo_create 1)" by (simp add: demo_create_facts)
  from create_device_core [OF demo_env_kern order_refl demo_create_facts(1,2) demo_sectors w, of demo_sizes 7 demo_module]
  obtain m1 n where c: "lbz_create_device (demo_create 1) demo_env demo_sizes PAGE_SIZE 29360128 7 demo_module = Some (None, m1)"
      "lm_devices m1 = n # lm_devices demo_module" "device_fresh demo_kern (nd_dev n)"
      "zmd_zone_state_wq (d_zone_metadata (nd_dev n)) = WqOk" "s_retry_wq (d_iosched (nd_dev n)) = WqOk"
    by (auto simp: demo_create_facts k)
  have t: "teardown_ok (ev_kern demo_env) (nd_dev n)" using device_fresh_teardown [OF c(3-5)] k by simp
  have d: "io_drained (nd_dev n)" using c(3) by (simp add: device_fresh_def)
  from remove_device_restores [OF demo_env_kern order_refl demo_create_facts(1,2) demo_sectors c(1,2) demo_create_facts(7) t d refl]
  obtain m2 where m2: "lbz_remove_device demo_kern demo_sizes n [] m1 = Some (True, m2)"
      "m2\<lparr>lm_ida := lm_ida demo_module, lm_bdevs := lm_bdevs demo_module, lm_biosets := lm_biosets demo_module\<rparr> = demo_module"
      "1 \<in> set (lm_ida m2)" "lm_biosets m2 = 1"
    by (auto simp: demo_create_facts k demo_module_def)
  have "lm_mem (m2\<lparr>lm_ida := lm_ida demo_module, lm_bdevs := lm_bdevs demo_module, lm_biosets := lm_biosets demo_module\<rparr>) = lm_mem demo_module"
    "lm_devices (m2\<lparr>lm_ida := lm_ida demo_module, lm_bdevs := lm_bdevs demo_module, lm_biosets := lm_biosets demo_module\<rparr>) = lm_devices demo_module"
    by (simp_all only: m2(2))
  then have "lm_mem m2 = 0" "lm_devices m2 = []" by (simp_all add: demo_module_def)
  with c(1) m2(1,3,4) show ?thesis by blast
qed

theorem module_memory_balanced_witness:
  "module_ok demo_kern demo_sizes 0 demo_module \<and>
   (\<exists>m'. lbz_create_device (demo_create 0) demo_env demo_sizes PAGE_SIZE 29360128 7 demo_module = Some (None, m') \<and>
      module_ok demo_kern demo_sizes 0 m') \<and>
   (\<exists>m'. lbz_dev_exit demo_kern demo_sizes demo_module = Some (True, m') \<and> lm_mem m' = 0) \<and>
   lbz_dev_exit demo_kern demo_sizes (demo_module\<lparr>lm_mem := 64\<rparr>) = None"
proof -
  have k: "ev_kern demo_env = demo_kern" by (simp add: demo_env_def)
  have ok: "module_ok (ev_kern demo_env) demo_sizes 0 demo_module" by (simp add: module_ok_def demo_module_def)
  have busy: "module_ok (ev_kern demo_env) demo_sizes 64 (demo_module\<lparr>lm_mem := 64\<rparr>)" by (simp add: module_ok_def demo_module_def)
  have "kern_ok (ev_kern demo_env) \<and> PAGE_SIZE \<le> PAGE_SIZE \<and>
      report_ok (co_nr_zones (demo_create 0)) (co_report (demo_create 0)) \<and> unchecked_allocs (demo_create 0) \<and>
      wqs_there (demo_create 0) \<and> unat (29360128 :: u64) \<le> 64 * 2 ^ 21"
    using demo_env_kern demo_create_facts(1,2,7) [of 0] demo_sectors by simp
  moreover have "lm_devices demo_module = []" by (simp add: demo_module_def)
  ultimately show ?thesis
    using module_memory_balanced [OF ok, of PAGE_SIZE "demo_create 0" "29360128" 7] ok
      module_memory_balanced [OF busy, of PAGE_SIZE "demo_create 0" "29360128" 7]
    by (auto simp: demo_create_facts k)
qed

definition demo_quiet :: lbz_device where
  "demo_quiet = (demo_dev demo_zmd demo_map)\<lparr>d_user_write_inflight_io_cnt := 0\<rparr>"

theorem dev_operations_witness:
  "fst (open_dev demo_quiet) = None \<and> release_dev (snd (open_dev demo_quiet)) = (True, demo_quiet) \<and>
   ioctl_dev demo_quiet \<noteq> None"
proof -
  have "is_dev_ready demo_quiet" "\<not> is_dev_remove demo_quiet" "\<not> is_dev_faulty demo_quiet"
    "d_user_write_inflight_io_cnt demo_quiet = 0" "d_user_read_inflight_io_cnt demo_quiet = 0"
    by (simp_all add: demo_quiet_def demo_dev_def dev_flag_defs bit_numeral_rec)
  with dev_operations [of demo_quiet] show ?thesis by simp
qed

section \<open>Commands\<close>

definition demo_args :: nat_sit_args where
  "demo_args = \<lparr>a_cp_blkaddr = 512, a_sit_blkaddr = 1024, a_nat_blkaddr = 2048, a_nat_blocks = 1024\<rparr>"

definition demo_path :: string where "demo_path = ''/dev/nvme1n3''"

definition demo_open :: "string \<Rightarrow> errno + nat" where
  "demo_open p = (if p = demo_path then Inr 7 else Inl ENOENT)"

theorem rule_command_roundtrip_witness:
  "module_input demo_open (demo_create 0) demo_env demo_sizes [] (print_rule 3 demo_args) demo_module = Some (Inl EINVAL, demo_module) \<and>
   print_rule 3 demo_args = ''s3,512,1024,2048,1024'' @ [CHR 0x0A]"
proof -
  have "(3 :: nat) < 2 ^ 31" by simp
  from rule_command_roundtrip [OF this, of demo_open "demo_create 0" demo_env demo_sizes "[]" demo_args demo_module]
  have "module_input demo_open (demo_create 0) demo_env demo_sizes [] (print_rule 3 demo_args) demo_module = Some (Inl EINVAL, demo_module)"
    by (simp add: demo_module_def)
  moreover have "print_rule 3 demo_args = ''s3,512,1024,2048,1024'' @ [CHR 0x0A]"
    by (simp add: print_rule_def demo_args_def show_nat.simps digit_char_def char_of_def bit_0)
  ultimately show ?thesis by simp
qed

theorem create_command_outcome_witness:
  "\<exists>m' n. module_input demo_open (demo_create 0) demo_env demo_sizes [] (print_create 14 demo_path) demo_module = Some (Inr 17, m') \<and>
     lm_devices m' = [n] \<and> unat (d_dev_size (nd_dev n)) = 29360128"
proof -
  have p: "demo_path \<noteq> []" "\<forall>c\<in>set demo_path. c \<noteq> NUL \<and> \<not> is_space c" "length demo_path < BDEVNAME_SIZE"
    by (simp_all add: demo_path_def NUL_def is_space_def BDEVNAME_SIZE_def)
  have o: "demo_open demo_path = Inr 7" by (simp add: demo_open_def)
  have "length (print_create 14 demo_path) = 17"
    by (simp add: print_create_def demo_path_def show_nat.simps)
  with create_command_outcome [of demo_env "demo_create 0" 14 demo_path demo_open 7 demo_sizes "[]" demo_module]
    demo_env_kern p o demo_create_facts(7) [of 0]
  show ?thesis by (auto simp: demo_create_facts demo_module_def)
qed

theorem other_commands_ignored_witness:
  "module_input demo_open (demo_create 0) demo_env demo_sizes [] ''x'' demo_module = Some (Inr 1, demo_module)"
proof -
  have "module_input demo_open (demo_create 0) demo_env demo_sizes [] ''x'' demo_module = Some (Inr 1, demo_module)"
    by (simp add: module_input_def copy_message_def MESSSAGE_LENGTH_def)
  with other_commands_ignored [OF this] show ?thesis by simp
qed

end
