(* ===== verification/Proc_Show.thy ===== *)
theory Proc_Show
  imports Dev_Life "HOL-Library.Signed_Division"
begin

text \<open>
  The text of the /proc entry of a device: \<open>read_lbz_dev_proc\<close> of \<^verbatim>\<open>lbz-dev.c\<close> and the functions of
  the components that it calls. The formats are those of the code, interpreted by a model of
  \<open>seq_printf\<close> that stops when a conversion and its argument have different widths, when an
  argument is missing and when one is left over. A division by zero, and a division whose
  quotient does not fit, stop the model as they stop the machine; so does an empty entry of the
  zone array. The theory shows that reading the entry never stops on a device that is in use.
\<close>

section \<open>Formatted output\<close>

text \<open>Arguments have the width with which they are passed.\<close>

datatype farg = FInt u32 | FLong u64 | FStr string

datatype farg_type = TInt | TLong | TStr

datatype conversion = ConvPercent | ConvStr | ConvInt bool | ConvLong bool

fun farg_type_of :: "farg \<Rightarrow> farg_type" where
  "farg_type_of (FInt w) = TInt"
| "farg_type_of (FLong w) = TLong"
| "farg_type_of (FStr s) = TStr"

fun conv_type :: "conversion \<Rightarrow> farg_type option" where
  "conv_type ConvPercent = None"
| "conv_type ConvStr = Some TStr"
| "conv_type (ConvInt sg) = Some TInt"
| "conv_type (ConvLong sg) = Some TLong"

definition show_int :: "int \<Rightarrow> string" where
  "show_int i = (if i < 0 then CHR ''-'' # show_nat (nat (- i)) else show_nat (nat i))"

text \<open>A conversion that does not fit its argument is undefined in C.\<close>

fun show_arg :: "conversion \<Rightarrow> farg \<Rightarrow> string option" where
  "show_arg (ConvInt sg) (FInt w) = Some (if sg then show_int (sint w) else show_nat (unat w))"
| "show_arg (ConvLong sg) (FLong w) = Some (if sg then show_int (sint w) else show_nat (unat w))"
| "show_arg ConvStr (FStr s) = Some s"
| "show_arg _ _ = None"

text \<open>The letters of a conversion; \<open>l\<close> and \<open>ll\<close> both stand for 64 bits here.\<close>

fun parse_conv :: "string \<Rightarrow> (conversion \<times> string) option" where
  "parse_conv [] = None"
| "parse_conv (c # cs) =
     (if c = CHR ''%'' then Some (ConvPercent, cs)
      else if c = CHR ''s'' then Some (ConvStr, cs)
      else if c = CHR ''d'' then Some (ConvInt True, cs)
      else if c = CHR ''u'' then Some (ConvInt False, cs)
      else if c = CHR ''l'' then
        (case cs of
           [] \<Rightarrow> None
         | e # es \<Rightarrow>
             if e = CHR ''l'' then
               (case es of
                  [] \<Rightarrow> None
                | f # fs \<Rightarrow> if f = CHR ''d'' then Some (ConvLong True, fs)
                           else if f = CHR ''u'' then Some (ConvLong False, fs) else None)
             else if e = CHR ''d'' then Some (ConvLong True, es)
             else if e = CHR ''u'' then Some (ConvLong False, es) else None)
      else None)"

lemma parse_conv_shorter: "parse_conv cs = Some (cv, r) \<Longrightarrow> length r < length cs"
  by (induction cs rule: parse_conv.induct) (auto split: if_splits list.splits)

text \<open>A format as a list of literal characters and conversions.\<close>

function parse_format :: "string \<Rightarrow> (char + conversion) list option" where
  "parse_format [] = Some []"
| "parse_format (c # cs) =
     (if c \<noteq> CHR ''%'' then map_option ((#) (Inl c)) (parse_format cs)
      else case parse_conv cs of
        None \<Rightarrow> None
      | Some (cv, r) \<Rightarrow> map_option ((#) (Inr cv)) (parse_format r))"
  by pat_completeness auto
termination
  by (relation "measure length") (auto dest: parse_conv_shorter)

fun print_items :: "(char + conversion) list \<Rightarrow> farg list \<Rightarrow> string option" where
  "print_items [] as = (if as = [] then Some [] else None)"
| "print_items (Inl c # xs) as = map_option ((#) c) (print_items xs as)"
| "print_items (Inr cv # xs) as =
     (if cv = ConvPercent then map_option ((#) CHR ''%'') (print_items xs as)
      else case as of
        [] \<Rightarrow> None
      | a # as \<Rightarrow> do { s \<leftarrow> show_arg cv a; r \<leftarrow> print_items xs as; Some (s @ r) })"

definition seq_printf :: "string \<Rightarrow> farg list \<Rightarrow> string option" where
  "seq_printf fmt as = do { xs \<leftarrow> parse_format fmt; print_items xs as }"

text \<open>The types of the arguments that a format expects.\<close>

fun item_types :: "(char + conversion) list \<Rightarrow> farg_type list" where
  "item_types [] = []"
| "item_types (Inl c # xs) = item_types xs"
| "item_types (Inr cv # xs) = (case conv_type cv of None \<Rightarrow> item_types xs | Some ty \<Rightarrow> ty # item_types xs)"

definition format_types :: "string \<Rightarrow> farg_type list option" where
  "format_types fmt = map_option item_types (parse_format fmt)"

lemma show_arg_typed: "conv_type cv = Some (farg_type_of a) \<longleftrightarrow> cv \<noteq> ConvPercent \<and> (\<exists>s. show_arg cv a = Some s)"
  by (cases cv; cases a) auto

lemma print_items_typed: "(\<exists>s. print_items xs as = Some s) \<longleftrightarrow> item_types xs = map farg_type_of as"
proof (induction xs as rule: print_items.induct)
  case (3 cv xs as)
  show ?case
  proof (cases "cv = ConvPercent")
    case False
    then obtain ty where ty: "conv_type cv = Some ty" by (cases cv) auto
    show ?thesis
    proof (cases as)
      case (Cons a as')
      then show ?thesis
        using 3(2) [OF False Cons] show_arg_typed [of cv a] ty False by (cases "show_arg cv a") (auto simp: bind_eq_Some_conv)
    qed (use False ty in simp)
  qed (use 3 in \<open>auto simp: map_option_case split: option.splits\<close>)
qed auto

text \<open>Printing succeeds exactly if the arguments have the types that the format names.\<close>

lemma seq_printf_typed: "seq_printf fmt as \<noteq> None \<longleftrightarrow> format_types fmt = Some (map farg_type_of as)"
  using print_items_typed by (fastforce simp: format_types_def seq_printf_def bind_eq_Some_conv)

text \<open>The lines of a format.\<close>

definition fmt_lines :: "string list \<Rightarrow> string" where
  "fmt_lines ls = concat (map (\<lambda>l. l @ [CHR 0x0A]) ls)"

section \<open>The scheduler, the collector and the F2FS rules\<close>

definition iosched_fmt :: string where
  "iosched_fmt = fmt_lines [''pending_count: %d'',
     ''gc_write_count: %d'',
     ''task_count: %lld'']"

definition lbz_iosched_proc_read :: "lbz_io_scheduler \<Rightarrow> string option" where
  "lbz_iosched_proc_read io =
     seq_printf iosched_fmt [FInt (s_pending_count io), FInt (s_gc_write_count io), FLong (s_task_count io)]"

definition gc_fmt :: string where
  "gc_fmt = fmt_lines [''gc_expire: %u'',
     ''gc_state: %lu'',
     ''gc_times: %lu'',
     ''last_jiffies: %lu'',
     ''jiffies(now): %lu'',
     ''duration: %lu'']"

definition lbz_gc_proc_read :: "u64 \<Rightarrow> lbz_gc_context \<Rightarrow> string option" where
  "lbz_gc_proc_read now ctx = seq_printf gc_fmt [FInt (gc_expire ctx), FLong (gc_state ctx), FLong (gc_times ctx),
     FLong (gc_last_jiffies ctx), FLong now, FLong (now - gc_last_jiffies ctx)]"

definition nat_sit_fmt :: string where
  "nat_sit_fmt = fmt_lines [''cp_blkaddr: %u'',
     ''sit_blkaddr: %u'',
     ''nat_blkaddr: %u'',
     ''nat_blocks: %u'',
     ''cp_blocks: %u'',
     ''sit_blocks: %u'',
     ''first_cp_blkaddr: %u'',
     ''second_cp_blkaddr: %u'',
     ''cp_length: %u'',
     ''sit_segment_no: %u'',
     ''nat_segment_no: %u'',
     ''cur_cp_pack: %u'',
     ''blocks_per_segment: %u'',
     ''nat_sit_inflight_writes: %lld'',
     ''nat_sit_cp_write: %lld'',
     ''nat_sit_ssa_write: %lld'',
     ''nat_sit_user_write: %lld'',
     ''to_free_count: %u'',
     ''total_freed_blks: %lu'']"

definition lbz_nat_sit_proc_read :: "lbz_nat_sit_mgmt \<Rightarrow> string option" where
  "lbz_nat_sit_proc_read mgmt = seq_printf nat_sit_fmt
     [FInt (ns_cp_blkaddr mgmt), FInt (ns_sit_blkaddr mgmt), FInt (ns_nat_blkaddr mgmt),
      FInt (ns_nat_blocks mgmt), FInt (ns_cp_blocks mgmt), FInt (ns_sit_blocks mgmt),
      FInt (ns_first_cp_blkaddr mgmt), FInt (ns_second_cp_blkaddr mgmt), FInt (ns_cp_length mgmt),
      FInt (ns_sit_segment_no mgmt), FInt (ns_nat_segment_no mgmt), FInt (ns_cur_cp_pack mgmt),
      FInt (ns_blocks_per_segment mgmt), FLong (ns_inflight_writes mgmt), FLong (ns_cp_write mgmt),
      FLong (ns_ssa_write mgmt), FLong (ns_user_write mgmt), FInt (ns_to_free_count mgmt),
      FLong (ns_total_freed_blks mgmt)]"

section \<open>The zone table\<close>

text \<open>The values of the enumeration of the kernel.\<close>

fun zone_cond_code :: "blk_zone_cond \<Rightarrow> u32" where
  "zone_cond_code BLK_ZONE_COND_NOT_WP = 0"
| "zone_cond_code BLK_ZONE_COND_EMPTY = 1"
| "zone_cond_code BLK_ZONE_COND_IMP_OPEN = 2"
| "zone_cond_code BLK_ZONE_COND_EXP_OPEN = 3"
| "zone_cond_code BLK_ZONE_COND_CLOSED = 4"
| "zone_cond_code BLK_ZONE_COND_READONLY = 0xD"
| "zone_cond_code BLK_ZONE_COND_FULL = 0xE"
| "zone_cond_code BLK_ZONE_COND_OFFLINE = 0xF"

definition zmd_fmt :: string where
  "zmd_fmt = fmt_lines [''empty_zone_count: %u'',
     ''full_zone_count: %u'',
     ''nr_total_blks: %d'',
     ''nr_allocable_blks: %d'',
     ''nr_valid_blks: %d'',
     ''reserved_blks_gc: %u'',
     ''reclaim_wm_gc_low: %u'',
     ''reclaim_wm_gc_high: %u'',
     ''zone_size_sectors: %u'',
     ''zone_size_blks: %u'',
     ''nr_zones: %u'',
     ''nr_useable_zones: %u'',
     ''zone_nr_blocks: %u'',
     ''zone_nr_sectors: %u'',
     ''zone_bitmap_size: %u'',
     ''zone_nr_bitmap_blocks: %u'',
     ''zone_reverse_map_size: %u'',
     ''zone_nr_reverse_map_blocks: %u'',
     ''zs_close_times: %lu'',
     ''zs_reset_times: %lu'']"

definition stream_fmt :: string where
  "stream_fmt = fmt_lines [''active_zone_writes[%d]: %llu'']"

definition zone_fmt :: string where
  "zone_fmt = fmt_lines [''zone(%d): state(%d), flags(%lu), refcount(%d), wp_block(%u),'' @
     ''start_sector(%u), len_sectors(%u), capacity_sectors(%u), weight(%u),'' @
     ''pending_write_io(%d), valid_percent(%d%%), stream(%d)'']"

text \<open>The share of live blocks: an int times 100, divided as an unsigned int.\<close>

definition valid_percent :: "lbz_zone_metadata \<Rightarrow> lbz_zone \<Rightarrow> u32 option" where
  "valid_percent zmd z = (if zmd_zone_nr_blocks zmd = 0 then None else Some (z_weight z * 100 div zmd_zone_nr_blocks zmd))"

definition show_zone :: "lbz_zone_metadata \<Rightarrow> nat \<Rightarrow> string option" where
  "show_zone zmd i = do {
     zone \<leftarrow> zmd_zones zmd i;
     percent \<leftarrow> valid_percent zmd zone;
     seq_printf zone_fmt [FInt (z_id zone), FInt (zone_cond_code (z_state zone)), FLong (z_flags zone),
       FInt (z_refcount zone), FInt (z_wp_block zone), FInt (z_start_sector zone), FInt (z_len_sectors zone),
       FInt (z_capacity_sectors zone), FInt (z_weight zone), FInt (z_pending_write_io zone), FInt percent,
       FInt (word_of_int (z_stream zone))]
   }"

definition show_stream :: "lbz_zone_metadata \<Rightarrow> nat \<Rightarrow> string option" where
  "show_stream zmd i = seq_printf stream_fmt [FInt (of_nat i), FLong (zmd_active_zone_writes zmd i)]"

text \<open>The output of a loop.\<close>

fun show_all :: "(nat \<Rightarrow> string option) \<Rightarrow> nat list \<Rightarrow> string option" where
  "show_all f [] = Some []"
| "show_all f (i # is) = do { s \<leftarrow> f i; r \<leftarrow> show_all f is; Some (s @ r) }"

definition lbz_zone_proc_read :: "lbz_zone_metadata \<Rightarrow> string option" where
  "lbz_zone_proc_read zmd = do {
     h \<leftarrow> seq_printf zmd_fmt
      [FInt (zmd_empty_zone_count zmd), FInt (zmd_full_zone_count zmd), FInt (zmd_nr_total_blks zmd),
       FInt (zmd_nr_allocable_blks zmd), FInt (zmd_nr_valid_blks zmd), FInt (zmd_reserved_blks_gc zmd),
       FInt (zmd_reclaim_wm_gc_low zmd), FInt (zmd_reclaim_wm_gc_high zmd), FInt (zmd_zone_size_sectors zmd),
       FInt (zmd_zone_size_blks zmd), FInt (zmd_nr_zones zmd), FInt (zmd_nr_useable_zones zmd),
       FInt (zmd_zone_nr_blocks zmd), FInt (zmd_zone_nr_sectors zmd), FInt (zmd_zone_bitmap_size zmd),
       FInt (zmd_zone_nr_bitmap_blocks zmd), FInt (zmd_zone_reverse_map_size zmd),
       FInt (zmd_zone_nr_reverse_map_blocks zmd), FLong (zmd_zs_close_times zmd),
       FLong (zmd_zs_reset_times zmd)];
     st \<leftarrow> show_all (show_stream zmd) [0..<LBZ_ZONE_MAX_STREAM];
     hd \<leftarrow> seq_printf (fmt_lines [''-------zone info-------'']) [];
     zs \<leftarrow> show_all (show_zone zmd) [0..<unat (zmd_nr_zones zmd)];
     Some (h @ st @ hd @ zs)
   }"

section \<open>The device\<close>

definition device_fmt :: string where
  "device_fmt = fmt_lines [''devname: %s'',
     ''meta_bytes:%u'',
     ''dev_size: %llu(%llu GiB)'',
     ''refcnt:%u'',
     ''transaction_id:%lld'',
     ''timestamp:%lld'',
     ''nr_zones: %u'',
     ''flags: %lu'',
     ''user_write_inflight_io_cnt: %lld'',
     ''user_read_inflight_io_cnt: %lld'',
     ''user_read_err_cnt: %lld'',
     ''user_read_zero_cnt: %lld'',
     ''user_write_err_cnt: %lld'',
     ''user_encounter_emergency: %lld'',
     ''write_alloc_encounter_eagain: %lld'',
     ''gc_alloc_encounter_eagain: %lld'',
     ''user_write_blocks: %lld(%lld GiB)'',
     ''user_read_blocks: %lld(%lld GiB)'',
     ''gc_inflight_io_cnt: %lld'',
     ''gc_write_err_cnt: %lld'',
     ''gc_read_err_cnt: %lld'',
     ''gc_read_blocks: %lld(%lld GiB)'',
     ''gc_write_blocks: %lld(%lld GiB)'',
     ''gc_write_agency_blocks: %lld'',
     ''gc_write_complete_blocks: %lld'',
     ''gc_write_discarded_blocks: %lld'',
     ''gc_reset_blocks: %ld'',
     ''gc read percentage: %lld%%'',
     ''gc write percentage: %lld%%'',
     ''lbz_mem_bytes: %lld(%llu MiB)'']"

text \<open>Blocks in GiB; the counters are signed.\<close>

definition blocks_gib :: "u64 \<Rightarrow> u64" where
  "blocks_gib n = signed_drop_bit (30 - LBZ_DATA_BLK_SHIFT) n"

text \<open>Signed division, which traps on zero and when the quotient does not fit.\<close>

definition s64_div :: "u64 \<Rightarrow> u64 \<Rightarrow> u64 option" where
  "s64_div a b = (if b = 0 \<or> b = - 1 \<and> sint a = - (2 ^ 63) then None else Some (word_of_int (sint a sdiv sint b)))"

definition gc_percent :: "u64 \<Rightarrow> u64 \<Rightarrow> u64 option" where
  "gc_percent n reset = (if reset = 0 then Some 0 else s64_div (n * 100) reset)"

definition read_device_info :: "u64 \<Rightarrow> lbz_node \<Rightarrow> string option" where
  "read_device_info mem n = (let dev = nd_dev n in do {
     rd \<leftarrow> gc_percent (d_gc_read_blocks dev) (d_gc_reset_blocks dev);
     wr \<leftarrow> gc_percent (d_gc_write_blocks dev) (d_gc_reset_blocks dev);
     seq_printf device_fmt
      [FStr (nd_devname n), FInt (d_meta_bytes dev), FLong (d_dev_size dev),
       FLong (drop_bit (30 - SECTOR_SHIFT) (d_dev_size dev)), FInt (d_refcnt dev),
       FLong (d_transaction_id dev), FLong (d_timestamp dev), FInt (d_nr_zones dev), FLong (d_flags dev),
       FLong (d_user_write_inflight_io_cnt dev), FLong (d_user_read_inflight_io_cnt dev),
       FLong (d_user_read_err_cnt dev), FLong (d_user_read_zero_cnt dev), FLong (d_user_write_err_cnt dev),
       FLong (d_user_encounter_emergency dev), FLong (d_write_alloc_encounter_eagain dev),
       FLong (d_gc_alloc_encounter_eagain dev), FLong (d_user_write_blocks dev),
       FLong (blocks_gib (d_user_write_blocks dev)), FLong (d_user_read_blocks dev),
       FLong (blocks_gib (d_user_read_blocks dev)), FLong (d_gc_inflight_io_cnt dev),
       FLong (d_gc_write_err_cnt dev), FLong (d_gc_read_err_cnt dev), FLong (d_gc_read_blocks dev),
       FLong (blocks_gib (d_gc_read_blocks dev)), FLong (d_gc_write_blocks dev),
       FLong (blocks_gib (d_gc_write_blocks dev)), FLong (d_gc_write_agency_blocks dev),
       FLong (d_gc_write_complete_blocks dev), FLong (d_gc_write_discarded_blocks dev),
       FLong (d_gc_reset_blocks dev), FLong rd, FLong wr, FLong mem, FLong (signed_drop_bit 20 mem)]
   })"

definition heading :: "string \<Rightarrow> string option" where
  "heading s = seq_printf (fmt_lines [''------------'' @ s @ ''------------'']) []"

text \<open>\<open>now\<close> is the clock of the kernel.\<close>

definition read_lbz_dev_proc :: "u64 \<Rightarrow> lbz_module \<Rightarrow> lbz_node \<Rightarrow> string option" where
  "read_lbz_dev_proc now m n = do {
     h1 \<leftarrow> heading ''device info'';
     dv \<leftarrow> read_device_info (lm_mem m) n;
     h2 \<leftarrow> heading ''io scheduler'';
     io \<leftarrow> lbz_iosched_proc_read (d_iosched (nd_dev n));
     h3 \<leftarrow> heading ''gc context'';
     gc \<leftarrow> lbz_gc_proc_read now (d_gc_ctx (nd_dev n));
     h4 \<leftarrow> heading ''nat-sit mgmt'';
     ns \<leftarrow> lbz_nat_sit_proc_read (d_nat_sit_mgmt (nd_dev n));
     h5 \<leftarrow> heading ''zone metadata'';
     zm \<leftarrow> lbz_zone_proc_read (d_zone_metadata (nd_dev n));
     Some (h1 @ dv @ h2 @ io @ h3 @ gc @ h4 @ ns @ h5 @ zm)
   }"

text \<open>The sequence of the entry has one element.\<close>

definition dev_seq_start :: "nat \<Rightarrow> bool" where
  "dev_seq_start pos = (pos < 1)"

definition dev_seq_next :: "nat \<Rightarrow> bool" where
  "dev_seq_next pos = False"

section \<open>The formats fit their arguments\<close>

lemma format_types_eval:
  "format_types iosched_fmt = Some [TInt, TInt, TLong]"
  "format_types gc_fmt = Some [TInt, TLong, TLong, TLong, TLong, TLong]"
  "format_types nat_sit_fmt = Some (replicate 13 TInt @ replicate 4 TLong @ [TInt, TLong])"
  "format_types stream_fmt = Some [TInt, TLong]"
  "format_types zone_fmt = Some ([TInt, TInt, TLong] @ replicate 9 TInt)"
  "format_types zmd_fmt = Some (replicate 18 TInt @ replicate 2 TLong)"
  "format_types device_fmt = Some ([TStr, TInt, TLong, TLong, TInt, TLong, TLong, TInt] @ replicate 28 TLong)"
  by code_simp+

lemmas show_typed = seq_printf_typed [THEN iffD2]

lemma device_info_types: "[TStr, TInt, TLong, TLong, TInt, TLong, TLong, TInt] @ replicate 28 TLong =
   [TStr, TInt, TLong, TLong, TInt, TLong, TLong, TInt, TLong, TLong, TLong, TLong, TLong, TLong, TLong, TLong, TLong,
    TLong, TLong, TLong, TLong, TLong, TLong, TLong, TLong, TLong, TLong, TLong, TLong, TLong, TLong, TLong, TLong, TLong, TLong, TLong]"
  by (simp add: eval_nat_numeral)

lemma show_parts:
  "lbz_iosched_proc_read io \<noteq> None" "lbz_gc_proc_read now ctx \<noteq> None" "lbz_nat_sit_proc_read mgmt \<noteq> None"
  "show_stream zmd i \<noteq> None"
  unfolding lbz_iosched_proc_read_def lbz_gc_proc_read_def lbz_nat_sit_proc_read_def show_stream_def
  by (rule show_typed; simp add: format_types_eval eval_nat_numeral)+

lemma heading_ok: "s \<in> {''device info'', ''io scheduler'', ''gc context'', ''nat-sit mgmt'', ''zone metadata''} \<Longrightarrow> heading s \<noteq> None"
  unfolding heading_def by (rule show_typed) (elim insertE emptyE; hypsubst; code_simp)

lemma show_all_ok: "(\<And>i. i \<in> set is \<Longrightarrow> f i \<noteq> None) \<Longrightarrow> show_all f is \<noteq> None"
  by (induction "is") (auto simp: bind_eq_None_conv)

lemma show_zone_ok:
  assumes "zmd_zones zmd i = Some z" "zmd_zone_nr_blocks zmd \<noteq> 0"
  shows "show_zone zmd i \<noteq> None"
proof -
  have "seq_printf zone_fmt [FInt a, FInt b, FLong c, FInt d, FInt e, FInt f, FInt g, FInt h, FInt j, FInt k, FInt l, FInt m] \<noteq> None"
    for a b c d e f g h j k l m by (rule show_typed) (simp add: format_types_eval eval_nat_numeral)
  then show ?thesis using assms by (simp add: show_zone_def valid_percent_def)
qed

lemma zone_proc_read_ok:
  assumes "zmd_wf zmd"
  shows "lbz_zone_proc_read zmd \<noteq> None"
proof -
  have z: "show_zone zmd i \<noteq> None" if "i < unat (zmd_nr_zones zmd)" for i
  proof -
    obtain z where "zmd_zones zmd i = Some z" using assms \<open>i < _\<close> unfolding zmd_wf_def wf_zones_def by blast
    then show ?thesis by (rule show_zone_ok) (use assms in \<open>simp add: zmd_wf_def wf_zones_def\<close>)
  qed
  have "show_all (show_zone zmd) [0..<unat (zmd_nr_zones zmd)] \<noteq> None" by (rule show_all_ok) (use z in simp)
  moreover have "show_all (show_stream zmd) [0..<LBZ_ZONE_MAX_STREAM] \<noteq> None" by (rule show_all_ok) (rule show_parts)
  moreover have "seq_printf (fmt_lines [''-------zone info-------'']) [] \<noteq> None" by (rule show_typed) code_simp
  moreover have "seq_printf zmd_fmt
      [FInt a1, FInt a2, FInt a3, FInt a4, FInt a5, FInt a6, FInt a7, FInt a8, FInt a9, FInt b1, FInt b2, FInt b3,
       FInt b4, FInt b5, FInt b6, FInt b7, FInt b8, FInt b9, FLong c1, FLong c2] \<noteq> None"
    for a1 a2 a3 a4 a5 a6 a7 a8 a9 b1 b2 b3 b4 b5 b6 b7 b8 b9 c1 c2
    by (rule show_typed) (simp add: format_types_eval eval_nat_numeral)
  ultimately show ?thesis by (auto simp: lbz_zone_proc_read_def)
qed

lemma gc_percent_ok: "b \<noteq> - 1 \<Longrightarrow> gc_percent n b \<noteq> None"
  by (simp add: gc_percent_def s64_div_def)

lemma device_info_ok:
  assumes "d_gc_reset_blocks (nd_dev n) \<noteq> - 1"
  shows "read_device_info mem n \<noteq> None"
proof -
  have f: "gc_percent k (d_gc_reset_blocks (nd_dev n)) = Some (the (gc_percent k (d_gc_reset_blocks (nd_dev n))))" for k
    using gc_percent_ok [OF assms] by simp
  obtain rd wr where rw: "gc_percent (d_gc_read_blocks (nd_dev n)) (d_gc_reset_blocks (nd_dev n)) = Some rd"
    "gc_percent (d_gc_write_blocks (nd_dev n)) (d_gc_reset_blocks (nd_dev n)) = Some wr" using f by blast
  show ?thesis unfolding read_device_info_def Let_def rw bind.bind_lunit
    by (rule show_typed) (simp only: format_types_eval device_info_types list.map farg_type_of.simps)
qed

lemma percent_bound:
  assumes wf: "zmd_wf zmd" and z: "zmd_zones zmd p = Some z" and nr: "unat (zmd_zone_nr_blocks zmd) * 100 < 2 ^ 32"
  shows "\<exists>w. valid_percent zmd z = Some w \<and> unat w = unat (z_weight z) * 100 div unat (zmd_zone_nr_blocks zmd) \<and> unat w \<le> 100"
proof -
  have n0: "zmd_zone_nr_blocks zmd \<noteq> 0" using wf by (simp add: zmd_wf_def wf_zones_def)
  have "zone_acct (zmd_zone_nr_blocks zmd) z" using zmd_wf_zone_ok [OF wf z] by (simp add: zone_ok_def)
  then have w: "unat (z_weight z) \<le> unat (zmd_zone_nr_blocks zmd)"
    using zone_weight_le by (simp add: word_le_nat_alt)
  then have m: "unat (z_weight z * 100) = unat (z_weight z) * 100"
    using nr by (subst unat_mult_lem [THEN iffD1]) simp_all
  have "unat (z_weight z) * 100 div unat (zmd_zone_nr_blocks zmd) \<le>
      unat (zmd_zone_nr_blocks zmd) * 100 div unat (zmd_zone_nr_blocks zmd)" using w by (intro div_le_mono) simp
  also have "\<dots> = 100" using n0 by (simp add: unat_eq_0)
  finally show ?thesis using n0 m by (simp add: valid_percent_def unat_div)
qed

text \<open>
  C17. Reading the /proc entry of a device is well typed and total: while the zone table is well
  formed, every conversion of every format gets an argument of its width, none is missing or
  left over, no entry of the zone array is null and no division traps, so the text is produced;
  and while a zone has fewer than 2^32 / 100 blocks, the printed share of live blocks is exact
  and at most 100 percent. (The counter of reset blocks must not be -1, the one value by which
  a signed division can trap.)
\<close>

theorem proc_read_total:
  assumes "zmd_wf (d_zone_metadata (nd_dev n))" and "d_gc_reset_blocks (nd_dev n) \<noteq> - 1"
  shows "(\<exists>r. read_lbz_dev_proc now m n = Some r) \<and>
     (\<forall>p z. zmd_zones (d_zone_metadata (nd_dev n)) p = Some z \<longrightarrow>
        unat (zmd_zone_nr_blocks (d_zone_metadata (nd_dev n))) * 100 < 2 ^ 32 \<longrightarrow>
        (\<exists>w. valid_percent (d_zone_metadata (nd_dev n)) z = Some w \<and> unat w \<le> 100 \<and>
           unat w = unat (z_weight z) * 100 div unat (zmd_zone_nr_blocks (d_zone_metadata (nd_dev n)))))"
proof -
  have "\<exists>r. read_lbz_dev_proc now m n = Some r"
    using zone_proc_read_ok [OF assms(1)] device_info_ok [OF assms(2), of "lm_mem m"]
      show_parts(1) [of "d_iosched (nd_dev n)"] show_parts(2) [of now "d_gc_ctx (nd_dev n)"] show_parts(3) [of "d_nat_sit_mgmt (nd_dev n)"]
      heading_ok [of "''device info''"] heading_ok [of "''io scheduler''"] heading_ok [of "''gc context''"]
      heading_ok [of "''nat-sit mgmt''"] heading_ok [of "''zone metadata''"]
    unfolding read_lbz_dev_proc_def by (auto simp: bind_eq_Some_conv)
  then show ?thesis using percent_bound [OF assms(1)] by blast
qed

end
