(* ===== verification/Task_Types.thy ===== *)
theory Task_Types
  imports Gc
begin

text \<open>
  The unions of a task. \<open>pending_gc_node\<close> and \<open>iosched\<close> of \<open>struct lbz_io_task\<close> share memory, and
  nothing in a task says which of them is there: a user's task holds the first, a collector's task
  from its first submission on the second. The theory types the tasks by this rule and shows that the
  handlers keep the types. The one place that writes into the task of another request is the
  collector's, when its copy finds the block locked; it keeps the types if no other copy of the
  same block exists.

  The proofs run through the code of a handler with a rule for each function, in the manner of
  weakest preconditions: \<open>allp Q x\<close> says that \<open>Q\<close> holds of the result of \<open>x\<close>, if there is one.
\<close>

section \<open>Types of tasks\<close>

definition task_typed :: "lbz_io_task \<Rightarrow> bool" where
  "task_typed tk \<longleftrightarrow>
     (if t_type tk = LBZ_TASK_GC
      then (if t_status tk = LBZ_TASK_INIT then t_gc tk = GcNull
            else t_gc tk = GcIosched \<and>
              t_status tk \<in> {LBZ_TASK_GC_READING, LBZ_TASK_ALLOC_RES, LBZ_TASK_GC_WRITING, LBZ_TASK_DISPATCH})
      else t_gc tk \<noteq> GcIosched \<and>
        t_status tk \<in> {LBZ_TASK_INIT, LBZ_TASK_ALLOC_RES, LBZ_TASK_IO_WRITING, LBZ_TASK_DISPATCH})"

definition tasks_typed :: "lbz_sys \<Rightarrow> bool" where
  "tasks_typed s \<longleftrightarrow> (\<forall>t tk. sy_tasks s t = Some tk \<longrightarrow> task_typed tk)"

text \<open>
  The same, where the tasks of \<open>G\<close> are known to be the collector's with the scheduler in their
  union, and those of \<open>U\<close> to be the user's.
\<close>

definition typed_in :: "tptr set \<Rightarrow> tptr set \<Rightarrow> lbz_sys \<Rightarrow> bool" where
  "typed_in G U s \<longleftrightarrow> (\<forall>t tk. sy_tasks s t = Some tk \<longrightarrow> task_typed tk \<and>
     (t \<in> G \<longrightarrow> t_type tk = LBZ_TASK_GC \<and> t_gc tk = GcIosched) \<and> (t \<in> U \<longrightarrow> t_type tk \<noteq> LBZ_TASK_GC))"

lemma typed_in_none: "tasks_typed s \<longleftrightarrow> typed_in {} {} s"
  by (simp add: tasks_typed_def typed_in_def)

lemma typed_in_typed: "typed_in G U s \<Longrightarrow> tasks_typed s"
  by (auto simp: tasks_typed_def typed_in_def)

lemma typed_in_tasks [simp]:
  "typed_in G U (s\<lparr>sy_dev := d\<rparr>) = typed_in G U s" "typed_in G U (s\<lparr>sy_bios := bs\<rparr>) = typed_in G U s"
  "typed_in G U (s\<lparr>sy_ctxs := cs\<rparr>) = typed_in G U s" "typed_in G U (s\<lparr>sy_pages := ps\<rparr>) = typed_in G U s"
  "typed_in G U (s\<lparr>sy_inflight := xs\<rparr>) = typed_in G U s" "typed_in G U (s\<lparr>sy_done := ds\<rparr>) = typed_in G U s"
  "typed_in G U (s\<lparr>sy_flush_done := fs\<rparr>) = typed_in G U s" "typed_in G U (s\<lparr>sy_next := n\<rparr>) = typed_in G U s"
  "typed_in G U (upd_dev f s) = typed_in G U s" "typed_in G U (upd_iosched g s) = typed_in G U s"
  by (simp_all add: typed_in_def upd_dev_def upd_iosched_def)

section \<open>Running through a handler\<close>

definition allp :: "('a \<Rightarrow> bool) \<Rightarrow> 'a option \<Rightarrow> bool" where
  "allp Q x \<longleftrightarrow> (\<forall>y. x = Some y \<longrightarrow> Q y)"

named_theorems wp

lemma allpI: "(\<And>y. x = Some y \<Longrightarrow> Q y) \<Longrightarrow> allp Q x"
  by (simp add: allp_def)

lemma allpD: "allp Q x \<Longrightarrow> x = Some y \<Longrightarrow> Q y"
  by (simp add: allp_def)

lemma allp_mono: "allp P x \<Longrightarrow> (\<And>y. P y \<Longrightarrow> Q y) \<Longrightarrow> allp Q x"
  by (simp add: allp_def)

lemma allp_simps [simp]: "allp Q (Some y) = Q y" "allp Q None"
  by (simp_all add: allp_def)

lemma allp_bind [wp]: "allp (\<lambda>y. allp Q (f y)) x \<Longrightarrow> allp Q (x \<bind> f)"
  by (cases x) simp_all

lemma allp_if [wp]: "(c \<Longrightarrow> allp Q x) \<Longrightarrow> (\<not> c \<Longrightarrow> allp Q y) \<Longrightarrow> allp Q (if c then x else y)"
  by simp

lemma allp_cases [wp]:
  "(\<And>a b. p = (a, b) \<Longrightarrow> allp Q (f a b)) \<Longrightarrow> allp Q (case p of (a, b) \<Rightarrow> f a b)"
  "(w = None \<Longrightarrow> allp Q x) \<Longrightarrow> (\<And>y. w = Some y \<Longrightarrow> allp Q (g y)) \<Longrightarrow> allp Q (case w of None \<Rightarrow> x | Some y \<Rightarrow> g y)"
  "(\<And>e. r = Inl e \<Longrightarrow> allp Q (h e)) \<Longrightarrow> (\<And>v. r = Inr v \<Longrightarrow> allp Q (k v)) \<Longrightarrow>
     allp Q (case r of Inl e \<Rightarrow> h e | Inr v \<Rightarrow> k v)"
  by (simp_all split: prod.split option.split sum.split)

lemma allp_status [wp]:
  assumes "st = LBZ_TASK_INIT \<Longrightarrow> allp Q a" "st = LBZ_TASK_ALLOC_RES \<Longrightarrow> allp Q b" "st = LBZ_TASK_GC_READING \<Longrightarrow> allp Q c"
    "st = LBZ_TASK_GC_WRITING \<Longrightarrow> allp Q d" "st = LBZ_TASK_IO_WRITING \<Longrightarrow> allp Q e" "st = LBZ_TASK_DISPATCH \<Longrightarrow> allp Q f"
    "st = LBZ_TASK_RETRY \<Longrightarrow> allp Q g"
  shows "allp Q (case_lbz_task_status a b c d e f g st)"
  using assms by (cases st) simp_all

lemma allp_endio [wp]:
  assumes "\<And>n. h = UserEndio n \<Longrightarrow> allp Q (a n)" "\<And>x. h = FlushBioEndio x \<Longrightarrow> allp Q (b x)"
    "\<And>n. h = LongBioEndio n \<Longrightarrow> allp Q (c n)" "\<And>t k x. h = WriteIoEndio t k x \<Longrightarrow> allp Q (d t k x)"
    "\<And>z k x. h = ReadIoEndio z k x \<Longrightarrow> allp Q (e z k x)" "\<And>t. h = GcReadEndio t \<Longrightarrow> allp Q (f t)"
    "\<And>t. h = GcWriteEndio t \<Longrightarrow> allp Q (g t)"
  shows "allp Q (case_endio a b c d e f g h)"
  using assms by (cases h) simp_all

lemma allp_buf [wp]:
  assumes "i = BufNull \<Longrightarrow> allp Q a" "\<And>e. i = BufErr e \<Longrightarrow> allp Q (b e)" "\<And>l. i = Buf l \<Longrightarrow> allp Q (c l)"
  shows "allp Q (case_integrity_buf a b c i)"
  using assms by (cases i) simp_all

text \<open>Reading a field or a store.\<close>

lemmas allp_reads [wp] =
  allpI [of "sy_tasks s t" for s t] allpI [of "sy_bios s b" for s b] allpI [of "sy_ctxs s c" for s c]
  allpI [of "sy_pages s g" for s g] allpI [of "t_zone tk" for tk] allpI [of "t_page tk" for tk]
  allpI [of "t_bio tk" for tk] allpI [of "read_zone tk" for tk] allpI [of "task_iosched tk" for tk]
  allpI [of "pending_gc_node tk" for tk] allpI [of "zmd_zones m p" for m p]
  allpI [of "lbz_mapping_add K m b p" for K m b p] allpI [of "lbz_mapping_lookup K m b z" for K m b z]
  allpI [of "map_option g x" for g x] allpI [of "lbz_zone_alloc_res ss fy md i z g" for ss fy md i z g]
  allpI [of "lbz_nat_sit_add_blkid b m" for b m]

lemma typed_taskD: "typed_in G U s \<Longrightarrow> sy_tasks s t = Some tk \<Longrightarrow> task_typed tk"
  by (simp add: typed_in_def)

section \<open>Functions that do not touch the tasks\<close>

text \<open>Each of them gives the rule of its use in a handler.\<close>

lemma typed_in_cong: "typed_in G U s \<Longrightarrow> sy_tasks s' = sy_tasks s \<Longrightarrow> typed_in G U s'"
  by (simp add: typed_in_def)

lemma upd_zmd_tasks: "upd_zmd f s = Some s' \<Longrightarrow> sy_tasks s' = sy_tasks s"
  by (auto simp: upd_zmd_def bind_eq_Some_conv upd_dev_def)

lemma put_zone_tasks: "put_zone p s = Some s' \<Longrightarrow> sy_tasks s' = sy_tasks s"
  unfolding put_zone_def by (rule upd_zmd_tasks)

lemma upd_bio_tasks: "upd_bio b f s = Some s' \<Longrightarrow> sy_tasks s' = sy_tasks s"
  by (auto simp: upd_bio_def split: option.splits)

lemma bio_put_tasks: "bio_put b s = Some s' \<Longrightarrow> sy_tasks s' = sy_tasks s"
  by (auto simp: bio_put_def split: option.splits)

lemma submit_bio_tasks: "submit_bio b s = Some s' \<Longrightarrow> sy_tasks s' = sy_tasks s"
  by (auto simp: submit_bio_def split: option.splits)

lemma bio_endio_user_tasks: "bio_endio_user b s = Some s' \<Longrightarrow> sy_tasks s' = sy_tasks s"
  by (cases "bi_end_io (the (sy_bios s b))") (auto simp: bio_endio_user_def bind_eq_Some_conv)

lemma long_bio_endio_tasks:
  assumes "lbz_long_bio_endio b c s = Some s'" shows "sy_tasks s' = sy_tasks s"
  using assms
  by (auto simp: lbz_long_bio_endio_def bind_eq_Some_conv Let_def split: if_split_asm
      dest!: upd_bio_tasks bio_endio_user_tasks bio_put_tasks)

lemma endio_unhooked_tasks: "bio_endio_unhooked b s = Some s' \<Longrightarrow> sy_tasks s' = sy_tasks s"
  by (cases "bi_end_io (the (sy_bios s b))")
    (auto simp: bio_endio_unhooked_def bind_eq_Some_conv dest: long_bio_endio_tasks bio_endio_user_tasks)

lemma unhook_io_tasks: "unhook_io b s = Some s' \<Longrightarrow> sy_tasks s' = sy_tasks s"
  by (auto simp: unhook_io_def bind_eq_Some_conv dest!: upd_bio_tasks endio_unhooked_tasks)

lemma hook_io_tasks:
  "hook_io_write b blkid t s = Some s' \<Longrightarrow> sy_tasks s' = sy_tasks s"
  "hook_io_read b blkid p s = Some s' \<Longrightarrow> sy_tasks s' = sy_tasks s"
  by (auto simp: hook_io_write_def hook_io_read_def bind_eq_Some_conv upd_dev_def dest!: upd_bio_tasks)

lemma del_task_tasks: "del_task_from_tree K t s = Some s' \<Longrightarrow> sy_tasks s' = sy_tasks s"
  by (auto simp: del_task_from_tree_def Let_def upd_iosched_def upd_dev_def split: if_split_asm)

lemma read_io_endio_tasks: "lbz_read_io_endio b s = Some s' \<Longrightarrow> sy_tasks s' = sy_tasks s"
  by (auto simp: lbz_read_io_endio_def bind_eq_Some_conv upd_dev_def Let_def split: if_split_asm
      dest!: unhook_io_tasks put_zone_tasks)

lemma alloc_stream_tasks: "alloc_res_stream E md sid s = Some (r, s') \<Longrightarrow> sy_tasks s' = sy_tasks s"
  by (auto simp: alloc_res_stream_def bind_eq_Some_conv upd_dev_def)

lemma alloc_others_tasks: "alloc_other_streams E md sid c is r s = Some (r', s') \<Longrightarrow> sy_tasks s' = sy_tasks s"
proof (induction E md sid c "is" r s rule: alloc_other_streams.induct)
  case (2 E md sid c i "is" r s)
  show ?case
  proof (cases "i = sid")
    case False
    with "2.prems" obtain r1 s1 where a: "alloc_res_stream E md i s = Some (r1, s1)"
      "(case r1 of Inr p \<Rightarrow> Some (Inr p, upd_dev c s1) | Inl e \<Rightarrow> alloc_other_streams E md sid c is (Inl e) s1) = Some (r', s')"
      by (auto simp: bind_eq_Some_conv)
    then show ?thesis
      using "2.IH"(1) [OF False a(1) refl] alloc_stream_tasks [OF a(1)] by (cases r1) (auto simp: upd_dev_def)
  qed (use 2 in simp)
qed simp

lemma alloc_any_tasks:
  assumes "alloc_res_any E md b c s = Some (r, s')"
  shows "sy_tasks s' = sy_tasks s"
proof -
  obtain sid r1 s1 where a: "alloc_res_stream E md sid s = Some (r1, s1)"
    "(case r1 of Inr p \<Rightarrow> Some (Inr p, s1)
      | Inl e \<Rightarrow> (if ev_stream_support E then alloc_other_streams E md sid c [0..<LBZ_ZONE_MAX_STREAM] (Inl e) s1
                 else Some (Inl e, s1))) = Some (r, s')"
    using assms by (auto simp: alloc_res_any_def Let_def bind_eq_Some_conv)
  then show ?thesis
    using alloc_stream_tasks [OF a(1)] by (cases r1) (auto dest: alloc_others_tasks split: if_split_asm)
qed

lemma integrity_tasks: "add_integrity E t l s = Some (r, s') \<Longrightarrow> sy_tasks s' = sy_tasks s"
  by (auto simp: add_integrity_def bind_eq_Some_conv upd_dev_def Let_def
      split: option.split_asm prod.split_asm lbz_task_type.split_asm if_split_asm)

lemma gc_remap_tasks: "gc_remap K tk p s = Some s' \<Longrightarrow> sy_tasks s' = sy_tasks s"
  by (auto simp: gc_remap_def bind_eq_Some_conv upd_dev_def Let_def split: if_split_asm dest!: upd_zmd_tasks)

lemma write_remap_tasks: "write_remap K tk z p s = Some s' \<Longrightarrow> sy_tasks s' = sy_tasks s"
  by (auto simp: write_remap_def bind_eq_Some_conv upd_dev_def Let_def dest!: upd_zmd_tasks)

lemma gc_write_block_tasks: "init_gc_write_block t s = Some (b, s') \<Longrightarrow> sy_tasks s' = sy_tasks s"
  by (auto simp: init_gc_write_block_def bind_eq_Some_conv Let_def)

lemmas same_tasks = upd_zmd_tasks put_zone_tasks upd_bio_tasks bio_put_tasks submit_bio_tasks endio_unhooked_tasks
  unhook_io_tasks hook_io_tasks del_task_tasks read_io_endio_tasks gc_remap_tasks write_remap_tasks

lemma wp_same [wp]:
  assumes "typed_in G U s" "\<And>s'. typed_in G U s' \<Longrightarrow> Q s'"
  shows "allp Q (upd_zmd f s)" "allp Q (put_zone p s)" "allp Q (upd_bio b h s)" "allp Q (bio_put b s)"
    "allp Q (submit_bio b s)" "allp Q (bio_endio_unhooked b s)" "allp Q (unhook_io b s)"
    "allp Q (hook_io_write b k t s)" "allp Q (hook_io_read b k p s)" "allp Q (del_task_from_tree K t s)"
    "allp Q (lbz_read_io_endio b s)" "allp Q (gc_remap K tk a s)" "allp Q (write_remap K tk p a s)"
  by (auto simp: allp_def intro!: assms(2) typed_in_cong [OF assms(1)] dest: same_tasks)

lemma wp_same_pair [wp]:
  assumes "typed_in G U s" "\<And>r s'. typed_in G U s' \<Longrightarrow> Q (r, s')"
  shows "allp Q (alloc_res_any E md b c s)"
  by (auto simp: allp_def intro!: assms(2) typed_in_cong [OF assms(1)] dest: alloc_any_tasks)

lemma wp_integrity [wp]:
  assumes "typed_in G U s" "\<And>r s'. typed_in G U s' \<Longrightarrow> Q (r, s')"
  shows "allp Q (add_integrity E t l s)"
  by (auto simp: allp_def intro!: assms(2) typed_in_cong [OF assms(1)] dest: integrity_tasks)

lemma wp_gc_write_block [wp]:
  assumes "typed_in G U s" "\<And>b s'. typed_in G U s' \<Longrightarrow> Q (b, s')"
  shows "allp Q (init_gc_write_block t s)"
  by (auto simp: allp_def intro!: assms(2) typed_in_cong [OF assms(1)] dest: gc_write_block_tasks)

section \<open>Functions that update a task\<close>

lemma wp_upd_task [wp]:
  assumes "typed_in G U s"
    and "\<And>tk. task_typed tk \<Longrightarrow> t \<in> G \<longrightarrow> t_type tk = LBZ_TASK_GC \<and> t_gc tk = GcIosched \<Longrightarrow>
      t \<in> U \<longrightarrow> t_type tk \<noteq> LBZ_TASK_GC \<Longrightarrow>
      task_typed (f tk) \<and> (t \<in> G \<longrightarrow> t_type (f tk) = LBZ_TASK_GC \<and> t_gc (f tk) = GcIosched) \<and>
      (t \<in> U \<longrightarrow> t_type (f tk) \<noteq> LBZ_TASK_GC)"
    and "\<And>s'. typed_in G U s' \<Longrightarrow> Q s'"
  shows "allp Q (upd_task t f s)"
proof (rule allpI)
  fix s' assume "upd_task t f s = Some s'"
  then obtain tk where "sy_tasks s t = Some tk" "s' = s\<lparr>sy_tasks := (sy_tasks s)(t \<mapsto> f tk)\<rparr>"
    by (auto simp: upd_task_def split: option.splits)
  moreover have "task_typed tk" "t \<in> G \<longrightarrow> t_type tk = LBZ_TASK_GC \<and> t_gc tk = GcIosched" "t \<in> U \<longrightarrow> t_type tk \<noteq> LBZ_TASK_GC"
    using assms(1) calculation(1) unfolding typed_in_def by blast+
  note assms(2) [OF this]
  ultimately have "typed_in G U s'" using assms(1) unfolding typed_in_def by auto
  then show "Q s'" by (rule assms(3))
qed

lemma task_typed_same [simp]:
  "task_typed (tk\<lparr>t_refcount := n\<rparr>) = task_typed tk" "task_typed (tk\<lparr>t_error := e\<rparr>) = task_typed tk"
  "task_typed (tk\<lparr>t_link := l\<rparr>) = task_typed tk" "task_typed (tk\<lparr>t_zone := z\<rparr>) = task_typed tk"
  "task_typed (tk\<lparr>t_bio := b\<rparr>) = task_typed tk" "task_typed (tk\<lparr>t_page := g\<rparr>) = task_typed tk"
  "task_typed (tk\<lparr>t_blkid := k\<rparr>) = task_typed tk" "task_typed (tk\<lparr>t_pbid := k\<rparr>) = task_typed tk"
  "task_typed (tk\<lparr>t_integrity_buf := i\<rparr>) = task_typed tk"
  by (simp_all add: task_typed_def)

lemma wp_task_get [wp]: "typed_in G U s \<Longrightarrow> (\<And>s'. typed_in G U s' \<Longrightarrow> Q s') \<Longrightarrow> allp Q (task_get t s)"
  unfolding task_get_def by (auto intro!: wp)

lemma wp_task_dec [wp]:
  assumes "typed_in G U s" "\<And>tk s'. typed_in G U s' \<Longrightarrow> sy_tasks s' t = Some tk \<Longrightarrow> Q (tk, s')"
  shows "allp Q (task_dec t s)"
proof -
  have "typed_in G U (s\<lparr>sy_tasks := (sy_tasks s)(t \<mapsto> tk\<lparr>t_refcount := n\<rparr>)\<rparr>)" if "sy_tasks s t = Some tk" for tk n
    using assms(1) that by (simp add: typed_in_def)
  then show ?thesis using assms(2) by (auto simp: allp_def task_dec_def bind_eq_Some_conv Let_def)
qed

lemma wp_task_destroy [wp]:
  assumes "typed_in G U s" "\<And>s'. typed_in G U s' \<Longrightarrow> Q s'"
  shows "allp Q (task_destroy t s)"
proof -
  have "typed_in G U (s\<lparr>sy_tasks := (sy_tasks s)(t := None)\<rparr>)" using assms(1) by (simp add: typed_in_def)
  then show ?thesis
    using assms(2) by (auto simp: allp_def task_destroy_def bind_eq_Some_conv split: integrity_buf.split_asm)
qed

lemma wp_gc_task_put [wp]: "typed_in G U s \<Longrightarrow> (\<And>s'. typed_in G U s' \<Longrightarrow> Q s') \<Longrightarrow> allp Q (gc_task_put t s)"
  unfolding gc_task_put_def by (auto intro!: wp)

lemma wp_unwind [wp]:
  assumes "typed_in G U s" "\<And>s'. typed_in G U s' \<Longrightarrow> Q s'"
  shows "allp Q (gc_unwind_init t s)" "allp Q (gc_unwind_reading t s)" "allp Q (gc_unwind_alloc K t s)"
    "allp Q (gc_unwind_writing K t s)"
proof -
  show i: "allp Q (gc_unwind_init t s)" using assms(1) unfolding gc_unwind_init_def by (auto intro!: wp assms(2))
  have r: "allp Q (gc_unwind_reading t s)" if "typed_in G U s" for s
    using that unfolding gc_unwind_reading_def gc_unwind_init_def by (auto intro!: wp assms(2))
  show "allp Q (gc_unwind_reading t s)" by (rule r [OF assms(1)])
  have a: "allp Q (gc_unwind_alloc K t s)" if "typed_in G U s" for s
    using that unfolding gc_unwind_alloc_def by (auto intro!: wp r)
  show "allp Q (gc_unwind_alloc K t s)" by (rule a [OF assms(1)])
  show "allp Q (gc_unwind_writing K t s)" using assms(1) unfolding gc_unwind_writing_def by (auto intro!: wp a)
qed

lemma wp_gc_callback [wp]:
  assumes "typed_in G U s" "\<And>s'. typed_in G U s' \<Longrightarrow> Q s'"
  shows "allp Q (gc_task_callback K t p s)"
  using assms(1) unfolding gc_task_callback_def by (auto intro!: wp assms(2))

lemma wp_task_put [wp]:
  assumes "typed_in G U s" "\<And>s'. typed_in G U s' \<Longrightarrow> Q s'"
  shows "allp Q (task_put K t s)"
  using assms(1) unfolding task_put_def by (auto intro!: wp assms(2))

lemma wp_write_endio [wp]:
  assumes "typed_in G U s" "\<And>s'. typed_in G U s' \<Longrightarrow> Q s'"
  shows "allp Q (lbz_write_io_endio K b s)"
  using assms(1) unfolding lbz_write_io_endio_def Let_def by (auto intro!: wp assms(2))

lemma wp_bio_endio [wp]:
  assumes "typed_in G U s" "\<And>s'. typed_in G U s' \<Longrightarrow> Q s'"
  shows "allp Q (bio_endio K b s)"
  using assms(1) unfolding bio_endio_def by (auto intro!: wp assms(2))

section \<open>Submission of user requests\<close>

lemma wp_insert [wp]:
  assumes "typed_in G U s" "\<And>r s'. typed_in G U s' \<Longrightarrow> Q (r, s')"
  shows "allp Q (insert_task_to_tree K t s)"
  using assms(1) unfolding insert_task_to_tree_def Let_def
  by (auto intro!: wp assms(2) allpI [of "tree_link ts b t tr" for ts b t tr])

lemma wp_write_stage_writing [wp]:
  assumes "typed_in G U s" "t \<in> U" "t \<notin> G" "\<And>r s'. typed_in G U s' \<Longrightarrow> Q (r, s')"
  shows "allp Q (write_stage_writing E t b s)"
  using assms(1-3) unfolding write_stage_writing_def Let_def by (auto intro!: wp assms(4) simp: task_typed_def)

lemma wp_write_stage_alloc [wp]:
  assumes "typed_in G U s" "t \<in> U" "t \<notin> G" "\<And>r s'. typed_in G U s' \<Longrightarrow> Q (r, s')"
  shows "allp Q (write_stage_alloc E t b k s)"
  using assms(1-3) unfolding write_stage_alloc_def Let_def by (auto intro!: wp assms(4) simp: task_typed_def)

lemma wp_submit_write [wp]:
  assumes "typed_in G U s" "t \<in> U" "t \<notin> G" "\<And>r s'. typed_in G U s' \<Longrightarrow> Q (r, s')"
  shows "allp Q (submit_write_task E t s)"
  using assms(1-3) unfolding submit_write_task_def Let_def by (auto intro!: wp assms(4) simp: task_typed_def)

lemma wp_add_lists [wp]:
  assumes "typed_in G U s" "\<And>s'. typed_in G U s' \<Longrightarrow> Q s'"
  shows "allp Q (add_task_to_retry t s)" "allp Q (add_task_to_gc_writes t s)"
  using assms(1) unfolding add_task_to_retry_def add_task_to_gc_writes_def by (auto intro!: wp assms(2))

lemma typed_in_trigger [simp]: "typed_in G U (trigger_retry_work s) = typed_in G U s"
  by (simp add: trigger_retry_work_def)

lemma wp_fail_write [wp]:
  assumes "typed_in G U s" "\<And>s'. typed_in G U s' \<Longrightarrow> Q s'"
  shows "allp Q (fail_write_task E t b st s)"
  using assms(1) unfolding fail_write_task_def Let_def by (auto intro!: wp assms(2))

lemma wp_retry_io [wp]:
  assumes "typed_in {} U s" "set ts \<subseteq> U" "\<And>s'. typed_in {} U s' \<Longrightarrow> Q s'"
  shows "allp Q (retry_io_tasks E ts s)"
  using assms(1,2)
proof (induction ts arbitrary: s)
  case (Cons t ts)
  then show ?case by (auto intro!: wp)
qed (simp add: assms(3))

lemma task_init_typed: "task_typed (task_init type) \<and> t_type (task_init type) = type"
  by (simp add: task_init_def task_typed_def)

lemma typed_in_alloc:
  assumes "typed_in {} {} s" "task_alloc type s = (t, s')"
  shows "typed_in {} (if type = LBZ_TASK_GC then {} else {t}) s'"
  using assms task_init_typed [of type] by (auto simp: typed_in_def task_alloc_def split: if_split_asm)

lemma wp_read_io [wp]:
  assumes "typed_in G U s" "\<And>s'. typed_in G U s' \<Longrightarrow> Q s'"
  shows "allp Q (submit_read_io K b s)"
  using assms(1) unfolding submit_read_io_def Let_def by (auto intro!: wp assms(2))

lemma classify_user: "fst (classify_write k f m) \<noteq> LBZ_TASK_GC"
  by (simp add: classify_write_def)

lemma typed_in_weaken: "typed_in G U s \<Longrightarrow> typed_in {} {} s"
  by (simp add: typed_in_def)

lemma wp_alloc_user:
  assumes "typed_in {} {} s" "type \<noteq> LBZ_TASK_GC" "\<And>t s'. typed_in {} {t} s' \<Longrightarrow> allp Q (f t s')"
  shows "allp Q (case task_alloc type s of (t, s') \<Rightarrow> f t s')"
  using typed_in_alloc [OF assms(1)] assms(2,3) by (cases "task_alloc type s") fastforce

lemma wp_classify:
  assumes "\<And>type m. type \<noteq> LBZ_TASK_GC \<Longrightarrow> allp Q (f type m)"
  shows "allp Q (case classify_write k fl mgmt of (type, m) \<Rightarrow> f type m)"
  using classify_user [of k fl mgmt] assms by (cases "classify_write k fl mgmt") simp

lemma submit_io_typed:
  assumes "typed_in {} {} s"
  shows "allp (typed_in {} {}) (lbz_submit_io_to_iosched E b s)"
  unfolding lbz_submit_io_to_iosched_def Let_def
proof (rule allp_bind, rule allpI, rule allp_if)
  fix x
  let ?s = "upd_dev (\<lambda>d. d\<lparr>d_user_write_blocks := d_user_write_blocks d + 1,
      d_user_write_inflight_io_cnt := d_user_write_inflight_io_cnt d + 1\<rparr>) s"
  show "allp (typed_in {} {}) (case classify_write (sector_to_blkid (bi_sector x)) (bi_flush x) (d_nat_sit_mgmt (sy_dev ?s)) of
      (type, mgmt) \<Rightarrow> (case task_alloc type (upd_dev (\<lambda>d. d\<lparr>d_nat_sit_mgmt := mgmt\<rparr>) ?s) of (t, s) \<Rightarrow> do {
         s \<leftarrow> upd_task t (\<lambda>tk. tk\<lparr>t_bio := Some b\<rparr>) s;
         (r, s) \<leftarrow> submit_write_task E t s;
         case r of
           None \<Rightarrow> Some s
         | Some e \<Rightarrow>
             (if e = EAGAIN
              then do {
                s \<leftarrow> add_task_to_retry t
                  (upd_dev (\<lambda>d. d\<lparr>d_user_encounter_emergency := d_user_encounter_emergency d + 1\<rparr>) s);
                Some (trigger_retry_work s)
              }
              else fail_write_task E t b None s) }))"
  proof (rule wp_classify, rule wp_alloc_user)
    fix t s1 assume "typed_in {} {t} s1"
    then show "allp (typed_in {} {}) (do {
         s \<leftarrow> upd_task t (\<lambda>tk. tk\<lparr>t_bio := Some b\<rparr>) s1;
         (r, s) \<leftarrow> submit_write_task E t s;
         case r of
           None \<Rightarrow> Some s
         | Some e \<Rightarrow>
             (if e = EAGAIN
              then do {
                s \<leftarrow> add_task_to_retry t
                  (upd_dev (\<lambda>d. d\<lparr>d_user_encounter_emergency := d_user_encounter_emergency d + 1\<rparr>) s);
                Some (trigger_retry_work s)
              }
              else fail_write_task E t b None s) })"
      by (auto intro!: wp intro: typed_in_weaken)
  qed (use assms in simp_all)
qed (use assms in \<open>auto intro!: wp\<close>)

section \<open>The collector\<close>

lemma wp_gc_writing [wp]:
  assumes "typed_in G U s" "t \<in> G" "t \<notin> U" "\<And>r s'. typed_in G U s' \<Longrightarrow> Q (r, s')"
  shows "allp Q (gc_stage_writing E t b s)"
  using assms(1-3) unfolding gc_stage_writing_def Let_def
  by (auto intro!: wp assms(4) allpI [of b] simp: task_typed_def)

lemma wp_gc_alloc [wp]:
  assumes "typed_in G U s" "t \<in> G" "t \<notin> U" "\<And>r s'. typed_in G U s' \<Longrightarrow> Q (r, s')"
  shows "allp Q (gc_stage_alloc E t s)"
  using assms(1-3) unfolding gc_stage_alloc_def Let_def by (auto intro!: wp assms(4) simp: task_typed_def)

lemma wp_gc_skip [wp]:
  assumes "typed_in G U s" "\<And>r s'. typed_in G U s' \<Longrightarrow> Q (r, s')"
  shows "allp Q (gc_skip K t s)"
  using assms(1) unfolding gc_skip_def by (auto intro!: wp assms(2))

text \<open>No copy of the same block is in the tree.\<close>

definition copy_alone :: "tptr \<Rightarrow> lbz_sys \<Rightarrow> bool" where
  "copy_alone t s \<longleftrightarrow> (\<forall>q tkq tk. q \<in> set (inorder (s_task_tree (d_iosched (sy_dev s)))) \<longrightarrow> sy_tasks s q = Some tkq \<longrightarrow>
     sy_tasks s t = Some tk \<longrightarrow> t_blkid tkq = t_blkid tk \<longrightarrow> t_type tkq \<noteq> LBZ_TASK_GC)"

lemma tree_link_found:
  "tree_link tasks b t tr = Some (Inl q) \<Longrightarrow> q \<in> set (inorder tr) \<and> (\<exists>tkq. tasks q = Some tkq \<and> t_blkid tkq = b)"
  by (induction tr) (auto split: option.split_asm if_split_asm sum.split_asm)

lemma insert_alone:
  assumes t: "typed_in {t} {} s" and a: "copy_alone t s"
    and q: "\<And>q s'. typed_in {t} {q} s' \<Longrightarrow> Q (Some q, s')" and n: "\<And>s'. typed_in {t} {} s' \<Longrightarrow> Q (None, s')"
  shows "allp Q (insert_task_to_tree K t s)"
  unfolding insert_task_to_tree_def Let_def
proof (rule allp_bind, rule allpI, rule allp_bind, rule allpI, rule allp_cases(3))
  fix tk r q' assume tk: "sy_tasks s t = Some tk" and r: "r = Inl q'"
    "tree_link (sy_tasks s) (t_blkid tk) t (s_task_tree (d_iosched (sy_dev s))) = Some r"
  from tree_link_found [of "sy_tasks s"] r obtain tkq where
    f: "q' \<in> set (inorder (s_task_tree (d_iosched (sy_dev s))))" "sy_tasks s q' = Some tkq" "t_blkid tkq = t_blkid tk" by blast
  then have "t_type tkq \<noteq> LBZ_TASK_GC" using a tk unfolding copy_alone_def by blast
  then have "typed_in {t} {q'} s" using t f(2) by (simp add: typed_in_def)
  then show "allp Q (task_get q' s \<bind> (\<lambda>s. Some (Some q', s)))" by (auto intro!: wp q)
qed (use t in \<open>auto intro!: wp n\<close>)

lemma node_typed: "task_typed tk \<Longrightarrow> t_type tk \<noteq> LBZ_TASK_GC \<Longrightarrow> task_typed (tk\<lparr>t_gc := GcNode g\<rparr>)"
  by (simp add: task_typed_def)

lemma wp_gc_reading:
  assumes t: "typed_in {t} {} s" and a: "copy_alone t s" and q: "\<And>r s'. tasks_typed s' \<Longrightarrow> Q (r, s')"
  shows "allp Q (gc_stage_reading E t s)"
proof -
  have q': "Q (r, s')" if "typed_in G U s'" for G U r s' using q typed_in_typed [OF that] by blast
  have found: "allp Q (do {
      s \<leftarrow> upd_task t (\<lambda>tk. tk\<lparr>t_error := Some ENOENT\<rparr>) s;
      s \<leftarrow> upd_task p (\<lambda>tq. tq\<lparr>t_gc := GcNode t\<rparr>) s;
      s \<leftarrow> task_put (ev_kern E) p s;
      Some (Some ENOENT, s) })" if "typed_in {t} {p} s" for p s
  proof (cases "p = t")
    case True
    then have "sy_tasks s t = None" using that by (cases "sy_tasks s t") (auto simp: typed_in_def)
    then show ?thesis by (simp add: upd_task_def)
  next
    case False
    then show ?thesis using that by (auto intro!: wp q' simp: node_typed)
  qed
  show ?thesis
    unfolding gc_stage_reading_def Let_def
  proof (rule allp_bind, rule allpI, rule allp_bind, rule allpI, rule allp_bind, rule allpI)
    fix tk zone s1
    assume tk: "sy_tasks s t = Some tk" and s1: "upd_task t (\<lambda>tk. tk\<lparr>t_link := LinkZone zone, t_zone := None, t_bio := None\<rparr>) s = Some s1"
    have t1: "typed_in {t} {} s1"
      by (rule allpD [OF wp_upd_task [OF t] s1]) auto
    have "copy_alone t s1"
      using a s1 tk unfolding copy_alone_def by (auto simp: upd_task_def split: if_split_asm)
    then show "allp Q (insert_task_to_tree (ev_kern E) t s1 \<bind> (\<lambda>(r, s). case r of
         Some q \<Rightarrow> do {
           s \<leftarrow> upd_task t (\<lambda>tk. tk\<lparr>t_error := Some ENOENT\<rparr>)
             (upd_dev (\<lambda>d. d\<lparr>d_gc_write_agency_blocks := d_gc_write_agency_blocks d + 1\<rparr>) s);
           s \<leftarrow> upd_task q (\<lambda>tq. tq\<lparr>t_gc := GcNode t\<rparr>) s;
           s \<leftarrow> task_put (ev_kern E) q s;
           Some (Some ENOENT, s) }
       | None \<Rightarrow> do {
         (l, zmd) \<leftarrow> lbz_mapping_lookup (ev_kern E) (d_mapping (sy_dev s)) (t_blkid tk) (d_zone_metadata (sy_dev s));
         case l of
           Inl e \<Rightarrow>
             gc_skip (ev_kern E) t
               (upd_dev (\<lambda>d. d\<lparr>d_gc_write_discarded_blocks := d_gc_write_discarded_blocks d + 1\<rparr>)
                 (upd_dev (\<lambda>d. d\<lparr>d_zone_metadata := zmd\<rparr>) s))
         | Inr (z, origin_pbid) \<Rightarrow> do {
             s \<leftarrow> put_zone z (upd_dev (\<lambda>d. d\<lparr>d_zone_metadata := zmd\<rparr>) s);
             if origin_pbid \<noteq> t_pbid tk
             then gc_skip (ev_kern E) t
                    (upd_dev (\<lambda>d. d\<lparr>d_gc_write_complete_blocks := d_gc_write_complete_blocks d + 1\<rparr>) s)
             else do {
               s \<leftarrow> upd_task t (\<lambda>tk. tk\<lparr>t_status := LBZ_TASK_ALLOC_RES\<rparr>) s;
               gc_stage_alloc E t s
             }
           }
       }))"
      by (intro allp_bind insert_alone [OF t1]) (auto intro!: wp q' found simp: task_typed_def)
  qed
qed

lemma typed_in_upd:
  assumes "typed_in {} {} s" "task_typed tk'"
  shows "typed_in {} {} (s\<lparr>sy_tasks := (sy_tasks s)(t \<mapsto> tk')\<rparr>)"
  using assms by (simp add: typed_in_def)

lemma typed_in_focus:
  "typed_in {} {} s \<Longrightarrow> sy_tasks s t = Some tk \<Longrightarrow> t_type tk = LBZ_TASK_GC \<Longrightarrow> t_gc tk = GcIosched \<Longrightarrow> typed_in {t} {} s"
  by (simp add: typed_in_def)

text \<open>The first submission of a copy stores the scheduler in the union.\<close>

lemma gc_submit_first:
  assumes s: "typed_in {} {} s" and t: "sy_tasks s t = Some tk" "t_type tk = LBZ_TASK_GC" "t_status tk = LBZ_TASK_INIT"
    and Q: "\<And>r s'. typed_in {} {} s' \<Longrightarrow> Q (r, s')"
  shows "allp Q (submit_gc_task E t s)"
proof -
  have "task_typed (tk\<lparr>t_page := g, t_status := LBZ_TASK_GC_READING, t_gc := GcIosched, t_bio := b\<rparr>)" for g b
    using t(2) by (simp add: task_typed_def)
  then have up: "typed_in {} {} (s\<lparr>sy_bios := bs, sy_pages := ps, sy_next := n, sy_tasks := (sy_tasks s)(t \<mapsto>
      tk\<lparr>t_page := g, t_status := LBZ_TASK_GC_READING, t_gc := GcIosched, t_bio := b\<rparr>)\<rparr>)" for bs ps n g b
    using typed_in_upd [of "s\<lparr>sy_bios := bs, sy_pages := ps, sy_next := n\<rparr>"] s by simp
  have "allp Q (do { s \<leftarrow> submit_bio b s'; Some (None, s) })" if "typed_in {} {} s'" for b s' using that by (auto intro!: wp Q)
  then show ?thesis
    using t up by (simp add: submit_gc_task_def init_gc_read_block_def upd_task_def Let_def)
qed

lemma gc_submit_typed:
  assumes s: "typed_in {} {} s" and t: "sy_tasks s t = Some tk" "t_type tk = LBZ_TASK_GC"
    and a: "t_status tk = LBZ_TASK_GC_READING \<Longrightarrow> copy_alone t s"
    and Q: "\<And>r s'. tasks_typed s' \<Longrightarrow> Q (r, s')"
  shows "allp Q (submit_gc_task E t s)"
proof (cases "t_status tk = LBZ_TASK_INIT")
  case True
  then show ?thesis by (intro gc_submit_first [OF s t True]) (use Q typed_in_none in blast)
next
  case False
  then have "t_gc tk = GcIosched" using typed_taskD [OF s t(1)] t(2) by (simp add: task_typed_def)
  then have g: "typed_in {t} {} s" by (rule typed_in_focus [OF s t])
  have Q': "Q (r, s')" if "typed_in {t} {} s'" for r s' by (rule Q) (rule typed_in_typed [OF that])
  have "allp Q (gc_stage_reading E t s)" if "t_status tk = LBZ_TASK_GC_READING"
    by (rule wp_gc_reading [OF g a [OF that]]) (rule Q)
  then show ?thesis using False g t by (auto simp: submit_gc_task_def intro!: wp Q')
qed

lemma wp_gc_submit_new [wp]:
  assumes "typed_in {} {} s" "\<And>s'. typed_in {} {} s' \<Longrightarrow> Q s'"
  shows "allp Q (lbz_submit_gc_to_iosched E p a b s)"
proof -
  let ?tk = "(task_init LBZ_TASK_GC)\<lparr>t_pbid := a, t_link := LinkZone p, t_zone := Some p, t_blkid := b\<rparr>"
  let ?s = "s\<lparr>sy_next := sy_next s + 1, sy_tasks := (sy_tasks s)(sy_next s \<mapsto> ?tk)\<rparr>"
  have s: "typed_in {} {} ?s"
    using typed_in_upd [of "s\<lparr>sy_next := sy_next s + 1\<rparr>" ?tk "sy_next s"] task_init_typed assms(1)
    by (simp add: task_typed_def task_init_def)
  have eq: "lbz_submit_gc_to_iosched E p a b s =
      submit_gc_task E (sy_next s) ?s \<bind> (\<lambda>(r, s). if r \<noteq> None then None else Some s)"
    by (simp add: lbz_submit_gc_to_iosched_def task_alloc_def upd_task_def)
  have "allp (\<lambda>y. allp Q (case y of (r, s) \<Rightarrow> if r \<noteq> None then None else Some s)) (submit_gc_task E (sy_next s) ?s)"
    by (rule gc_submit_first [OF s]) (auto simp: task_init_def intro: assms(2))
  then show ?thesis unfolding eq by (rule allp_bind)
qed

lemma wp_gc_scan [wp]:
  assumes "typed_in {} {} s" "\<And>s'. typed_in {} {} s' \<Longrightarrow> Q s'"
  shows "allp Q (gc_scan E p k pos pbid s)"
  using assms(1)
proof (induction E p k pos pbid s rule: gc_scan.induct)
  case (1 E p k pos pbid s)
  let ?step = "if pos = LBZ_INVALID_PBID then Some s
      else do {
        s \<leftarrow> upd_zmd (upd_zone p lbz_get_zone) s;
        lbz_submit_gc_to_iosched E p pbid pos (upd_dev lbz_inc_gc_inflight s)
      }"
  have step: "allp (typed_in {} {}) ?step" using "1.prems" by (auto intro!: wp)
  show ?case
  proof (subst gc_scan.simps, rule allp_cases(2))
    fix z assume z: "zmd_zones (d_zone_metadata (sy_dev s)) p = Some z"
    have "allp Q (gc_scan E p (k + 1) pos' (pbid + 1) s1)"
      if "k < unat (z_wp_block z)" "?step = Some s1" "zmd_zones (d_zone_metadata (sy_dev s1)) p = Some y"
        "zrms_get (z_zrms y) (k + 1) = Some pos'" for s1 y pos'
      by (rule "1.IH" [OF z that allpD [OF step that(2)]])
    then show "allp Q (if k < unat (z_wp_block z) then do {
        s \<leftarrow> ?step;
        z \<leftarrow> zmd_zones (d_zone_metadata (sy_dev s)) p;
        pos \<leftarrow> zrms_get (z_zrms z) (k + 1);
        gc_scan E p (k + 1) pos (pbid + 1) s } else Some s)"
      using "1.prems" by (intro allp_if allp_bind allpI) (auto intro: assms(2) simp: allp_def)
  qed simp
qed

lemma wp_gc_one_zone [wp]:
  assumes "typed_in {} {} s" "\<And>s'. typed_in {} {} s' \<Longrightarrow> Q s'"
  shows "allp Q (gc_one_zone E p s)"
  using assms(1) unfolding gc_one_zone_def Let_def
  by (auto intro!: wp assms(2) allpI [of "zrms_get z i" for z i])

lemma wp_gc_endio [wp]:
  assumes "typed_in G U s" "\<And>s'. typed_in G U s' \<Longrightarrow> Q s'"
  shows "allp Q (lbz_gc_read_endio K b s)" "allp Q (lbz_gc_write_endio K b s)"
  using assms(1) unfolding lbz_gc_read_endio_def lbz_gc_write_endio_def Let_def
  by (auto intro!: wp assms(2))

section \<open>Every handler keeps the types\<close>

lemma typed_member:
  assumes "typed_in {} {} s" "\<And>t tk. t \<in> U \<Longrightarrow> sy_tasks s t = Some tk \<Longrightarrow> t_type tk \<noteq> LBZ_TASK_GC"
  shows "typed_in {} U s"
  using assms by (simp add: typed_in_def)

lemma retry_io_typed:
  assumes "typed_in {} {} s"
    and "\<And>t tk. t \<in> set (s_user_pending (d_iosched (sy_dev s))) \<Longrightarrow> sy_tasks s t = Some tk \<Longrightarrow> t_type tk \<noteq> LBZ_TASK_GC"
  shows "allp tasks_typed (retry_submit_io_task E s)"
proof -
  let ?U = "set (s_user_pending (d_iosched (sy_dev s)))"
  have "typed_in {} ?U (upd_iosched g s)" for g using typed_member [OF assms] by simp
  then show ?thesis
    unfolding retry_submit_io_task_def by (rule wp_retry_io) (auto intro: typed_in_typed)
qed

lemma union_reads:
  assumes "task_typed tk"
  shows "t_type tk = LBZ_TASK_GC \<Longrightarrow> t_status tk \<noteq> LBZ_TASK_INIT \<Longrightarrow> task_iosched tk = Some ()"
    "t_type tk \<noteq> LBZ_TASK_GC \<Longrightarrow> pending_gc_node tk \<noteq> None"
  using assms by (auto simp: task_typed_def task_iosched_def pending_gc_node_def split: task_gc.splits)

text \<open>
  The copy of task \<open>t\<close> was submitted: its union holds the scheduler.
\<close>

definition copy_sent :: "tptr \<Rightarrow> lbz_sys \<Rightarrow> bool" where
  "copy_sent t s \<longleftrightarrow> (case sy_tasks s t of None \<Rightarrow> False | Some tk \<Rightarrow> t_type tk = LBZ_TASK_GC \<and> t_status tk \<noteq> LBZ_TASK_INIT)"

lemma copy_sentD:
  assumes "tasks_typed s" "copy_sent t s"
  obtains tk where "sy_tasks s t = Some tk" "t_type tk = LBZ_TASK_GC" "task_iosched tk = Some ()"
    "t_status tk \<in> {LBZ_TASK_GC_READING, LBZ_TASK_ALLOC_RES, LBZ_TASK_GC_WRITING, LBZ_TASK_DISPATCH}"
  using assms
  by (auto simp: copy_sent_def tasks_typed_def task_typed_def task_iosched_def split: option.split_asm if_split_asm)

text \<open>Each read of the unions, in the function that makes it.\<close>

lemma task_put_copy:
  assumes "sy_tasks s t = Some tk" "t_type tk = LBZ_TASK_GC"
  shows "task_put K t s = gc_task_put t s"
  using assms by (simp add: task_put_def gc_task_put_def task_dec_def Let_def)

lemma task_put_user:
  assumes s: "tasks_typed s" and t: "sy_tasks s t = Some tk" "t_type tk \<noteq> LBZ_TASK_GC" "t_refcount tk = 1"
    and g: "\<And>g. t_gc tk = GcNode g \<Longrightarrow> copy_sent g s"
  shows "task_put K t s = (let s0 = s\<lparr>sy_tasks := (sy_tasks s)(t \<mapsto> tk\<lparr>t_refcount := 0\<rparr>)\<rparr> in
     case t_gc tk of
       GcNode g \<Rightarrow> do {
         s1 \<leftarrow> (if t_error tk \<noteq> None then upd_task g (\<lambda>gk. gk\<lparr>t_error := t_error tk\<rparr>) s0 else Some s0);
         s2 \<leftarrow> gc_task_callback K g LBZ_INVALID_PBID s1;
         task_destroy t (upd_dev lbz_dec_gc_inflight s2) }
     | _ \<Rightarrow> task_destroy t s0)"
proof (cases "t_gc tk")
  case (GcNode g)
  from copy_sentD [OF s g [OF GcNode]] obtain gk where "sy_tasks s g = Some gk" "t_type gk = LBZ_TASK_GC"
    "task_iosched gk = Some ()" by blast
  moreover from this t have "g \<noteq> t" by auto
  ultimately show ?thesis using t GcNode
    by (simp add: task_put_def task_dec_def Let_def pending_gc_node_def)
next
  case GcIosched
  then show ?thesis using s t by (auto simp: tasks_typed_def task_typed_def)
qed (use t in \<open>simp add: task_put_def task_dec_def Let_def pending_gc_node_def\<close>)

lemma gc_callback_copy:
  assumes "tasks_typed s" "copy_sent t s" "sy_tasks s t = Some tk"
  shows "gc_task_callback K t p s =
     Option.bind (if \<not> is_dev_faulty (sy_dev s) \<and> t_error tk = None then gc_remap K tk p s else Some s)
       (if t_status tk = LBZ_TASK_GC_READING then gc_unwind_reading t
        else if t_status tk = LBZ_TASK_ALLOC_RES then gc_unwind_alloc K t else gc_unwind_writing K t)"
proof -
  obtain tk' where "sy_tasks s t = Some tk'" "task_iosched tk' = Some ()"
    "t_status tk' \<in> {LBZ_TASK_GC_READING, LBZ_TASK_ALLOC_RES, LBZ_TASK_GC_WRITING, LBZ_TASK_DISPATCH}"
    by (rule copy_sentD [OF assms(1,2)])
  then show ?thesis using assms(3) by (cases "t_status tk") (simp_all add: gc_task_callback_def)
qed

lemma gc_read_endio_copy:
  assumes "tasks_typed s" "copy_sent t s" "sy_tasks s t = Some tk" "sy_bios s b = Some x"
    "bi_end_io x = GcReadEndio t" "bi_status x = None"
  shows "lbz_gc_read_endio K b s = Some (upd_iosched (\<lambda>io. io\<lparr>s_gc_write_count := s_gc_write_count io + 1,
       s_gc_writes := s_gc_writes io @ [t], s_retry_queued := True\<rparr>)
     (s\<lparr>sy_tasks := (sy_tasks s)(t \<mapsto> tk\<lparr>t_link := LinkList\<rparr>), sy_bios := (sy_bios s)(b := None)\<rparr>))"
proof -
  obtain tk' where "sy_tasks s t = Some tk'" "task_iosched tk' = Some ()" by (rule copy_sentD [OF assms(1,2)])
  then show ?thesis using assms(3-6)
    by (simp add: lbz_gc_read_endio_def upd_task_def add_task_to_gc_writes_def trigger_retry_work_def bio_put_def
        upd_iosched_def upd_dev_def)
qed

lemma gc_write_endio_copy:
  assumes "tasks_typed s" "copy_sent t s" "sy_tasks s t = Some tk" "t_zone tk = Some p" "sy_bios s b = Some x"
    "bi_end_io x = GcWriteEndio t" "bi_status x = None"
  shows "lbz_gc_write_endio K b s = do {
       s1 \<leftarrow> upd_zmd (upd_zone p lbz_zone_complete_write) (s\<lparr>sy_tasks := (sy_tasks s)(t \<mapsto> tk\<lparr>t_error := None\<rparr>)\<rparr>);
       s2 \<leftarrow> gc_task_callback K t (sector_to_blkid (bi_sector x)) s1;
       s3 \<leftarrow> bio_put b s2;
       Some (upd_dev lbz_dec_gc_inflight s3) }"
proof -
  obtain tk' where "sy_tasks s t = Some tk'" "task_iosched tk' = Some ()" by (rule copy_sentD [OF assms(1,2)])
  then show ?thesis using assms(3-7) by (simp add: lbz_gc_write_endio_def upd_task_def)
qed

lemma write_alloc_user:
  assumes "tasks_typed s" "sy_tasks s t = Some tk" "t_type tk \<noteq> LBZ_TASK_GC"
    and "alloc_res_any E (if t_gc tk = GcNull then LBZ_ALLOC_FLAG_USER else LBZ_ALLOC_FLAG_GC) blkid
           (\<lambda>d. d\<lparr>d_write_alloc_encounter_eagain := d_write_alloc_encounter_eagain d + 1\<rparr>) s = Some (Inl EAGAIN, s')"
  shows "write_stage_alloc E t b blkid s =
     Some (Some EAGAIN, upd_dev (\<lambda>d. d\<lparr>d_gc_ctx := lbz_trigger_gc_reclaim_emergency (d_gc_ctx d)\<rparr>) s')"
proof -
  have "t_gc tk \<noteq> GcIosched" using assms(1-3) by (auto simp: tasks_typed_def task_typed_def)
  then show ?thesis using assms(2,4) by (cases "t_gc tk") (simp_all add: write_stage_alloc_def pending_gc_node_def)
qed

lemma types_kept:
  assumes "tasks_typed s"
  shows "allp tasks_typed (lbz_submit_io_to_iosched E b s)" "allp tasks_typed (bio_endio K b s)"
    "allp tasks_typed (lbz_gc_read_endio K b s)" "allp tasks_typed (lbz_gc_write_endio K b s)"
    "allp tasks_typed (gc_one_zone E p s)"
    "(\<And>t tk. t \<in> set (s_user_pending (d_iosched (sy_dev s))) \<Longrightarrow> sy_tasks s t = Some tk \<Longrightarrow> t_type tk \<noteq> LBZ_TASK_GC) \<Longrightarrow>
      allp tasks_typed (retry_submit_io_task E s)"
    "sy_tasks s t = Some tk \<Longrightarrow> t_type tk = LBZ_TASK_GC \<Longrightarrow>
      (t_status tk = LBZ_TASK_GC_READING \<Longrightarrow> copy_alone t s) \<Longrightarrow> allp (\<lambda>(r, s'). tasks_typed s') (submit_gc_task E t s)"
proof -
  have s: "typed_in {} {} s" using assms by (simp add: typed_in_none)
  have w: "tasks_typed s'" if "typed_in G U s'" for G U s' using that by (rule typed_in_typed)
  show "allp tasks_typed (lbz_submit_io_to_iosched E b s)"
    by (rule allp_mono [OF submit_io_typed [OF s]]) (rule w)
  show "allp tasks_typed (bio_endio K b s)" "allp tasks_typed (lbz_gc_read_endio K b s)"
    "allp tasks_typed (lbz_gc_write_endio K b s)" "allp tasks_typed (gc_one_zone E p s)"
    using s w by (auto intro!: wp)
  show "(\<And>t tk. t \<in> set (s_user_pending (d_iosched (sy_dev s))) \<Longrightarrow> sy_tasks s t = Some tk \<Longrightarrow> t_type tk \<noteq> LBZ_TASK_GC) \<Longrightarrow>
      allp tasks_typed (retry_submit_io_task E s)"
    using retry_io_typed [OF s] by blast
  show "sy_tasks s t = Some tk \<Longrightarrow> t_type tk = LBZ_TASK_GC \<Longrightarrow>
      (t_status tk = LBZ_TASK_GC_READING \<Longrightarrow> copy_alone t s) \<Longrightarrow> allp (\<lambda>(r, s'). tasks_typed s') (submit_gc_task E t s)"
    by (intro gc_submit_typed [OF s]) auto
qed

text \<open>
  C15. The untagged unions of a task are used at the right type. In a well typed state no read
  stops a handler: the release of a collector's task never looks at \<open>pending_gc_node\<close> (it only drops
  the reference, and frees the task with the last one); the last release of a user's task reads it,
  and hands a waiting copy that was submitted to the collector's callback; the allocation for a user's
  write reads it to choose between the user's and the collector's mode (shown for the answer \<open>EAGAIN\<close>);
  the callback of a submitted copy and the completions of its read and of its write pass their read of
  \<open>iosched\<close>. And the submission and the completion of a request, the retry of the waiting user writes,
  a pass of the collector over a zone, the completions of its copies and the next stage of a copy leave
  the tasks well typed, where they return. The retry needs that only user tasks wait on the user's
  list. A copy that enters the tree needs that no other copy of the same block is there: without it
  the code would overwrite \<open>iosched\<close> of the other copy with a pointer to a task.
\<close>

theorem unions_typed:
  assumes "tasks_typed s"
  shows "(\<forall>t tk. sy_tasks s t = Some tk \<and> t_type tk = LBZ_TASK_GC \<longrightarrow> task_put K t s = gc_task_put t s) \<and>
    (\<forall>t tk. sy_tasks s t = Some tk \<and> t_type tk \<noteq> LBZ_TASK_GC \<and> t_refcount tk = 1 \<and>
        (\<forall>g. t_gc tk = GcNode g \<longrightarrow> copy_sent g s) \<longrightarrow>
      task_put K t s = (let s0 = s\<lparr>sy_tasks := (sy_tasks s)(t \<mapsto> tk\<lparr>t_refcount := 0\<rparr>)\<rparr> in
        case t_gc tk of
          GcNode g \<Rightarrow> do {
            s1 \<leftarrow> (if t_error tk \<noteq> None then upd_task g (\<lambda>gk. gk\<lparr>t_error := t_error tk\<rparr>) s0 else Some s0);
            s2 \<leftarrow> gc_task_callback K g LBZ_INVALID_PBID s1;
            task_destroy t (upd_dev lbz_dec_gc_inflight s2) }
        | _ \<Rightarrow> task_destroy t s0)) \<and>
    (\<forall>t tk blkid s'. sy_tasks s t = Some tk \<and> t_type tk \<noteq> LBZ_TASK_GC \<and>
        alloc_res_any E (if t_gc tk = GcNull then LBZ_ALLOC_FLAG_USER else LBZ_ALLOC_FLAG_GC) blkid
          (\<lambda>d. d\<lparr>d_write_alloc_encounter_eagain := d_write_alloc_encounter_eagain d + 1\<rparr>) s = Some (Inl EAGAIN, s') \<longrightarrow>
      write_stage_alloc E t b blkid s =
        Some (Some EAGAIN, upd_dev (\<lambda>d. d\<lparr>d_gc_ctx := lbz_trigger_gc_reclaim_emergency (d_gc_ctx d)\<rparr>) s')) \<and>
    (\<forall>t tk. sy_tasks s t = Some tk \<and> copy_sent t s \<longrightarrow>
      gc_task_callback K t p s =
        Option.bind (if \<not> is_dev_faulty (sy_dev s) \<and> t_error tk = None then gc_remap K tk p s else Some s)
          (if t_status tk = LBZ_TASK_GC_READING then gc_unwind_reading t
           else if t_status tk = LBZ_TASK_ALLOC_RES then gc_unwind_alloc K t else gc_unwind_writing K t)) \<and>
    (\<forall>t tk x. sy_tasks s t = Some tk \<and> copy_sent t s \<and> sy_bios s b = Some x \<and> bi_status x = None \<and>
        bi_end_io x = GcReadEndio t \<longrightarrow>
      lbz_gc_read_endio K b s = Some (upd_iosched (\<lambda>io. io\<lparr>s_gc_write_count := s_gc_write_count io + 1,
          s_gc_writes := s_gc_writes io @ [t], s_retry_queued := True\<rparr>)
        (s\<lparr>sy_tasks := (sy_tasks s)(t \<mapsto> tk\<lparr>t_link := LinkList\<rparr>), sy_bios := (sy_bios s)(b := None)\<rparr>))) \<and>
    (\<forall>t tk x zone. sy_tasks s t = Some tk \<and> copy_sent t s \<and> t_zone tk = Some zone \<and> sy_bios s b = Some x \<and>
        bi_status x = None \<and> bi_end_io x = GcWriteEndio t \<longrightarrow>
      lbz_gc_write_endio K b s = do {
        s1 \<leftarrow> upd_zmd (upd_zone zone lbz_zone_complete_write) (s\<lparr>sy_tasks := (sy_tasks s)(t \<mapsto> tk\<lparr>t_error := None\<rparr>)\<rparr>);
        s2 \<leftarrow> gc_task_callback K t (sector_to_blkid (bi_sector x)) s1;
        s3 \<leftarrow> bio_put b s2;
        Some (upd_dev lbz_dec_gc_inflight s3) }) \<and>
    allp tasks_typed (lbz_submit_io_to_iosched E b s) \<and>
    allp tasks_typed (bio_endio K b s) \<and>
    allp tasks_typed (lbz_gc_read_endio K b s) \<and>
    allp tasks_typed (lbz_gc_write_endio K b s) \<and>
    allp tasks_typed (gc_one_zone E zp s) \<and>
    ((\<forall>t \<in> set (s_user_pending (d_iosched (sy_dev s))). \<forall>tk. sy_tasks s t = Some tk \<longrightarrow> t_type tk \<noteq> LBZ_TASK_GC) \<longrightarrow>
      allp tasks_typed (retry_submit_io_task E s)) \<and>
    (\<forall>t tk. sy_tasks s t = Some tk \<longrightarrow> t_type tk = LBZ_TASK_GC \<longrightarrow>
      (t_status tk = LBZ_TASK_GC_READING \<longrightarrow> copy_alone t s) \<longrightarrow>
      allp (\<lambda>(r, s'). tasks_typed s') (submit_gc_task E t s))"
proof (intro conjI)
  show "allp tasks_typed (lbz_submit_io_to_iosched E b s)" "allp tasks_typed (bio_endio K b s)"
    "allp tasks_typed (lbz_gc_read_endio K b s)" "allp tasks_typed (lbz_gc_write_endio K b s)"
    "allp tasks_typed (gc_one_zone E zp s)"
    by (rule types_kept [OF assms])+
  show "(\<forall>t \<in> set (s_user_pending (d_iosched (sy_dev s))). \<forall>tk. sy_tasks s t = Some tk \<longrightarrow> t_type tk \<noteq> LBZ_TASK_GC) \<longrightarrow>
      allp tasks_typed (retry_submit_io_task E s)"
    by (intro impI types_kept(6) [OF assms]) blast
  show "\<forall>t tk. sy_tasks s t = Some tk \<longrightarrow> t_type tk = LBZ_TASK_GC \<longrightarrow>
      (t_status tk = LBZ_TASK_GC_READING \<longrightarrow> copy_alone t s) \<longrightarrow>
      allp (\<lambda>(r, s'). tasks_typed s') (submit_gc_task E t s)"
    by (intro allI impI types_kept(7) [OF assms]) blast+
qed (intro allI impI; elim conjE;
  (rule task_put_copy task_put_user [OF assms] write_alloc_user [OF assms] gc_callback_copy [OF assms]
     gc_read_endio_copy [OF assms] gc_write_endio_copy [OF assms]; (assumption | blast)))+

end
