(* ===== verification/Ftl_Demo.thy ===== *)
theory Ftl_Demo
  imports Ftl_Handlers Life_Demo Proc_Show Task_Types
begin

text \<open>
  A run of the translation layer on the demo device: a block is written, its write reaches the
  first address of the first zone, and the block is looked up.
\<close>

definition demo_failed_sys :: lbz_sys where
  "demo_failed_sys = demo_sys\<lparr>sy_bios := [2 \<mapsto> demo_bio\<lparr>bi_status := Some EIO\<rparr>]\<rparr>"

definition demo_freed_task :: lbz_io_task where
  "demo_freed_task = demo_gc_task\<lparr>t_zone := Some 0, t_pbid := 2, t_link := LinkZone 1\<rparr>"

definition demo_freed_sys :: lbz_sys where
  "demo_freed_sys = demo_sys\<lparr>sy_tasks := [1 \<mapsto> demo_freed_task], sy_bios := [2 \<mapsto> demo_bio\<lparr>bi_end_io := GcWriteEndio 1\<rparr>]\<rparr>"

text \<open>A write that succeeds, one that fails, and a copy from zone 1 to zone 0 of block 5, which was freed meanwhile.\<close>

theorem endio_is_ftl_done_witness:
  "(\<exists>s'. lbz_write_io_endio demo_kern 2 demo_sys = Some s' \<and>
      ftl_write_done demo_kern 0 5 0 (demo_map, demo_wr_zmd) = Some (d_mapping (sy_dev s'), d_zone_metadata (sy_dev s'))) \<and>
   (\<exists>s'. lbz_write_io_endio demo_kern 2 demo_failed_sys = Some s' \<and> d_mapping (sy_dev s') = demo_map \<and>
      is_dev_faulty (sy_dev s') \<and> ftl_write_failed [0] 0 demo_wr_zmd = Some (d_zone_metadata (sy_dev s'))) \<and>
   (\<exists>s'. lbz_gc_write_endio demo_kern 2 demo_freed_sys = Some s' \<and> map_get demo_kern demo_map 5 = Some LBZ_INVALID_PBID \<and>
      map_get demo_kern (d_mapping (sy_dev s')) 5 = Some 0)"
proof (intro conjI)
  have z: "zmd_zones (d_zone_metadata (sy_dev demo_sys)) 0 \<noteq> None" "zmd_zones (d_zone_metadata (sy_dev demo_sys)) 1 \<noteq> None"
    using demo_wr_facts(2,6) by (auto simp: demo_sys_def demo_dev_def append_ok_def demo_zmd_eval split: option.splits)
  have ap: "append_ok demo_kern (d_zone_metadata (sy_dev demo_sys)) 0 (sector_to_blkid (bi_sector demo_bio))"
    using demo_wr_facts(2) by (simp add: demo_sys_def demo_dev_def demo_bio_def sector_to_blkid_def)
  have dev: "map_get demo_kern (d_mapping (sy_dev demo_sys)) (t_blkid demo_task) \<noteq> None"
    by (simp add: demo_sys_def demo_dev_def demo_task_def task_init_def demo_map_facts)
  from endio_is_ftl_done [OF demo_kern_ok demo_sys_facts(1) z(1) impI [OF ap], of 2 1 demo_task] demo_sys_facts(2,3) dev
  show "\<exists>s'. lbz_write_io_endio demo_kern 2 demo_sys = Some s' \<and>
      ftl_write_done demo_kern 0 5 0 (demo_map, demo_wr_zmd) = Some (d_mapping (sy_dev s'), d_zone_metadata (sy_dev s'))"
    by (simp add: demo_sys_def demo_dev_def demo_task_def demo_bio_def task_init_def sector_to_blkid_def)
  let ?x = "demo_bio\<lparr>bi_status := Some EIO\<rparr>"
  have "sys_maps_ok demo_kern demo_failed_sys" "write_in_flight demo_failed_sys 2 ?x 1 demo_task 0"
    "unhook_io 2 demo_failed_sys \<noteq> None"
    using demo_sys_facts(1,2)
    by (auto simp: demo_failed_sys_def sys_maps_ok_def write_in_flight_def task_tree_def unhook_io_def upd_bio_def
        bio_endio_unhooked_def bio_endio_user_def demo_bio_def)
  with endio_is_ftl_done [OF demo_kern_ok this(1), of 0 ?x 2 1 demo_task] z dev
  show "\<exists>s'. lbz_write_io_endio demo_kern 2 demo_failed_sys = Some s' \<and> d_mapping (sy_dev s') = demo_map \<and>
      is_dev_faulty (sy_dev s') \<and> ftl_write_failed [0] 0 demo_wr_zmd = Some (d_zone_metadata (sy_dev s'))"
    by (auto simp: demo_failed_sys_def demo_sys_def demo_dev_def)
  let ?y = "demo_bio\<lparr>bi_end_io := GcWriteEndio 1\<rparr>"
  have gz: "get_zone_by_pbid demo_kern 2 = 1"
    by (simp add: get_zone_by_pbid_def demo_kern_def blkid_to_sector_def LBZ_DATA_BLK_SHIFT_def SECTOR_SHIFT_def)
  have "sys_maps_ok demo_kern demo_freed_sys" "gc_write_in_flight demo_kern demo_freed_sys 2 ?y 1 demo_freed_task 0"
    using demo_sys_facts(1)
    by (auto simp: demo_freed_sys_def sys_maps_ok_def gc_write_in_flight_def task_tree_def demo_freed_task_def
        demo_gc_task_def demo_bio_def demo_sys_def demo_dev_def task_init_def demo_iosched_def tree_ok_def gz)
  moreover have "bi_status ?y = None" "\<not> is_dev_faulty (sy_dev demo_freed_sys)"
    "append_ok demo_kern (d_zone_metadata (sy_dev demo_freed_sys)) 0 (sector_to_blkid (bi_sector ?y))"
    "map_get demo_kern (d_mapping (sy_dev demo_freed_sys)) (t_blkid demo_freed_task) = Some LBZ_INVALID_PBID"
    "zmd_zones (d_zone_metadata (sy_dev demo_freed_sys)) 0 \<noteq> None"
    "zmd_zones (d_zone_metadata (sy_dev demo_freed_sys)) (get_zone_by_pbid demo_kern (t_pbid demo_freed_task)) \<noteq> None"
    "t_pbid demo_freed_task \<noteq> LBZ_INVALID_PBID" "t_blkid demo_freed_task = 5" "sector_to_blkid (bi_sector ?y) = 0"
    using ap z
    by (simp_all add: demo_freed_sys_def demo_freed_task_def demo_gc_task_def demo_sys_def demo_dev_def is_dev_faulty_def
        bit_numeral_rec demo_bio_def sector_to_blkid_def task_init_def demo_map_facts gz LBZ_INVALID_PBID_def)
  ultimately show "\<exists>s'. lbz_gc_write_endio demo_kern 2 demo_freed_sys = Some s' \<and> map_get demo_kern demo_map 5 = Some LBZ_INVALID_PBID \<and>
      map_get demo_kern (d_mapping (sy_dev s')) 5 = Some 0"
    using endio_is_ftl_done [OF demo_kern_ok, of demo_freed_sys 0 ?y 2 1 demo_freed_task] by (auto simp: demo_map_facts)
qed

text \<open>The collector writes a copy of a block of zone 1 while block 5 is not mapped any more.\<close>

theorem gc_done_resurrects_witness:
  "\<exists>m' zmd'. ftl_gc_done demo_kern 0 5 2 0 (demo_map, demo_wr_zmd) = Some (m', zmd') \<and>
     map_get demo_kern m' 5 = Some 0 \<and> zmd_rget demo_kern zmd' 0 = Some 5"
proof -
  have "maps_ok demo_kern demo_map demo_wr_zmd"
    using demo_wr_facts(1,3) demo_consistent demo_map_facts(1) by (simp add: maps_ok_def)
  moreover have "map_get demo_kern demo_map 5 = Some LBZ_INVALID_PBID" by (simp add: demo_map_facts)
  moreover have "get_zone_by_pbid demo_kern 2 = 1"
    by (simp add: get_zone_by_pbid_def demo_kern_def blkid_to_sector_def LBZ_DATA_BLK_SHIFT_def SECTOR_SHIFT_def)
  then have "zmd_zones demo_wr_zmd (get_zone_by_pbid demo_kern 2) \<noteq> None"
    using demo_wr_facts(6) by (auto simp: demo_zmd_eval)
  ultimately show ?thesis using gc_done_resurrects [OF _ _ demo_wr_facts(2), of demo_map 5 2] by blast
qed

definition demo_fresh :: lbz_device where
  "demo_fresh = (demo_dev demo_zmd demo_map)\<lparr>d_iosched := iosched_zero, d_user_write_inflight_io_cnt := 0, d_refcnt := 0\<rparr>"

lemma demo_fresh_facts:
  "d_zone_metadata demo_fresh = demo_zmd" "d_mapping demo_fresh = demo_map" "\<not> is_dev_faulty demo_fresh"
  "d_gc_ctx demo_fresh = gc_ctx_zero"
  by (simp_all add: demo_fresh_def demo_dev_def is_dev_faulty_def bit_numeral_rec)

lemma demo_fresh_ok: "device_fresh demo_kern demo_fresh"
proof -
  have "fresh_zone z \<and> length (z_zrms z) = unat (zmd_zone_nr_reverse_map_blocks demo_zmd)"
    if "zmd_zones demo_zmd p = Some z" for p z
    using demo_zmd_inv(1) that by (simp add: init_inv_def)
  moreover have "log_ok ns_zero" "log_blkids ns_zero = []" by (simp_all add: log_ok_def ns_zero_def log_blkids_def)
  ultimately show ?thesis
    using demo_zmd_wf demo_map_facts demo_consistent demo_zmd_inv(2) demo_zmd_facts(1)
    by (auto simp: device_fresh_def demo_fresh_def demo_dev_def dev_flag_defs bit_numeral_rec io_drained_def upt_rec)
qed

lemma demo_geometry: "geometry demo_kern (d_zone_metadata demo_fresh)"
  unfolding geometry_def demo_fresh_facts demo_zmd_nrb
proof (intro conjI allI impI)
  fix p z i assume z: "zmd_zones demo_zmd p = Some z" and i: "i < unat (2::u32)"
  have "p < 3" using demo_zmd_inv(1) z by (auto simp: init_inv_def)
  then have p: "p = 0 \<or> p = 1 \<or> p = 2" by auto
  have i: "i = 0 \<or> i = 1" using i by auto
  show "get_zone_by_pbid demo_kern (zone_pbid z i) = p"
    using p i z by (elim disjE) (auto simp: demo_zmd_eval zone_simps zone_pbid_def get_zone_by_pbid_def demo_kern_def
        blkid_to_sector_def)
qed simp

text \<open>The states of the run.\<close>

lemma demo_run:
  "\<exists>s1 s2. run (ftl_step True demo_kern) (ftl_init demo_fresh) [Submit 5 77] s1 \<and> FWrite 0 5 77 \<in># fs_ops s1 \<and>
     fresh_append demo_kern s1 0 0 \<and>
     run (ftl_step True demo_kern) (ftl_init demo_fresh) [Submit 5 77, Commit 5 77, Lookup 5 (Some 77)] s2 \<and>
     fs_ops s2 = {#FRead 0 0 (Some 77)#} \<and> map_get demo_kern (fs_map s2) 5 = Some 0 \<and>
     zmd_nr_allocable_blks (fs_zmd s2) = 5 \<and> \<not> is_dev_faulty (fs_dev s2) \<and> d_iosched (fs_dev s2) = iosched_zero"
proof -
  let ?s0 = "ftl_init demo_fresh"
  note rs = run_snoc [where step = "ftl_step True demo_kern"]
  have inv0: "ftl_inv demo_kern ?s0" by (rule device_fresh_inv [OF demo_fresh_ok demo_geometry])
  obtain z where z: "zmd_zones demo_zmd 0 = Some z" "z_start_sector z = 0" using demo_zone_0 by blast
  have f: "z_wp_block z = 0" using demo_zone_facts [OF z(1)] by (auto simp: fresh_zone_def)
  have sid: "(0::nat) < LBZ_ZONE_MAX_STREAM" by (simp add: LBZ_ZONE_MAX_STREAM_def)
  have d: "zmd_active_zone demo_zmd 0 = None" "zmd_empty_zone_list demo_zmd = 0 # [1, 2]" "zmd_zone_nr_blocks demo_zmd \<noteq> 1"
    by (simp_all add: demo_zmd_facts demo_zmd_nrb)
  from alloc_next_zone [OF demo_zmd_wf sid d(1,2) z(1) d(3), of LBZ_ALLOC_FLAG_GC gc_ctx_zero] obtain zmd' z' where
    a: "lbz_zone_alloc_res True False LBZ_ALLOC_FLAG_GC 0 demo_zmd gc_ctx_zero = Some (Inr 0, zmd', gc_ctx_zero)"
    and zs: "zmd_zones zmd' = (zmd_zones demo_zmd)(0 \<mapsto> z')" "z_wp_block z' = 1" "z_start_sector z' = 0"
    using f z by auto
  let ?s1 = "?s0\<lparr>fs_dev := (fs_dev ?s0)\<lparr>d_zone_metadata := zmd', d_gc_ctx := gc_ctx_zero\<rparr>, fs_ops := fs_ops ?s0 + {#FWrite 0 5 77#}\<rparr>"
  have st1: "ftl_step True demo_kern ?s0 (Submit 5 77) ?s1"
    by (rule write_start [OF _ _ _ sid, where md = LBZ_ALLOC_FLAG_GC])
      (use a in \<open>simp_all add: ftl_init_def demo_fresh_facts max_ops_def locked_def demo_map_facts\<close>)
  have r1: "run (ftl_step True demo_kern) ?s0 [Submit 5 77] ?s1"
    using rs [of _ "[]", OF run_nil st1] by simp
  have inv1: "ftl_inv demo_kern ?s1" by (rule ftl_step_inv [OF st1 inv0])
  have ops1: "fs_ops ?s1 = {#} + {#FWrite 0 5 77#}" by (simp add: ftl_init_def)
  have fa: "fresh_append demo_kern ?s1 0 0"
    using zs demo_gz by (simp add: fresh_append_def ftl_init_def LBZ_INVALID_PBID_def pbid_dis_def sector_to_blkid_def)
  from inv_write_done [OF inv1 ops1 fa] obtain m2 zmd2 where
    w: "ftl_write_done demo_kern 0 5 0 (fs_map ?s1, fs_zmd ?s1) = Some (m2, zmd2)"
      "map_get demo_kern m2 = (map_get demo_kern (fs_map ?s1))(5 \<mapsto> 0)"
      "ftl_inv demo_kern (?s1\<lparr>fs_dev := (fs_dev ?s1)\<lparr>d_mapping := m2, d_zone_metadata := zmd2\<rparr>,
         fs_media := (fs_media ?s1)(0 \<mapsto> 77), fs_ops := {#}\<rparr>)" by blast
  let ?s2 = "?s1\<lparr>fs_dev := (fs_dev ?s1)\<lparr>d_mapping := m2, d_zone_metadata := zmd2\<rparr>,
         fs_media := (fs_media ?s1)(0 \<mapsto> 77), fs_ops := {#}\<rparr>"
  have st2: "ftl_step True demo_kern ?s1 (Commit 5 77) ?s2" by (rule write_done [OF ops1 fa w(1)])
  have r2: "run (ftl_step True demo_kern) ?s0 [Submit 5 77, Commit 5 77] ?s2"
    using rs [OF r1 st2] by simp
  have g: "map_get demo_kern (fs_map ?s2) 5 = Some 0" "(0::u32) \<noteq> LBZ_INVALID_PBID"
    by (simp_all add: w(2) LBZ_INVALID_PBID_def)
  have "zmd_rget demo_kern (fs_zmd ?s2) 0 = Some 5"
    by (rule map_consistent_fr [OF ftl_inv_facts(3) [OF w(3)] g])
  then obtain y where y: "zmd_zones (fs_zmd ?s2) 0 = Some y" using zmd_rget_zone demo_gz by fastforce
  obtain zmd3 where l: "lbz_mapping_lookup demo_kern (fs_map ?s2) 5 (fs_zmd ?s2) = Some (Inr (0, 0), zmd3)"
    using lookup_by_get [OF g(1), of "fs_zmd ?s2"] g(2) y demo_gz by (auto simp: upd_zone_def)
  have sz: "size (fs_ops ?s2) < max_ops" by (simp add: max_ops_def)
  have "fs_media ?s2 0 = Some 77" by simp
  have al: "zmd_nr_allocable_blks zmd' = 5"
    using alloc_res_step [OF demo_zmd_wf sid a] demo_zmd_inv by (auto simp: init_inv_def demo_zmd_nrb)
  have i: "map_get demo_kern demo_map 5 = Some LBZ_INVALID_PBID" by (simp add: demo_map_facts)
  from fm.add_some [OF i] obtain m where m: "lbz_mapping_add demo_kern demo_map 5 0 = Some (LBZ_INVALID_PBID, m)" by blast
  have "zmd_nr_allocable_blks zmd2 = 5"
    using w(1) m al by (auto simp: ftl_init_def demo_fresh_facts ftl_write_done_def invalidate_block_def bind_eq_Some_conv
        upd_zone_Some update_reverse_map_Some)
  then have "zmd_nr_allocable_blks zmd3 = 5" using l lookup_by_get [OF g(1), of "fs_zmd ?s2"] g(2) y demo_gz by (auto simp: upd_zone_def)
  moreover have "run (ftl_step True demo_kern) ?s0 [Submit 5 77, Commit 5 77, Lookup 5 (Some 77)]
      (?s2\<lparr>fs_dev := (fs_dev ?s2)\<lparr>d_zone_metadata := zmd3\<rparr>, fs_ops := fs_ops ?s2 + {#FRead 0 0 (fs_media ?s2 0)#}\<rparr>)"
    using rs [OF r2 read_start [OF sz l]] \<open>fs_media ?s2 0 = Some 77\<close> by simp
  ultimately show ?thesis using r1 fa ops1 g(1)
    by (intro exI [of _ ?s1] exI [of _ "?s2\<lparr>fs_dev := (fs_dev ?s2)\<lparr>d_zone_metadata := zmd3\<rparr>,
        fs_ops := fs_ops ?s2 + {#FRead 0 0 (fs_media ?s2 0)#}\<rparr>"])
      (simp add: ftl_init_def demo_fresh_facts is_dev_faulty_def, simp add: demo_fresh_def demo_dev_def)
qed

theorem ftl_refines_store_witness:
  "\<exists>t. run (ftl_step True demo_kern) (ftl_init demo_fresh) [Submit 5 77, Commit 5 77, Lookup 5 (Some 77)] t \<and>
     run store_step store_empty [Submit 5 77, Commit 5 77, Lookup 5 (Some 77)] (abs_state demo_kern t)"
  using demo_run ftl_refines_store [OF demo_fresh_ok demo_geometry] by blast

theorem ftl_never_stops_witness:
  "\<exists>t. run (ftl_step True demo_kern) (ftl_init demo_fresh) [Submit 5 77] t \<and>
     ftl_write_done demo_kern 0 5 0 (fs_map t, fs_zmd t) \<noteq> None"
proof -
  obtain t where t: "run (ftl_step True demo_kern) (ftl_init demo_fresh) [Submit 5 77] t" "FWrite 0 5 77 \<in># fs_ops t"
    "fresh_append demo_kern t 0 0" using demo_run by blast
  from ftl_never_stops [OF demo_fresh_ok demo_geometry t(1), of "\<lambda>_. False", THEN conjunct1] t show ?thesis by blast
qed

theorem collector_one_zone_witness:
  "\<exists>t. run (ftl_step True demo_kern) (ftl_init demo_fresh) [Submit 5 77, Commit 5 77, Lookup 5 (Some 77)] t \<and>
     scans (fs_ops t) \<le> 1 \<and> copies (fs_ops t) 5 \<le> 1"
proof -
  obtain t where t: "run (ftl_step True demo_kern) (ftl_init demo_fresh) [Submit 5 77, Commit 5 77, Lookup 5 (Some 77)] t"
    using demo_run by blast
  from collector_one_zone [OF demo_fresh_ok demo_geometry t] t show ?thesis by blast
qed

text \<open>The /proc entry of the demo device, and the share of its first zone.\<close>

definition demo_node :: lbz_node where
  "demo_node = \<lparr>nd_dev = demo_fresh, nd_disk = None, nd_devname = ''lbz0'', nd_phy_bdev = 0\<rparr>"

theorem proc_read_total_witness:
  "\<exists>r z. read_lbz_dev_proc 100 demo_module demo_node = Some r \<and> zmd_zones demo_zmd 0 = Some z \<and>
     valid_percent demo_zmd z = Some 0"
proof -
  have z: "d_zone_metadata (nd_dev demo_node) = demo_zmd" by (simp add: demo_node_def demo_fresh_facts)
  have wf: "zmd_wf (d_zone_metadata (nd_dev demo_node))" unfolding z by (rule demo_zmd_wf)
  have g: "d_gc_reset_blocks (nd_dev demo_node) \<noteq> - 1" by (simp add: demo_node_def demo_fresh_def demo_dev_def)
  obtain y where y: "zmd_zones demo_zmd 0 = Some y" using demo_zone_0 by blast
  have w: "z_weight y = 0" using demo_zone_facts [OF y] by (auto simp: fresh_zone_def)
  from proc_read_total [OF wf g, of 100 demo_module] obtain r where
    "read_lbz_dev_proc 100 demo_module demo_node = Some r" by blast
  then show ?thesis using y w by (auto simp: valid_percent_def demo_zmd_nrb)
qed

text \<open>A user's write is in flight and a copy is submitted for the first time: it stores the scheduler in its union.\<close>

definition demo_mixed :: lbz_sys where
  "demo_mixed = demo_sys\<lparr>sy_tasks := [1 \<mapsto> demo_task, 4 \<mapsto> (task_init LBZ_TASK_GC)\<lparr>t_pbid := 3, t_zone := Some 0\<rparr>]\<rparr>"

theorem unions_typed_witness:
  "\<exists>s' tk. submit_gc_task demo_env 4 demo_mixed = Some (None, s') \<and> tasks_typed s' \<and>
     sy_tasks s' 4 = Some tk \<and> t_gc tk = GcIosched \<and> task_put demo_kern 4 s' = gc_task_put 4 s' \<and> gc_task_put 4 s' \<noteq> None \<and>
     gc_task_callback demo_kern 4 LBZ_INVALID_PBID (upd_dev lbz_dev_set_faulty s') =
       gc_unwind_reading 4 (upd_dev lbz_dev_set_faulty s') \<and>
     allp tasks_typed (lbz_write_io_endio demo_kern 2 demo_mixed)"
proof -
  have t: "tasks_typed demo_mixed"
    by (simp add: tasks_typed_def task_typed_def demo_mixed_def demo_task_def task_init_def)
  have r: "bio_endio demo_kern 2 demo_mixed = lbz_write_io_endio demo_kern 2 demo_mixed"
    by (simp add: bio_endio_def demo_mixed_def demo_sys_def demo_bio_def)
  have i: "sy_tasks demo_mixed 4 = Some ((task_init LBZ_TASK_GC)\<lparr>t_pbid := 3, t_zone := Some 0\<rparr>)"
    by (simp add: demo_mixed_def)
  obtain s' tk where s': "submit_gc_task demo_env 4 demo_mixed = Some (None, s')" "sy_tasks s' 4 = Some tk"
    "t_type tk = LBZ_TASK_GC" "t_status tk = LBZ_TASK_GC_READING" "t_gc tk = GcIosched" "t_refcount tk = 1"
    "t_integrity_buf tk = BufNull"
    using i by (auto simp: submit_gc_task_def init_gc_read_block_def upd_task_def Let_def submit_bio_def task_init_def
        demo_mixed_def demo_sys_def upd_dev_def)
  have "tasks_typed s'"
    using unions_typed [OF t, where E = demo_env] i s'(1) by (auto simp: allp_def task_init_def)
  note u = this unions_typed [OF this, where K = demo_kern]
  have p: "task_put demo_kern 4 s' = gc_task_put 4 s'" using conjunct1 [OF u(2)] s'(2,3) by blast
  have "tasks_typed (upd_dev lbz_dev_set_faulty s')" using u(1) by (simp add: tasks_typed_def upd_dev_def)
  moreover have "sy_tasks (upd_dev lbz_dev_set_faulty s') 4 = Some tk" "copy_sent 4 (upd_dev lbz_dev_set_faulty s')"
    using s'(2-4) by (simp_all add: copy_sent_def upd_dev_def)
  moreover have "is_dev_faulty (sy_dev (upd_dev lbz_dev_set_faulty s'))"
    by (simp add: upd_dev_def bit_flags)
  ultimately have c: "gc_task_callback demo_kern 4 LBZ_INVALID_PBID (upd_dev lbz_dev_set_faulty s') =
       gc_unwind_reading 4 (upd_dev lbz_dev_set_faulty s')"
    using unions_typed [where s = "upd_dev lbz_dev_set_faulty s'" and K = demo_kern and p = LBZ_INVALID_PBID,
        THEN conjunct2, THEN conjunct2, THEN conjunct2, THEN conjunct1] s'(4)
    by simp
  have "gc_task_put 4 s' \<noteq> None"
    using s'(2,3,6,7) by (simp add: gc_task_put_def task_dec_def task_destroy_def Let_def)
  moreover have "allp tasks_typed (lbz_write_io_endio demo_kern 2 demo_mixed)"
    using unions_typed [OF t, where b = 2 and K = demo_kern] unfolding r by blast
  ultimately show ?thesis using s' u(1) p c by blast
qed

text \<open>
  An emergency wakes the collector: zone 0 was written to its end and holds block 5 at its first
  address and nothing at the second.
\<close>

definition demo_old_zone :: lbz_zone where
  "demo_old_zone = demo_full_zone\<lparr>z_zrms := [[5, LBZ_INVALID_PBID, LBZ_INVALID_PBID]], z_weight := 1\<rparr>"

definition demo_emergency :: lbz_sys where
  "demo_emergency = demo_sys\<lparr>sy_dev := (demo_dev
     (demo_full_zmd\<lparr>zmd_zones := (zmd_zones demo_full_zmd)(0 \<mapsto> demo_old_zone)\<rparr>) demo_map)
     \<lparr>d_gc_ctx := gc_set LBZ_GC_STAT_EMERGENCY gc_ctx_zero\<rparr>\<rparr>"

lemma demo_old_entries:
  "z_wp_block demo_old_zone = 2" "z_start_sector demo_old_zone = 0" "k < 3 \<Longrightarrow> zrms_get (z_zrms demo_old_zone) k \<noteq> None"
  "live_entries (z_zrms demo_old_zone) 0 2 = [(0, 5)]"
  using demo_zone_0
  by (auto simp: demo_old_zone_def demo_full_zone_def zone_only_state_def zrms_get_def LBZ_REVERSE_MAP_ENTRIES_def
      live_entries_def upt_rec LBZ_INVALID_PBID_def)

lemma demo_emergency_ready: "scan_ready demo_emergency"
  using demo_old_entries
  by (simp add: scan_ready_def demo_emergency_def demo_sys_def demo_dev_def demo_full_zmd_def demo_zmd_nrb gc_set_def gc_ctx_zero_def)

lemma demo_emergency_victim:
  "\<exists>zmd. lbz_find_victim_zone (gc_victim_mod demo_env 0 (sy_dev demo_emergency)) (d_zone_metadata (sy_dev demo_emergency)) =
     Some (Some 0, zmd) \<and> zmd_zones zmd 0 = Some (lbz_set_zone_state LBZ_ZONE_GC (lbz_get_zone demo_old_zone))"
  "\<not> gc_pass demo_env 0 demo_emergency = Some (False, s)"
proof -
  have md: "gc_victim_mod demo_env 0 (sy_dev demo_emergency) = LBZ_VICTIM_EMERGENCY"
    by (simp add: gc_victim_mod_def demo_emergency_def demo_sys_def gc_test_set Let_def)
  have le: "\<not> (2 :: u32) \<le> 1" by (simp add: word_le_nat_alt)
  show v: "\<exists>zmd. lbz_find_victim_zone (gc_victim_mod demo_env 0 (sy_dev demo_emergency)) (d_zone_metadata (sy_dev demo_emergency)) =
     Some (Some 0, zmd) \<and> zmd_zones zmd 0 = Some (lbz_set_zone_state LBZ_ZONE_GC (lbz_get_zone demo_old_zone))"
    unfolding md
    by (simp add: lbz_find_victim_zone_def demo_emergency_def demo_sys_def demo_dev_def demo_full_zmd_def demo_zmd_nrb
        upd_zone_def demo_old_zone_def le)
  have "is_dev_ready (sy_dev demo_emergency)" "\<not> is_dev_faulty (sy_dev demo_emergency)"
    "\<not> gc_test LBZ_GC_STAT_EXIT (d_gc_ctx (sy_dev demo_emergency))" "gc_zone (d_gc_ctx (sy_dev demo_emergency)) = None"
    by (simp_all add: demo_emergency_def demo_sys_def demo_dev_def dev_flag_defs bit_numeral_rec gc_test_set)
      (simp_all add: gc_test_def gc_ctx_zero_def)
  then show "\<not> gc_pass demo_env 0 demo_emergency = Some (False, s)"
    using v md by (auto simp: gc_pass_def Let_def bind_eq_Some_conv)
qed


text \<open>The idle driver and the machine in its first state; the write of block 5 is their common step.\<close>

lemma demo_idle_sim: "ftl_sim demo_kern demo_idle (ftl_init demo_fresh)"
proof -
  have "d_gc_ctx (sy_dev demo_idle) = gc_ctx_zero" by (simp add: demo_idle_def demo_idle_dev_def demo_dev_def)
  moreover have "d_flags demo_fresh = d_flags (sy_dev demo_idle)"
    by (simp add: demo_fresh_def demo_idle_def demo_idle_dev_def demo_dev_def)
  ultimately have "ftl_view demo_idle (ftl_init demo_fresh)"
    using demo_idle_facts(2-4) demo_fresh_facts by (simp add: ftl_view_def ftl_init_def)
  then show ?thesis using device_fresh_inv [OF demo_fresh_ok demo_geometry] by (simp add: ftl_sim_def)
qed

theorem handlers_are_steps_witness:
  "\<exists>s' g p. lbz_submit_io_to_iosched demo_env 2 demo_idle = Some s' \<and>
     ftl_step True demo_kern (ftl_init demo_fresh) (Submit 5 77) g \<and> ftl_sim demo_kern s' g \<and> fs_ops g = {#FWrite p 5 77#}"
proof -
  have K: "ev_kern demo_env = demo_kern" by (simp add: demo_env_def)
  have sim: "ftl_sim (ev_kern demo_env) demo_idle (ftl_init demo_fresh)" "kern_ok (ev_kern demo_env)"
    using demo_idle_sim demo_kern_ok by (simp_all add: K)
  have "sy_bios demo_idle 2 = Some demo_write \<and> bi_write demo_write \<and>
      write_can_start demo_env demo_idle (sector_to_blkid (bi_sector demo_write)) \<and>
      map_get (ev_kern demo_env) (fs_map (ftl_init demo_fresh)) (sector_to_blkid (bi_sector demo_write)) \<noteq> None \<and>
      \<not> locked (fs_ops (ftl_init demo_fresh)) (sector_to_blkid (bi_sector demo_write)) \<and> size (fs_ops (ftl_init demo_fresh)) < max_ops"
    using demo_can_start
    by (simp add: demo_idle_facts demo_request_facts K ftl_init_def demo_fresh_facts demo_map_facts locked_def max_ops_def)
  then have "\<exists>s' g x' tk p. lbz_submit_io_to_iosched demo_env 2 demo_idle = Some s' \<and>
      write_in_flight s' 2 x' (sy_next demo_idle) tk p \<and> t_blkid tk = sector_to_blkid (bi_sector demo_write) \<and>
      ftl_step True (ev_kern demo_env) (ftl_init demo_fresh) (Submit (sector_to_blkid (bi_sector demo_write)) 77) g \<and>
      ftl_sim (ev_kern demo_env) s' g \<and>
      fs_ops g = fs_ops (ftl_init demo_fresh) + {#FWrite p (sector_to_blkid (bi_sector demo_write)) 77#}"
    by (rule handlers_are_steps [OF sim, THEN conjunct1, rule_format])
  then show ?thesis by (auto simp: demo_request_facts K ftl_init_def)
qed

text \<open>
  The collector has read block 5 from the first address of zone 0: the end of the read, and the
  retry work that sends the copy on its way.
\<close>

definition demo_copy_sys :: "lbz_device \<Rightarrow> lbz_sys" where
  "demo_copy_sys d = demo_sys\<lparr>sy_dev := d, sy_tasks := [7 \<mapsto> copy_task 0 0 5 7], sy_bios := [8 \<mapsto> copy_bio 0 7], sy_pages := [9 \<mapsto> 77]\<rparr>"

lemma demo_copy_state:
  "\<exists>f. ftl_inv demo_kern f \<and> fs_ops f = {#FCopy 5 0#} \<and> map_get demo_kern (fs_map f) 5 = Some 0 \<and>
     zmd_nr_allocable_blks (fs_zmd f) = 5 \<and> \<not> is_dev_faulty (fs_dev f) \<and> d_iosched (fs_dev f) = iosched_zero"
proof -
  obtain t where t: "run (ftl_step True demo_kern) (ftl_init demo_fresh) [Submit 5 77, Commit 5 77, Lookup 5 (Some 77)] t"
    "fs_ops t = {#FRead 0 0 (Some 77)#}" "map_get demo_kern (fs_map t) 5 = Some 0"
    "zmd_nr_allocable_blks (fs_zmd t) = 5" "\<not> is_dev_faulty (fs_dev t)" "d_iosched (fs_dev t) = iosched_zero"
    using demo_run by blast
  have inv: "ftl_inv demo_kern t"
    by (rule ftl_store.inv_run [OF t(1) device_fresh_inv [OF demo_fresh_ok demo_geometry]])
  let ?f = "t\<lparr>fs_ops := {#FCopy 5 0#}\<rparr>"
  have "refs demo_kern (fs_ops ?f) = refs demo_kern (fs_ops t)" "pend (fs_ops ?f) = pend (fs_ops t)"
    by (auto simp: fun_eq_iff t(2) demo_gz)
  then have c: "counts_ok demo_kern (fs_ops ?f) (fs_zmd ?f) = counts_ok demo_kern (fs_ops t) (fs_zmd t)"
    by (simp add: counts_ok_def zone_counts_def)
  have "op_ok demo_kern t (FRead 0 0 (Some 77))" using inv t(2) by (auto simp: ftl_inv_def)
  then have "op_ok demo_kern ?f (FCopy 5 0)" by (auto simp: op_ok_def demo_gz)
  then have "ftl_inv demo_kern ?f"
    using inv c t(2) by (auto simp: ftl_inv_def locks_ok_def covered_def mapped_data_def)
  then show ?thesis using t by (intro exI [of _ ?f]) simp
qed

theorem copies_are_steps_witness:
  "\<exists>f g h s1 s2 p. lbz_gc_read_endio demo_kern 8 (demo_copy_sys (fs_dev f)) = Some s1 \<and>
     ftl_step True demo_kern f Internal g \<and> retry_gc_tasks demo_env [7] s1 = Some s2 \<and>
     ftl_step True demo_kern g Internal h \<and> ftl_sim demo_kern s2 h \<and> fs_ops h = {#FMove p 5 0 (fs_media f 0)#}"
proof -
  have K: "ev_kern demo_env = demo_kern" by (simp add: demo_env_def)
  have ok: "kern_ok (ev_kern demo_env)" using demo_kern_ok by (simp add: K)
  obtain f where f: "ftl_inv demo_kern f" "fs_ops f = {#FCopy 5 0#}" "map_get demo_kern (fs_map f) 5 = Some 0"
     "zmd_nr_allocable_blks (fs_zmd f) = 5" "\<not> is_dev_faulty (fs_dev f)" "d_iosched (fs_dev f) = iosched_zero"
    using demo_copy_state by blast
  let ?s = "demo_copy_sys (fs_dev f)" and ?tk = "copy_task 0 0 5 7"
  have tree: "task_tree ?s = Leaf" by (simp add: demo_copy_sys_def task_tree_def f(6) iosched_zero_def)
  have sim: "ftl_sim (ev_kern demo_env) ?s f" using f(1) by (simp add: K ftl_sim_def ftl_view_def demo_copy_sys_def)
  have tk: "t_blkid ?tk = 5" "t_pbid ?tk = 0" by (simp_all add: copy_task_def)
  have "gc_copy_ready (ev_kern demo_env) ?s 7 ?tk \<and> sy_bios ?s 8 = Some (copy_bio 0 7) \<and>
      bi_end_io (copy_bio 0 7) = GcReadEndio 7 \<and> bi_status (copy_bio 0 7) = None \<and> fs_ops f = {#} + {#FCopy (t_blkid ?tk) (t_pbid ?tk)#}"
    using tree by (simp add: gc_copy_ready_def K demo_gz demo_copy_sys_def copy_task_def task_init_def copy_bio_def f(2) tree_ok_def)
  from copies_are_steps [OF sim ok, of True, THEN conjunct1, rule_format, OF this] obtain s1 g tk1 where
    s1: "lbz_gc_read_endio demo_kern 8 ?s = Some s1" "gc_copy_ready (ev_kern demo_env) s1 7 tk1" "t_blkid tk1 = 5" "t_pbid tk1 = 0"
      "ftl_step True demo_kern f Internal g" "ftl_sim (ev_kern demo_env) s1 g" "fs_ops g = {#FHold 5 0 (fs_media f 0)#}"
    by (auto simp: tk K)
  have d1: "d_zone_metadata (sy_dev s1) = fs_zmd f" "d_mapping (sy_dev s1) = fs_map f" "\<not> is_dev_faulty (sy_dev s1)" "task_tree s1 = Leaf"
    using s1(1) f(5) tree
    by (auto simp: lbz_gc_read_endio_def demo_copy_sys_def copy_bio_def copy_task_def task_iosched_def upd_task_def
        add_task_to_gc_writes_def upd_iosched_def upd_dev_def trigger_retry_work_def bio_put_def is_dev_faulty_def task_tree_def)
  have v: "fs_map g = d_mapping (sy_dev s1)" "fs_zmd g = d_zone_metadata (sy_dev s1)" using s1(6) by (simp_all add: ftl_sim_def ftl_view_def)
  have "gc_copy_ready (ev_kern demo_env) s1 7 tk1 \<and> block_free s1 (t_blkid tk1) \<and> fs_ops g = {#} + {#FHold (t_blkid tk1) (t_pbid tk1) (fs_media f 0)#} \<and>
        \<not> locked (fs_ops g) (t_blkid tk1) \<and> map_get (ev_kern demo_env) (fs_map g) (t_blkid tk1) = Some (t_pbid tk1) \<and>
        t_pbid tk1 \<noteq> LBZ_INVALID_PBID \<and> ev_integrity demo_env 7 = None \<and> ev_stream_support demo_env \<and> \<not> is_dev_faulty (sy_dev s1) \<and>
        zmd_nr_allocable_blks (fs_zmd g) \<noteq> 0"
    using s1(2-4,7) d1 v f(3,4) by (simp add: block_free_def locked_def K LBZ_INVALID_PBID_def demo_env_def)
  from copies_are_steps [OF s1(6) ok, of True, THEN conjunct2, THEN conjunct2, THEN conjunct2, THEN conjunct2, THEN conjunct1, rule_format, OF this]
  obtain s2 h p where "retry_gc_tasks demo_env [7] s1 = Some s2" "ftl_step True demo_kern g Internal h" "ftl_sim demo_kern s2 h"
      "fs_ops h = {#FMove p 5 0 (fs_media f 0)#}"
    using s1(3,4) by (auto simp: K)
  with s1(1,5) show ?thesis by blast
qed

end
