(* ===== verification/Nvme_Request.thy ===== *)
theory Nvme_Request
  imports Common
begin

text \<open>
  The alternative request path of \<^verbatim>\<open>lbz-request.c\<close>, by which a bio is sent as an NVMe command with 64
  bytes of metadata per block, and the two helpers of the integrity experiment beside it. Nothing
  in the driver calls them (the calls are commented out), so they have a state of their own: pages
  and their bytes, and the objects that the path allocates, each under the address it got. Bytes
  that the kernel does not initialise, and the outcome of every allocation and of every call of the
  block layer, are arguments.
\<close>

section \<open>Objects\<close>

type_synonym u8 = "8 word"
type_synonym u16 = "16 word"

definition PAGE_SIZE :: nat where "PAGE_SIZE = 4096"

datatype nvme_opcode = nvme_cmd_write | nvme_cmd_read

text \<open>The members of \<open>struct nvme_rw_command\<close> that are assigned, as the device reads them.\<close>

record nvme_command =
  rw_opcode :: nvme_opcode
  rw_flags :: u8
  rw_nsid :: u32
  rw_slba :: u64
  rw_length :: u16
  rw_control :: u16
  rw_dsmgmt :: u32
  rw_reftag :: u32
  rw_apptag :: u16
  rw_appmask :: u16

record lbz_req_hook =
  hk_c :: "nat option"
  hk_clone_pages :: "nat option"
  hk_user_bio :: "bptr option"

record lbz_bio_hook =
  bh_user_endio :: nat
  bh_user_private :: nat

text \<open>
  A request: its command, the buffer that was mapped into it, with its length, whether its bio was
  set to the whole disk, and \<open>end_io_data\<close>.
\<close>

record nvme_request =
  rq_cmd :: nat
  rq_buf :: "(nat \<times> nat) option"
  rq_whole_disk :: bool
  rq_end_io_data :: "nat option"

record integrity_payload =
  bip_size :: nat
  bip_sector :: u32
  bip_added :: nat

text \<open>
  A vector of a bio as \<^verbatim>\<open>bio_for_each_bvec\<close> delivers it: it may span several pages. \<open>bv_page\<close> is its first page,
  \<open>bv_more\<close> are the pages after it.
\<close>

record bio_vec =
  bv_page :: nat
  bv_more :: "nat list"

text \<open>A bio with its vectors, in order.\<close>

record nvme_bio =
  nb_write :: bool
  nb_sector :: u64
  nb_vecs :: "bio_vec list"
  nb_status :: "errno option"
  nb_end_io :: nat
  nb_private :: nat
  nb_integrity :: "integrity_payload option"

text \<open>
  \<open>nq_pairs\<close> are blocks of two pages (\<open>alloc_pages\<close> with order 1), \<open>nq_bufs\<close> what \<open>kmalloc\<close> returned,
  \<open>nq_issued\<close> the requests that were given to the device with \<open>lbz_req_end_fn\<close> as their end, and
  \<open>nq_done\<close> the completed bios, with handler, private data and status.
\<close>

record nvme_sys =
  nq_pages :: "nat \<rightharpoonup> u8 list"
  nq_pairs :: "nat \<rightharpoonup> u8 list \<times> u8 list"
  nq_bufs :: "nat \<rightharpoonup> u8 list"
  nq_cmds :: "nat \<rightharpoonup> nvme_command"
  nq_hooks :: "nat \<rightharpoonup> lbz_req_hook"
  nq_bio_hooks :: "nat \<rightharpoonup> lbz_bio_hook"
  nq_reqs :: "nat \<rightharpoonup> nvme_request"
  nq_bios :: "bptr \<rightharpoonup> nvme_bio"
  nq_issued :: "nat list"
  nq_done :: "(bptr \<times> nat \<times> nat \<times> errno option) list"
  nq_next :: nat

text \<open>
  The outcomes: whether the allocation of the hook, the command and the pages succeeds, the bytes of
  new pages, the namespace that the \<open>ioctl\<close> returns, and the errors of \<open>nvme_alloc_request\<close> and
  \<open>blk_rq_map_kern\<close>.
\<close>

record nvme_outcome =
  no_hook :: bool
  no_cmd :: bool
  no_pages :: bool
  no_garbage :: "u8 list \<times> u8 list"
  no_nsid :: u32
  no_alloc_request :: "errno option"
  no_map_kern :: "errno option"

section \<open>Requests\<close>

text \<open>The address of the block, cut to 32 bits.\<close>

definition bio_slba :: "nvme_bio \<Rightarrow> u32" where
  "bio_slba x = ucast (drop_bit 3 (nb_sector x))"

text \<open>The result of \<open>kzalloc\<close> is not tested: without memory the first assignment stops the kernel.\<close>

definition prep_nvme_cmd :: "nvme_outcome \<Rightarrow> nvme_bio \<Rightarrow> nvme_sys \<Rightarrow> (nat \<times> nvme_sys) option" where
  "prep_nvme_cmd out x s =
     (if \<not> no_cmd out then None
      else
        let c = nq_next s;
            cmd = \<lparr>rw_opcode = (if nb_write x then nvme_cmd_write else nvme_cmd_read), rw_flags = 0,
                   rw_nsid = no_nsid out, rw_slba = ucast (bio_slba x), rw_length = 0, rw_control = 0,
                   rw_dsmgmt = 0, rw_reftag = 0, rw_apptag = 0, rw_appmask = 0\<rparr>
        in Some (c, s\<lparr>nq_cmds := (nq_cmds s)(c \<mapsto> cmd), nq_next := c + 1\<rparr>))"

text \<open>
  Every vector is copied to the same page, and from the start of its first page; the other pages of a
  vector are not read or written.
\<close>

fun copy_user_bio_data :: "bio_vec list \<Rightarrow> nat \<Rightarrow> nvme_sys \<Rightarrow> nvme_sys option" where
  "copy_user_bio_data [] pages s = Some s"
| "copy_user_bio_data (bv # bvs) pages s = do {
     src \<leftarrow> nq_pages s (bv_page bv);
     dst \<leftarrow> nq_pairs s pages;
     copy_user_bio_data bvs pages (s\<lparr>nq_pairs := (nq_pairs s)(pages \<mapsto> (src, snd dst))\<rparr>)
   }"

fun copy_data_to_user :: "bio_vec list \<Rightarrow> nat \<Rightarrow> nvme_sys \<Rightarrow> nvme_sys option" where
  "copy_data_to_user [] pages s = Some s"
| "copy_data_to_user (bv # bvs) pages s = do {
     src \<leftarrow> nq_pairs s pages;
     _ \<leftarrow> nq_pages s (bv_page bv);
     copy_data_to_user bvs pages (s\<lparr>nq_pages := (nq_pages s)(bv_page bv \<mapsto> fst src)\<rparr>)
   }"

text \<open>\<open>memset (page_address (pages + 1), v, 64)\<close>\<close>

definition set_metadata :: "nvme_bio \<Rightarrow> u8 list \<Rightarrow> u8 list" where
  "set_metadata x md = replicate 64 (if bio_slba x mod 2 = 1 then 0x89 else 0x77) @ drop 64 md"

definition bio_complete :: "bptr \<Rightarrow> nvme_sys \<Rightarrow> nvme_sys option" where
  "bio_complete b s = do {
     x \<leftarrow> nq_bios s b;
     Some (s\<lparr>nq_done := nq_done s @ [(b, nb_end_io x, nb_private x, nb_status x)], nq_bios := (nq_bios s)(b := None)\<rparr>)
   }"

definition lbz_req_end_fn :: "nat \<Rightarrow> errno option \<Rightarrow> nvme_sys \<Rightarrow> nvme_sys option" where
  "lbz_req_end_fn r error s = do {
     rq \<leftarrow> nq_reqs s r;
     h \<leftarrow> rq_end_io_data rq;
     hook \<leftarrow> nq_hooks s h;
     b \<leftarrow> hk_user_bio hook;
     pages \<leftarrow> hk_clone_pages hook;
     c \<leftarrow> hk_c hook;
     x \<leftarrow> nq_bios s b;
     let s = s\<lparr>nq_bios := (nq_bios s)(b \<mapsto> x\<lparr>nb_status := error\<rparr>)\<rparr>;
     s \<leftarrow> (if nb_write x then Some s else copy_data_to_user (nb_vecs x) pages s);
     let s = s\<lparr>nq_pairs := (nq_pairs s)(pages := None)\<rparr>;
     s \<leftarrow> bio_complete b s;
     Some (s\<lparr>nq_reqs := (nq_reqs s)(r := None), nq_cmds := (nq_cmds s)(c := None), nq_hooks := (nq_hooks s)(h := None)\<rparr>)
   }"

text \<open>
  Only \<open>nvme_alloc_request\<close> and \<open>blk_rq_map_kern\<close> have an error path; without the pages the first
  access to them stops the kernel, and without the hook the access after the mapping.
\<close>

definition clone_and_prep_request :: "nvme_outcome \<Rightarrow> bptr \<Rightarrow> nvme_sys \<Rightarrow> (errno option \<times> nvme_sys) option" where
  "clone_and_prep_request out b s = do {
     x \<leftarrow> nq_bios s b;
     let h = nq_next s;
     let s = (if no_hook out then s\<lparr>nq_hooks := (nq_hooks s)(h \<mapsto> \<lparr>hk_c = None, hk_clone_pages = None, hk_user_bio = None\<rparr>)\<rparr>
              else s)\<lparr>nq_next := h + 1\<rparr>;
     (c, s) \<leftarrow> prep_nvme_cmd out x s;
     case no_alloc_request out of
       Some e \<Rightarrow> Some (Some e, s\<lparr>nq_cmds := (nq_cmds s)(c := None)\<rparr>)
     | None \<Rightarrow>
         let r = nq_next s; pages = r + 1;
             s = s\<lparr>nq_reqs := (nq_reqs s)(r \<mapsto> \<lparr>rq_cmd = c, rq_buf = None, rq_whole_disk = False, rq_end_io_data = None\<rparr>),
                   nq_next := r + 2\<rparr>
         in if \<not> no_pages out then None
            else do {
              let new = no_garbage out;
              let new = (if nb_write x then (fst new, set_metadata x (snd new)) else new);
              let s = s\<lparr>nq_pairs := (nq_pairs s)(pages \<mapsto> new)\<rparr>;
              s \<leftarrow> (if nb_write x then copy_user_bio_data (nb_vecs x) pages s else Some s);
              case no_map_kern out of
                Some e \<Rightarrow> Some (Some e, s\<lparr>nq_pairs := (nq_pairs s)(pages := None), nq_reqs := (nq_reqs s)(r := None),
                                    nq_cmds := (nq_cmds s)(c := None)\<rparr>)
              | None \<Rightarrow>
                  if \<not> no_hook out then None
                  else Some (None, s\<lparr>
                    nq_hooks := (nq_hooks s)(h \<mapsto> \<lparr>hk_c = Some c, hk_clone_pages = Some pages, hk_user_bio = Some b\<rparr>),
                    nq_reqs := (nq_reqs s)(r \<mapsto> \<lparr>rq_cmd = c, rq_buf = Some (pages, PAGE_SIZE + 64), rq_whole_disk = True,
                      rq_end_io_data = Some h\<rparr>),
                    nq_issued := nq_issued s @ [r]\<rparr>)
            }
   }"

section \<open>The integrity experiment\<close>

definition lbz_bio_endio :: "bptr \<Rightarrow> nvme_sys \<Rightarrow> nvme_sys option" where
  "lbz_bio_endio b s = do {
     x \<leftarrow> nq_bios s b;
     hook \<leftarrow> nq_bio_hooks s (nb_private x);
     let s = s\<lparr>nq_bios := (nq_bios s)(b \<mapsto> x\<lparr>nb_private := bh_user_private hook, nb_end_io := bh_user_endio hook\<rparr>),
               nq_bio_hooks := (nq_bio_hooks s)(nb_private x := None)\<rparr>;
     bio_complete b s
   }"

text \<open>
  The outcomes are whether \<open>kmalloc\<close> succeeds, the error of \<open>bio_integrity_alloc\<close>, and the number of
  bytes that \<open>bio_integrity_add_page\<close> took. The result is a buffer or an error pointer.
\<close>

definition add_integrity_bio :: "bool \<Rightarrow> errno option \<Rightarrow> nat \<Rightarrow> bptr \<Rightarrow> nvme_sys \<Rightarrow> ((errno + nat) \<times> nvme_sys) option" where
  "add_integrity_bio kmalloc_ok alloc_err added b s = do {
     x \<leftarrow> nq_bios s b;
     if \<not> kmalloc_ok then Some (Inl ENOMEM, s)
     else
       let buf = nq_next s; s = s\<lparr>nq_bufs := (nq_bufs s)(buf \<mapsto> replicate 64 0x89), nq_next := buf + 1\<rparr>
       in case alloc_err of
            Some e \<Rightarrow> Some (Inl e, s\<lparr>nq_bufs := (nq_bufs s)(buf := None)\<rparr>)
          | None \<Rightarrow>
              let bip = \<lparr>bip_size = 64, bip_sector = bio_slba x, bip_added = added\<rparr>;
                  s = s\<lparr>nq_bios := (nq_bios s)(b \<mapsto> x\<lparr>nb_integrity := Some bip\<rparr>)\<rparr>
              in if added = 64 then Some (Inr buf, s)
                 else Some (Inl ENOMEM, s\<lparr>nq_bufs := (nq_bufs s)(buf := None)\<rparr>)
   }"

section \<open>A request and its completion\<close>

lemma copy_user_last:
  assumes "\<forall>v \<in> set bvs. nq_pages s (bv_page v) \<noteq> None" "nq_pairs s pages = Some (a, md)"
  shows "copy_user_bio_data bvs pages s =
    Some (s\<lparr>nq_pairs := (nq_pairs s)(pages \<mapsto> (if bvs = [] then a else the (nq_pages s (bv_page (last bvs))), md))\<rparr>)"
  using assms
proof (induction bvs arbitrary: s a)
  case Nil
  then have "(nq_pairs s)(pages \<mapsto> (a, md)) = nq_pairs s" by (simp add: fun_upd_idem)
  then show ?case by simp
next
  case (Cons v bvs)
  then obtain d where "nq_pages s (bv_page v) = Some d" by auto
  with Cons show ?case by (auto cong: if_cong)
qed

lemma copy_to_user_all:
  assumes "\<forall>v \<in> set bvs. nq_pages s (bv_page v) \<noteq> None" "nq_pairs s pages = Some (dat, md)"
  shows "copy_data_to_user bvs pages s =
    Some (s\<lparr>nq_pages := (\<lambda>g. if g \<in> bv_page ` set bvs then Some dat else nq_pages s g)\<rparr>)"
  using assms
proof (induction bvs arbitrary: s)
  case (Cons v bvs)
  then obtain d where g: "nq_pages s (bv_page v) = Some d" by auto
  have "(\<lambda>q. if q \<in> bv_page ` set bvs then Some dat else if q = bv_page v then Some dat else nq_pages s q) =
      (\<lambda>q. if q = bv_page v \<or> q \<in> bv_page ` set bvs then Some dat else nq_pages s q)" by auto
  with Cons g show ?case by (auto simp: fun_upd_def cong: if_cong)
qed simp

text \<open>Addresses that were not given out yet hold nothing.\<close>

definition nvme_fresh :: "nvme_sys \<Rightarrow> bool" where
  "nvme_fresh s \<longleftrightarrow> (\<forall>q \<ge> nq_next s. nq_pairs s q = None \<and> nq_cmds s q = None \<and> nq_hooks s q = None \<and> nq_reqs s q = None)"

definition nvme_ready :: "nvme_outcome \<Rightarrow> bptr \<Rightarrow> nvme_bio \<Rightarrow> nvme_sys \<Rightarrow> bool" where
  "nvme_ready out b x s \<longleftrightarrow> nvme_fresh s \<and> nq_bios s b = Some x \<and> (\<forall>v \<in> set (nb_vecs x). nq_pages s (bv_page v) \<noteq> None) \<and>
     no_hook out \<and> no_cmd out \<and> no_pages out"

text \<open>The state after a request was issued: hook, command, request and pages at the next four addresses.\<close>

definition nvme_issued :: "nvme_outcome \<Rightarrow> bptr \<Rightarrow> nvme_bio \<Rightarrow> nvme_sys \<Rightarrow> nvme_sys" where
  "nvme_issued out b x s = (let h = nq_next s in s\<lparr>
     nq_pairs := (nq_pairs s)(h + 3 \<mapsto> (if nb_write x
       then (if nb_vecs x = [] then fst (no_garbage out) else the (nq_pages s (bv_page (last (nb_vecs x)))), set_metadata x (snd (no_garbage out)))
       else no_garbage out)),
     nq_cmds := (nq_cmds s)(h + 1 \<mapsto>
       \<lparr>rw_opcode = (if nb_write x then nvme_cmd_write else nvme_cmd_read), rw_flags = 0,
        rw_nsid = no_nsid out, rw_slba = ucast (bio_slba x), rw_length = 0, rw_control = 0,
        rw_dsmgmt = 0, rw_reftag = 0, rw_apptag = 0, rw_appmask = 0\<rparr>),
     nq_hooks := (nq_hooks s)(h \<mapsto> \<lparr>hk_c = Some (h + 1), hk_clone_pages = Some (h + 3), hk_user_bio = Some b\<rparr>),
     nq_reqs := (nq_reqs s)(h + 2 \<mapsto> \<lparr>rq_cmd = h + 1, rq_buf = Some (h + 3, PAGE_SIZE + 64), rq_whole_disk = True,
       rq_end_io_data = Some h\<rparr>),
     nq_issued := nq_issued s @ [h + 2], nq_next := h + 4\<rparr>)"

lemma clone_issues:
  assumes "nvme_ready out b x s" "no_alloc_request out = None" "no_map_kern out = None"
  shows "clone_and_prep_request out b s = Some (None, nvme_issued out b x s)"
proof (cases "nb_write x")
  case True
  then show ?thesis
    using assms
    by (simp add: nvme_ready_def clone_and_prep_request_def prep_nvme_cmd_def nvme_issued_def Let_def copy_user_last [where a = "fst (no_garbage out)"]
        numeral_eq_Suc)
next
  case False
  then show ?thesis
    using assms by (simp add: nvme_ready_def clone_and_prep_request_def prep_nvme_cmd_def nvme_issued_def Let_def numeral_eq_Suc)
qed

lemma end_fn_releases:
  assumes "nvme_ready out b x s"
  shows "lbz_req_end_fn (nq_next s + 2) err ((nvme_issued out b x s)\<lparr>nq_pairs := (nq_pairs s)(nq_next s + 3 \<mapsto> (dat, md))\<rparr>) =
    Some (s\<lparr>nq_pages := (if nb_write x then nq_pages s else (\<lambda>g. if g \<in> bv_page ` set (nb_vecs x) then Some dat else nq_pages s g)),
       nq_bios := (nq_bios s)(b := None), nq_done := nq_done s @ [(b, nb_end_io x, nb_private x, err)],
       nq_issued := nq_issued s @ [nq_next s + 2], nq_next := nq_next s + 4\<rparr>)"
proof -
  have f: "nq_pairs s q = None" "nq_cmds s q = None" "nq_hooks s q = None" "nq_reqs s q = None" if "nq_next s \<le> q" for q
    using assms that by (auto simp: nvme_ready_def nvme_fresh_def)
  have u: "m(q := None) = m" if "m q = None" for m :: "nat \<rightharpoonup> 'z" and q using that by (simp add: fun_upd_idem)
  show ?thesis
    using assms
    by (cases "nb_write x")
      (simp_all add: nvme_ready_def lbz_req_end_fn_def nvme_issued_def bio_complete_def Let_def f u copy_to_user_all [where md = md] cong: if_cong)
qed

lemma clone_fails:
  assumes "nvme_ready out b x s" "no_alloc_request out = Some e \<or> no_alloc_request out = None \<and> no_map_kern out = Some e"
  shows "\<exists>n. clone_and_prep_request out b s = Some (Some e,
    s\<lparr>nq_hooks := (nq_hooks s)(nq_next s \<mapsto> \<lparr>hk_c = None, hk_clone_pages = None, hk_user_bio = None\<rparr>), nq_next := n\<rparr>)"
proof -
  have f: "nq_pairs s q = None" "nq_cmds s q = None" "nq_reqs s q = None" if "nq_next s \<le> q" for q
    using assms(1) that by (auto simp: nvme_ready_def nvme_fresh_def)
  have u: "m(q := None) = m" if "m q = None" for m :: "nat \<rightharpoonup> 'z" and q using that by (simp add: fun_upd_idem)
  from assms(2) show ?thesis
  proof
    assume "no_alloc_request out = Some e"
    then show ?thesis
      using assms(1) by (simp add: nvme_ready_def clone_and_prep_request_def prep_nvme_cmd_def Let_def f u) (rule exI, rule refl)
  next
    assume "no_alloc_request out = None \<and> no_map_kern out = Some e"
    then show ?thesis
      using assms(1)
      by (cases "nb_write x")
        (simp_all add: nvme_ready_def clone_and_prep_request_def prep_nvme_cmd_def Let_def f u
          copy_user_last [where a = "fst (no_garbage out)"], (rule exI, rule refl)+)
  qed
qed

text \<open>
  C30. A bio that is sent as an NVMe request: without errors one request is issued, with the
  direction of the bio, its block cut to 32 bits, and for a write the bytes of the first page of its last
  vector together with the metadata pattern of its block. When the device has completed it with the
  bytes \<open>dat\<close> in the buffer, the first page of every vector of a read holds them and no other page changes, the bio is completed once with the
  status of the request, and hook, command, request and pages are all released. If the request
  cannot be allocated or mapped, the error is returned, everything is released except the hook, and
  the bio is not completed.
\<close>

theorem nvme_request_roundtrip:
  assumes "nvme_ready out b x s"
  shows "(no_alloc_request out = None \<and> no_map_kern out = None \<longrightarrow>
      (\<exists>s1 r pg c rq. clone_and_prep_request out b s = Some (None, s1) \<and> nq_issued s1 = nq_issued s @ [r] \<and>
         nq_reqs s1 r = Some rq \<and> rq_buf rq = Some (pg, PAGE_SIZE + 64) \<and> nq_cmds s1 (rq_cmd rq) = Some c \<and>
         rw_opcode c = (if nb_write x then nvme_cmd_write else nvme_cmd_read) \<and>
         unat (rw_slba c) = unat (nb_sector x) div 8 mod 2 ^ 32 \<and>
         (nb_write x \<and> nb_vecs x \<noteq> [] \<longrightarrow>
            nq_pairs s1 pg = Some (the (nq_pages s (bv_page (last (nb_vecs x)))), set_metadata x (snd (no_garbage out)))) \<and>
         (\<forall>dat md err. lbz_req_end_fn r err (s1\<lparr>nq_pairs := (nq_pairs s1)(pg \<mapsto> (dat, md))\<rparr>) =
            Some (s\<lparr>nq_pages := (if nb_write x then nq_pages s else (\<lambda>g. if g \<in> bv_page ` set (nb_vecs x) then Some dat else nq_pages s g)),
              nq_bios := (nq_bios s)(b := None), nq_done := nq_done s @ [(b, nb_end_io x, nb_private x, err)],
              nq_issued := nq_issued s @ [r], nq_next := nq_next s + 4\<rparr>)))) \<and>
    (\<forall>e. no_alloc_request out = Some e \<or> no_alloc_request out = None \<and> no_map_kern out = Some e \<longrightarrow>
      (\<exists>n. clone_and_prep_request out b s = Some (Some e,
         s\<lparr>nq_hooks := (nq_hooks s)(nq_next s \<mapsto> \<lparr>hk_c = None, hk_clone_pages = None, hk_user_bio = None\<rparr>), nq_next := n\<rparr>)))"
proof (intro conjI impI allI)
  assume o: "no_alloc_request out = None \<and> no_map_kern out = None"
  let ?s1 = "nvme_issued out b x s" and ?h = "nq_next s"
  have "clone_and_prep_request out b s = Some (None, ?s1)" using clone_issues [OF assms] o by simp
  moreover have "unat (ucast (bio_slba x) :: u64) = unat (nb_sector x) div 8 mod 2 ^ 32"
    using unat_sector_to_blkid [of "nb_sector x"]
    by (simp add: bio_slba_def sector_to_blkid_def LBZ_DATA_BLK_SHIFT_def SECTOR_SHIFT_def)
  moreover have "?s1\<lparr>nq_pairs := (nq_pairs ?s1)(?h + 3 \<mapsto> d)\<rparr> = ?s1\<lparr>nq_pairs := (nq_pairs s)(?h + 3 \<mapsto> d)\<rparr>" for d
    by (simp add: nvme_issued_def Let_def)
  moreover note end_fn_releases [OF assms]
  ultimately show "\<exists>s1 r pg c rq. clone_and_prep_request out b s = Some (None, s1) \<and> nq_issued s1 = nq_issued s @ [r] \<and>
         nq_reqs s1 r = Some rq \<and> rq_buf rq = Some (pg, PAGE_SIZE + 64) \<and> nq_cmds s1 (rq_cmd rq) = Some c \<and>
         rw_opcode c = (if nb_write x then nvme_cmd_write else nvme_cmd_read) \<and>
         unat (rw_slba c) = unat (nb_sector x) div 8 mod 2 ^ 32 \<and>
         (nb_write x \<and> nb_vecs x \<noteq> [] \<longrightarrow>
            nq_pairs s1 pg = Some (the (nq_pages s (bv_page (last (nb_vecs x)))), set_metadata x (snd (no_garbage out)))) \<and>
         (\<forall>dat md err. lbz_req_end_fn r err (s1\<lparr>nq_pairs := (nq_pairs s1)(pg \<mapsto> (dat, md))\<rparr>) =
            Some (s\<lparr>nq_pages := (if nb_write x then nq_pages s else (\<lambda>g. if g \<in> bv_page ` set (nb_vecs x) then Some dat else nq_pages s g)),
              nq_bios := (nq_bios s)(b := None), nq_done := nq_done s @ [(b, nb_end_io x, nb_private x, err)],
              nq_issued := nq_issued s @ [r], nq_next := nq_next s + 4\<rparr>))"
    by (intro exI [of _ ?s1] exI [of _ "?h + 2"] exI [of _ "?h + 3"] exI [of _ "the (nq_cmds ?s1 (?h + 1))"]
        exI [of _ "the (nq_reqs ?s1 (?h + 2))"])
      (simp add: nvme_issued_def Let_def)
qed (rule clone_fails [OF assms])

text \<open>
  A read of two vectors at block 9: the first page of each gets the bytes of the one block that the device
  read, the second page of the first vector keeps its content.
\<close>

definition demo_two_pages :: nvme_bio where
  "demo_two_pages = \<lparr>nb_write = False, nb_sector = 72, nb_vecs = [\<lparr>bv_page = 1, bv_more = [3]\<rparr>, \<lparr>bv_page = 2, bv_more = []\<rparr>], nb_status = None, nb_end_io = 8, nb_private = 0,
     nb_integrity = None\<rparr>"

definition demo_nvme :: nvme_sys where
  "demo_nvme = \<lparr>nq_pages = [1 \<mapsto> [1, 1], 2 \<mapsto> [2, 2], 3 \<mapsto> [3, 3]], nq_pairs = Map.empty, nq_bufs = Map.empty, nq_cmds = Map.empty,
     nq_hooks = Map.empty, nq_bio_hooks = Map.empty, nq_reqs = Map.empty, nq_bios = [5 \<mapsto> demo_two_pages],
     nq_issued = [], nq_done = [], nq_next = 10\<rparr>"

definition demo_outcome :: nvme_outcome where
  "demo_outcome = \<lparr>no_hook = True, no_cmd = True, no_pages = True, no_garbage = ([], []), no_nsid = 1,
     no_alloc_request = None, no_map_kern = None\<rparr>"

theorem nvme_request_roundtrip_witness:
  "\<exists>s1 r s2 pg. clone_and_prep_request demo_outcome 5 demo_nvme = Some (None, s1) \<and> nq_issued s1 = [r] \<and>
     lbz_req_end_fn r None (s1\<lparr>nq_pairs := (nq_pairs s1)(pg \<mapsto> ([7, 7], []))\<rparr>) = Some s2 \<and>
     nq_done s2 = [(5, 8, 0, None)] \<and> nq_pages s2 1 = Some [7, 7] \<and> nq_pages s2 2 = Some [7, 7] \<and> nq_pages s2 3 = Some [3, 3] \<and> nq_hooks s2 = Map.empty"
proof -
  have r: "nvme_ready demo_outcome 5 demo_two_pages demo_nvme"
    by (simp add: nvme_ready_def nvme_fresh_def demo_nvme_def demo_outcome_def demo_two_pages_def)
  have o: "no_alloc_request demo_outcome = None \<and> no_map_kern demo_outcome = None" by (simp add: demo_outcome_def)
  have d: "nq_issued demo_nvme = []" "nq_done demo_nvme = []" "nq_hooks demo_nvme = Map.empty"
    "nq_pages demo_nvme 3 = Some [3, 3]" by (simp_all add: demo_nvme_def)
  have x: "\<not> nb_write demo_two_pages" "nb_vecs demo_two_pages = [\<lparr>bv_page = 1, bv_more = [3]\<rparr>, \<lparr>bv_page = 2, bv_more = []\<rparr>]" "nb_end_io demo_two_pages = 8" "nb_private demo_two_pages = 0"
    by (simp_all add: demo_two_pages_def)
  note n = nvme_request_roundtrip [OF r, THEN conjunct1, THEN mp, OF o]
  then obtain s1 rr pg where g: "clone_and_prep_request demo_outcome 5 demo_nvme = Some (None, s1)" "nq_issued s1 = nq_issued demo_nvme @ [rr]"
    "\<forall>dat md err. lbz_req_end_fn rr err (s1\<lparr>nq_pairs := (nq_pairs s1)(pg \<mapsto> (dat, md))\<rparr>) =
       Some (demo_nvme\<lparr>nq_pages := (if nb_write demo_two_pages then nq_pages demo_nvme
           else (\<lambda>g. if g \<in> bv_page ` set (nb_vecs demo_two_pages) then Some dat else nq_pages demo_nvme g)),
         nq_bios := (nq_bios demo_nvme)(5 := None),
         nq_done := nq_done demo_nvme @ [(5, nb_end_io demo_two_pages, nb_private demo_two_pages, err)],
         nq_issued := nq_issued demo_nvme @ [rr], nq_next := nq_next demo_nvme + 4\<rparr>)"
    by blast
  show ?thesis
    by (intro exI conjI, rule g(1), use g(2) d in simp, rule g(3) [rule_format]) (simp_all add: d x)
qed

section \<open>The helpers of the integrity experiment\<close>

lemma add_integrity_bio_owns:
  assumes b: "nq_bios s b = Some x" and f: "nq_bufs s (nq_next s) = None"
  shows "\<exists>r s'. add_integrity_bio ok err n b s = Some (r, s') \<and>
    (case r of Inl e \<Rightarrow> nq_bufs s' = nq_bufs s | Inr buf \<Rightarrow> nq_bufs s' = (nq_bufs s)(buf \<mapsto> replicate 64 0x89))"
proof -
  have u: "(nq_bufs s)(nq_next s := None) = nq_bufs s" using f by (simp add: fun_upd_idem)
  show ?thesis
  proof (cases "ok \<and> err = None")
    case True
    then show ?thesis using b u by (cases "n = 64") (simp_all add: add_integrity_bio_def Let_def)
  next
    case False
    then show ?thesis using b u by (cases err) (auto simp: add_integrity_bio_def Let_def)
  qed
qed

lemma bio_endio_restores:
  assumes "nq_bios s b = Some x" "nq_bio_hooks s (nb_private x) = Some h"
  shows "\<exists>s'. lbz_bio_endio b s = Some s' \<and>
    nq_done s' = nq_done s @ [(b, bh_user_endio h, bh_user_private h, nb_status x)] \<and> nq_bio_hooks s' (nb_private x) = None"
  using assms by (simp add: lbz_bio_endio_def bio_complete_def)

end
