(* ===== verification/Spec2Isabelle.thy ===== *)
theory Spec2Isabelle
  imports Ftl_Demo Nvme_Request
begin

text \<open>
  LBZ is a Linux block driver that offers a plain block device on top of a zoned SSD. It is a
  log-structured translation layer: a write of a logical block is appended to an open zone, the
  address that the SSD returns is entered in a forward map (logical to physical) and in the
  reverse map of the zone (physical to logical), and a collector moves live blocks out of old
  zones so that they can be reset. F2FS support classifies blocks (check point, NAT/SIT, data),
  separates them into streams and frees the obsolete copy of a NAT/SIT block when the check
  point commits. This development models the driver under \<^verbatim>\<open>src/src\<close> and proves what makes each
  part correct, up to the way of a request through all parts.

  \<^bold>\<open>How the code is modelled.\<close> C structures are records with the widths of the C types (\<open>u32\<close>, \<open>u64\<close>
  are words that wrap around), enums and unions are datatypes, pointers to heap objects (zones,
  tasks, bios, pages, contexts) are addresses into finite maps. Every function returns an \<open>option\<close>:
  \<open>None\<close> means that the code stops the kernel (\<open>BUG_ON\<close>, \<open>panic\<close>, a null or dangling pointer, an array
  index out of range), so a theorem that a function returns \<open>Some\<close> also says that none of these
  happens. Error codes are values (\<open>errno + 'a\<close>, or \<open>errno option\<close> for an int return code).
  Functions of the kernel are parameters (record \<open>kern\<close>, record \<open>lbz_env\<close>) whose documented behaviour
  is \<open>kern_ok\<close> and \<open>env_ok\<close>; outcomes of the hardware (reset errors, the address of an append) are
  arguments. A \<open>switch\<close> that falls through is split into one definition per stage.

  \<^bold>\<open>Theories, in the order of their imports.\<close>
  \<^item> \<open>Prelude\<close>: types, sums over zones, counting, lemmas on words and options. \<open>Common\<close>
    (\<^verbatim>\<open>lbz-common.h\<close>): conversions between sectors and blocks.
  \<^item> \<open>Zone\<close> (\<^verbatim>\<open>lbz-zone-metadata.h\<close>, first part of \<^verbatim>\<open>lbz-zone-metadata.c\<close>): zones, flags, reference and
    write counters, reverse map, water marks. \<open>Gc_Context\<close> (\<^verbatim>\<open>lbz-gc.h\<close>): the state of the collector.
  \<^item> \<open>Zone_Alloc\<close>: allocation of blocks and choice of a victim; the invariant \<open>zmd_wf\<close> of the zone table
    (every zone is in exactly one phase, the lists hold the zones of their phase, the weight of a
    zone is its live blocks plus its writes in flight, the global counters are the sums).
    \<open>Zone_Init\<close>: discovery and destruction. \<open>Zone_State\<close>: the worker that closes and resets zones.
  \<^item> \<open>Mapping_Tree\<close> (\<^verbatim>\<open>lbz-mapping.c\<close>): the three-level tree, with the locale \<open>forward_map\<close> and its
    interpretation \<open>fm\<close>. \<open>Ftl\<close>: the locale \<open>reverse_map\<close>, its interpretation \<open>rm\<close> on the zones, and the
    locale \<open>ftl\<close> of both, in which the three updates of the driver are proved once to keep the maps
    inverse to each other.
  \<^item> \<open>Nat_Sit\<close> (\<^verbatim>\<open>lbz-nat-sit.c\<close>): rules, streams, the log of blocks to free (locale \<open>block_log\<close>,
    interpretation \<open>nl\<close>) and its commit.
  \<^item> \<open>Device\<close> (\<^verbatim>\<open>lbz-dev.h\<close>): device, flags, counters. \<open>Io_Task\<close>, \<open>Task_Tree\<close>: tasks and the tree that
    serialises the writes of a block. \<open>Completion\<close>, \<open>Io_Scheduler\<close>, \<open>Gc\<close>, \<open>Request\<close>: the handlers of
    \<^verbatim>\<open>lbz-io-scheduler.c\<close>, \<^verbatim>\<open>lbz-gc.c\<close> and \<^verbatim>\<open>lbz-request.c\<close> on the state \<open>lbz_sys\<close> of the whole driver.
  \<^item> \<open>Ftl_Ops\<close>: what the completion of a write and of a copy do to the two maps alone. \<open>Write_Path\<close>,
    \<open>Gc_Path\<close>, \<open>Submit_Path\<close>: theorems about whole handlers and whole requests; the handlers do to the
    maps exactly what \<open>Ftl_Ops\<close> says.
  \<^item> \<open>Ftl_Machine\<close>, \<open>Ftl_Safety\<close>, \<open>Ftl_Refine\<close>: the translation layer as a state machine in which user
    writes and reads, the scan of the collector, its copies, freed blocks and the zone worker
    interleave (\<open>ftl_step\<close>); its invariant \<open>ftl_inv\<close>, which ties the counters of every zone to the
    operations in flight; the locale \<open>simulation\<close> and its interpretation \<open>ftl_store\<close>, by which the
    machine implements an asynchronous store of blocks (\<open>store_step\<close>). \<open>Ftl_Collect\<close>: the collector in
    the machine, one zone at a time. \<open>Copy_Path\<close>: the stages of a copy between its read and its write,
    with the copy that waits for a write of its block. \<open>Ftl_Handlers\<close>: the handlers on \<open>lbz_sys\<close> are
    steps of the machine, by the relation \<open>ftl_sim\<close> that each of them keeps.
  \<^item> \<open>Task_Types\<close>: the types of the untagged unions of a task, with a small calculus that runs through
    the handlers. \<open>Gc_Thread\<close>: the thread of the collector between two sleeps.
  \<^item> \<open>Dev_Life\<close> (\<^verbatim>\<open>lbz-dev.c\<close>): open, release, creation, removal, start and end of the block driver, with
    the counter of allocated memory. \<open>Decimal\<close>, \<open>Proc_Cmd\<close> (\<^verbatim>\<open>lbz-proc.c\<close>): the commands written to
    the /proc entry, parsed as \<open>sscanf\<close> does, and the entry and exit of the module. \<open>Proc_Show\<close>: the text of
    the /proc entry of a device, with a model of the conversions of \<open>seq_printf\<close>.
  \<^item> \<open>Nvme_Request\<close>: the path of \<^verbatim>\<open>lbz-request.c\<close> that sends a bio as an NVMe command. The driver does not
    call it, so it stands beside the other theories with a state of its own.
  \<^item> \<open>Zone_Demo\<close>, \<open>System_Demo\<close>, \<open>Life_Demo\<close>, \<open>Ftl_Demo\<close>: a small device on which every theorem with
    hypotheses is applied.

  \<^bold>\<open>What is shown.\<close> The zone table stays well formed under allocation (on every branch), victim
  choice, completion, commit and the zone worker, which never resets live data; the forward and
  the reverse maps stay inverse to each other; a write that the scheduler accepts is stored at
  the address the device returns and read from there; a failed write changes no mapping and
  makes the device faulty; writes of one block never overlap; the collector's copy replaces the
  old block exactly if it is still current, and while a block is allocatable the collector can
  get one; the log of a transaction is a sequence, and its commit frees exactly the logged
  blocks. From the creation of a device on, as long as no input or output fails and neither of the two races
  named below happens, every interleaving of the steps of the translation layer
  refines a store in which a committed block keeps its content until it is written again or
  freed, no zone is reset under a reader, and no completion, discard or run of the zone worker
  stops the kernel. What failed writes and copies do to the maps and the table is shown for the handlers
  themselves (\<open>endio_is_ftl_done\<close>). Submissions, completions, every stage of a copy (also one that finds its block
  locked and ends with the write that holds the lock), the passes of the collector, the commit of a
  transaction and the zone worker are steps of this machine, whatever they do to bios, tasks and
  pages. Creation of a device returns the code of the first step that fails and
  undoes the earlier ones, removal gives back the memory that creation took (but not the bio set, and not
  every index), and the commands
  of the /proc entry do what they print. At most one zone is under collection, no block is copied
  twice at a time, and no function stops at a read of a union of a task that was written with the other
  member. The
  text of the /proc entry is well typed and always produced. The thread of the collector gets back
  to sleep after at most one zone, whose live blocks it has then started to copy. Some theorems
  state a defect of the code precisely: the wrap-around of the water mark and of block addresses, the reversed \<open>search_task\<close>, the sticky flag of the zone worker over a whole run, the
  map of a device whose number of blocks is cut to 0, rules whose areas are out of order, the bio set that is never
  given back, null work queues that pass for queues, the
  acknowledgement of requests by a faulty device, reads of unwritten blocks, and the copy that
  maps a block again which was freed meanwhile.

  \<^bold>\<open>Loops.\<close> Loops over lists and arrays are structural recursion or \<open>function\<close> with a measure (the
  tree initialisation, the scan of a zone, the passes of the collector, whose measure is the list of
  full zones). The loop that splits a long bio depends on the kernel's \<open>bio_split\<close>, and the loops that
  wait for a page or for writes in flight depend on what the kernel answers: they are each a
  \<open>partial_function\<close>. No fuel is used.

  \<^bold>\<open>Bounds of the state machine.\<close> At most \<open>max_ops\<close> (\<open>2^30\<close>) operations are in flight, each with at most
  two references, so the 32 bit counters of a zone cannot wrap; each operation owns a task of
  more than 16 bytes, so memory ends earlier on the machines the driver runs on. Two guards
  leave out races that the code has, shown as defects by theorems of their own: a step of the zone worker is a run that
  closes no zone with a write in flight (\<open>worker_spares\<close>; the flag of the worker that is never cleared can close one,
  \<open>zone_state_flag_sticky\<close>), and a block is
  not freed while its copy is being written (the copy would map it again, \<open>gc_done_resurrects\<close>). The machine has no
  failed input or output: after one the device is faulty, the worker and the collector do nothing any more, and
  the weight of the zone that the failed write was to go to stays too large. Addresses that the backing
  device chooses for appends are fresh (\<open>fresh_append\<close>), which is what a zoned device guarantees.

  \<^bold>\<open>Not modelled.\<close> Locks and interleavings inside a handler (each handler, or its part between two
  waits, is one step), failures of allocations that the code does not check (they stop the model
  in \<open>Dev_Life\<close> and do not occur elsewhere), logging, timers and work
  queues (their functions are steps; whether a queue is there is a value, \<open>wq_ptr\<close>, which creation, removal and the
  timer of the zone worker look at, while the handlers that queue the retry work assume theirs), and \<^verbatim>\<open>lbz-zoned.h\<close>, a copy of structures of the kernel's dm-zoned
  that nothing uses.
\<close>

end
